(* ===== verification/Prelude.thy ===== *)
theory Prelude
  imports Main "HOL-Library.AList"
begin

text \<open>
  The shared layer of the development: the types every component uses, the model of
  JavaScript's insertion-ordered \<open>Map\<close>, decimal printing, splitting and joining of
  strings, and the lemma collections the component theories extend.

  \<^item> \<open>js_simps\<close>: facts that evaluate or normalise model operations.
  \<^item> \<open>inv_intros\<close>: preservation facts, one per operation and invariant.
\<close>

named_theorems js_simps "rewrite rules for the model's library operations"
named_theorems inv_intros "an operation keeps an invariant"

section \<open>Identifiers, time, bytes\<close>

text \<open>
  The branded strings of \<open>src/types/ids.ts\<close> are structurally strings. Epoch milliseconds
  and the \<open>bigint\<close> sequence numbers are mathematical integers.
\<close>

type_synonym actor_id = string
type_synonym class_name = string
type_synonym version = string
type_synonym ms = int

section \<open>JavaScript Map\<close>

text \<open>
  A \<open>Map\<close> iterates in insertion order; setting a present key keeps its position, a new
  key goes to the end. This is exactly \<open>AList.update\<close>; \<open>AList.delete\<close> is \<open>Map.delete\<close>.
\<close>

type_synonym ('k, 'v) jsmap = "('k \<times> 'v) list"

abbreviation map_get :: "('k, 'v) jsmap \<Rightarrow> 'k \<Rightarrow> 'v option" where
  "map_get m k \<equiv> map_of m k"

abbreviation map_set :: "'k \<Rightarrow> 'v \<Rightarrow> ('k, 'v) jsmap \<Rightarrow> ('k, 'v) jsmap" where
  "map_set k v m \<equiv> AList.update k v m"

abbreviation map_delete :: "'k \<Rightarrow> ('k, 'v) jsmap \<Rightarrow> ('k, 'v) jsmap" where
  "map_delete k m \<equiv> AList.delete k m"

abbreviation map_has :: "('k, 'v) jsmap \<Rightarrow> 'k \<Rightarrow> bool" where
  "map_has m k \<equiv> map_of m k \<noteq> None"

definition map_wf :: "('k, 'v) jsmap \<Rightarrow> bool" where
  "map_wf m \<longleftrightarrow> distinct (map fst m)"

lemma map_wf_Nil [simp]: "map_wf []"
  by (simp add: map_wf_def)

lemma map_wf_set [simp, inv_intros]: "map_wf m \<Longrightarrow> map_wf (map_set k v m)"
  by (simp add: map_wf_def distinct_update)

lemma map_wf_delete [simp, inv_intros]: "map_wf m \<Longrightarrow> map_wf (map_delete k m)"
  by (simp add: map_wf_def distinct_delete)

lemma map_wf_filter: "map_wf m \<Longrightarrow> map_wf (filter P m)"
  by (simp add: map_wf_def distinct_map_filter)

lemma map_get_set [simp, js_simps]:
  "map_get (map_set k v m) k' = (if k' = k then Some v else map_get m k')"
  by (simp add: update_conv')

lemma map_get_delete [simp, js_simps]:
  "map_get (map_delete k m) k' = (if k' = k then None else map_get m k')"
  by (simp add: delete_conv')

lemma map_keys_set [simp, js_simps]:
  "fst ` set (map_set k v m) = insert k (fst ` set m)"
  by (simp add: dom_update)

lemma map_keys_delete [simp, js_simps]:
  "fst ` set (map_delete k m) = fst ` set m - {k}"
  by (auto simp: AList.delete_eq)

lemma map_get_in_set: "map_get m k = Some v \<Longrightarrow> (k, v) \<in> set m"
  by (rule map_of_SomeD)

lemma map_wf_get_iff: "map_wf m \<Longrightarrow> map_get m k = Some v \<longleftrightarrow> (k, v) \<in> set m"
  by (auto simp: map_wf_def)

lemma map_get_filter_keys:
  "map_get (filter (\<lambda>p. P (fst p)) m) k = (if P k then map_get m k else None)"
  by (induction m) auto

lemma map_set_fresh: "map_get m k = None \<Longrightarrow> map_set k v m = m @ [(k, v)]"
  by (induction m) (auto split: if_splits)

lemma map_length_set:
  "length (map_set k v m) = (if map_has m k then length m else Suc (length m))"
  by (induction m) auto

lemma map_set_present_keys: "map_has m k \<Longrightarrow> map fst (map_set k v m) = map fst m"
  by (induction m) (auto split: if_splits)

lemma map_length_delete:
  "map_wf m \<Longrightarrow> map_has m k \<Longrightarrow> Suc (length (map_delete k m)) = length m"
proof (induction m)
  case Nil
  then show ?case by simp
next
  case (Cons p m)
  obtain a b where p: "p = (a, b)" by (cases p)
  from Cons.prems(1) have wf: "map_wf m" and notin: "a \<notin> fst ` set m"
    by (simp_all add: map_wf_def p)
  show ?case
  proof (cases "a = k")
    case True
    with notin have "map_delete k m = m"
      by (force simp: AList.delete_eq filter_id_conv)
    with True show ?thesis by (simp add: p)
  next
    case False
    with Cons.prems(2) have "map_has m k" by (simp add: p)
    with Cons.IH wf False show ?thesis by (simp add: p)
  qed
qed

section \<open>Integer intervals\<close>

lemma upto_append: "0 \<le> m \<Longrightarrow> m \<le> n \<Longrightarrow> [1..n] = [1..m] @ [m + 1..n]" for m n :: int
  using upto_split2 [of 1 m n] by (cases "m = 0") auto

lemma map_map2_snd:
  "length ks = length es \<Longrightarrow> (\<And>k e. f (g k e) = h e) \<Longrightarrow> map f (map2 g ks es) = map h es"
  by (induction ks es rule: list_induct2) auto

lemma filter_upto_drop:
  "map f xs = [a..n] \<Longrightarrow> a \<le> m \<Longrightarrow> filter (\<lambda>x. m \<le> f x) xs = drop (nat (m - a)) xs" for a m n :: int
proof (induction xs arbitrary: a)
  case Nil
  then show ?case by simp
next
  case (Cons x xs)
  have "a \<le> n" using Cons.prems(1) by (cases "a \<le> n") simp_all
  then have fx: "f x = a" and rest: "map f xs = [a + 1..n]"
    using Cons.prems(1) by (simp_all add: upto_rec1)
  show ?case
  proof (cases "m = a")
    case True
    have "\<forall>y\<in>set xs. a \<le> f y"
    proof
      fix y assume "y \<in> set xs"
      then have "f y \<in> set [a + 1..n]" unfolding rest [symmetric] by simp
      then show "a \<le> f y" by simp
    qed
    with True fx show ?thesis by (simp add: filter_id_conv)
  next
    case False
    with Cons.prems(2) have "nat (m - a) = Suc (nat (m - (a + 1)))"
      by (simp add: Suc_nat_eq_nat_zadd1)
    with Cons.IH [OF rest] False Cons.prems(2) fx show ?thesis by simp
  qed
qed

section \<open>Decimal printing\<close>

definition digit_char :: "nat \<Rightarrow> char" where
  "digit_char d = char_of (48 + d)"

fun show_nat :: "nat \<Rightarrow> string" where
  "show_nat n = (if n < 10 then [digit_char n] else show_nat (n div 10) @ [digit_char (n mod 10)])"

declare show_nat.simps [simp del]

definition show_int :: "int \<Rightarrow> string" where
  "show_int i = (if i < 0 then CHR ''-'' # show_nat (nat (- i)) else show_nat (nat i))"

definition is_digit :: "char \<Rightarrow> bool" where
  "is_digit c \<longleftrightarrow> 48 \<le> (of_char c :: nat) \<and> (of_char c :: nat) \<le> 57"

definition read_nat :: "string \<Rightarrow> nat" where
  "read_nat s = foldl (\<lambda>a c. 10 * a + (of_char c - 48)) 0 s"

lemma of_digit_char: "d < 10 \<Longrightarrow> (of_char (digit_char d) :: nat) = 48 + d"
  by (simp add: digit_char_def)

lemma is_digit_digit_char: "d < 10 \<Longrightarrow> is_digit (digit_char d)"
  by (simp add: is_digit_def of_digit_char)

lemma show_nat_nonempty [simp]: "show_nat n \<noteq> []"
  by (subst show_nat.simps) simp

lemma show_nat_digits: "c \<in> set (show_nat n) \<Longrightarrow> is_digit c"
proof (induction n rule: show_nat.induct)
  case (1 n)
  show ?case
  proof (cases "n < 10")
    case True
    with "1.prems" show ?thesis
      by (subst (asm) show_nat.simps) (simp add: is_digit_digit_char)
  next
    case False
    with "1.prems" have "c \<in> set (show_nat (n div 10)) \<or> c = digit_char (n mod 10)"
      by (subst (asm) show_nat.simps) auto
    with "1.IH" [OF False] show ?thesis
      by (auto simp: is_digit_digit_char)
  qed
qed

lemma read_nat_snoc: "read_nat (s @ [c]) = 10 * read_nat s + (of_char c - 48)"
  by (simp add: read_nat_def)

lemma read_nat_show_nat [simp, js_simps]: "read_nat (show_nat n) = n"
proof (induction n rule: show_nat.induct)
  case (1 n)
  show ?case
  proof (cases "n < 10")
    case True
    then show ?thesis
      by (subst show_nat.simps) (simp add: read_nat_def of_digit_char)
  next
    case False
    with "1.IH" show ?thesis
      by (subst show_nat.simps) (simp add: read_nat_snoc of_digit_char)
  qed
qed

lemma show_nat_inject [simp]: "show_nat m = show_nat n \<longleftrightarrow> m = n"
  by (metis read_nat_show_nat)

lemma minus_not_in_show_nat [simp]: "CHR ''-'' \<notin> set (show_nat n)"
  using show_nat_digits [of "CHR ''-''" n] by (auto simp: is_digit_def)

text \<open>A nat printed after a last dash is recovered: ids of the form \<open><time>-<counter>\<close>.\<close>

lemma dash_suffix_inject:
  assumes "a @ CHR ''-'' # show_nat m = b @ CHR ''-'' # show_nat n"
  shows "m = n"
proof -
  let ?f = "takeWhile (\<lambda>c. c \<noteq> CHR ''-'')"
  have rev_eq: "?f (rev (x @ CHR ''-'' # show_nat k)) = rev (show_nat k)" for x :: string and k
  proof -
    have "rev (x @ CHR ''-'' # show_nat k) = rev (show_nat k) @ CHR ''-'' # rev x" by simp
    moreover have "\<forall>c\<in>set (rev (show_nat k)). c \<noteq> CHR ''-''" by auto
    ultimately show ?thesis by (simp add: takeWhile_append)
  qed
  from assms have "rev (show_nat m) = rev (show_nat n)"
    by (metis rev_eq)
  then show ?thesis by simp
qed

section \<open>Splitting, joining, prefixes\<close>

fun join :: "string \<Rightarrow> string list \<Rightarrow> string" where
  "join sep [] = []"
| "join sep [x] = x"
| "join sep (x # y # ys) = x @ sep @ join sep (y # ys)"

text \<open>\<open>String.split\<close> at a one-character separator.\<close>

fun split_on :: "char \<Rightarrow> string \<Rightarrow> string list" where
  "split_on c [] = [[]]"
| "split_on c (x # xs) =
     (if x = c then [] # split_on c xs
      else (case split_on c xs of [] \<Rightarrow> [[x]] | y # ys \<Rightarrow> (x # y) # ys))"

lemma split_on_nonempty [simp]: "split_on c s \<noteq> []"
  by (induction s) (auto split: list.splits)

lemma split_on_no_sep: "c \<notin> set s \<Longrightarrow> split_on c s = [s]"
  by (induction s) auto

lemma split_on_append_sep:
  "c \<notin> set s \<Longrightarrow> split_on c (s @ c # t) = s # split_on c t"
  by (induction s) (auto split: list.splits)

lemma split_on_join:
  "xs \<noteq> [] \<Longrightarrow> (\<forall>x\<in>set xs. c \<notin> set x) \<Longrightarrow> split_on c (join [c] xs) = xs"
  by (induction "[c]" xs rule: join.induct) (auto simp: split_on_no_sep split_on_append_sep)

lemma join_split_on: "join [c] (split_on c s) = s"
proof (induction s)
  case Nil
  then show ?case by simp
next
  case (Cons x xs)
  obtain y ys where "split_on c xs = y # ys" by (cases "split_on c xs") auto
  with Cons show ?case by (cases ys) auto
qed

definition starts_with :: "string \<Rightarrow> string \<Rightarrow> bool" where
  "starts_with p s \<longleftrightarrow> take (length p) s = p"

lemma starts_with_append [simp, js_simps]: "starts_with p (p @ s)"
  by (simp add: starts_with_def)

lemma starts_with_iff: "starts_with p s \<longleftrightarrow> (\<exists>t. s = p @ t)"
  by (auto simp: starts_with_def intro: exI [of _ "drop (length p) s"])
     (metis append_take_drop_id)

text \<open>A template such as \<open>a@b\<close> is injective in its first part when that part has no \<open>@\<close>.\<close>

lemma sep_prefix_inject:
  assumes "a @ c # b = a' @ c # b'" and "c \<notin> set a" and "c \<notin> set a'"
  shows "a = a' \<and> b = b'"
proof -
  let ?f = "takeWhile (\<lambda>x. x \<noteq> c)"
  have "?f (a @ c # b) = a" and "?f (a' @ c # b') = a'"
    using assms(2,3) by (auto simp: takeWhile_append)
  with assms(1) show ?thesis by auto
qed

section \<open>Results that carry a state\<close>

text \<open>
  An operation of the code that may throw is a function into \<open>error + value\<close>; one that also
  mutates its object returns the pair of that result and the new state, since what was
  assigned before a throw stays assigned.
\<close>

definition is_ok :: "'e + 'a \<Rightarrow> bool" where
  "is_ok r \<longleftrightarrow> (case r of Inl _ \<Rightarrow> False | Inr _ \<Rightarrow> True)"

lemma is_ok_simps [simp]: "\<not> is_ok (Inl e)" "is_ok (Inr x)"
  by (simp_all add: is_ok_def)

lemma is_ok_iff: "is_ok r \<longleftrightarrow> (\<exists>x. r = Inr x)"
  by (cases r) auto

end
