(* ===== verification/JsValue.thy ===== *)
theory JsValue
  imports Prelude "HOL-Library.Multiset"
begin

text \<open>
  The values the code types as \<open>unknown\<close>: states, payloads, arguments, results. A plain object
  is its own enumerable properties in insertion order; reading a property that is not own
  finds the names of \<open>Object.prototype\<close>, which the code's bare \<open>obj[key]\<close> lookups also find.
\<close>

datatype jsval =
    JUndefined
  | JNull
  | JBool bool
  | JNum int
  | JStr string
  | JArr "jsval list"
  | JObj "(string \<times> jsval) list"

definition js_typeof :: "jsval \<Rightarrow> string" where
  "js_typeof v = (case v of
      JUndefined \<Rightarrow> ''undefined'' | JNull \<Rightarrow> ''object'' | JBool _ \<Rightarrow> ''boolean''
    | JNum _ \<Rightarrow> ''number'' | JStr _ \<Rightarrow> ''string'' | JArr _ \<Rightarrow> ''object'' | JObj _ \<Rightarrow> ''object'')"

definition js_truthy :: "jsval \<Rightarrow> bool" where
  "js_truthy v = (case v of
      JUndefined \<Rightarrow> False | JNull \<Rightarrow> False | JBool b \<Rightarrow> b | JNum n \<Rightarrow> n \<noteq> 0
    | JStr s \<Rightarrow> s \<noteq> [] | JArr _ \<Rightarrow> True | JObj _ \<Rightarrow> True)"

definition js_is_array :: "jsval \<Rightarrow> bool" where
  "js_is_array v = (case v of JArr _ \<Rightarrow> True | _ \<Rightarrow> False)"

text \<open>\<open>!v || typeof v !== 'object'\<close> is the code's test for \<open>not an object\<close>.\<close>

definition js_is_object :: "jsval \<Rightarrow> bool" where
  "js_is_object v \<longleftrightarrow> js_truthy v \<and> js_typeof v = ''object''"

text \<open>The own property names of \<open>Object.prototype\<close>.\<close>

definition proto_names :: "string list" where
  "proto_names =
     [''constructor'', ''__defineGetter__'', ''__defineSetter__'', ''hasOwnProperty'',
      ''__lookupGetter__'', ''__lookupSetter__'', ''isPrototypeOf'',
      ''propertyIsEnumerable'', ''toString'', ''valueOf'', ''toLocaleString'', ''__proto__'']"

text \<open>What \<open>o[k]\<close> finds on a plain object: its own property, an inherited one, or nothing.\<close>

datatype 'a js_lookup = Own 'a | Inherited string | Absent

definition obj_lookup :: "(string, 'a) jsmap \<Rightarrow> string \<Rightarrow> 'a js_lookup" where
  "obj_lookup m k = (case map_get m k of
      Some v \<Rightarrow> Own v
    | None \<Rightarrow> if k \<in> set proto_names then Inherited k else Absent)"

lemma obj_lookup_Own [simp]: "obj_lookup m k = Own v \<longleftrightarrow> map_get m k = Some v"
  by (auto simp: obj_lookup_def split: option.splits)

lemma obj_lookup_Absent:
  "obj_lookup m k = Absent \<longleftrightarrow> map_get m k = None \<and> k \<notin> set proto_names"
  by (auto simp: obj_lookup_def split: option.splits)

text \<open>
  Reading a property of an unknown value, for keys that are not names of a prototype: an own
  property of a plain object, undefined otherwise.
\<close>

definition js_prop :: "jsval \<Rightarrow> string \<Rightarrow> jsval" where
  "js_prop v k = (case v of
      JObj ps \<Rightarrow> (case map_get ps k of Some x \<Rightarrow> x | None \<Rightarrow> JUndefined)
    | _ \<Rightarrow> JUndefined)"

definition js_has :: "jsval \<Rightarrow> string \<Rightarrow> bool" where
  "js_has v k = (case v of JObj ps \<Rightarrow> map_has ps k | _ \<Rightarrow> False)"

text \<open>\<open>const { k: _, ...rest } = v\<close>: the remaining own properties, arrays becoming objects.\<close>

definition js_rest :: "jsval \<Rightarrow> string \<Rightarrow> jsval" where
  "js_rest v k = (case v of
      JObj ps \<Rightarrow> JObj (map_delete k ps)
    | JArr xs \<Rightarrow> JObj (map_delete k (zip (map show_nat [0..<length xs]) xs))
    | _ \<Rightarrow> JObj [])"

definition js_spread_set :: "jsval \<Rightarrow> string \<Rightarrow> jsval \<Rightarrow> jsval" where
  "js_spread_set v k x = (case v of JObj ps \<Rightarrow> JObj (map_set k x ps) | _ \<Rightarrow> JObj [(k, x)])"

lemma js_typeof_string: "js_typeof v = ''string'' \<longleftrightarrow> (\<exists>s. v = JStr s)"
  by (cases v) (auto simp: js_typeof_def)

lemma js_is_object_iff: "js_is_object v \<longleftrightarrow> (\<exists>ps. v = JObj ps) \<or> (\<exists>xs. v = JArr xs)"
  by (cases v) (auto simp: js_is_object_def js_truthy_def js_typeof_def)

lemma js_prop_spread_set [simp, js_simps]:
  "js_prop (js_spread_set v k x) k' = (if k' = k then x else js_prop v k')"
  if "\<exists>ps. v = JObj ps"
  using that by (auto simp: js_prop_def js_spread_set_def)

lemma js_prop_JObj [simp, js_simps]:
  "js_prop (JObj ps) k = (case map_get ps k of Some x \<Rightarrow> x | None \<Rightarrow> JUndefined)"
  by (simp add: js_prop_def)

lemma js_has_JObj [simp, js_simps]: "js_has (JObj ps) k = map_has ps k"
  by (simp add: js_has_def)

text \<open>An array index is the canonical decimal form of a nat below \<open>2 ^ 32 - 1\<close>: such keys come first.\<close>

definition is_array_index :: "string \<Rightarrow> bool" where
  "is_array_index s \<longleftrightarrow>
     s \<noteq> [] \<and> list_all is_digit s \<and> show_nat (read_nat s) = s \<and> read_nat s < 4294967295"

text \<open>The order \<open>Object.keys\<close> and \<open>JSON.stringify\<close> visit own string properties in.\<close>

definition own_keys :: "(string, 'a) jsmap \<Rightarrow> string list" where
  "own_keys m =
     sort_key read_nat (filter is_array_index (map fst m))
     @ filter (\<lambda>k. \<not> is_array_index k) (map fst m)"

lemma set_own_keys: "set (own_keys m) = fst ` set m"
  by (auto simp: own_keys_def)

lemma mset_own_keys: "mset (own_keys m) = mset (map fst m)"
  by (simp add: own_keys_def)

lemma distinct_own_keys: "map_wf m \<Longrightarrow> distinct (own_keys m)"
  unfolding map_wf_def by (metis mset_eq_imp_distinct_iff mset_own_keys)

end
