(* ===== verification/Errors.thy ===== *)
theory Errors
  imports JsValue
begin

text \<open>
  The error classes of the code, one constructor per class with the fields its constructor
  takes. \<open>PlainError\<close> is a bare \<open>Error\<close> with its message; \<open>UserError\<close> is whatever the code of a
  user's class throws; \<open>DriverError\<close> is a failure of a driver other than the memory driver.
\<close>

datatype error =
    PlainError string
  | UserError jsval
  | TypeError string
  | DriverError string
  \<comment> \<open>\<open>storage/driver.ts\<close>\<close>
  | VersionAlreadyPublishedError class_name version
  | StaleFenceTokenError actor_id int int
  \<comment> \<open>\<open>runtime/\<close>\<close>
  | MailboxClosedError
  | MailboxFullError
  | ManifestRegression actor_id class_name version version
  | ActorAbort string
  | ClassSourceNotFound class_name version
  | ClassVersionExpired class_name version
  | CompileError string "string list"
  \<comment> \<open>\<open>limits/errors.ts\<close>: subject, operation, seconds to wait (none: infinite); class, cap\<close>
  | RateLimitedError string string "int option"
  | CapacityExhaustedError class_name int
  \<comment> \<open>\<open>policy/\<close>\<close>
  | PolicyDeniedError string string
  | CapabilityError string string
  \<comment> \<open>\<open>registry/\<close>\<close>
  | PublishError string string
  | InvalidVersion string
  | InvalidDepRange string string
  | IncompatibleEngine string string
  | SyntaxInvalid "string list"
  | ForbiddenImport string
  | SignatureRequired
  | SignatureInvalid string
  | DepConflict class_name "(string \<times> string list) list"
  | ClassNotFound class_name
  | LimitExceeded string nat
  | SigningKeyExists string
  | SigningKeyNotFound string
  | UnsupportedKeyType string
  \<comment> \<open>\<open>server/\<close>: a \<open>StatusError\<close> carries its name, message and status\<close>
  | StatusError string string nat
  | SubscriberLimitError actor_id nat
  | ZodError jsval
  \<comment> \<open>an error of the web framework with its \<open>validation\<close>: status, message, issues\<close>
  | FastifyValidation "nat option" string jsval
  \<comment> \<open>\<open>client/\<close>\<close>
  | RpcError string int "jsval option"
  | AuditWriteError string
  \<comment> \<open>\<open>codegen/\<close>, \<open>test/\<close>\<close>
  | HttpLoaderError string
  | AssertionError string

end
