(* ===== verification/ClientRpc.thy ===== *)
theory ClientRpc
  imports Errors Complex_Main
begin

text \<open>
  The client's connection: the reconnecting transport (\<open>src/client/transport.ts\<close>) and the
  JSON-RPC layer over it (\<open>src/client/rpc.ts\<close>). Sockets are numbered as they are made and the
  frames handed to them are logged; \<open>thr k f\<close> says that \<open>send(f)\<close> on socket \<open>k\<close> throws. The
  promise of a request is known by the request's id; the calls of its \<open>resolve\<close> and \<open>reject\<close> are
  logged. \<open>JSON.stringify\<close> and \<open>JSON.parse\<close> are the parameters \<open>ser\<close> and \<open>parse\<close>.
\<close>

section \<open>State\<close>

datatype transport_state = Idle | Connecting | Open | Closed

record transport =
  tr_state :: transport_state
  tr_socket :: "nat option"
  tr_outbound :: "string list"
  tr_attempts :: nat
  tr_timer :: "nat option"
  tr_destroyed :: bool
  tr_autoReconnect :: bool
  tr_backoffBaseMs :: nat
  tr_backoffCapMs :: nat

record pending_request =
  pq_frame :: string

record rpc_client =
  rp_next :: nat
  rp_pending :: "(jsval, pending_request) jsmap"
  rp_listeners :: "(string, nat list) jsmap"
  rp_open :: bool

text \<open>
  \<open>ne_sockets\<close>: sockets made so far. The logs: frames sent, promises settled, listeners called,
  reconnects announced (delay, attempt).
\<close>

record net =
  ne_transport :: transport
  ne_rpc :: rpc_client
  ne_sockets :: nat
  ne_wire :: "(nat \<times> string) list"
  ne_settled :: "(jsval \<times> (error + jsval)) list"
  ne_notified :: "(nat \<times> jsval) list"
  ne_scheduled :: "(nat \<times> nat) list"

definition new_transport :: "bool option \<Rightarrow> nat option \<Rightarrow> nat option \<Rightarrow> transport" where
  "new_transport autoReconnect base cap =
     \<lparr> tr_state = Idle, tr_socket = None, tr_outbound = [], tr_attempts = 0, tr_timer = None, tr_destroyed = False,
       tr_autoReconnect = (case autoReconnect of Some b \<Rightarrow> b | None \<Rightarrow> True),
       tr_backoffBaseMs = (case base of Some b \<Rightarrow> b | None \<Rightarrow> 250),
       tr_backoffCapMs = (case cap of Some c \<Rightarrow> c | None \<Rightarrow> 30000) \<rparr>"

definition new_rpc :: rpc_client where
  "new_rpc = \<lparr> rp_next = 1, rp_pending = [], rp_listeners = [], rp_open = False \<rparr>"

definition new_net :: "transport \<Rightarrow> net" where
  "new_net tr = \<lparr> ne_transport = tr, ne_rpc = new_rpc, ne_sockets = 0, ne_wire = [], ne_settled = [],
     ne_notified = [], ne_scheduled = [] \<rparr>"

definition on_tr :: "(transport \<Rightarrow> transport) \<Rightarrow> net \<Rightarrow> net" where
  "on_tr f n = n \<lparr> ne_transport := f (ne_transport n) \<rparr>"

definition on_rpc :: "(rpc_client \<Rightarrow> rpc_client) \<Rightarrow> net \<Rightarrow> net" where
  "on_rpc f n = n \<lparr> ne_rpc := f (ne_rpc n) \<rparr>"

section \<open>Transport\<close>

definition connect :: "net \<Rightarrow> (error + unit) \<times> net" where
  "connect n = (let tr = ne_transport n in
     if tr_destroyed tr then (Inl (PlainError ''transport destroyed''), n)
     else if tr_state tr = Open \<or> tr_state tr = Connecting then (Inr (), n)
     else (Inr (), n \<lparr> ne_transport := tr \<lparr> tr_state := Connecting, tr_socket := Some (ne_sockets n) \<rparr>,
                       ne_sockets := ne_sockets n + 1 \<rparr>))"

text \<open>A throwing \<open>socket.send\<close> throws out of the transport.\<close>

definition transport_send :: "(nat \<Rightarrow> string \<Rightarrow> bool) \<Rightarrow> string \<Rightarrow> net \<Rightarrow> (error + unit) \<times> net" where
  "transport_send thr frame n = (let tr = ne_transport n in
     case (tr_state tr, tr_socket tr) of
       (Open, Some k) \<Rightarrow>
         if thr k frame then (Inl (PlainError ''send''), n) else (Inr (), n \<lparr> ne_wire := ne_wire n @ [(k, frame)] \<rparr>)
     | _ \<Rightarrow>
         let n1 = on_tr (\<lambda>tr. tr \<lparr> tr_outbound := tr_outbound tr @ [frame] \<rparr>) n in
         if tr_state tr = Idle \<or> tr_state tr = Closed then connect n1 else (Inr (), n1))"

definition transport_destroy :: "net \<Rightarrow> net" where
  "transport_destroy n = (if tr_destroyed (ne_transport n) then n
     else on_tr (\<lambda>tr. tr \<lparr> tr_destroyed := True, tr_timer := None, tr_outbound := [], tr_state := Closed \<rparr>) n)"

text \<open>The frames sent, and what is put into the emptied queue: the frame whose send threw.\<close>

fun drain_outbound :: "(string \<Rightarrow> bool) \<Rightarrow> string list \<Rightarrow> string list \<times> string list" where
  "drain_outbound fails [] = ([], [])"
| "drain_outbound fails (f # fs) = (if fails f then ([], [f])
     else (let (sent, kept) = drain_outbound fails fs in (f # sent, kept)))"

definition transport_open :: "(nat \<Rightarrow> string \<Rightarrow> bool) \<Rightarrow> net \<Rightarrow> net" where
  "transport_open thr n = (let tr = ne_transport n in
     case tr_socket tr of
       None \<Rightarrow> on_tr (\<lambda>tr. tr \<lparr> tr_state := Open, tr_attempts := 0,
                              tr_outbound := (case tr_outbound tr of [] \<Rightarrow> [] | f # _ \<Rightarrow> [f]) \<rparr>) n
     | Some k \<Rightarrow>
       let (sent, kept) = drain_outbound (thr k) (tr_outbound tr) in
       n \<lparr> ne_transport := tr \<lparr> tr_state := Open, tr_attempts := 0, tr_outbound := kept \<rparr>,
           ne_wire := ne_wire n @ map (Pair k) sent \<rparr>)"

definition backoff_ceil :: "transport \<Rightarrow> nat \<Rightarrow> nat" where
  "backoff_ceil tr attempt = min (tr_backoffCapMs tr) (tr_backoffBaseMs tr * 2 ^ attempt)"

text \<open>\<open>rnd\<close>: what \<open>random()\<close> gives, from 0 inclusive to 1 exclusive.\<close>

definition scheduleReconnect :: "rat \<Rightarrow> net \<Rightarrow> net" where
  "scheduleReconnect rnd n = (let tr = ne_transport n; attempt = tr_attempts tr;
       delay = nat \<lfloor>rnd * of_nat (backoff_ceil tr attempt)\<rfloor> in
     n \<lparr> ne_transport := tr \<lparr> tr_attempts := attempt + 1, tr_timer := Some delay \<rparr>,
         ne_scheduled := ne_scheduled n @ [(delay, attempt)] \<rparr>)"

text \<open>The state before the close event was open or connecting: then \<open>onClose\<close> is called.\<close>

definition transport_close :: "rat \<Rightarrow> nat \<Rightarrow> net \<Rightarrow> bool \<times> net" where
  "transport_close rnd code n = (let tr = ne_transport n; wasOpen = tr_state tr = Open \<or> tr_state tr = Connecting;
       n1 = on_tr (\<lambda>tr. tr \<lparr> tr_state := Closed, tr_socket := None \<rparr>) n in
     (wasOpen, if \<not> tr_destroyed tr \<and> tr_autoReconnect tr \<and> code \<noteq> 1000 then scheduleReconnect rnd n1 else n1))"

definition timer_fires :: "net \<Rightarrow> net" where
  "timer_fires n = (let n1 = on_tr (\<lambda>tr. tr \<lparr> tr_timer := None \<rparr>) n in
     if tr_destroyed (ne_transport n) then n1 else snd (connect n1))"

section \<open>Requests and responses\<close>

definition request_frame :: "jsval \<Rightarrow> string \<Rightarrow> jsval \<Rightarrow> jsval" where
  "request_frame i m params =
     JObj [(''jsonrpc'', JStr ''2.0''), (''id'', i), (''method'', JStr m), (''params'', params)]"

definition settle_promise :: "jsval \<Rightarrow> error + jsval \<Rightarrow> net \<Rightarrow> net" where
  "settle_promise i r n = n \<lparr> ne_settled := ne_settled n @ [(i, r)] \<rparr>"

text \<open>A send that throws rejects the promise; the entry stays.\<close>

definition request :: "(jsval \<Rightarrow> string) \<Rightarrow> (nat \<Rightarrow> string \<Rightarrow> bool) \<Rightarrow> string \<Rightarrow> jsval \<Rightarrow> net \<Rightarrow> jsval \<times> net" where
  "request ser thr m params n = (let i = JNum (int (rp_next (ne_rpc n))); f = ser (request_frame i m params);
       n1 = on_rpc (\<lambda>r. r \<lparr> rp_next := rp_next r + 1, rp_pending := map_set i \<lparr> pq_frame = f \<rparr> (rp_pending r) \<rparr>) n in
     (i, case transport_send thr f n1 of (Inl e, n2) \<Rightarrow> settle_promise i (Inl e) n2 | (Inr _, n2) \<Rightarrow> n2))"

definition notify :: "(jsval \<Rightarrow> string) \<Rightarrow> (nat \<Rightarrow> string \<Rightarrow> bool) \<Rightarrow> string \<Rightarrow> jsval \<Rightarrow> net \<Rightarrow> (error + unit) \<times> net" where
  "notify ser thr m params n =
     transport_send thr (ser (JObj [(''jsonrpc'', JStr ''2.0''), (''method'', JStr m), (''params'', params)])) n"

text \<open>Every pending frame is sent again; a send that throws ends the loop.\<close>

fun send_all :: "(nat \<Rightarrow> string \<Rightarrow> bool) \<Rightarrow> string list \<Rightarrow> net \<Rightarrow> net" where
  "send_all thr [] n = n"
| "send_all thr (f # fs) n = (case transport_send thr f n of (Inl e, n1) \<Rightarrow> n1 | (Inr _, n1) \<Rightarrow> send_all thr fs n1)"

definition rpc_handleOpen :: "(nat \<Rightarrow> string \<Rightarrow> bool) \<Rightarrow> net \<Rightarrow> net" where
  "rpc_handleOpen thr n = send_all thr (map (pq_frame \<circ> snd) (rp_pending (ne_rpc n))) (on_rpc (\<lambda>r. r \<lparr> rp_open := True \<rparr>) n)"

definition rpc_handleClose :: "net \<Rightarrow> net" where
  "rpc_handleClose n = on_rpc (\<lambda>r. r \<lparr> rp_open := False \<rparr>) n"

definition isResponse :: "jsval \<Rightarrow> bool" where
  "isResponse msg \<longleftrightarrow> js_is_object msg \<and> js_has msg ''id'' \<and> (js_has msg ''result'' \<or> js_has msg ''error'')"

definition isNotification :: "jsval \<Rightarrow> bool" where
  "isNotification msg \<longleftrightarrow> js_is_object msg \<and> js_has msg ''method'' \<and> \<not> js_has msg ''id''"

text \<open>
  A JSON-RPC error object has a string \<open>message\<close>, an integer \<open>code\<close> and perhaps \<open>data\<close>; other
  values in these places are read as the empty string and 0.
\<close>

definition rpc_error :: "jsval \<Rightarrow> error" where
  "rpc_error err = RpcError (case js_prop err ''message'' of JStr s \<Rightarrow> s | _ \<Rightarrow> [])
     (case js_prop err ''code'' of JNum c \<Rightarrow> c | _ \<Rightarrow> 0)
     (case js_prop err ''data'' of JUndefined \<Rightarrow> None | d \<Rightarrow> Some d)"

definition response_result :: "jsval \<Rightarrow> error + jsval" where
  "response_result msg = (if js_has msg ''error'' then Inl (rpc_error (js_prop msg ''error''))
     else Inr (js_prop msg ''result''))"

definition ingest :: "(string \<Rightarrow> jsval option) \<Rightarrow> string \<Rightarrow> net \<Rightarrow> net" where
  "ingest parse text n = (case parse text of
      None \<Rightarrow> n
    | Some msg \<Rightarrow>
       if isResponse msg then
         (let i = js_prop msg ''id'' in
          if i = JNull \<or> i = JUndefined then n
          else case map_get (rp_pending (ne_rpc n)) i of
              None \<Rightarrow> n
            | Some _ \<Rightarrow> settle_promise i (response_result msg)
                (on_rpc (\<lambda>r. r \<lparr> rp_pending := map_delete i (rp_pending r) \<rparr>) n))
       else if isNotification msg then
         (case js_prop msg ''method'' of
            JStr m \<Rightarrow> n \<lparr> ne_notified := ne_notified n @ map (\<lambda>l. (l, js_prop msg ''params''))
                (case map_get (rp_listeners (ne_rpc n)) m of Some ls \<Rightarrow> ls | None \<Rightarrow> []) \<rparr>
          | _ \<Rightarrow> n)
       else n)"

definition rpc_on :: "string \<Rightarrow> nat \<Rightarrow> net \<Rightarrow> net" where
  "rpc_on m l n = on_rpc (\<lambda>r. let ls = (case map_get (rp_listeners r) m of Some ls \<Rightarrow> ls | None \<Rightarrow> []) in
     r \<lparr> rp_listeners := map_set m (if l \<in> set ls then ls else ls @ [l]) (rp_listeners r) \<rparr>) n"

definition rpc_off :: "string \<Rightarrow> nat \<Rightarrow> net \<Rightarrow> net" where
  "rpc_off m l n = on_rpc (\<lambda>r. case map_get (rp_listeners r) m of
      None \<Rightarrow> r
    | Some ls \<Rightarrow> r \<lparr> rp_listeners := (if removeAll l ls = [] then map_delete m (rp_listeners r)
        else map_set m (removeAll l ls) (rp_listeners r)) \<rparr>) n"

definition rejectAll :: "error \<Rightarrow> net \<Rightarrow> net" where
  "rejectAll e n = (n \<lparr> ne_settled := ne_settled n @ map (\<lambda>p. (fst p, Inl e)) (rp_pending (ne_rpc n)),
     ne_rpc := (ne_rpc n) \<lparr> rp_pending := [] \<rparr> \<rparr>)"

section \<open>The connection as a whole\<close>

text \<open>
  What happens to a connection. A socket opens only while connecting and closes only while there
  is one, as the platform has it; the client forwards both events to the RPC layer.
\<close>

datatype net_op =
    Request string jsval
  | Notify string jsval
  | Message string
  | SocketOpens
  | SocketCloses nat rat
  | TimerFires
  | RejectAll error

definition net_step :: "(jsval \<Rightarrow> string) \<Rightarrow> (string \<Rightarrow> jsval option) \<Rightarrow> (nat \<Rightarrow> string \<Rightarrow> bool) \<Rightarrow> net_op \<Rightarrow> net \<Rightarrow> net" where
  "net_step ser parse thr op n = (case op of
      Request m p \<Rightarrow> snd (request ser thr m p n)
    | Notify m p \<Rightarrow> snd (notify ser thr m p n)
    | Message text \<Rightarrow> ingest parse text n
    | SocketOpens \<Rightarrow> if tr_state (ne_transport n) = Connecting then rpc_handleOpen thr (transport_open thr n) else n
    | SocketCloses code rnd \<Rightarrow> if tr_socket (ne_transport n) = None then n
        else (let (wasOpen, n1) = transport_close rnd code n in if wasOpen then rpc_handleClose n1 else n1)
    | TimerFires \<Rightarrow> if tr_timer (ne_transport n) = None then n else timer_fires n
    | RejectAll e \<Rightarrow> rejectAll e n)"

fun net_run :: "(jsval \<Rightarrow> string) \<Rightarrow> (string \<Rightarrow> jsval option) \<Rightarrow> (nat \<Rightarrow> string \<Rightarrow> bool) \<Rightarrow> net_op list \<Rightarrow> net \<Rightarrow> net" where
  "net_run ser parse thr [] n = n"
| "net_run ser parse thr (op # ops) n = net_run ser parse thr ops (net_step ser parse thr op n)"

section \<open>Invariant\<close>

text \<open>
  Every id handed out is pending or settled, never both; while the transport is open the frame of
  every pending request has been sent over the current socket.
\<close>

definition request_ids :: "net \<Rightarrow> jsval set" where
  "request_ids n = (\<lambda>k. JNum (int k)) ` {1..<rp_next (ne_rpc n)}"

definition net_inv :: "net \<Rightarrow> bool" where
  "net_inv n \<longleftrightarrow> (let pend = rp_pending (ne_rpc n); tr = ne_transport n in
     map_wf pend \<and> distinct (map fst (ne_settled n)) \<and> 1 \<le> rp_next (ne_rpc n)
   \<and> fst ` set pend \<union> fst ` set (ne_settled n) = request_ids n
   \<and> fst ` set pend \<inter> fst ` set (ne_settled n) = {}
   \<and> \<not> tr_destroyed tr \<and> (tr_state tr = Connecting \<longrightarrow> tr_socket tr \<noteq> None)
   \<and> (tr_state tr = Open \<longrightarrow> (\<exists>k. tr_socket tr = Some k \<and> (\<forall>p\<in>set pend. (k, pq_frame (snd p)) \<in> set (ne_wire n)))))"

lemma net_invD:
  assumes "net_inv n"
  shows "map_wf (rp_pending (ne_rpc n))" "distinct (map fst (ne_settled n))" "1 \<le> rp_next (ne_rpc n)"
    "fst ` set (rp_pending (ne_rpc n)) \<union> fst ` set (ne_settled n) = request_ids n"
    "fst ` set (rp_pending (ne_rpc n)) \<inter> fst ` set (ne_settled n) = {}"
    "tr_state (ne_transport n) = Connecting \<Longrightarrow> tr_socket (ne_transport n) \<noteq> None"
    "tr_state (ne_transport n) = Open \<Longrightarrow>
       \<exists>k. tr_socket (ne_transport n) = Some k \<and> (\<forall>p\<in>set (rp_pending (ne_rpc n)). (k, pq_frame (snd p)) \<in> set (ne_wire n))"
  using assms unfolding net_inv_def Let_def by blast+

text \<open>The invariant without the part about the open transport, and that part.\<close>

definition promises_inv :: "rpc_client \<Rightarrow> (jsval \<times> (error + jsval)) list \<Rightarrow> bool" where
  "promises_inv r settled \<longleftrightarrow> map_wf (rp_pending r) \<and> distinct (map fst settled) \<and> 1 \<le> rp_next r
   \<and> fst ` set (rp_pending r) \<union> fst ` set settled = (\<lambda>k. JNum (int k)) ` {1..<rp_next r}
   \<and> fst ` set (rp_pending r) \<inter> fst ` set settled = {}"

definition on_wire :: "transport \<Rightarrow> rpc_client \<Rightarrow> (nat \<times> string) list \<Rightarrow> bool" where
  "on_wire tr r wire \<longleftrightarrow> \<not> tr_destroyed tr \<and> (tr_state tr = Connecting \<longrightarrow> tr_socket tr \<noteq> None)
   \<and> (tr_state tr = Open \<longrightarrow> (\<exists>k. tr_socket tr = Some k \<and> (\<forall>p\<in>set (rp_pending r). (k, pq_frame (snd p)) \<in> set wire)))"

lemma net_inv_split: "net_inv n \<longleftrightarrow> promises_inv (ne_rpc n) (ne_settled n) \<and> on_wire (ne_transport n) (ne_rpc n) (ne_wire n)"
  unfolding net_inv_def promises_inv_def on_wire_def request_ids_def Let_def by blast

lemma on_wire_closed: "\<not> tr_destroyed tr \<Longrightarrow> tr_state tr \<noteq> Open \<Longrightarrow> tr_state tr \<noteq> Connecting \<Longrightarrow> on_wire tr r w"
  by (simp add: on_wire_def)

lemma connect_frame:
  assumes "connect n = (x, n')"
  shows "ne_rpc n' = ne_rpc n" "ne_settled n' = ne_settled n" "ne_wire n' = ne_wire n"
    "on_wire (ne_transport n) (ne_rpc n) (ne_wire n) \<Longrightarrow> on_wire (ne_transport n') (ne_rpc n) (ne_wire n)"
  using assms by (auto simp: connect_def Let_def on_wire_def split: if_splits)

lemma transport_send_frame:
  assumes "transport_send thr f n = (x, n')"
  shows "ne_rpc n' = ne_rpc n" "ne_settled n' = ne_settled n" "set (ne_wire n) \<subseteq> set (ne_wire n')"
proof -
  have "ne_rpc n' = ne_rpc n \<and> ne_settled n' = ne_settled n \<and> set (ne_wire n) \<subseteq> set (ne_wire n')"
    using assms
    by (auto simp: transport_send_def Let_def on_tr_def connect_def
             split: prod.splits transport_state.splits option.splits if_splits)
  then show "ne_rpc n' = ne_rpc n" "ne_settled n' = ne_settled n" "set (ne_wire n) \<subseteq> set (ne_wire n')" by auto
qed

lemma transport_send_open:
  assumes "tr_state (ne_transport n) = Open" and "tr_socket (ne_transport n) = Some k" and "\<not> thr k f"
  shows "transport_send thr f n = (Inr (), n \<lparr> ne_wire := ne_wire n @ [(k, f)] \<rparr>)"
  using assms by (simp add: transport_send_def Let_def)

lemma transport_send_not_open:
  assumes "tr_state (ne_transport n) \<noteq> Open" and "on_wire (ne_transport n) r w" and "transport_send thr f n = (x, n')"
  shows "x = Inr () \<and> tr_state (ne_transport n') \<noteq> Open \<and> on_wire (ne_transport n') r' w'"
  using assms
  by (auto simp: transport_send_def Let_def on_tr_def connect_def on_wire_def
           split: transport_state.splits option.splits if_splits)

lemma send_all_open:
  assumes "\<forall>k f. \<not> thr k f" and "tr_state (ne_transport n) = Open" and "tr_socket (ne_transport n) = Some k"
  shows "send_all thr fs n = n \<lparr> ne_wire := ne_wire n @ map (Pair k) fs \<rparr>"
  using assms
proof (induction fs arbitrary: n)
  case (Cons f fs)
  then show ?case by (simp add: transport_send_open)
qed simp

lemma drain_all: "\<forall>f. \<not> fails f \<Longrightarrow> drain_outbound fails fs = (fs, [])"
  by (induction fs) simp_all

text \<open>The steps.\<close>

lemma promises_request:
  assumes "promises_inv r settled"
  shows "promises_inv (r \<lparr> rp_next := rp_next r + 1, rp_pending := map_set (JNum (int (rp_next r))) p (rp_pending r) \<rparr>) settled"
proof -
  have "{1..<rp_next r + 1} = insert (rp_next r) {1..<rp_next r}" using assms by (auto simp: promises_inv_def)
  moreover have "JNum (int (rp_next r)) \<notin> fst ` set (rp_pending r) \<union> fst ` set settled"
    using assms by (auto simp: promises_inv_def)
  moreover have "fst ` set (map_set i p (rp_pending r)) = insert i (fst ` set (rp_pending r))" for i
    by (auto simp: update_conv' simp flip: dom_map_of_conv_image_fst)
  ultimately show ?thesis using assms by (auto simp: promises_inv_def)
qed

lemma promises_settle:
  assumes "promises_inv r settled" and "map_get (rp_pending r) i = Some p"
  shows "promises_inv (r \<lparr> rp_pending := map_delete i (rp_pending r) \<rparr>) (settled @ [(i, x)])"
proof -
  have "i \<in> fst ` set (rp_pending r)" using map_get_in_set [OF assms(2)] by force
  moreover have "fst ` set (map_delete i (rp_pending r)) = fst ` set (rp_pending r) - {i}" by (simp add: delete_keys)
  ultimately show ?thesis using assms(1) by (auto simp: promises_inv_def)
qed

lemma net_inv_new: "net_inv (new_net (new_transport ar b c))"
  by (simp add: net_inv_def new_net_def new_rpc_def new_transport_def request_ids_def)

lemma set_map_set_sub: "set (map_set i q ps) \<subseteq> insert (i, q) (set ps)"
  by (induction ps) auto

text \<open>A frame of a pending request is sent, or the transport is not open.\<close>

lemma send_on_wire:
  assumes "on_wire (ne_transport n) r (ne_wire n)" and "\<forall>k f. \<not> thr k f" and "transport_send thr f n = (x, n')"
    and "set (rp_pending r') \<subseteq> insert (i, \<lparr> pq_frame = f \<rparr>) (set (rp_pending r))"
  shows "x = Inr () \<and> on_wire (ne_transport n') r' (ne_wire n')"
proof (cases "tr_state (ne_transport n) = Open")
  case True
  then obtain k where k: "tr_socket (ne_transport n) = Some k"
    "\<forall>p\<in>set (rp_pending r). (k, pq_frame (snd p)) \<in> set (ne_wire n)"
    using assms(1) by (auto simp: on_wire_def)
  have "\<forall>p\<in>set (rp_pending r'). (k, pq_frame (snd p)) \<in> insert (k, f) (set (ne_wire n))"
    using assms(4) k(2) by auto
  with True k assms(1,2,3) show ?thesis by (simp add: transport_send_open on_wire_def) auto
next
  case False
  with transport_send_not_open [OF _ assms(1,3)] show ?thesis by blast
qed

lemma net_inv_request:
  assumes "net_inv n" and "\<forall>k f. \<not> thr k f"
  shows "net_inv (snd (request ser thr m ps n))"
proof -
  let ?i = "JNum (int (rp_next (ne_rpc n)))"
  let ?f = "ser (request_frame ?i m ps)"
  let ?r = "(ne_rpc n) \<lparr> rp_next := rp_next (ne_rpc n) + 1,
              rp_pending := map_set ?i \<lparr> pq_frame = ?f \<rparr> (rp_pending (ne_rpc n)) \<rparr>"
  let ?n = "n \<lparr> ne_rpc := ?r \<rparr>"
  obtain x n' where send: "transport_send thr ?f ?n = (x, n')" by (cases "transport_send thr ?f ?n")
  note fr = transport_send_frame [OF send]
  have p: "promises_inv ?r (ne_settled n)" using assms(1) promises_request unfolding net_inv_split by blast
  have "on_wire (ne_transport ?n) (ne_rpc n) (ne_wire ?n)" using assms(1) by (simp add: net_inv_split)
  from send_on_wire [OF this assms(2) send, of ?r ?i] have "x = Inr () \<and> on_wire (ne_transport n') ?r (ne_wire n')"
    by (simp add: set_map_set_sub)
  with send p fr show ?thesis by (simp add: request_def Let_def on_rpc_def net_inv_split)
qed

lemma net_inv_notify:
  assumes "net_inv n" and "\<forall>k f. \<not> thr k f"
  shows "net_inv (snd (notify ser thr m ps n))"
proof -
  obtain x n' where send: "notify ser thr m ps n = (x, n')" by (cases "notify ser thr m ps n")
  note fr = transport_send_frame [OF send [unfolded notify_def]]
  have "on_wire (ne_transport n') (ne_rpc n) (ne_wire n')"
    using send_on_wire [OF _ assms(2) send [unfolded notify_def], of "ne_rpc n"] assms(1) by (auto simp: net_inv_split)
  with send fr assms(1) show ?thesis by (simp add: net_inv_split)
qed

lemma net_inv_ingest:
  assumes "net_inv n"
  shows "net_inv (ingest parse text n)"
proof -
  have wire: "on_wire tr (r \<lparr> rp_pending := map_delete i (rp_pending r) \<rparr>) w" if "on_wire tr r w" for tr r i w
    using that by (fastforce simp: on_wire_def AList.delete_eq)
  show ?thesis
    using assms
    by (auto simp: ingest_def settle_promise_def on_rpc_def net_inv_split Let_def wire promises_settle
             split: option.split jsval.split)
qed

lemma net_inv_opens:
  assumes "net_inv n" and "\<forall>k f. \<not> thr k f" and "tr_state (ne_transport n) = Connecting"
  shows "net_inv (rpc_handleOpen thr (transport_open thr n))"
proof -
  obtain k where k: "tr_socket (ne_transport n) = Some k" using net_invD(6) [OF assms(1,3)] by blast
  have opened: "transport_open thr n = n \<lparr> ne_transport := (ne_transport n) \<lparr> tr_state := Open, tr_attempts := 0, tr_outbound := [] \<rparr>,
      ne_wire := ne_wire n @ map (Pair k) (tr_outbound (ne_transport n)) \<rparr>"
    using assms(2) k by (simp add: transport_open_def Let_def drain_all)
  show ?thesis
    unfolding rpc_handleOpen_def opened
    by (subst send_all_open [OF assms(2), of _ k])
       (use assms(1) k in \<open>auto simp: net_inv_split promises_inv_def on_wire_def on_rpc_def image_iff\<close>)
qed

lemma net_inv_closes:
  assumes "net_inv n"
  shows "net_inv (case transport_close rnd code n of (wasOpen, n1) \<Rightarrow> if wasOpen then rpc_handleClose n1 else n1)"
  using assms
  by (auto simp: transport_close_def Let_def rpc_handleClose_def on_rpc_def on_tr_def scheduleReconnect_def
                 net_inv_split promises_inv_def on_wire_def)

lemma net_inv_timer: "net_inv n \<Longrightarrow> net_inv (timer_fires n)"
  by (auto simp: timer_fires_def Let_def on_tr_def connect_def net_inv_split promises_inv_def on_wire_def)

lemma net_inv_rejectAll: "net_inv n \<Longrightarrow> net_inv (rejectAll e n)"
  by (auto simp: rejectAll_def net_inv_split promises_inv_def on_wire_def map_wf_def comp_def image_Un image_image)

lemma net_inv_step: "net_inv n \<Longrightarrow> \<forall>k f. \<not> thr k f \<Longrightarrow> net_inv (net_step ser parse thr op n)"
  using net_inv_closes [of n]
  by (cases op) (simp_all add: net_step_def net_inv_request net_inv_notify net_inv_ingest net_inv_opens net_inv_timer
    net_inv_rejectAll)

lemma net_inv_run: "net_inv n \<Longrightarrow> \<forall>k f. \<not> thr k f \<Longrightarrow> net_inv (net_run ser parse thr ops n)"
  by (induction ops arbitrary: n) (simp_all add: net_inv_step)

section \<open>Properties\<close>

lemma scheduleReconnect_bounded:
  assumes "0 \<le> rnd" and "rnd < 1" and "0 < tr_backoffBaseMs (ne_transport n)" and "0 < tr_backoffCapMs (ne_transport n)"
  shows "\<exists>d. ne_scheduled (scheduleReconnect rnd n) = ne_scheduled n @ [(d, tr_attempts (ne_transport n))]
    \<and> d < tr_backoffCapMs (ne_transport n) \<and> d < tr_backoffBaseMs (ne_transport n) * 2 ^ tr_attempts (ne_transport n)"
proof -
  let ?c = "backoff_ceil (ne_transport n) (tr_attempts (ne_transport n))"
  have "0 < ?c" using assms(3,4) by (simp add: backoff_ceil_def)
  then have "rnd * of_nat ?c < of_nat ?c" using assms(2) by simp
  then have "\<lfloor>rnd * of_nat ?c\<rfloor> < int ?c" by (simp add: floor_less_iff)
  moreover have "0 \<le> \<lfloor>rnd * of_nat ?c\<rfloor>" using assms(1) by simp
  ultimately have "nat \<lfloor>rnd * of_nat ?c\<rfloor> < ?c" by linarith
  then show ?thesis by (auto simp: scheduleReconnect_def Let_def backoff_ceil_def)
qed

text \<open>
  C31. While sends do not throw, every request handed out is pending or has had its promise settled
  exactly once, never both, whatever frames, openings, closings and timers come in between; while
  the transport is open the frame of each pending request has been sent over the current socket,
  so that a reconnect loses none; and a response settles just the request with its id, with its
  result or error.
\<close>

theorem requests_settled_once:
  assumes "\<forall>k f. \<not> thr k f" and n: "n = net_run ser parse thr ops (new_net (new_transport ar b c))"
    and msg: "parse text = Some msg" "isResponse msg"
  shows "distinct (map fst (ne_settled n))
    \<and> (\<forall>i. i \<in> request_ids n \<longleftrightarrow> (map_has (rp_pending (ne_rpc n)) i) \<noteq> (i \<in> fst ` set (ne_settled n)))
    \<and> (tr_state (ne_transport n) = Open \<longrightarrow> (\<exists>k. tr_socket (ne_transport n) = Some k \<and>
         (\<forall>i p. map_get (rp_pending (ne_rpc n)) i = Some p \<longrightarrow> (k, pq_frame p) \<in> set (ne_wire n))))
    \<and> ne_settled (ingest parse text n) = ne_settled n @
         (if map_has (rp_pending (ne_rpc n)) (js_prop msg ''id'') then [(js_prop msg ''id'', response_result msg)] else [])
    \<and> (\<forall>i. map_get (rp_pending (ne_rpc (ingest parse text n))) i =
         (if i = js_prop msg ''id'' then None else map_get (rp_pending (ne_rpc n)) i))"
proof -
  have inv: "net_inv n" unfolding n by (rule net_inv_run [OF net_inv_new assms(1)])
  note d = net_invD [OF inv]
  have has: "map_has (rp_pending (ne_rpc n)) i \<longleftrightarrow> i \<in> fst ` set (rp_pending (ne_rpc n))" for i
    by (simp add: map_of_eq_None_iff)
  have nonum: "\<not> map_has (rp_pending (ne_rpc n)) JNull" "\<not> map_has (rp_pending (ne_rpc n)) JUndefined"
    using d(4) unfolding has request_ids_def by (metis UnCI image_iff jsval.distinct)+
  have "i \<in> request_ids n \<longleftrightarrow> map_has (rp_pending (ne_rpc n)) i \<noteq> (i \<in> fst ` set (ne_settled n))" for i
    using d(4,5) unfolding has by blast
  moreover have "tr_state (ne_transport n) = Open \<Longrightarrow> \<exists>k. tr_socket (ne_transport n) = Some k \<and>
      (\<forall>i p. map_get (rp_pending (ne_rpc n)) i = Some p \<longrightarrow> (k, pq_frame p) \<in> set (ne_wire n))"
    using d(7) by (metis map_get_in_set snd_conv)
  moreover have "ne_settled (ingest parse text n) = ne_settled n @
      (if map_has (rp_pending (ne_rpc n)) (js_prop msg ''id'') then [(js_prop msg ''id'', response_result msg)] else [])"
    "map_get (rp_pending (ne_rpc (ingest parse text n))) i =
      (if i = js_prop msg ''id'' then None else map_get (rp_pending (ne_rpc n)) i)" for i
    using msg nonum by (auto simp: ingest_def Let_def settle_promise_def on_rpc_def split: option.split)
  ultimately show ?thesis using d(2) by simp
qed

definition demo_parse :: "string \<Rightarrow> jsval option" where
  "demo_parse text = (if text = ''r'' then Some (JObj [(''id'', JNum 1), (''result'', JBool True)]) else None)"

lemmas net_eval = net_step_def request_def new_net_def new_transport_def new_rpc_def Let_def on_rpc_def on_tr_def
  connect_def transport_send_def transport_open_def rpc_handleOpen_def

theorem requests_settled_once_witness:
  "ne_settled (ingest demo_parse ''r'' (net_run (\<lambda>_. ''q'') demo_parse (\<lambda>_ _. False)
     [Request ''actor.call'' JNull, SocketOpens] (new_net (new_transport None None None)))) = [(JNum 1, Inr (JBool True))]"
proof -
  let ?n = "net_run (\<lambda>_. ''q'') demo_parse (\<lambda>_ _. False) [Request ''actor.call'' JNull, SocketOpens] (new_net (new_transport None None None))"
  let ?msg = "JObj [(''id'', JNum 1), (''result'', JBool True)]"
  have "demo_parse ''r'' = Some ?msg" "isResponse ?msg"
    by (simp_all add: demo_parse_def isResponse_def js_is_object_def js_truthy_def js_typeof_def js_has_def)
  note r = requests_settled_once [of "\<lambda>_ _. False" ?n "\<lambda>_. ''q''" demo_parse "[Request ''actor.call'' JNull, SocketOpens]"
    None None None "''r''" ?msg, OF _ refl this]
  have "ne_settled ?n = []" "map_has (rp_pending (ne_rpc ?n)) (JNum 1)" by (simp_all add: net_eval)
  with r show ?thesis by (simp add: js_prop_def response_result_def js_has_def)
qed

text \<open>
  A request made before the connection is open is sent twice when it opens: out of the outbound
  queue, and again as a pending request.
\<close>

theorem early_request_sent_twice:
  fixes ser :: "jsval \<Rightarrow> string" and m :: string and ps :: jsval
  defines "f \<equiv> ser (request_frame (JNum 1) m ps)"
  assumes "\<forall>k f. \<not> thr k f"
  shows "ne_wire (net_run ser parse thr [Request m ps, SocketOpens] (new_net (new_transport None b c))) = [(0, f), (0, f)]"
  using assms(2)
  by (simp add: net_eval f_def)

text \<open>
  A send that throws while the outbound queue is drained keeps that frame for the next opening and
  drops the ones behind it.
\<close>

theorem drain_drops_frames:
  assumes "tr_socket (ne_transport n) = Some k" and "tr_outbound (ne_transport n) = f # fs" and "thr k f"
  shows "tr_outbound (ne_transport (transport_open thr n)) = [f] \<and> ne_wire (transport_open thr n) = ne_wire n"
  using assms by (simp add: transport_open_def)

end
