(* ===== verification/StorageTypes.thy ===== *)
theory StorageTypes
  imports Errors "HOL-Library.Word"
begin

text \<open>
  The data that crosses the storage boundary (\<open>src/storage/driver.ts\<close>): snapshots, events,
  inbox records, reminders, class versions, manifests, audit entries and idempotency records,
  one record per interface with the interface's fields, optional fields as options.
\<close>

type_synonym bytes = "8 word list"

record snapshot_read =
  sr_class :: class_name
  sr_version :: version
  sr_seq :: int
  sr_state :: jsval

record snapshot_write =
  sw_class :: class_name
  sw_version :: version
  sw_seq :: int
  sw_state :: jsval

record event_write =
  ew_type :: string
  ew_payload :: jsval
  ew_causation :: "string option"

record event_record =
  er_actor :: actor_id
  er_seq :: int
  er_ts :: ms
  er_version :: version
  er_type :: string
  er_payload :: jsval
  er_causation :: "string option"

record inbox_entry =
  ie_type :: string
  ie_payload :: jsval

record inbox_record =
  ir_id :: string
  ir_entry :: inbox_entry

record reminder_msg =
  rm_actor :: actor_id
  rm_class :: class_name
  rm_type :: string
  rm_payload :: jsval

type_synonym deps_map = "(class_name, string) jsmap"

record class_version_record =
  cv_name :: class_name
  cv_version :: version
  cv_sha :: string
  cv_deps :: deps_map
  cv_engines :: "(string, string) jsmap"
  cv_publishedAt :: ms
  cv_deprecatedAt :: "ms option"
  cv_graceUntil :: "ms option"
  cv_signedBy :: "string option"
  cv_floating :: bool
  cv_eventSourced :: bool

record class_signature =
  sg_signedBy :: string
  sg_signature :: bytes

record publish_class_input =
  pc_name :: class_name
  pc_version :: version
  pc_source :: bytes
  pc_deps :: deps_map
  pc_engines :: "(string, string) jsmap"
  pc_floating :: "bool option"
  pc_eventSourced :: "bool option"
  pc_signature :: "class_signature option"

type_synonym resolved_manifest = "(class_name, version) jsmap"

record audit_entry =
  ae_id :: string
  ae_ts :: ms
  ae_principal :: string
  ae_action :: string
  ae_target :: string
  ae_meta :: "(string, jsval) jsmap"

record idempotency_record =
  im_key :: string
  im_response :: jsval
  im_storedAt :: ms

end
