(* ===== verification/ActorClass.thy ===== *)
theory ActorClass
  imports Errors StorageTypes
begin

text \<open>
  What the runtime needs of a user's class: \<open>src/actor.ts\<close>, \<open>src/event-sourced.ts\<close> and the handler
  registry of \<open>src/handler.ts\<close>. The bodies are user code, so a class is a record of functions: a
  handler maps the state and its argument to a result or an exception and the state it leaves
  behind (a mutation stays when the handler throws). \<open>ac_proto_call\<close> is what calling a method
  inherited from \<open>Object.prototype\<close> on the instance gives, since the registry is a bare object
  whose lookup finds those too.
\<close>

type_synonym handler = "jsval \<Rightarrow> jsval \<Rightarrow> (error + jsval) \<times> jsval"

record actor_class =
  ac_isEs :: bool
  ac_handlers :: "(string, handler) jsmap"
  ac_proto_call :: "string \<Rightarrow> handler"
  ac_state0 :: jsval
  ac_initialState :: jsval
  ac_reduce :: "jsval \<Rightarrow> jsval \<Rightarrow> error + jsval"
  ac_migrateEvent :: "(jsval \<Rightarrow> string \<Rightarrow> error + jsval) option"
  ac_migrate :: "(jsval \<Rightarrow> string \<Rightarrow> error + jsval) option"
  ac_onInit :: "(jsval \<Rightarrow> (error + unit) \<times> jsval) option"
  ac_onActivate :: "(jsval \<Rightarrow> (error + unit) \<times> jsval) option"
  ac_onDeactivate :: "(jsval \<Rightarrow> (error + unit) \<times> jsval) option"
  ac_snapshot :: "jsval \<Rightarrow> jsval"

text \<open>\<open>handler(name)\<close>: decorating a method files it under its name; \<open>getHandlers\<close> reads the registry.\<close>

definition register_handler :: "string \<Rightarrow> handler \<Rightarrow> (string, handler) jsmap option \<Rightarrow> (string, handler) jsmap" where
  "register_handler name f carrier =
     map_set name f (case carrier of Some hs \<Rightarrow> hs | None \<Rightarrow> [])"

definition getHandlers :: "actor_class \<Rightarrow> (string, handler) jsmap" where
  "getHandlers c = ac_handlers c"

definition find_handler :: "actor_class \<Rightarrow> string \<Rightarrow> handler option" where
  "find_handler c name = (case obj_lookup (getHandlers c) name of
      Own f \<Rightarrow> Some f | Inherited n \<Rightarrow> Some (ac_proto_call c n) | Absent \<Rightarrow> None)"

lemma find_handler_None:
  "find_handler c name = None \<longleftrightarrow> map_get (ac_handlers c) name = None \<and> name \<notin> set proto_names"
  by (auto simp: find_handler_def getHandlers_def obj_lookup_def split: js_lookup.splits option.splits)

text \<open>
  \<open>normalizeEvent\<close> of \<open>src/runtime/host.ts\<close>: the record an event is stored as. A \<open>causationId\<close> is
  not carried over.
\<close>

definition normalizeEvent :: "jsval \<Rightarrow> error + event_write" where
  "normalizeEvent e = (
     if \<not> js_is_object e
     then Inl (PlainError ''ES event must be an object with a string `type` discriminant'')
     else (case js_prop e ''type'' of
        JStr t \<Rightarrow>
          if js_has e ''payload''
          then Inr \<lparr> ew_type = t, ew_payload = js_prop e ''payload'', ew_causation = None \<rparr>
          else Inr \<lparr> ew_type = t, ew_payload = js_rest e ''type'', ew_causation = None \<rparr>
      | _ \<Rightarrow> Inl (PlainError ''ES event missing string `type` discriminant'')))"

fun normalize_all :: "jsval list \<Rightarrow> error + event_write list" where
  "normalize_all [] = Inr []"
| "normalize_all (e # es) = (case normalizeEvent e of
      Inl x \<Rightarrow> Inl x
    | Inr w \<Rightarrow> (case normalize_all es of Inl x \<Rightarrow> Inl x | Inr ws \<Rightarrow> Inr (w # ws)))"

text \<open>The fold of \<open>commitEs\<close> over the events as the handler returned them.\<close>

fun reduce_all :: "actor_class \<Rightarrow> jsval \<Rightarrow> jsval list \<Rightarrow> error + jsval" where
  "reduce_all c s [] = Inr s"
| "reduce_all c s (e # es) = (case ac_reduce c s e of Inl x \<Rightarrow> Inl x | Inr s' \<Rightarrow> reduce_all c s' es)"

lemma normalize_all_ok:
  "normalize_all es = Inr ws \<longleftrightarrow> list_all2 (\<lambda>e w. normalizeEvent e = Inr w) es ws"
proof (induction es arbitrary: ws)
  case Nil
  then show ?case by auto
next
  case (Cons e es)
  show ?case
    by (auto simp: list_all2_Cons1 simp flip: Cons.IH split: sum.splits)
qed

lemma reduce_all_append:
  "reduce_all c s (xs @ ys) = (case reduce_all c s xs of Inl x \<Rightarrow> Inl x | Inr s' \<Rightarrow> reduce_all c s' ys)"
  by (induction xs arbitrary: s) (auto split: sum.splits)

end
