(* ===== verification/Mailbox.thy ===== *)
theory Mailbox
  imports Errors
begin

text \<open>
  The bounded mailbox of an actor host (\<open>src/runtime/mailbox.ts\<close>). A waiter is the resolver of
  a pending \<open>dequeue\<close>, named by a number; resolving it is an output of the operation, the pair
  of its name and the value it gets (\<open>None\<close> for \<open>null\<close>).
\<close>

record 'a mailbox =
  mb_buffer :: "'a list"
  mb_waiters :: "nat list"
  mb_closed :: bool
  mb_capacity :: nat

type_synonym 'a wakeup = "nat \<times> 'a option"

definition new_mailbox :: "nat \<Rightarrow> error + 'a mailbox" where
  "new_mailbox capacity = (
     if capacity < 1 then Inl (PlainError ''Mailbox capacity must be >= 1'')
     else Inr \<lparr> mb_buffer = [], mb_waiters = [], mb_closed = False, mb_capacity = capacity \<rparr>)"

definition mailbox_size :: "'a mailbox \<Rightarrow> nat" where
  "mailbox_size m = length (mb_buffer m)"

definition isFull :: "'a mailbox \<Rightarrow> bool" where
  "isFull m \<longleftrightarrow> mb_capacity m \<le> length (mb_buffer m)"

definition isClosed :: "'a mailbox \<Rightarrow> bool" where
  "isClosed m = mb_closed m"

definition enqueue :: "'a \<Rightarrow> 'a mailbox \<Rightarrow> (error + bool) \<times> 'a wakeup list \<times> 'a mailbox" where
  "enqueue item m = (
     if mb_closed m then (Inl MailboxClosedError, [], m)
     else (case mb_waiters m of
        w # ws \<Rightarrow> (Inr True, [(w, Some item)], m \<lparr> mb_waiters := ws \<rparr>)
      | [] \<Rightarrow>
         if mb_capacity m \<le> length (mb_buffer m) then (Inr False, [], m)
         else (Inr True, [], m \<lparr> mb_buffer := mb_buffer m @ [item] \<rparr>)))"

text \<open>\<open>dequeue\<close> by the waiter \<open>w\<close>: resolved at once, or registered.\<close>

definition dequeue :: "nat \<Rightarrow> 'a mailbox \<Rightarrow> 'a wakeup list \<times> 'a mailbox" where
  "dequeue w m = (case mb_buffer m of
      x # xs \<Rightarrow> ([(w, Some x)], m \<lparr> mb_buffer := xs \<rparr>)
    | [] \<Rightarrow> if mb_closed m then ([(w, None)], m)
            else ([], m \<lparr> mb_waiters := mb_waiters m @ [w] \<rparr>))"

definition close :: "'a mailbox \<Rightarrow> 'a wakeup list \<times> 'a mailbox" where
  "close m = (
     if mb_closed m then ([], m)
     else (map (\<lambda>w. (w, None)) (mb_waiters m), m \<lparr> mb_closed := True, mb_waiters := [] \<rparr>))"

section \<open>Invariant\<close>

text \<open>
  Never both a buffered item and a waiting consumer, no waiter once closed, and the buffer
  within its capacity.
\<close>

definition mailbox_inv :: "'a mailbox \<Rightarrow> bool" where
  "mailbox_inv m \<longleftrightarrow> (mb_buffer m = [] \<or> mb_waiters m = []) \<and> (mb_closed m \<longrightarrow> mb_waiters m = [])
     \<and> length (mb_buffer m) \<le> mb_capacity m \<and> 0 < mb_capacity m"

lemma mailbox_inv_new [inv_intros]: "new_mailbox n = Inr m \<Longrightarrow> mailbox_inv m"
  by (auto simp: new_mailbox_def mailbox_inv_def split: if_splits)

lemma mailbox_inv_enqueue [inv_intros]: "mailbox_inv m \<Longrightarrow> mailbox_inv (snd (snd (enqueue x m)))"
  by (auto simp: enqueue_def mailbox_inv_def split: list.splits)

lemma mailbox_inv_dequeue [inv_intros]: "mailbox_inv m \<Longrightarrow> mailbox_inv (snd (dequeue w m))"
  by (auto simp: dequeue_def mailbox_inv_def split: list.splits)

lemma mailbox_inv_close [inv_intros]: "mailbox_inv m \<Longrightarrow> mailbox_inv (snd (close m))"
  by (auto simp: close_def mailbox_inv_def)

section \<open>Runs\<close>

datatype 'a mailbox_op = Enq 'a | Deq nat | Close

fun mailbox_step :: "'a mailbox_op \<Rightarrow> 'a mailbox \<Rightarrow> 'a list \<times> 'a wakeup list \<times> 'a mailbox" where
  "mailbox_step (Enq x) m = (
     let (r, out, m') = enqueue x m in (if r = Inr True then [x] else [], out, m'))"
| "mailbox_step (Deq w) m = ([], dequeue w m)"
| "mailbox_step Close m = ([], close m)"

text \<open>A run: the items it accepted, the wake-ups it produced, and the mailbox it leaves.\<close>

fun mailbox_run :: "'a mailbox_op list \<Rightarrow> 'a mailbox \<Rightarrow> 'a list \<times> 'a wakeup list \<times> 'a mailbox" where
  "mailbox_run [] m = ([], [], m)"
| "mailbox_run (op # ops) m = (
     let (acc, out, m1) = mailbox_step op m; (accs, outs, m2) = mailbox_run ops m1
     in (acc @ accs, out @ outs, m2))"

definition delivered :: "'a wakeup list \<Rightarrow> 'a list" where
  "delivered out = concat (map (\<lambda>(w, x). case x of None \<Rightarrow> [] | Some y \<Rightarrow> [y]) out)"

definition asked :: "'a mailbox_op list \<Rightarrow> nat list" where
  "asked ops = concat (map (\<lambda>op. case op of Deq w \<Rightarrow> [w] | _ \<Rightarrow> []) ops)"

lemma delivered_simps [simp]:
  "delivered [] = []" "delivered ((w, Some x) # out) = x # delivered out"
  "delivered ((w, None) # out) = delivered out"
  "delivered (out @ out') = delivered out @ delivered out'"
  by (simp_all add: delivered_def)

lemma delivered_None [simp]: "delivered (map (\<lambda>w. (w, None)) ws) = []"
  by (simp add: delivered_def)

lemma mailbox_step_fifo:
  assumes "mailbox_inv m" and "mailbox_step op m = (acc, out, m')"
  shows "mb_buffer m @ acc = delivered out @ mb_buffer m'"
    and "mb_waiters m @ asked [op] = map fst out @ mb_waiters m'"
    and "mailbox_inv m'" and "mb_capacity m' = mb_capacity m"
    and "mb_closed m \<Longrightarrow> mb_closed m' \<and> acc = []"
proof -
  have "mb_buffer m @ acc = delivered out @ mb_buffer m' \<and>
        mb_waiters m @ asked [op] = map fst out @ mb_waiters m' \<and> mailbox_inv m'
        \<and> mb_capacity m' = mb_capacity m \<and> (mb_closed m \<longrightarrow> mb_closed m' \<and> acc = [])"
    using assms
    by (cases op)
       (auto simp: asked_def enqueue_def dequeue_def close_def mailbox_inv_def o_def
             split: list.splits if_splits)
  then show "mb_buffer m @ acc = delivered out @ mb_buffer m'"
    "mb_waiters m @ asked [op] = map fst out @ mb_waiters m'" "mailbox_inv m'"
    "mb_capacity m' = mb_capacity m" "mb_closed m \<Longrightarrow> mb_closed m' \<and> acc = []" by blast+
qed

lemma mailbox_run_fifo:
  assumes "mailbox_inv m" and "mailbox_run ops m = (acc, out, m')"
  shows "mb_buffer m @ acc = delivered out @ mb_buffer m'
       \<and> mb_waiters m @ asked ops = map fst out @ mb_waiters m'
       \<and> mailbox_inv m' \<and> mb_capacity m' = mb_capacity m \<and> (mb_closed m \<longrightarrow> mb_closed m' \<and> acc = [])"
  using assms
proof (induction ops arbitrary: m acc out m')
  case Nil
  then show ?case by (simp add: asked_def)
next
  case (Cons op ops)
  obtain a1 o1 m1 where st: "mailbox_step op m = (a1, o1, m1)" by (cases "mailbox_step op m")
  obtain a2 o2 m2 where rn: "mailbox_run ops m1 = (a2, o2, m2)" by (cases "mailbox_run ops m1")
  have eq: "acc = a1 @ a2" "out = o1 @ o2" "m' = m2"
    using Cons.prems(2) st rn by simp_all
  note s = mailbox_step_fifo [OF Cons.prems(1) st]
  note r = Cons.IH [OF s(3) rn]
  have asked: "asked (op # ops) = asked [op] @ asked ops" by (simp add: asked_def)
  have "mb_buffer m @ a1 @ a2 = delivered o1 @ delivered o2 @ mb_buffer m2"
    using s(1) r by (metis append.assoc)
  moreover have "mb_waiters m @ asked [op] @ asked ops = map fst o1 @ map fst o2 @ mb_waiters m2"
    using s(2) r by (metis append.assoc)
  ultimately show ?case using s(4,5) r asked eq by auto
qed

section \<open>Properties\<close>

text \<open>
  C10. The mailbox is a bounded FIFO: over any sequence of operations the accepted items are
  exactly the delivered ones followed by what is still buffered, in the order of acceptance;
  consumers are answered in the order they asked; the buffer never exceeds its capacity; and a
  closed mailbox accepts nothing and answers every consumer.
\<close>

theorem mailbox_bounded_fifo:
  assumes "new_mailbox capacity = Inr m" and "mailbox_run ops m = (accepted, out, m')"
  shows "accepted = delivered out @ mb_buffer m'
    \<and> asked ops = map fst out @ mb_waiters m'
    \<and> length (mb_buffer m') \<le> capacity
    \<and> (mb_buffer m' = [] \<or> mb_waiters m' = [])
    \<and> (mb_closed m' \<longrightarrow> map fst out = asked ops
         \<and> (\<forall>ops2. fst (mailbox_run ops2 m') = []))"
proof -
  have m: "mailbox_inv m" "mb_buffer m = []" "mb_waiters m = []" "mb_capacity m = capacity"
    using assms(1) mailbox_inv_new [OF assms(1)] by (auto simp: new_mailbox_def split: if_splits)
  note run = mailbox_run_fifo [OF m(1) assms(2)]
  have "fst (mailbox_run ops2 m') = []" if "mb_closed m'" for ops2
    using mailbox_run_fifo [of m' ops2] run that by (cases "mailbox_run ops2 m'") auto
  then show ?thesis
    using run m by (auto simp: mailbox_inv_def)
qed

theorem mailbox_bounded_fifo_witness:
  "fst (snd (mailbox_run [Enq ''a'', Enq ''b'', Enq ''c'', Deq 1, Deq 2, Deq 3, Enq ''d'', Close, Enq ''e'']
      \<lparr> mb_buffer = [], mb_waiters = [], mb_closed = False, mb_capacity = 2 \<rparr>))
   = [(1, Some ''a''), (2, Some ''b''), (3, Some ''d'')]"
proof -
  let ?m = "\<lparr> mb_buffer = [], mb_waiters = [], mb_closed = False, mb_capacity = 2 \<rparr> :: string mailbox"
  let ?ops = "[Enq ''a'', Enq ''b'', Enq ''c'', Deq 1, Deq 2, Deq 3, Enq ''d'', Close, Enq ''e'']"
  obtain acc out m' where run: "mailbox_run ?ops ?m = (acc, out, m')" by (cases "mailbox_run ?ops ?m")
  have "new_mailbox 2 = Inr ?m" by (simp add: new_mailbox_def)
  from mailbox_bounded_fifo [OF this run]
  have "acc = delivered out @ mb_buffer m'" by blast
  then show ?thesis
    using run by (auto simp: enqueue_def dequeue_def close_def)
qed

end
