(* ===== verification/StorageContract.thy ===== *)
theory StorageContract
  imports StorageTypes
begin

text \<open>
  What the runtime relies on when it talks to a storage driver, one locale per group of the
  \<open>StorageDriver\<close> interface: an event log (\<open>appendEvents\<close>, \<open>readEvents\<close>, \<open>headEventSeq\<close>), a
  snapshot slot (\<open>saveSnapshot\<close>, \<open>loadSnapshot\<close>) and a durable inbox (\<open>appendInbox\<close>,
  \<open>readPendingInbox\<close>, \<open>ackInbox\<close>). The laws speak about an abstract list behind the driver's
  maps; the memory driver (\<open>MemoryDriver\<close>, \<open>MemoryInbox\<close>) and the tables and streams of the production
  driver (\<open>ValkeyPgLaws\<close>) interpret each of them.
\<close>

section \<open>Event log\<close>

locale event_log =
  fixes inv :: "'d \<Rightarrow> bool"
    and log :: "'i \<Rightarrow> 'd \<Rightarrow> 'r list"
    and seq_of :: "'r \<Rightarrow> int"
    and append :: "'i \<Rightarrow> 'w list \<Rightarrow> int option \<Rightarrow> 'd \<Rightarrow> (error + int) \<times> 'd"
    and readf :: "'i \<Rightarrow> int \<Rightarrow> 'd \<Rightarrow> 'r list"
    and head :: "'i \<Rightarrow> 'd \<Rightarrow> int"
  assumes inv_append: "inv d \<Longrightarrow> inv (snd (append i es f d))"
    and log_seqs: "inv d \<Longrightarrow> map seq_of (log i d) = [1..head i d]"
    and head_length: "inv d \<Longrightarrow> head i d = int (length (log i d))"
    and read_log: "inv d \<Longrightarrow> readf i from d = filter (\<lambda>r. from \<le> seq_of r) (log i d)"
    and append_ok: "inv d \<Longrightarrow> append i es f d = (Inr s, d') \<Longrightarrow>
          \<exists>new. log i d' = log i d @ new \<and> length new = length es \<and> s = head i d'"
    and append_err: "append i es f d = (Inl e, d') \<Longrightarrow> d' = d"
    and append_other: "i \<noteq> j \<Longrightarrow> log j (snd (append i es f d)) = log j d"
begin

lemma head_nonneg: "inv d \<Longrightarrow> 0 \<le> head i d"
  by (simp add: head_length)

lemma seq_range: "inv d \<Longrightarrow> r \<in> set (log i d) \<Longrightarrow> 1 \<le> seq_of r \<and> seq_of r \<le> head i d"
proof -
  assume "inv d" and "r \<in> set (log i d)"
  then have "seq_of r \<in> set [1..head i d]"
    by (metis log_seqs image_eqI list.set_map)
  then show ?thesis by simp
qed

lemma read_all: "inv d \<Longrightarrow> readf i 1 d = log i d"
  by (simp add: read_log filter_id_conv seq_range)

lemma read_drop: "inv d \<Longrightarrow> 0 \<le> q \<Longrightarrow> readf i (q + 1) d = drop (nat q) (log i d)"
  using filter_upto_drop [OF log_seqs, of d "q + 1" i] by (simp add: read_log)

lemma read_past_head: "inv d \<Longrightarrow> head i d < from \<Longrightarrow> readf i from d = []"
  using seq_range [of d] by (fastforce simp: read_log filter_empty_conv)

lemma read_contiguous:
  assumes "inv d" and "1 \<le> from"
  shows "map seq_of (readf i from d) = [from..head i d]"
proof -
  have "map seq_of (readf i from d) = filter (\<lambda>k. from \<le> k) (map seq_of (log i d))"
    using assms(1) by (simp add: read_log filter_map o_def)
  also have "\<dots> = filter (\<lambda>k. from \<le> k) [1..head i d]"
    using assms(1) by (simp add: log_seqs)
  also have "\<dots> = [from..head i d]"
  proof (rule sorted_distinct_set_unique)
    show "set (filter (\<lambda>k. from \<le> k) [1..head i d]) = set [from..head i d]"
      using assms(2) by auto
  qed (auto simp: sorted_filter [where f = id, simplified])
  finally show ?thesis .
qed

text \<open>What was read from one past the old head after an append is what was appended.\<close>

lemma append_read_back:
  assumes inv: "inv d" and ap: "append i es f d = (Inr s, d')"
  shows "s = head i d + int (length es)"
    and "log i d' = log i d @ readf i (head i d + 1) d'"
proof -
  obtain new where new: "log i d' = log i d @ new" "length new = length es" "s = head i d'"
    using append_ok [OF inv ap] by blast
  have inv': "inv d'"
    using inv_append [OF inv, of i es f] ap by simp
  have hd': "head i d' = head i d + int (length es)"
    using new head_length [OF inv] head_length [OF inv'] by simp
  then show "s = head i d + int (length es)"
    using new by simp
  have "map seq_of (log i d) @ map seq_of new = [1..head i d']"
    using log_seqs [OF inv', of i] new by simp
  moreover have "[1..head i d'] = [1..head i d] @ [head i d + 1..head i d']"
    using head_nonneg [OF inv, of i] hd' by (intro upto_append) auto
  ultimately have "map seq_of new = [head i d + 1..head i d']"
    using log_seqs [OF inv, of i] by simp
  then have "\<forall>r\<in>set new. head i d + 1 \<le> seq_of r"
    by (metis atLeastAtMost_iff image_eqI list.set_map set_upto)
  then have "filter (\<lambda>r. head i d + 1 \<le> seq_of r) new = new"
    by (simp add: filter_id_conv)
  moreover have "filter (\<lambda>r. head i d + 1 \<le> seq_of r) (log i d) = []"
    using seq_range [OF inv] by (fastforce simp: filter_empty_conv)
  ultimately show "log i d' = log i d @ readf i (head i d + 1) d'"
    using new read_log [OF inv'] by simp
qed

lemma log_grows:
  assumes "inv d"
  shows "\<exists>new. log i (snd (append j es f d)) = log i d @ new"
proof (cases "i = j")
  case True
  obtain r d' where ap: "append j es f d = (r, d')" by (cases "append j es f d")
  show ?thesis
  proof (cases r)
    case (Inl e)
    with ap append_err have "d' = d" by blast
    with ap show ?thesis by simp
  next
    case (Inr s)
    with append_ok [OF assms] ap True show ?thesis by fastforce
  qed
next
  case False
  then show ?thesis by (simp add: append_other)
qed

end

section \<open>Snapshot slot\<close>

locale snapshot_slot =
  fixes inv :: "'d \<Rightarrow> bool"
    and known :: "'i \<Rightarrow> 'd \<Rightarrow> bool"
    and slots :: "'i \<Rightarrow> 'd \<Rightarrow> (int \<times> 's) list"
    and save :: "'i \<Rightarrow> int \<Rightarrow> 's \<Rightarrow> 'd \<Rightarrow> 'd"
    and load :: "'i \<Rightarrow> 'd \<Rightarrow> (int \<times> 's) option"
  assumes inv_save: "inv d \<Longrightarrow> inv (save i k s d)"
    and slots_save: "inv d \<Longrightarrow> map_get (slots i (save i k s d)) =
                       (map_get (slots i d)) (k := Some s)"
    and known_save: "known i (save i k s d) = known i d"
    and load_sound: "inv d \<Longrightarrow> load i d = Some (k, s) \<Longrightarrow>
          known i d \<and> 0 \<le> k \<and> map_get (slots i d) k = Some s \<and>
          (\<forall>k'. map_has (slots i d) k' \<longrightarrow> k' \<le> k)"
    and load_complete: "inv d \<Longrightarrow> known i d \<Longrightarrow> map_has (slots i d) k \<Longrightarrow> 0 \<le> k \<Longrightarrow> load i d \<noteq> None"
begin

lemma load_save_newest:
  assumes "inv d" and "known i d" and "0 \<le> k" and "\<forall>k'. map_has (slots i d) k' \<longrightarrow> k' \<le> k"
  shows "load i (save i k s d) = Some (k, s)"
proof -
  let ?d = "save i k s d"
  have inv': "inv ?d" and kn: "known i ?d" and has: "map_get (slots i ?d) k = Some s"
    using assms by (simp_all add: inv_save known_save slots_save)
  obtain k1 s1 where l: "load i ?d = Some (k1, s1)"
    using load_complete [OF inv' kn, of k] has assms(3) by auto
  note ls = load_sound [OF inv' l]
  have "k \<le> k1" using ls has by auto
  moreover have "k1 \<le> k"
  proof (cases "k1 = k")
    case False
    then have "map_has (slots i d) k1"
      using ls assms(1) by (auto simp: slots_save)
    with assms(4) show ?thesis by blast
  qed simp
  ultimately have "k1 = k" by simp
  with l ls has show ?thesis by simp
qed

text \<open>The retention slot at a negative seq is never what a load returns, nor does it hide one.\<close>

lemma load_save_retention:
  assumes "inv d" and "k < 0"
  shows "load i (save i k s d) = load i d"
proof -
  let ?d = "save i k s d"
  have inv': "inv ?d" using assms by (simp add: inv_save)
  have same: "0 \<le> k' \<Longrightarrow> map_get (slots i ?d) k' = map_get (slots i d) k'" for k'
    using assms by (simp add: slots_save)
  show ?thesis
  proof (cases "load i d")
    case None
    have False if "load i ?d = Some (k1, s1)" for k1 s1
    proof -
      from load_sound [OF inv' that] have "known i d" "0 \<le> k1" "map_has (slots i d) k1"
        using same by (auto simp: known_save)
      with load_complete [OF assms(1)] None show False by blast
    qed
    with None show ?thesis by (cases "load i ?d") auto
  next
    case (Some p)
    obtain k1 s1 where p: "p = (k1, s1)" by (cases p)
    note ls = load_sound [OF assms(1) Some [unfolded p]]
    have "known i ?d" "map_has (slots i ?d) k1" "0 \<le> k1"
      using ls same by (auto simp: known_save)
    then obtain k2 s2 where l2: "load i ?d = Some (k2, s2)"
      using load_complete [OF inv'] by fastforce
    note ls2 = load_sound [OF inv' l2]
    have "k2 \<le> k1" using ls ls2 same by auto
    moreover have "k1 \<le> k2" using ls ls2 same by auto
    ultimately have "k1 = k2" "s1 = s2" using ls ls2 same by auto
    with l2 Some p show ?thesis by simp
  qed
qed

end

section \<open>Durable inbox\<close>

locale durable_inbox =
  fixes inv :: "'d \<Rightarrow> bool"
    and issued :: "'d \<Rightarrow> string \<Rightarrow> bool"
    and pending :: "'i \<Rightarrow> 'd \<Rightarrow> (string \<times> 'e) list"
    and append :: "'i \<Rightarrow> 'e \<Rightarrow> 'd \<Rightarrow> string \<times> 'd"
    and ack :: "'i \<Rightarrow> string list \<Rightarrow> 'd \<Rightarrow> 'd"
    and readf :: "'i \<Rightarrow> int \<Rightarrow> 'd \<Rightarrow> (string \<times> 'e) list"
    and count :: "'i \<Rightarrow> 'd \<Rightarrow> nat"
  assumes inv_append: "inv d \<Longrightarrow> inv (snd (append i e d))"
    and inv_ack: "inv d \<Longrightarrow> \<forall>k\<in>set ids. issued d k \<Longrightarrow> inv (ack i ids d)"
    and issued_append: "append i e d = (k, d') \<Longrightarrow> issued d' k"
    and issued_mono: "issued d k \<Longrightarrow> issued (snd (append i e d)) k"
    and issued_ack: "issued (ack i ids d) k \<longleftrightarrow> issued d k"
    and pending_issued: "inv d \<Longrightarrow> r \<in> set (pending i d) \<Longrightarrow> issued d (fst r)"
    and pending_distinct: "inv d \<Longrightarrow> distinct (map fst (pending i d))"
    and pending_append: "inv d \<Longrightarrow> append i e d = (k, d') \<Longrightarrow>
          pending i d' = pending i d @ [(k, e)] \<and> \<not> issued d k"
    and append_other: "i \<noteq> j \<Longrightarrow> pending j (snd (append i e d)) = pending j d"
    and pending_ack: "inv d \<Longrightarrow>
          pending i (ack i ids d) = filter (\<lambda>r. fst r \<notin> set ids) (pending i d)"
    and ack_other: "i \<noteq> j \<Longrightarrow> pending j (ack i ids d) = pending j d"
    and read_take: "inv d \<Longrightarrow> 0 < n \<Longrightarrow> readf i n d = take (nat n) (pending i d)"
    and count_length: "inv d \<Longrightarrow> count i d = length (pending i d)"
begin

lemma append_ack_cancel:
  assumes "inv d" and "append i e d = (k, d')"
  shows "pending i (ack i [k] d') = pending i d"
proof -
  have "inv d'" using inv_append [OF assms(1), of i e] assms(2) by simp
  moreover have "\<forall>r\<in>set (pending i d). fst r \<noteq> k"
    using pending_append [OF assms] pending_issued [OF assms(1)] by blast
  ultimately show ?thesis
    using pending_append [OF assms] by (simp add: pending_ack filter_id_conv)
qed

lemma ack_idem:
  "inv d \<Longrightarrow> \<forall>k\<in>set ids. issued d k \<Longrightarrow>
   pending i (ack i ids (ack i ids d)) = pending i (ack i ids d)"
  by (simp add: pending_ack inv_ack)

lemma ack_oldest:
  assumes "inv d" and "pending i d = (k, e) # rest"
  shows "pending i (ack i [k] d) = rest"
proof -
  have "k \<notin> fst ` set rest"
    using pending_distinct [OF assms(1), of i] assms(2) by auto
  then show ?thesis
    using assms by (force simp: pending_ack filter_id_conv)
qed

lemma read_all: "inv d \<Longrightarrow> int (length (pending i d)) \<le> n \<Longrightarrow> 0 < n \<Longrightarrow> readf i n d = pending i d"
  by (simp add: read_take)

lemma ack_read: "inv d \<Longrightarrow> 0 < n \<Longrightarrow> pending i (ack i (map fst (readf i n d)) d) = drop (nat n) (pending i d)"
proof -
  assume inv: "inv d" and n: "0 < n"
  let ?p = "pending i d" and ?n = "nat n"
  have d: "distinct (map fst (take ?n ?p) @ map fst (drop ?n ?p))"
    using pending_distinct [OF inv, of i] by (metis append_take_drop_id map_append)
  have "filter (\<lambda>r. fst r \<notin> set (map fst (take ?n ?p))) (take ?n ?p @ drop ?n ?p) = drop ?n ?p"
    using d by (auto simp: filter_empty_conv filter_id_conv simp del: append_take_drop_id)
  then have "filter (\<lambda>r. fst r \<notin> set (map fst (take ?n ?p))) ?p = drop ?n ?p"
    by simp
  then show ?thesis
    using inv n by (simp add: pending_ack read_take)
qed

end

end
