(* ===== verification/MemoryDriver.thy ===== *)
theory MemoryDriver
  imports StorageContract
begin

text \<open>
  The in-memory storage driver (\<open>src/storage/memory.ts\<close>): its state, and the actor, snapshot
  and event operations. Each \<open>Map\<close> field is an association list in insertion order, the two
  levels of \<open>snapshotsByActor\<close> and \<open>eventsByActor\<close> included; \<open>now()\<close> is the field \<open>d_now\<close>.
  An operation that throws returns \<open>Inl\<close> and the driver it leaves behind. Inbox, reminders
  and the class registry have their own theories.
\<close>

section \<open>State\<close>

record actor_row =
  ar_class :: class_name
  ar_version :: version
  ar_createdAt :: ms
  ar_lastActiveAt :: "ms option"
  ar_tombstonedAt :: "ms option"
  ar_tags :: "(string, string) jsmap"
  ar_fence :: int

record snapshot_row =
  sn_ts :: ms
  sn_version :: version
  sn_state :: jsval

record event_row =
  ev_ts :: ms
  ev_version :: version
  ev_type :: string
  ev_payload :: jsval
  ev_causation :: "string option"

record reminder_row =
  rr_when :: ms
  rr_msg :: reminder_msg
  rr_seq :: nat

record idem_row =
  id_response :: jsval
  id_storedAt :: ms
  id_expiresAt :: ms

record driver =
  d_actors :: "(actor_id, actor_row) jsmap"
  d_snapshots :: "(actor_id, (int, snapshot_row) jsmap) jsmap"
  d_events :: "(actor_id, (int, event_row) jsmap) jsmap"
  d_headSeq :: "(actor_id, int) jsmap"
  d_inbox :: "(actor_id, inbox_record list) jsmap"
  d_inboxAcked :: "(actor_id, string set) jsmap"
  d_inboxSeq :: nat
  d_reminders :: "reminder_row list"
  d_reminderSeq :: nat
  d_classVersions :: "(string, class_version_record) jsmap"
  d_classSource :: "(string, bytes) jsmap"
  d_manifests :: "(string, resolved_manifest) jsmap"
  d_idempotency :: "(string, idem_row) jsmap"
  d_audit :: "audit_entry list"
  d_now :: ms

definition empty_driver :: driver where
  "empty_driver =
     \<lparr> d_actors = [], d_snapshots = [], d_events = [], d_headSeq = [], d_inbox = [],
       d_inboxAcked = [], d_inboxSeq = 0, d_reminders = [], d_reminderSeq = 0,
       d_classVersions = [], d_classSource = [], d_manifests = [], d_idempotency = [],
       d_audit = [], d_now = 0 \<rparr>"

section \<open>Actors\<close>

definition registerActor ::
  "actor_id \<Rightarrow> class_name \<Rightarrow> version \<Rightarrow> (string, string) jsmap \<Rightarrow> driver \<Rightarrow> driver" where
  "registerActor i cls v tags d = d \<lparr> d_actors := map_set i
     \<lparr> ar_class = cls, ar_version = v, ar_createdAt = d_now d, ar_lastActiveAt = None,
       ar_tombstonedAt = None, ar_tags = tags, ar_fence = 0 \<rparr> (d_actors d) \<rparr>"

definition loadActorFence :: "actor_id \<Rightarrow> driver \<Rightarrow> int" where
  "loadActorFence i d = (case map_get (d_actors d) i of Some r \<Rightarrow> ar_fence r | None \<Rightarrow> 0)"

definition bumpActorFence :: "actor_id \<Rightarrow> int \<Rightarrow> driver \<Rightarrow> (error + int) \<times> driver" where
  "bumpActorFence i expected d = (
     let actual = loadActorFence i d in
     if actual \<noteq> expected then (Inl (StaleFenceTokenError i expected actual), d)
     else let next = expected + 1 in
       (case map_get (d_actors d) i of
          Some r \<Rightarrow> (Inr next, d \<lparr> d_actors := map_set i (r \<lparr> ar_fence := next \<rparr>) (d_actors d) \<rparr>)
        | None \<Rightarrow> (Inr next, d)))"

definition tombstoneActor :: "actor_id \<Rightarrow> driver \<Rightarrow> driver" where
  "tombstoneActor i d = (case map_get (d_actors d) i of
      Some r \<Rightarrow> d \<lparr> d_actors :=
        map_set i (r \<lparr> ar_tombstonedAt := Some (d_now d) \<rparr>) (d_actors d) \<rparr>
    | None \<Rightarrow> d)"

section \<open>Snapshots\<close>

text \<open>The scan of \<open>loadSnapshot\<close> over the bucket's keys: the largest non-negative one.\<close>

definition best_key :: "int list \<Rightarrow> int option" where
  "best_key ks = foldl (\<lambda>best k.
     if k < 0 then best
     else (case best of None \<Rightarrow> Some k | Some b \<Rightarrow> if k > b then Some k else Some b)) None ks"

definition loadSnapshot :: "actor_id \<Rightarrow> driver \<Rightarrow> snapshot_read option" where
  "loadSnapshot i d = (
     case (map_get (d_snapshots d) i, map_get (d_actors d) i) of
       (Some snaps, Some actor) \<Rightarrow>
         (case best_key (map fst snaps) of
            None \<Rightarrow> None
          | Some best \<Rightarrow> (case map_get snaps best of
                None \<Rightarrow> None
              | Some row \<Rightarrow> Some \<lparr> sr_class = ar_class actor, sr_version = sn_version row,
                                  sr_seq = best, sr_state = sn_state row \<rparr>))
     | _ \<Rightarrow> None)"

definition assertFence :: "actor_id \<Rightarrow> int option \<Rightarrow> driver \<Rightarrow> error + unit" where
  "assertFence i expected d = (case expected of
      None \<Rightarrow> Inr ()
    | Some e \<Rightarrow> let actual = loadActorFence i d in
        if actual \<noteq> e then Inl (StaleFenceTokenError i e actual) else Inr ())"

definition saveSnapshot ::
  "actor_id \<Rightarrow> snapshot_write \<Rightarrow> int option \<Rightarrow> driver \<Rightarrow> (error + unit) \<times> driver" where
  "saveSnapshot i snap expected d = (case assertFence i expected d of
      Inl e \<Rightarrow> (Inl e, d)
    | Inr _ \<Rightarrow>
       let bucket = (case map_get (d_snapshots d) i of Some b \<Rightarrow> b | None \<Rightarrow> []);
           row = \<lparr> sn_ts = d_now d, sn_version = sw_version snap, sn_state = sw_state snap \<rparr>;
           d1 = d \<lparr> d_snapshots := map_set i (map_set (sw_seq snap) row bucket) (d_snapshots d) \<rparr>;
           d2 = (case map_get (d_actors d1) i of
                   Some r \<Rightarrow> d1 \<lparr> d_actors :=
                     map_set i (r \<lparr> ar_lastActiveAt := Some (d_now d) \<rparr>) (d_actors d1) \<rparr>
                 | None \<Rightarrow> d1)
       in (Inr (), d2))"

section \<open>Events\<close>

definition headEventSeq :: "actor_id \<Rightarrow> driver \<Rightarrow> int" where
  "headEventSeq i d = (case map_get (d_headSeq d) i of Some s \<Rightarrow> s | None \<Rightarrow> 0)"

text \<open>The loop of \<open>appendEvents\<close>: consecutive seqs from the head.\<close>

fun append_rows ::
  "ms \<Rightarrow> version \<Rightarrow> int \<Rightarrow> event_write list \<Rightarrow> (int, event_row) jsmap
    \<Rightarrow> int \<times> (int, event_row) jsmap" where
  "append_rows t v seq [] bucket = (seq, bucket)"
| "append_rows t v seq (e # es) bucket =
     append_rows t v (seq + 1) es
       (map_set (seq + 1) \<lparr> ev_ts = t, ev_version = v, ev_type = ew_type e,
                            ev_payload = ew_payload e, ev_causation = ew_causation e \<rparr> bucket)"

definition appendEvents ::
  "actor_id \<Rightarrow> event_write list \<Rightarrow> int option \<Rightarrow> driver \<Rightarrow> (error + int) \<times> driver" where
  "appendEvents i events expected d = (case assertFence i expected d of
      Inl e \<Rightarrow> (Inl e, d)
    | Inr _ \<Rightarrow>
       let head = headEventSeq i d in
       if events = [] then (Inr head, d)
       else (case map_get (d_actors d) i of
          None \<Rightarrow> (Inl (PlainError (''appendEvents: unknown actor '' @ i)), d)
        | Some actor \<Rightarrow>
           let bucket = (case map_get (d_events d) i of Some b \<Rightarrow> b | None \<Rightarrow> []);
               (seq, bucket') = append_rows (d_now d) (ar_version actor) head events bucket
           in (Inr seq, d \<lparr> d_events := map_set i bucket' (d_events d),
                            d_headSeq := map_set i seq (d_headSeq d) \<rparr>)))"

definition event_of_row :: "actor_id \<Rightarrow> int \<Rightarrow> event_row \<Rightarrow> event_record" where
  "event_of_row i k row =
     \<lparr> er_actor = i, er_seq = k, er_ts = ev_ts row, er_version = ev_version row,
       er_type = ev_type row, er_payload = ev_payload row, er_causation = ev_causation row \<rparr>"

definition readEvents :: "actor_id \<Rightarrow> int \<Rightarrow> driver \<Rightarrow> event_record list" where
  "readEvents i fromSeq d = (
     case (map_get (d_events d) i, map_get (d_actors d) i) of
       (Some bucket, Some _) \<Rightarrow>
         map (\<lambda>k. event_of_row i k (the (map_get bucket k)))
             (sort (filter (\<lambda>k. k \<ge> fromSeq) (map fst bucket)))
     | _ \<Rightarrow> [])"

section \<open>The event log invariant\<close>

definition events_of :: "actor_id \<Rightarrow> driver \<Rightarrow> (int, event_row) jsmap" where
  "events_of i d = (case map_get (d_events d) i of Some b \<Rightarrow> b | None \<Rightarrow> [])"

definition event_log_of :: "actor_id \<Rightarrow> driver \<Rightarrow> event_record list" where
  "event_log_of i d = map (\<lambda>(k, row). event_of_row i k row) (events_of i d)"

text \<open>
  The seqs of an actor's events are \<open>1 .. head\<close> in append order, and only registered actors
  have events.
\<close>

definition log_inv :: "driver \<Rightarrow> bool" where
  "log_inv d \<longleftrightarrow> (\<forall>i. map fst (events_of i d) = [1..headEventSeq i d] \<and> 0 \<le> headEventSeq i d
                  \<and> (events_of i d \<noteq> [] \<longrightarrow> map_has (d_actors d) i))"

lemma log_invD:
  assumes "log_inv d"
  shows "map fst (events_of i d) = [1..headEventSeq i d]" "0 \<le> headEventSeq i d"
    "events_of i d \<noteq> [] \<Longrightarrow> map_has (d_actors d) i"
  using assms by (auto simp: log_inv_def)

text \<open>Writes that leave the event maps alone and forget no actor keep the invariant.\<close>

lemma log_inv_cong:
  assumes "log_inv d" and "d_events d' = d_events d" and "d_headSeq d' = d_headSeq d"
    and "\<And>i. map_has (d_actors d) i \<Longrightarrow> map_has (d_actors d') i"
  shows "log_inv d'"
  using assms unfolding log_inv_def events_of_def headEventSeq_def by simp

lemma event_log_cong: "d_events d' = d_events d \<Longrightarrow> event_log_of i d' = event_log_of i d"
  by (simp add: event_log_of_def events_of_def)

lemma log_inv_empty [simp, inv_intros]: "log_inv empty_driver"
  by (simp add: log_inv_def events_of_def headEventSeq_def empty_driver_def)

definition new_row :: "ms \<Rightarrow> version \<Rightarrow> event_write \<Rightarrow> event_row" where
  "new_row t v e = \<lparr> ev_ts = t, ev_version = v, ev_type = ew_type e,
                     ev_payload = ew_payload e, ev_causation = ew_causation e \<rparr>"

lemma append_rows_eq:
  "map fst bucket = [1..seq] \<Longrightarrow> 0 \<le> seq \<Longrightarrow>
   append_rows t v seq es bucket =
     (seq + int (length es),
      bucket @ zip [seq + 1..seq + int (length es)] (map (new_row t v) es))"
proof (induction t v seq es bucket rule: append_rows.induct)
  case (1 t v seq bucket)
  then show ?case by simp
next
  case (2 t v seq e es bucket)
  have fresh: "map_get bucket (seq + 1) = None"
  proof -
    have "seq + 1 \<notin> set (map fst bucket)" using 2(2) by simp
    then show ?thesis by (simp add: map_of_eq_None_iff)
  qed
  have keys: "map fst (map_set (seq + 1) (new_row t v e) bucket) = [1..seq + 1]"
    using 2(2,3) upto_append [of seq "seq + 1"] by (simp add: map_set_fresh fresh)
  have "[seq + 1..seq + int (length (e # es))] =
        (seq + 1) # [seq + 1 + 1..seq + 1 + int (length es)]"
    by (simp add: upto_rec1 algebra_simps)
  then show ?case
    using 2(1) [OF keys [unfolded new_row_def]] 2(3)
    by (simp add: map_set_fresh fresh new_row_def)
qed

definition new_record :: "actor_id \<Rightarrow> ms \<Rightarrow> version \<Rightarrow> int \<Rightarrow> event_write \<Rightarrow> event_record" where
  "new_record i t v k e = event_of_row i k (new_row t v e)"

lemma appendEvents_cases:
  assumes "log_inv d"
  obtains (stale) f where "fence = Some f" "f \<noteq> loadActorFence i d"
      "appendEvents i es fence d = (Inl (StaleFenceTokenError i f (loadActorFence i d)), d)"
  | (nothing) "es = []" "appendEvents i es fence d = (Inr (headEventSeq i d), d)"
  | (unknown) "es \<noteq> []" "map_get (d_actors d) i = None"
      "appendEvents i es fence d = (Inl (PlainError (''appendEvents: unknown actor '' @ i)), d)"
  | (appended) a where "es \<noteq> []" "map_get (d_actors d) i = Some a"
      "fence = None \<or> fence = Some (loadActorFence i d)"
      "appendEvents i es fence d =
        (Inr (headEventSeq i d + int (length es)),
         d \<lparr> d_events := map_set i (events_of i d @
               zip [headEventSeq i d + 1..headEventSeq i d + int (length es)]
                 (map (new_row (d_now d) (ar_version a)) es)) (d_events d),
             d_headSeq := map_set i (headEventSeq i d + int (length es)) (d_headSeq d) \<rparr>)"
proof (cases "assertFence i fence d")
  case (Inl e)
  then show ?thesis
    using stale by (auto simp: assertFence_def appendEvents_def Let_def split: option.splits if_splits)
next
  case (Inr u)
  then have f: "fence = None \<or> fence = Some (loadActorFence i d)"
    by (auto simp: assertFence_def Let_def split: option.splits if_splits)
  consider "es = []" | "es \<noteq> []" "map_get (d_actors d) i = None"
    | a where "es \<noteq> []" "map_get (d_actors d) i = Some a"
    by (cases "map_get (d_actors d) i") auto
  then show ?thesis
  proof cases
    case 1
    with Inr show ?thesis by - (rule nothing, simp_all add: appendEvents_def Let_def)
  next
    case 2
    with Inr show ?thesis by - (rule unknown, simp_all add: appendEvents_def Let_def)
  next
    case (3 a)
    have bucket: "(case map_get (d_events d) i of Some b \<Rightarrow> b | None \<Rightarrow> []) = events_of i d"
      by (simp add: events_of_def)
    show ?thesis
      by (rule appended [OF 3 f])
         (simp add: appendEvents_def Inr 3 Let_def bucket
            append_rows_eq [OF log_invD(1,2) [OF assms, of i]])
  qed
qed

lemma events_of_update [simp]:
  "events_of j (d \<lparr> d_events := map_set i b (d_events d), d_headSeq := h \<rparr>) =
     (if j = i then b else events_of j d)"
  by (simp add: events_of_def)

lemma headEventSeq_update [simp]:
  "headEventSeq j (d \<lparr> d_events := x, d_headSeq := map_set i h (d_headSeq d) \<rparr>) =
     (if j = i then h else headEventSeq j d)"
  by (simp add: headEventSeq_def)

lemma appendEvents_effect:
  assumes "log_inv d"
  obtains (err) e where "appendEvents i es fence d = (Inl e, d)"
  | (noop) "es = []" "appendEvents i es fence d = (Inr (headEventSeq i d), d)"
  | (ok) a d' where "es \<noteq> []" "map_get (d_actors d) i = Some a"
      "fence = None \<or> fence = Some (loadActorFence i d)"
      "appendEvents i es fence d = (Inr (headEventSeq i d + int (length es)), d')"
      "\<And>j. headEventSeq j d' =
         (if j = i then headEventSeq i d + int (length es) else headEventSeq j d)"
      "\<And>j. events_of j d' =
         (if j = i then events_of i d @
             zip [headEventSeq i d + 1..headEventSeq i d + int (length es)]
               (map (new_row (d_now d) (ar_version a)) es)
          else events_of j d)"
      "d_actors d' = d_actors d" "d_snapshots d' = d_snapshots d" "d_now d' = d_now d"
      "d_inbox d' = d_inbox d" "d_inboxAcked d' = d_inboxAcked d" "d_inboxSeq d' = d_inboxSeq d"
  using assms
proof (cases rule: appendEvents_cases [where i = i and es = es and fence = fence])
  case (appended a)
  show ?thesis by (rule ok [OF appended]) simp_all
qed (use err noop in blast)+

lemma log_inv_appendEvents [inv_intros]:
  assumes "log_inv d"
  shows "log_inv (snd (appendEvents i es fence d))"
  using assms
proof (cases rule: appendEvents_effect [where i = i and es = es and fence = fence])
  case (ok a d')
  note d = log_invD [OF assms]
  show ?thesis
    unfolding log_inv_def ok(4) snd_conv ok(5,6,7)
    using d ok(2) upto_append [of "headEventSeq i d" "headEventSeq i d + int (length es)"]
    by simp
qed (use assms in simp_all)

lemma appendEvents_log:
  assumes "log_inv d" and "appendEvents i es fence d = (Inr s, d')"
  shows "s = headEventSeq i d + int (length es) \<and> headEventSeq i d' = s \<and>
         (\<exists>v. event_log_of i d' = event_log_of i d @
           map2 (new_record i (d_now d) v) [headEventSeq i d + 1..s] es)"
  using assms(1)
proof (cases rule: appendEvents_effect [where i = i and es = es and fence = fence])
  case (ok a d'')
  with assms(2) show ?thesis
    by (auto intro!: exI [of _ "ar_version a"]
          simp: event_log_of_def new_record_def zip_map2 split_def)
qed (use assms(2) in auto)

lemma event_log_other:
  "i \<noteq> j \<Longrightarrow> event_log_of j (snd (appendEvents i es fence d)) = event_log_of j d"
  by (auto simp: appendEvents_def event_log_of_def events_of_def Let_def
           split: sum.splits option.splits prod.splits)

lemma event_log_seqs: "map er_seq (event_log_of i d) = map fst (events_of i d)"
  by (simp add: event_log_of_def event_of_row_def split_def)

lemma readEvents_log:
  assumes "log_inv d"
  shows "readEvents i from d = filter (\<lambda>r. from \<le> er_seq r) (event_log_of i d)"
proof (cases "map_get (d_events d) i")
  case None
  then show ?thesis by (simp add: readEvents_def event_log_of_def events_of_def)
next
  case (Some b)
  then have b: "events_of i d = b" by (simp add: events_of_def)
  have keys: "map fst b = [1..headEventSeq i d]"
    using log_invD(1) [OF assms, of i] b by simp
  then have "distinct (map fst b)" and "sorted (map fst b)" by simp_all
  show ?thesis
  proof (cases "map_get (d_actors d) i")
    case None
    with log_invD(3) [OF assms, of i] b have "b = []" by auto
    with Some None b show ?thesis by (simp add: readEvents_def event_log_of_def)
  next
    case (Some a)
    have "sort (filter (\<lambda>k. k \<ge> from) (map fst b)) = filter (\<lambda>k. k \<ge> from) (map fst b)"
      using keys by (simp add: sorted_sort_id sorted_filter [where f = id, simplified])
    then have "readEvents i from d =
               map (\<lambda>k. event_of_row i k (the (map_get b k))) (map fst (filter (\<lambda>p. from \<le> fst p) b))"
      using Some \<open>map_get (d_events d) i = Some b\<close> by (simp add: readEvents_def filter_map o_def)
    also have "\<dots> = map (\<lambda>(k, row). event_of_row i k row) (filter (\<lambda>p. from \<le> fst p) b)"
      using \<open>distinct (map fst b)\<close> by (auto simp: o_def)
    also have "\<dots> = filter (\<lambda>r. from \<le> er_seq r) (event_log_of i d)"
      by (simp add: event_log_of_def b filter_map o_def split_def event_of_row_def)
    finally show ?thesis .
  qed
qed

interpretation mem_log: event_log log_inv event_log_of er_seq appendEvents readEvents headEventSeq
proof
  fix d :: driver and i j :: actor_id and es f
  assume inv: "log_inv d"
  show "log_inv (snd (appendEvents i es f d))"
    by (rule log_inv_appendEvents [OF inv])
  show seqs: "map er_seq (event_log_of i d) = [1..headEventSeq i d]"
    by (simp add: event_log_seqs log_invD(1) [OF inv])
  have "length (event_log_of i d) = length (map er_seq (event_log_of i d))" by simp
  also have "\<dots> = nat (headEventSeq i d)" unfolding seqs by simp
  finally show "headEventSeq i d = int (length (event_log_of i d))"
    using log_invD(2) [OF inv, of i] by simp
  show "readEvents i k d = filter (\<lambda>r. k \<le> er_seq r) (event_log_of i d)" for k
    by (rule readEvents_log [OF inv])
  show "\<exists>new. event_log_of i d' = event_log_of i d @ new \<and> length new = length es
              \<and> s = headEventSeq i d'" if "appendEvents i es f d = (Inr s, d')" for s d'
    using appendEvents_log [OF inv that] by auto
next
  fix d d' :: driver and i es f and e :: error
  assume "appendEvents i es f d = (Inl e, d')"
  then show "d' = d"
    by (auto simp: appendEvents_def Let_def split: sum.splits option.splits if_splits prod.splits)
next
  fix i j :: actor_id and d :: driver and es f
  assume "i \<noteq> j"
  then show "event_log_of j (snd (appendEvents i es f d)) = event_log_of j d"
    by (rule event_log_other)
qed

section \<open>Snapshot lemmas\<close>

lemma best_key_snoc:
  "best_key (ks @ [k]) =
     (if k < 0 then best_key ks
      else (case best_key ks of None \<Rightarrow> Some k | Some b \<Rightarrow> if k > b then Some k else Some b))"
  by (simp add: best_key_def)

lemma best_key_None: "best_key ks = None \<longleftrightarrow> (\<forall>k\<in>set ks. k < 0)"
  by (induction ks rule: rev_induct)
     (auto simp: best_key_snoc best_key_def [of "[]"] split: option.splits)

lemma best_key_Some:
  "best_key ks = Some b \<Longrightarrow> b \<in> set ks \<and> 0 \<le> b \<and> (\<forall>k\<in>set ks. k \<le> b)"
proof (induction ks arbitrary: b rule: rev_induct)
  case Nil
  then show ?case by (simp add: best_key_def)
next
  case (snoc k ks)
  show ?case
  proof (cases "best_key ks")
    case None
    then have "\<forall>x\<in>set ks. x < 0" by (simp add: best_key_None)
    with None snoc.prems show ?thesis
      by (force simp: best_key_snoc split: if_splits)
  next
    case (Some b')
    with snoc.IH [OF Some] snoc.prems show ?thesis
      by (fastforce simp: best_key_snoc split: if_splits)
  qed
qed

definition snaps_of :: "actor_id \<Rightarrow> driver \<Rightarrow> (int, snapshot_row) jsmap" where
  "snaps_of i d = (case map_get (d_snapshots d) i of Some b \<Rightarrow> b | None \<Rightarrow> [])"

lemma loadSnapshot_Some:
  "loadSnapshot i d = Some r \<longleftrightarrow>
     (\<exists>a row. map_get (d_actors d) i = Some a \<and> best_key (map fst (snaps_of i d)) = Some (sr_seq r)
        \<and> map_get (snaps_of i d) (sr_seq r) = Some row
        \<and> r = \<lparr> sr_class = ar_class a, sr_version = sn_version row, sr_seq = sr_seq r,
               sr_state = sn_state row \<rparr>)"
  unfolding loadSnapshot_def snaps_of_def
  by (auto simp: best_key_def split: option.splits)

lemma best_key_row:
  assumes "best_key (map fst m) = Some b"
  shows "map_get m b \<noteq> None"
  using best_key_Some [OF assms] by (simp add: map_of_eq_None_iff)

lemma loadSnapshot_None:
  "loadSnapshot i d = None \<longleftrightarrow>
     map_get (d_actors d) i = None \<or> (\<forall>k\<in>fst ` set (snaps_of i d). k < 0)"
proof -
  have "loadSnapshot i d = None \<longleftrightarrow>
        map_get (d_actors d) i = None \<or> best_key (map fst (snaps_of i d)) = None"
    using best_key_row [of "snaps_of i d"]
    by (auto simp: loadSnapshot_def snaps_of_def best_key_def [of "[]"] split: option.splits)
  then show ?thesis by (simp add: best_key_None)
qed

lemma saveSnapshot_effect:
  "saveSnapshot i snap fence d = (r, d') \<Longrightarrow>
     (case r of
        Inl e \<Rightarrow> d' = d \<and> (\<exists>f. fence = Some f \<and> f \<noteq> loadActorFence i d
                    \<and> e = StaleFenceTokenError i f (loadActorFence i d))
      | Inr _ \<Rightarrow>
          (fence = None \<or> fence = Some (loadActorFence i d)) \<and>
          snaps_of i d' = map_set (sw_seq snap)
            \<lparr> sn_ts = d_now d, sn_version = sw_version snap, sn_state = sw_state snap \<rparr> (snaps_of i d)
          \<and> (\<forall>j. j \<noteq> i \<longrightarrow> snaps_of j d' = snaps_of j d)
          \<and> (\<forall>j. loadActorFence j d' = loadActorFence j d)
          \<and> (\<forall>j. map_option ar_class (map_get (d_actors d') j) = map_option ar_class (map_get (d_actors d) j))
          \<and> (\<forall>j. map_option ar_version (map_get (d_actors d') j)
                  = map_option ar_version (map_get (d_actors d) j))
          \<and> d_events d' = d_events d \<and> d_headSeq d' = d_headSeq d \<and> d_now d' = d_now d
          \<and> d_inbox d' = d_inbox d \<and> d_inboxAcked d' = d_inboxAcked d \<and> d_inboxSeq d' = d_inboxSeq d)"
  by (auto simp: saveSnapshot_def assertFence_def Let_def snaps_of_def loadActorFence_def
           split: sum.splits option.splits if_splits)

lemma has_of_option_eq:
  "map_option f (map_get m' j) = map_option f (map_get m j) \<Longrightarrow> map_has m' j = map_has m j"
  by (cases "map_get m j"; cases "map_get m' j") auto

lemma log_inv_saveSnapshot [inv_intros]:
  assumes "log_inv d"
  shows "log_inv (snd (saveSnapshot i snap fence d))"
proof (cases "saveSnapshot i snap fence d")
  case (Pair r d')
  note e = saveSnapshot_effect [OF Pair]
  show ?thesis
  proof (cases r)
    case (Inl x)
    with e Pair assms show ?thesis by simp
  next
    case (Inr x)
    with e have "map_has (d_actors d') j = map_has (d_actors d) j" for j
      by (auto dest!: spec [of _ j] has_of_option_eq)
    with e Inr assms Pair show ?thesis
      by (auto intro: log_inv_cong)
  qed
qed

lemma log_inv_registerActor [inv_intros]: "log_inv d \<Longrightarrow> log_inv (registerActor i c v t d)"
  by (erule log_inv_cong) (auto simp: registerActor_def)

lemma log_inv_tombstoneActor [inv_intros]: "log_inv d \<Longrightarrow> log_inv (tombstoneActor i d)"
  by (erule log_inv_cong) (auto simp: tombstoneActor_def split: option.splits)

lemma log_inv_bumpActorFence [inv_intros]: "log_inv d \<Longrightarrow> log_inv (snd (bumpActorFence i f d))"
  by (erule log_inv_cong) (auto simp: bumpActorFence_def Let_def split: option.splits)

text \<open>The snapshot slot seen through an unfenced save: \<open>(version, state)\<close> by seq.\<close>

definition mem_slots :: "actor_id \<Rightarrow> driver \<Rightarrow> (int \<times> version \<times> jsval) list" where
  "mem_slots i d = map (\<lambda>(k, row). (k, sn_version row, sn_state row)) (snaps_of i d)"

definition mem_save :: "class_name \<Rightarrow> actor_id \<Rightarrow> int \<Rightarrow> version \<times> jsval \<Rightarrow> driver \<Rightarrow> driver" where
  "mem_save c i k s d = snd (saveSnapshot i
     \<lparr> sw_class = c, sw_version = fst s, sw_seq = k, sw_state = snd s \<rparr> None d)"

definition mem_load :: "actor_id \<Rightarrow> driver \<Rightarrow> (int \<times> version \<times> jsval) option" where
  "mem_load i d = map_option (\<lambda>r. (sr_seq r, sr_version r, sr_state r)) (loadSnapshot i d)"

lemma mem_slots_get:
  "map_get (mem_slots i d) k =
     map_option (\<lambda>row. (sn_version row, sn_state row)) (map_get (snaps_of i d) k)"
  by (simp add: mem_slots_def map_of_map)

lemma mem_save_effect:
  "map_get (snaps_of i (mem_save c i k s d)) =
     (map_get (snaps_of i d)) (k \<mapsto> \<lparr> sn_ts = d_now d, sn_version = fst s, sn_state = snd s \<rparr>)"
  "map_has (d_actors (mem_save c i k s d)) j = map_has (d_actors d) j"
proof -
  let ?w = "\<lparr> sw_class = c, sw_version = fst s, sw_seq = k, sw_state = snd s \<rparr>"
  obtain r d' where p: "saveSnapshot i ?w None d = (r, d')"
    by (cases "saveSnapshot i ?w None d")
  note e = saveSnapshot_effect [OF p]
  then have r: "r = Inr ()" by (cases r) auto
  show "map_get (snaps_of i (mem_save c i k s d)) =
     (map_get (snaps_of i d)) (k \<mapsto> \<lparr> sn_ts = d_now d, sn_version = fst s, sn_state = snd s \<rparr>)"
    using e r p by (simp add: mem_save_def fun_eq_iff)
  show "map_has (d_actors (mem_save c i k s d)) j = map_has (d_actors d) j"
    using e r p by (auto simp: mem_save_def dest!: spec [of _ j] has_of_option_eq)
qed

interpretation mem_snap: snapshot_slot "\<lambda>_. True" "\<lambda>i d. map_has (d_actors d) i" mem_slots
  "mem_save c" mem_load for c
proof
  fix d i k s
  show "map_get (mem_slots i (mem_save c i k s d)) = (map_get (mem_slots i d)) (k := Some s)"
    by (simp add: mem_slots_get mem_save_effect fun_eq_iff)
  show "map_has (d_actors (mem_save c i k s d)) i = map_has (d_actors d) i"
    by (rule mem_save_effect)
next
  fix d i k s
  assume "mem_load i d = Some (k, s)"
  then obtain r where r: "loadSnapshot i d = Some r" "k = sr_seq r" "s = (sr_version r, sr_state r)"
    by (auto simp: mem_load_def)
  from r(1) [unfolded loadSnapshot_Some] obtain a row where
    l: "map_get (d_actors d) i = Some a" "best_key (map fst (snaps_of i d)) = Some k"
       "map_get (snaps_of i d) k = Some row" "s = (sn_version row, sn_state row)"
    using r(2,3) by (metis snapshot_read.select_convs(2,4))
  show "map_has (d_actors d) i \<and> 0 \<le> k \<and> map_get (mem_slots i d) k = Some s \<and>
        (\<forall>k'. map_has (mem_slots i d) k' \<longrightarrow> k' \<le> k)"
    using l best_key_Some [OF l(2)] map_of_SomeD [of "snaps_of i d"]
    by (fastforce simp: mem_slots_get)
next
  fix d i k
  assume has: "map_has (d_actors d) i" "map_has (mem_slots i d) k" "0 \<le> k"
  then obtain row where "map_get (snaps_of i d) k = Some row"
    by (auto simp: mem_slots_get)
  then have "k \<in> fst ` set (snaps_of i d)"
    using map_of_SomeD by force
  with has show "mem_load i d \<noteq> None"
    by (auto simp: mem_load_def loadSnapshot_None not_less)
qed

section \<open>Properties\<close>

text \<open>
  C1. An accepted append assigns the seqs \<open>head + 1 ..\<close> without a gap, leaves every earlier event
  as it was, and a read from one past the old head returns exactly the written events in order.
\<close>

theorem events_read_back:
  assumes "log_inv d" and "appendEvents i es fence d = (Inr s, d')"
  shows "s = headEventSeq i d + int (length es)
    \<and> readEvents i 1 d' = readEvents i 1 d @ readEvents i (headEventSeq i d + 1) d'
    \<and> map er_seq (readEvents i (headEventSeq i d + 1) d') = [headEventSeq i d + 1..s]
    \<and> map (\<lambda>r. (er_type r, er_payload r, er_causation r)) (readEvents i (headEventSeq i d + 1) d')
      = map (\<lambda>e. (ew_type e, ew_payload e, ew_causation e)) es"
proof -
  have inv': "log_inv d'"
    using log_inv_appendEvents [OF assms(1), of i es fence] assms(2) by simp
  obtain v where v: "event_log_of i d' = event_log_of i d @
      map2 (new_record i (d_now d) v) [headEventSeq i d + 1..s] es"
    and s: "s = headEventSeq i d + int (length es)" "headEventSeq i d' = s"
    using appendEvents_log [OF assms] by blast
  note rb = mem_log.append_read_back [OF assms]
  have suffix: "readEvents i (headEventSeq i d + 1) d' =
      map2 (new_record i (d_now d) v) [headEventSeq i d + 1..s] es"
    using v rb(2) by simp
  have len: "length [headEventSeq i d + 1..s] = length es"
    by (simp add: s)
  have "map er_seq (readEvents i (headEventSeq i d + 1) d') = [headEventSeq i d + 1..s]"
    using mem_log.read_contiguous [OF inv', of "headEventSeq i d + 1" i] s(2)
      log_invD(2) [OF assms(1), of i] by simp
  moreover have "map (\<lambda>r. (er_type r, er_payload r, er_causation r))
        (readEvents i (headEventSeq i d + 1) d')
      = map (\<lambda>e. (ew_type e, ew_payload e, ew_causation e)) es"
    unfolding suffix using len
    by (rule map_map2_snd) (simp add: new_record_def new_row_def event_of_row_def)
  ultimately show ?thesis
    using s rb mem_log.read_all [OF assms(1)] mem_log.read_all [OF inv'] by simp
qed

definition demo_registered :: driver where
  "demo_registered = registerActor ''a'' ''Cart'' ''1.0.0'' [] empty_driver"

definition demo_write :: "int \<Rightarrow> event_write" where
  "demo_write n = \<lparr> ew_type = ''Added'', ew_payload = JNum n, ew_causation = None \<rparr>"

lemma demo_registered_inv: "log_inv demo_registered"
  unfolding demo_registered_def by (intro inv_intros log_inv_empty)

theorem events_read_back_witness:
  "fst (appendEvents ''a'' [demo_write 1, demo_write 2] (Some 0) demo_registered) = Inr 2 \<and>
   map er_seq (readEvents ''a'' 1
     (snd (appendEvents ''a'' [demo_write 1, demo_write 2] (Some 0) demo_registered))) = [1, 2]"
proof -
  have ap: "appendEvents ''a'' [demo_write 1, demo_write 2] (Some 0) demo_registered =
        (Inr 2, snd (appendEvents ''a'' [demo_write 1, demo_write 2] (Some 0) demo_registered))"
    by (simp add: appendEvents_def demo_registered_def registerActor_def empty_driver_def
        assertFence_def loadActorFence_def headEventSeq_def demo_write_def)
  have "headEventSeq ''a'' demo_registered = 0"
    by (simp add: demo_registered_def registerActor_def empty_driver_def headEventSeq_def)
  then have "map er_seq (readEvents ''a'' 1
      (snd (appendEvents ''a'' [demo_write 1, demo_write 2] (Some 0) demo_registered))) = [1, 2]"
    using events_read_back [OF demo_registered_inv ap]
    by (simp add: upto.simps demo_registered_def registerActor_def empty_driver_def readEvents_def)
  moreover have "fst (appendEvents ''a'' [demo_write 1, demo_write 2] (Some 0) demo_registered) = Inr 2"
    by (subst ap) simp
  ultimately show ?thesis by simp
qed

text \<open>
  C3. Once the fence of a registered actor has been bumped from \<open>f\<close>, the previous owner, who
  still holds \<open>f\<close>, can write neither events nor snapshots: each attempt reports the stale fence
  and leaves the storage exactly as it was.
\<close>

theorem stale_owner_writes_nothing:
  assumes "bumpActorFence i f d = (Inr f', d')" and "map_has (d_actors d) i"
  shows "f' = f + 1 \<and> loadActorFence i d' = f'
    \<and> appendEvents i es (Some f) d' = (Inl (StaleFenceTokenError i f f'), d')
    \<and> saveSnapshot i snap (Some f) d' = (Inl (StaleFenceTokenError i f f'), d')"
proof -
  have "f' = f + 1" and fence: "loadActorFence i d' = f'"
    using assms by (auto simp: bumpActorFence_def Let_def loadActorFence_def
        split: option.splits if_splits)
  then have "assertFence i (Some f) d' = Inl (StaleFenceTokenError i f f')"
    by (simp add: assertFence_def Let_def)
  then show ?thesis
    using \<open>f' = f + 1\<close> fence by (simp add: appendEvents_def saveSnapshot_def)
qed

theorem stale_owner_writes_nothing_witness:
  "fst (appendEvents ''a'' [demo_write 1] (Some 0) (snd (bumpActorFence ''a'' 0 demo_registered)))
     = Inl (StaleFenceTokenError ''a'' 0 1)"
proof -
  have "bumpActorFence ''a'' 0 demo_registered = (Inr 1, snd (bumpActorFence ''a'' 0 demo_registered))"
    and "map_has (d_actors demo_registered) ''a''"
    by (simp_all add: bumpActorFence_def loadActorFence_def demo_registered_def registerActor_def
        empty_driver_def)
  from stale_owner_writes_nothing [OF this] show ?thesis by simp
qed

text \<open>
  A bump for an actor that has no row is acknowledged but not recorded: a second claimant
  with the same expectation succeeds too, and the first one's writes are then refused.
\<close>

theorem bump_without_row_is_lost:
  assumes "map_get (d_actors d) i = None"
  shows "bumpActorFence i 0 d = (Inr 1, d)
    \<and> saveSnapshot i snap (Some 1) d = (Inl (StaleFenceTokenError i 1 0), d)"
  using assms
  by (simp add: bumpActorFence_def loadActorFence_def saveSnapshot_def assertFence_def)

theorem bump_without_row_is_lost_witness:
  "bumpActorFence ''a'' 0 empty_driver = (Inr 1, empty_driver)"
  using bump_without_row_is_lost [of empty_driver "''a''"] by (simp add: empty_driver_def)

text \<open>
  \<open>loadSnapshot\<close> returns the highest non-negative seq ever saved: a save at or above every
  stored seq is what the next load returns, and a save into the negative retention slot is
  never returned and changes no load.
\<close>

theorem snapshot_slots:
  assumes "map_has (d_actors d) i"
  shows "(0 \<le> sw_seq w \<and> (\<forall>k\<in>fst ` set (snaps_of i d). k \<le> sw_seq w) \<longrightarrow>
            mem_load i (snd (saveSnapshot i w None d)) = Some (sw_seq w, sw_version w, sw_state w))
       \<and> (sw_seq w < 0 \<longrightarrow> mem_load i (snd (saveSnapshot i w None d)) = mem_load i d)"
proof -
  have save: "snd (saveSnapshot i w None d) =
              mem_save (sw_class w) i (sw_seq w) (sw_version w, sw_state w) d"
    by (cases w) (simp add: mem_save_def)
  have keys: "map_has (mem_slots i d) k \<longleftrightarrow> k \<in> fst ` set (snaps_of i d)" for k
    by (simp add: mem_slots_get map_of_eq_None_iff)
  show ?thesis
    unfolding save
  proof (intro conjI impI)
    assume "0 \<le> sw_seq w \<and> (\<forall>k\<in>fst ` set (snaps_of i d). k \<le> sw_seq w)"
    with keys have "0 \<le> sw_seq w" "\<forall>k. map_has (mem_slots i d) k \<longrightarrow> k \<le> sw_seq w" by blast+
    then show "mem_load i (mem_save (sw_class w) i (sw_seq w) (sw_version w, sw_state w) d) =
               Some (sw_seq w, sw_version w, sw_state w)"
      using assms by (intro mem_snap.load_save_newest) auto
  next
    assume "sw_seq w < 0"
    then show "mem_load i (mem_save (sw_class w) i (sw_seq w) (sw_version w, sw_state w) d) = mem_load i d"
      by (intro mem_snap.load_save_retention) auto
  qed
qed

theorem snapshot_slots_witness:
  "mem_load ''a'' (snd (saveSnapshot ''a''
     \<lparr> sw_class = ''Cart'', sw_version = ''1.0.0'', sw_seq = 7, sw_state = JNull \<rparr> None demo_registered))
   = Some (7, ''1.0.0'', JNull)"
  using snapshot_slots [of demo_registered "''a''"
      "\<lparr> sw_class = ''Cart'', sw_version = ''1.0.0'', sw_seq = 7, sw_state = JNull \<rparr>"]
  by (simp add: demo_registered_def registerActor_def empty_driver_def snaps_of_def)

end
