(* ===== verification/MemoryRegistry.thy ===== *)
theory MemoryRegistry
  imports MemoryDriver
begin

text \<open>
  The class registry, manifest, idempotency and audit operations of the memory driver
  (\<open>publishClass\<close> to \<open>appendAudit\<close> and \<open>hashBuf\<close> of \<open>src/storage/memory.ts\<close>). The key of a
  version is \<open>name@version\<close>; the hash is the 64-bit \<open>h * 33 + b\<close> on a machine word.
\<close>

section \<open>Hash and keys\<close>

definition hash_step :: "64 word \<Rightarrow> 8 word \<Rightarrow> 64 word" where
  "hash_step h b = push_bit 5 h + h + ucast b"

definition hash_word :: "bytes \<Rightarrow> 64 word" where
  "hash_word buf = foldl hash_step 5381 buf"

fun show_hex :: "nat \<Rightarrow> string" where
  "show_hex n = (let c = (\<lambda>d. char_of (if d < 10 then 48 + d else 87 + d)) in
     if n < 16 then [c n] else show_hex (n div 16) @ [c (n mod 16)])"

declare show_hex.simps [simp del]

definition pad_start :: "nat \<Rightarrow> char \<Rightarrow> string \<Rightarrow> string" where
  "pad_start n c s = replicate (n - length s) c @ s"

definition hashBuf :: "bytes \<Rightarrow> string" where
  "hashBuf buf = pad_start 16 CHR ''0'' (show_hex (unat (hash_word buf)))"

definition mkClassRef :: "class_name \<Rightarrow> version \<Rightarrow> string" where
  "mkClassRef name v = name @ CHR ''@'' # v"

lemma mkClassRef_inject:
  "CHR ''@'' \<notin> set v \<Longrightarrow> CHR ''@'' \<notin> set v' \<Longrightarrow>
   mkClassRef n v = mkClassRef n' v' \<longleftrightarrow> n = n' \<and> v = v'"
proof
  assume "CHR ''@'' \<notin> set v" "CHR ''@'' \<notin> set v'" "mkClassRef n v = mkClassRef n' v'"
  then have "rev v @ CHR ''@'' # rev n = rev v' @ CHR ''@'' # rev n'"
    by (metis mkClassRef_def append.assoc append_Cons append_Nil rev.simps(2) rev_append)
  with \<open>CHR ''@'' \<notin> set v\<close> \<open>CHR ''@'' \<notin> set v'\<close> show "n = n' \<and> v = v'"
    using sep_prefix_inject [of "rev v" _ "rev n" "rev v'" "rev n'"] by simp
qed simp

section \<open>Class versions\<close>

definition publishClass :: "publish_class_input \<Rightarrow> driver \<Rightarrow> (error + unit) \<times> driver" where
  "publishClass input d = (
     let key = mkClassRef (pc_name input) (pc_version input) in
     if map_has (d_classVersions d) key
     then (Inl (VersionAlreadyPublishedError (pc_name input) (pc_version input)), d)
     else
       let sha = hashBuf (pc_source input);
           rec = \<lparr> cv_name = pc_name input, cv_version = pc_version input, cv_sha = sha,
                   cv_deps = pc_deps input, cv_engines = pc_engines input,
                   cv_publishedAt = d_now d, cv_deprecatedAt = None, cv_graceUntil = None,
                   cv_signedBy = map_option sg_signedBy (pc_signature input),
                   cv_floating = (case pc_floating input of Some b \<Rightarrow> b | None \<Rightarrow> False),
                   cv_eventSourced = (case pc_eventSourced input of Some b \<Rightarrow> b | None \<Rightarrow> False) \<rparr>
       in (Inr (), d \<lparr> d_classSource := map_set sha (pc_source input) (d_classSource d),
                       d_classVersions := map_set key rec (d_classVersions d) \<rparr>))"

definition getClassSource :: "class_name \<Rightarrow> version \<Rightarrow> driver \<Rightarrow> bytes option" where
  "getClassSource name v d = (case map_get (d_classVersions d) (mkClassRef name v) of
      None \<Rightarrow> None
    | Some rec \<Rightarrow> map_get (d_classSource d) (cv_sha rec))"

definition listClassVersions :: "class_name \<Rightarrow> driver \<Rightarrow> class_version_record list" where
  "listClassVersions name d =
     map snd (filter (\<lambda>(k, v). starts_with (name @ ''@'') k) (d_classVersions d))"

definition deprecateClassVersion ::
  "class_name \<Rightarrow> version \<Rightarrow> ms option \<Rightarrow> driver \<Rightarrow> (error + unit) \<times> driver" where
  "deprecateClassVersion name v graceUntil d = (
     let key = mkClassRef name v in
     case map_get (d_classVersions d) key of
       None \<Rightarrow> (Inl (PlainError (''unknown class version '' @ key)), d)
     | Some rec \<Rightarrow>
        let rec1 = rec \<lparr> cv_deprecatedAt := Some (d_now d) \<rparr>;
            rec2 = (case graceUntil of None \<Rightarrow> rec1 | Some g \<Rightarrow> rec1 \<lparr> cv_graceUntil := Some g \<rparr>)
        in (Inr (), d \<lparr> d_classVersions := map_set key rec2 (d_classVersions d) \<rparr>))"

section \<open>Manifests, idempotency, audit\<close>

definition loadManifest :: "string \<Rightarrow> driver \<Rightarrow> resolved_manifest option" where
  "loadManifest sha d = map_get (d_manifests d) sha"

definition saveManifest :: "string \<Rightarrow> resolved_manifest \<Rightarrow> driver \<Rightarrow> driver" where
  "saveManifest sha m d = d \<lparr> d_manifests := map_set sha m (d_manifests d) \<rparr>"

definition loadIdempotency :: "string \<Rightarrow> driver \<Rightarrow> idempotency_record option \<times> driver" where
  "loadIdempotency key d = (case map_get (d_idempotency d) key of
      None \<Rightarrow> (None, d)
    | Some row \<Rightarrow>
       if id_expiresAt row \<le> d_now d
       then (None, d \<lparr> d_idempotency := map_delete key (d_idempotency d) \<rparr>)
       else (Some \<lparr> im_key = key, im_response = id_response row,
                    im_storedAt = id_storedAt row \<rparr>, d))"

definition saveIdempotency :: "string \<Rightarrow> jsval \<Rightarrow> ms \<Rightarrow> driver \<Rightarrow> driver" where
  "saveIdempotency key response ttlMs d =
     d \<lparr> d_idempotency := map_set key
       \<lparr> id_response = response, id_storedAt = d_now d, id_expiresAt = d_now d + ttlMs \<rparr>
       (d_idempotency d) \<rparr>"

definition appendAudit :: "audit_entry \<Rightarrow> driver \<Rightarrow> driver" where
  "appendAudit e d = d \<lparr> d_audit := d_audit d @ [e] \<rparr>"

section \<open>Registry lemmas\<close>

text \<open>The part of a version record no operation may change once it is published.\<close>

definition cv_frozen :: "class_version_record \<Rightarrow> class_version_record" where
  "cv_frozen r = r \<lparr> cv_deprecatedAt := None, cv_graceUntil := None \<rparr>"

lemma publishClass_ok:
  "publishClass input d = (Inr u, d') \<Longrightarrow>
     map_get (d_classVersions d) (mkClassRef (pc_name input) (pc_version input)) = None
   \<and> (\<exists>rec. map_get (d_classVersions d') (mkClassRef (pc_name input) (pc_version input)) = Some rec
        \<and> cv_name rec = pc_name input \<and> cv_version rec = pc_version input
        \<and> cv_sha rec = hashBuf (pc_source input) \<and> cv_deprecatedAt rec = None)
   \<and> (\<forall>k. k \<noteq> mkClassRef (pc_name input) (pc_version input) \<longrightarrow>
        map_get (d_classVersions d') k = map_get (d_classVersions d) k)
   \<and> d_classSource d' = map_set (hashBuf (pc_source input)) (pc_source input) (d_classSource d)"
  by (auto simp: publishClass_def Let_def split: if_splits)

lemma publishClass_err:
  "publishClass input d = (Inl e, d') \<Longrightarrow>
     d' = d \<and> e = VersionAlreadyPublishedError (pc_name input) (pc_version input)
     \<and> map_has (d_classVersions d) (mkClassRef (pc_name input) (pc_version input))"
  by (auto simp: publishClass_def Let_def split: if_splits)

lemma publishClass_keeps:
  assumes "map_get (d_classVersions d) k = Some rec"
  shows "map_get (d_classVersions (snd (publishClass input d))) k = Some rec"
  using assms by (auto simp: publishClass_def Let_def)

lemma deprecateClassVersion_keeps:
  assumes "map_get (d_classVersions d) k = Some rec"
  shows "\<exists>rec'. map_get (d_classVersions (snd (deprecateClassVersion n v g d))) k = Some rec'
           \<and> cv_frozen rec' = cv_frozen rec \<and> (cv_deprecatedAt rec \<noteq> None \<longrightarrow> cv_deprecatedAt rec' \<noteq> None)"
  using assms
  by (auto simp: deprecateClassVersion_def Let_def cv_frozen_def split: option.splits)

lemma deprecateClassVersion_source [simp]:
  "d_classSource (snd (deprecateClassVersion n v g d)) = d_classSource d"
  by (auto simp: deprecateClassVersion_def Let_def split: option.splits)

lemma loadIdempotency_other:
  "k \<noteq> key \<Longrightarrow>
   map_get (d_idempotency (snd (loadIdempotency key d))) k = map_get (d_idempotency d) k"
  by (auto simp: loadIdempotency_def split: option.splits)

section \<open>Properties\<close>

datatype registry_op =
    OpPublish publish_class_input
  | OpDeprecate class_name version "ms option"

fun registry_step :: "registry_op \<Rightarrow> driver \<Rightarrow> driver" where
  "registry_step (OpPublish input) d = snd (publishClass input d)"
| "registry_step (OpDeprecate n v g) d = snd (deprecateClassVersion n v g d)"

definition registry_run :: "registry_op list \<Rightarrow> driver \<Rightarrow> driver" where
  "registry_run ops d = foldl (\<lambda>d op. registry_step op d) d ops"

text \<open>
  C5. A published version is immutable: whatever is published or deprecated afterwards, its record
  keeps every field but the deprecation stamp and grace period, a deprecation is never undone,
  and publishing the same name and version again is refused without any change.
\<close>

theorem published_version_immutable:
  assumes "map_get (d_classVersions d) (mkClassRef n v) = Some rec"
  shows "(\<exists>rec'. map_get (d_classVersions (registry_run ops d)) (mkClassRef n v) = Some rec'
            \<and> cv_frozen rec' = cv_frozen rec
            \<and> (cv_deprecatedAt rec \<noteq> None \<longrightarrow> cv_deprecatedAt rec' \<noteq> None))
    \<and> (\<forall>input. pc_name input = n \<and> pc_version input = v \<longrightarrow>
          publishClass input (registry_run ops d) =
            (Inl (VersionAlreadyPublishedError n v), registry_run ops d))"
  using assms
proof (induction ops arbitrary: d rec)
  case Nil
  then show ?case by (auto simp: registry_run_def publishClass_def)
next
  case (Cons op ops)
  have "\<exists>rec1. map_get (d_classVersions (registry_step op d)) (mkClassRef n v) = Some rec1
          \<and> cv_frozen rec1 = cv_frozen rec
          \<and> (cv_deprecatedAt rec \<noteq> None \<longrightarrow> cv_deprecatedAt rec1 \<noteq> None)"
    using publishClass_keeps [OF Cons.prems] deprecateClassVersion_keeps [OF Cons.prems]
    by (cases op) auto
  then obtain rec1 where
    step: "map_get (d_classVersions (registry_step op d)) (mkClassRef n v) = Some rec1"
      "cv_frozen rec1 = cv_frozen rec"
      "cv_deprecatedAt rec \<noteq> None \<longrightarrow> cv_deprecatedAt rec1 \<noteq> None" by blast
  have "registry_run (op # ops) d = registry_run ops (registry_step op d)"
    by (simp add: registry_run_def)
  with Cons.IH [OF step(1)] step(2,3) show ?case by metis
qed

definition demo_input :: "class_name \<Rightarrow> bytes \<Rightarrow> publish_class_input" where
  "demo_input n src = \<lparr> pc_name = n, pc_version = ''1.0.0'', pc_source = src, pc_deps = [],
     pc_engines = [], pc_floating = None, pc_eventSourced = None, pc_signature = None \<rparr>"

definition demo_published :: driver where
  "demo_published = snd (publishClass (demo_input ''Cart'' [97, 98]) empty_driver)"

theorem published_version_immutable_witness:
  "fst (publishClass (demo_input ''Cart'' [1])
     (registry_run [OpDeprecate ''Cart'' ''1.0.0'' None] demo_published))
   = Inl (VersionAlreadyPublishedError ''Cart'' ''1.0.0'')"
proof -
  have "map_get (d_classVersions demo_published) (mkClassRef ''Cart'' ''1.0.0'') \<noteq> None"
    by (simp add: demo_published_def publishClass_def demo_input_def empty_driver_def Let_def)
  then obtain rec where
    "map_get (d_classVersions demo_published) (mkClassRef ''Cart'' ''1.0.0'') = Some rec" by auto
  from published_version_immutable [OF this, of "[OpDeprecate ''Cart'' ''1.0.0'' None]"]
  have "\<forall>input. pc_name input = ''Cart'' \<and> pc_version input = ''1.0.0'' \<longrightarrow>
     fst (publishClass input (registry_run [OpDeprecate ''Cart'' ''1.0.0'' None] demo_published))
     = Inl (VersionAlreadyPublishedError ''Cart'' ''1.0.0'')" by simp
  then show ?thesis by (simp add: demo_input_def)
qed

text \<open>
  The source a version was published with is what \<open>getClassSource\<close> returns after any number
  of later publishes and deprecations, as long as no later source has the same 64-bit hash.
\<close>

theorem published_source_retrievable:
  assumes "publishClass input d = (Inr u, d1)"
    and "\<forall>input'. OpPublish input' \<in> set ops \<longrightarrow> hashBuf (pc_source input') \<noteq> hashBuf (pc_source input)"
  shows "getClassSource (pc_name input) (pc_version input) (registry_run ops d1) = Some (pc_source input)"
proof -
  let ?k = "mkClassRef (pc_name input) (pc_version input)" and ?h = "hashBuf (pc_source input)"
  have start: "\<exists>rec. map_get (d_classVersions d1) ?k = Some rec \<and> cv_sha rec = ?h"
    "map_get (d_classSource d1) ?h = Some (pc_source input)"
    using publishClass_ok [OF assms(1)] by auto
  have "(\<exists>rec. map_get (d_classVersions (registry_run ops d1)) ?k = Some rec \<and> cv_sha rec = ?h)
        \<and> map_get (d_classSource (registry_run ops d1)) ?h = Some (pc_source input)"
    using start assms(2)
  proof (induction ops arbitrary: d1)
    case Nil
    then show ?case by (simp add: registry_run_def)
  next
    case (Cons op ops)
    obtain rec where rec: "map_get (d_classVersions d1) ?k = Some rec" "cv_sha rec = ?h"
      using Cons.prems(1) by blast
    have sha: "cv_frozen r = cv_frozen rec \<Longrightarrow> cv_sha r = ?h" for r
      using rec(2) by (metis cv_frozen_def class_version_record.select_convs(3)
          class_version_record.surjective class_version_record.update_convs(7,8))
    have "(\<exists>rec. map_get (d_classVersions (registry_step op d1)) ?k = Some rec \<and> cv_sha rec = ?h)
        \<and> map_get (d_classSource (registry_step op d1)) ?h = Some (pc_source input)"
    proof (cases op)
      case (OpPublish x)
      with Cons.prems(3) have "hashBuf (pc_source x) \<noteq> ?h" by auto
      with OpPublish rec publishClass_keeps [OF rec(1), of x] Cons.prems(2) show ?thesis
        by (auto simp: publishClass_def Let_def)
    next
      case (OpDeprecate n v g)
      with rec deprecateClassVersion_keeps [OF rec(1), of n v g] Cons.prems(2) sha show ?thesis
        by auto
    qed
    moreover have "registry_run (op # ops) d1 = registry_run ops (registry_step op d1)"
      by (simp add: registry_run_def)
    ultimately show ?case
      using Cons.IH [of "registry_step op d1"] Cons.prems(3) by simp
  qed
  then show ?thesis by (auto simp: getClassSource_def)
qed

theorem published_source_retrievable_witness:
  "getClassSource ''Cart'' ''1.0.0'' (registry_run [OpPublish (demo_input ''Item'' [1])] demo_published)
   = Some [97, 98]"
proof -
  have "publishClass (demo_input ''Cart'' [97, 98]) empty_driver = (Inr (), demo_published)"
    by (simp add: demo_published_def publishClass_def demo_input_def empty_driver_def Let_def)
  moreover have "hashBuf [1] \<noteq> hashBuf [97, 98]"
    by (simp add: hashBuf_def hash_word_def hash_step_def push_bit_eq_mult show_hex.simps pad_start_def)
  ultimately show ?thesis
    using published_source_retrievable [of "demo_input ''Cart'' [97, 98]" empty_driver "()"
        demo_published "[OpPublish (demo_input ''Item'' [1])]"]
    by (simp add: demo_input_def)
qed

text \<open>
  The hypothesis on the hash is needed: \<open>''ab''\<close> and \<open>''bA''\<close> have the same hash, so publishing
  the second as another class silently replaces the source of the first.
\<close>

theorem hash_collision_replaces_source:
  "getClassSource ''Cart'' ''1.0.0'' demo_published = Some [97, 98] \<and>
   fst (publishClass (demo_input ''Item'' [98, 65]) demo_published) = Inr () \<and>
   getClassSource ''Cart'' ''1.0.0'' (snd (publishClass (demo_input ''Item'' [98, 65]) demo_published))
     = Some [98, 65]"
proof -
  have "hashBuf [98, 65] = hashBuf [97, 98]"
    by (simp add: hashBuf_def hash_word_def hash_step_def push_bit_eq_mult)
  then show ?thesis
    by (simp add: demo_published_def publishClass_def demo_input_def empty_driver_def Let_def
        getClassSource_def mkClassRef_def)
qed

text \<open>
  A saved idempotent response is replayed unchanged while its time to live lasts and
  disappears, with its row, once it is over.
\<close>

theorem idempotency_ttl:
  assumes "d1 = saveIdempotency key resp ttl d" and "d2 = d1 \<lparr> d_now := t \<rparr>"
  shows "(t < d_now d + ttl \<longrightarrow> loadIdempotency key d2 =
            (Some \<lparr> im_key = key, im_response = resp, im_storedAt = d_now d \<rparr>, d2))
       \<and> (d_now d + ttl \<le> t \<longrightarrow> fst (loadIdempotency key d2) = None
            \<and> map_get (d_idempotency (snd (loadIdempotency key d2))) key = None)"
  using assms by (auto simp: loadIdempotency_def saveIdempotency_def)

theorem idempotency_ttl_witness:
  "fst (loadIdempotency ''k'' (saveIdempotency ''k'' (JNum 1) 50 empty_driver \<lparr> d_now := 49 \<rparr>))
     = Some \<lparr> im_key = ''k'', im_response = JNum 1, im_storedAt = 0 \<rparr>"
  using idempotency_ttl [of "saveIdempotency ''k'' (JNum 1) 50 empty_driver" "''k''" "JNum 1" 50
      empty_driver _ 49, OF refl refl]
  by (simp add: empty_driver_def)

end
