(* ===== verification/Loader.thy ===== *)
theory Loader
  imports MemoryRegistry
begin

text \<open>
  The class loader (\<open>src/runtime/loader.ts\<close>): a cache of compiled constructors by source hash,
  with reference counts and least-recently-used eviction. Transpiling and evaluating a source
  is the TypeScript compiler and the JavaScript engine: the parameter \<open>compile\<close>, whose checks around the
  two are in \<open>Compile\<close>.
\<close>

record 'c cache_entry =
  ce_sha :: string
  ce_ctor :: 'c
  ce_lastUsedAt :: ms
  ce_refCount :: nat

record 'c class_loader =
  ld_bySha :: "(string, 'c cache_entry) jsmap"
  ld_maxEntries :: nat
  ld_compilations :: nat

type_synonym 'c compiler = "class_name \<Rightarrow> version \<Rightarrow> bytes \<Rightarrow> error + 'c"

definition new_loader :: "nat option \<Rightarrow> 'c class_loader" where
  "new_loader maxEntries = \<lparr> ld_bySha = [],
     ld_maxEntries = (case maxEntries of Some n \<Rightarrow> n | None \<Rightarrow> 256), ld_compilations = 0 \<rparr>"

definition acquire :: "string \<Rightarrow> 'c class_loader \<Rightarrow> 'c class_loader" where
  "acquire sha ld = (case map_get (ld_bySha ld) sha of
      Some e \<Rightarrow> ld \<lparr> ld_bySha := map_set sha (e \<lparr> ce_refCount := ce_refCount e + 1 \<rparr>) (ld_bySha ld) \<rparr>
    | None \<Rightarrow> ld)"

definition release :: "string \<Rightarrow> 'c class_loader \<Rightarrow> 'c class_loader" where
  "release sha ld = (case map_get (ld_bySha ld) sha of
      None \<Rightarrow> ld
    | Some e \<Rightarrow>
       if 0 < ce_refCount e
       then ld \<lparr> ld_bySha := map_set sha (e \<lparr> ce_refCount := ce_refCount e - 1 \<rparr>) (ld_bySha ld) \<rparr>
       else ld)"

definition lookupRecord :: "class_name \<Rightarrow> version \<Rightarrow> driver \<Rightarrow> class_version_record option" where
  "lookupRecord name v d = find (\<lambda>r. cv_version r = v) (listClassVersions name d)"

definition sha256For :: "class_name \<Rightarrow> version \<Rightarrow> driver \<Rightarrow> string option" where
  "sha256For name v d = map_option cv_sha (lookupRecord name v d)"

text \<open>The scan of \<open>maybeEvict\<close> for the least recently used entry without references.\<close>

fun oldest_entry :: "string \<Rightarrow> 'c cache_entry option \<Rightarrow> 'c cache_entry list \<Rightarrow> 'c cache_entry option" where
  "oldest_entry justAdded oldest [] = oldest"
| "oldest_entry justAdded oldest (e # es) =
     (if 0 < ce_refCount e then oldest_entry justAdded oldest es
      else if ce_sha e = justAdded then oldest_entry justAdded oldest es
      else (case oldest of
          None \<Rightarrow> oldest_entry justAdded (Some e) es
        | Some o1 \<Rightarrow> oldest_entry justAdded
            (if ce_lastUsedAt e < ce_lastUsedAt o1 then Some e else oldest) es))"

definition maybeEvict :: "string \<Rightarrow> 'c class_loader \<Rightarrow> 'c class_loader" where
  "maybeEvict justAdded ld = (
     if length (ld_bySha ld) \<le> ld_maxEntries ld then ld
     else (case oldest_entry justAdded None (map snd (ld_bySha ld)) of
        None \<Rightarrow> ld
      | Some e \<Rightarrow> ld \<lparr> ld_bySha := map_delete (ce_sha e) (ld_bySha ld) \<rparr>))"

definition cachePut :: "string \<Rightarrow> 'c \<Rightarrow> ms \<Rightarrow> 'c class_loader \<Rightarrow> 'c class_loader" where
  "cachePut sha c nowMs ld = maybeEvict sha (ld \<lparr> ld_bySha := map_set sha
     \<lparr> ce_sha = sha, ce_ctor = c, ce_lastUsedAt = nowMs, ce_refCount = 0 \<rparr> (ld_bySha ld) \<rparr>)"

definition load_class ::
  "'c compiler \<Rightarrow> class_name \<Rightarrow> version \<Rightarrow> driver \<Rightarrow> 'c class_loader \<Rightarrow> (error + 'c) \<times> 'c class_loader" where
  "load_class compile name v d ld = (case lookupRecord name v d of
      None \<Rightarrow> (Inl (ClassSourceNotFound name v), ld)
    | Some rec \<Rightarrow>
       if (case cv_graceUntil rec of Some g \<Rightarrow> g \<le> d_now d | None \<Rightarrow> False)
       then (Inl (ClassVersionExpired name v), ld)
       else (case map_get (ld_bySha ld) (cv_sha rec) of
          Some e \<Rightarrow> (Inr (ce_ctor e), ld \<lparr> ld_bySha :=
             map_set (cv_sha rec) (e \<lparr> ce_lastUsedAt := d_now d \<rparr>) (ld_bySha ld) \<rparr>)
        | None \<Rightarrow> (case getClassSource name v d of
             None \<Rightarrow> (Inl (ClassSourceNotFound name v), ld)
           | Some src \<Rightarrow>
              let ld1 = ld \<lparr> ld_compilations := ld_compilations ld + 1 \<rparr> in
              (case compile name v src of
                 Inl e \<Rightarrow> (Inl e, ld1)
               | Inr c \<Rightarrow> (Inr c, cachePut (cv_sha rec) c (d_now d) ld1)))))"

lemma acquire_get:
  "map_get (ld_bySha (acquire s ld)) sha =
     (if s = sha then map_option (\<lambda>e. e \<lparr> ce_refCount := ce_refCount e + 1 \<rparr>) (map_get (ld_bySha ld) sha)
      else map_get (ld_bySha ld) sha)"
  by (auto simp: acquire_def split: option.splits)

lemma release_get:
  "map_get (ld_bySha (release s ld)) sha =
     (if s = sha then map_option (\<lambda>e. e \<lparr> ce_refCount := ce_refCount e - 1 \<rparr>) (map_get (ld_bySha ld) sha)
      else map_get (ld_bySha ld) sha)"
  by (cases "map_get (ld_bySha ld) s") (auto simp: release_def)

section \<open>Invariant\<close>

text \<open>
  Entries are filed under their own hash, and each holds what \<open>compile\<close> made of some source
  with that hash among the published sources \<open>K\<close>.
\<close>

definition loader_inv :: "'c compiler \<Rightarrow> bytes set \<Rightarrow> 'c class_loader \<Rightarrow> bool" where
  "loader_inv compile K ld \<longleftrightarrow> map_wf (ld_bySha ld) \<and>
     (\<forall>sha e. map_get (ld_bySha ld) sha = Some e \<longrightarrow> ce_sha e = sha \<and>
        (\<exists>n v src. src \<in> K \<and> hashBuf src = sha \<and> compile n v src = Inr (ce_ctor e)))"

lemma loader_invD:
  assumes "loader_inv compile K ld"
  shows "map_wf (ld_bySha ld)"
    "map_get (ld_bySha ld) sha = Some e \<Longrightarrow> ce_sha e = sha"
    "map_get (ld_bySha ld) sha = Some e \<Longrightarrow> \<exists>n v src. src \<in> K \<and> hashBuf src = sha \<and> compile n v src = Inr (ce_ctor e)"
  using assms by (auto simp: loader_inv_def)

lemma loader_inv_new [inv_intros]: "loader_inv compile K (new_loader n)"
  by (simp add: loader_inv_def new_loader_def)

lemma loader_inv_acquire [inv_intros]: "loader_inv compile K ld \<Longrightarrow> loader_inv compile K (acquire sha ld)"
  by (auto simp: loader_inv_def acquire_def split: option.splits)

lemma loader_inv_release [inv_intros]: "loader_inv compile K ld \<Longrightarrow> loader_inv compile K (release sha ld)"
  by (auto simp: loader_inv_def release_def split: option.splits)

lemma oldest_entry_sound:
  "oldest_entry j acc es = Some e \<Longrightarrow> (\<forall>a. acc = Some a \<longrightarrow> ce_refCount a = 0 \<and> ce_sha a \<noteq> j) \<Longrightarrow>
   ce_refCount e = 0 \<and> ce_sha e \<noteq> j \<and> (e \<in> set es \<or> acc = Some e)"
  by (induction j acc es rule: oldest_entry.induct) (auto split: if_splits option.splits)

lemma oldest_entry_None:
  "oldest_entry j acc es = None \<Longrightarrow> acc = None \<and> (\<forall>e\<in>set es. 0 < ce_refCount e \<or> ce_sha e = j)"
  by (induction j acc es rule: oldest_entry.induct) (auto split: if_splits option.splits)

lemma maybeEvict_effect:
  "(\<exists>e. e \<in> snd ` set (ld_bySha ld) \<and> ce_refCount e = 0 \<and> ce_sha e \<noteq> sha
        \<and> ld_maxEntries ld < length (ld_bySha ld)
        \<and> maybeEvict sha ld = ld \<lparr> ld_bySha := map_delete (ce_sha e) (ld_bySha ld) \<rparr>)
   \<or> (maybeEvict sha ld = ld \<and> (length (ld_bySha ld) \<le> ld_maxEntries ld
        \<or> (\<forall>e\<in>snd ` set (ld_bySha ld). 0 < ce_refCount e \<or> ce_sha e = sha)))"
proof (cases "length (ld_bySha ld) \<le> ld_maxEntries ld")
  case True
  then show ?thesis by (simp add: maybeEvict_def)
next
  case False
  show ?thesis
  proof (cases "oldest_entry sha None (map snd (ld_bySha ld))")
    case None
    with oldest_entry_None [OF None] show ?thesis by (simp add: maybeEvict_def)
  next
    case (Some e)
    have "ce_refCount e = 0 \<and> ce_sha e \<noteq> sha \<and> e \<in> set (map snd (ld_bySha ld))"
      using oldest_entry_sound [OF Some] by simp
    with Some False show ?thesis by (auto simp: maybeEvict_def)
  qed
qed

lemma maybeEvict_get:
  assumes "loader_inv compile K ld" and "map_get (ld_bySha ld) s = Some e"
    and "0 < ce_refCount e \<or> s = sha"
  shows "map_get (ld_bySha (maybeEvict sha ld)) s = Some e"
  using maybeEvict_effect [of ld sha]
proof
  assume "\<exists>e. e \<in> snd ` set (ld_bySha ld) \<and> ce_refCount e = 0 \<and> ce_sha e \<noteq> sha
        \<and> ld_maxEntries ld < length (ld_bySha ld)
        \<and> maybeEvict sha ld = ld \<lparr> ld_bySha := map_delete (ce_sha e) (ld_bySha ld) \<rparr>"
  then obtain k x where x: "(k, x) \<in> set (ld_bySha ld)" "ce_refCount x = 0" "ce_sha x \<noteq> sha"
    "maybeEvict sha ld = ld \<lparr> ld_bySha := map_delete (ce_sha x) (ld_bySha ld) \<rparr>" by auto
  have kx: "map_get (ld_bySha ld) k = Some x"
    using x(1) loader_invD(1) [OF assms(1)] by (simp add: map_wf_get_iff)
  have "ce_sha x = k" by (rule loader_invD(2) [OF assms(1) kx])
  then have "s \<noteq> ce_sha x" using assms(2,3) kx x(2,3) by auto
  then show ?thesis using assms(2) x(4) by simp
qed (use assms(2) in auto)

lemma maybeEvict_sub:
  assumes "map_get (ld_bySha (maybeEvict sha ld)) s = Some e"
  shows "map_get (ld_bySha ld) s = Some e"
  using maybeEvict_effect [of ld sha] assms by (auto split: if_splits)

lemma loader_inv_maybeEvict [inv_intros]:
  assumes "loader_inv compile K ld"
  shows "loader_inv compile K (maybeEvict sha ld)"
proof -
  have "map_wf (ld_bySha (maybeEvict sha ld))"
    using maybeEvict_effect [of ld sha] loader_invD(1) [OF assms] by auto
  with assms maybeEvict_sub [of sha ld] show ?thesis
    unfolding loader_inv_def by blast
qed

lemma loader_inv_cachePut:
  assumes "loader_inv compile K ld" and "src \<in> K" and "hashBuf src = sha" and "compile n v src = Inr c"
  shows "loader_inv compile K (cachePut sha c t ld)"
  unfolding cachePut_def
proof (rule loader_inv_maybeEvict)
  show "loader_inv compile K (ld \<lparr> ld_bySha := map_set sha
     \<lparr> ce_sha = sha, ce_ctor = c, ce_lastUsedAt = t, ce_refCount = 0 \<rparr> (ld_bySha ld) \<rparr>)"
    using assms unfolding loader_inv_def by auto
qed

lemma cachePut_get:
  assumes "loader_inv compile K ld" and "src \<in> K" and "hashBuf src = sha" and "compile n v src = Inr c"
  shows "\<exists>e. map_get (ld_bySha (cachePut sha c t ld)) sha = Some e \<and> ce_ctor e = c"
    and "map_get (ld_bySha ld) s = Some e \<Longrightarrow> 0 < ce_refCount e \<Longrightarrow> s \<noteq> sha \<Longrightarrow>
         map_get (ld_bySha (cachePut sha c t ld)) s = Some e"
proof -
  let ?ld = "ld \<lparr> ld_bySha := map_set sha
     \<lparr> ce_sha = sha, ce_ctor = c, ce_lastUsedAt = t, ce_refCount = 0 \<rparr> (ld_bySha ld) \<rparr>"
  have inv: "loader_inv compile K ?ld"
    using assms unfolding loader_inv_def by auto
  have get: "map_get (ld_bySha ?ld) sha =
      Some \<lparr> ce_sha = sha, ce_ctor = c, ce_lastUsedAt = t, ce_refCount = 0 \<rparr>" by simp
  show "\<exists>e. map_get (ld_bySha (cachePut sha c t ld)) sha = Some e \<and> ce_ctor e = c"
    unfolding cachePut_def using maybeEvict_get [OF inv get, of sha] by simp
  assume "map_get (ld_bySha ld) s = Some e" "0 < ce_refCount e" "s \<noteq> sha"
  then have "map_get (ld_bySha ?ld) s = Some e" by simp
  from maybeEvict_get [OF inv this, of sha] \<open>0 < ce_refCount e\<close>
  show "map_get (ld_bySha (cachePut sha c t ld)) s = Some e" by (simp add: cachePut_def)
qed

text \<open>Every source the driver can hand out is among \<open>K\<close> and filed under its hash.\<close>

definition sources_ok :: "bytes set \<Rightarrow> driver \<Rightarrow> bool" where
  "sources_ok K d \<longleftrightarrow> (\<forall>sha src. map_get (d_classSource d) sha = Some src \<longrightarrow> src \<in> K \<and> hashBuf src = sha)"

text \<open>The record \<open>lookupRecord\<close> finds by prefix is the one \<open>getClassSource\<close> reads by key.\<close>

definition record_agrees :: "class_name \<Rightarrow> version \<Rightarrow> driver \<Rightarrow> bool" where
  "record_agrees name v d \<longleftrightarrow>
     (\<forall>rec. lookupRecord name v d = Some rec \<longrightarrow> map_get (d_classVersions d) (mkClassRef name v) = Some rec)"

lemma load_class_effect:
  assumes inv: "loader_inv compile K ld" and src: "sources_ok K d" and agr: "record_agrees name v d"
    and load: "load_class compile name v d ld = (r, ld')"
  shows "loader_inv compile K ld'"
    and "map_get (ld_bySha ld) s = Some e \<Longrightarrow> 0 < ce_refCount e \<Longrightarrow>
         \<exists>e'. map_get (ld_bySha ld') s = Some e' \<and> ce_ctor e' = ce_ctor e \<and> ce_refCount e' = ce_refCount e"
    and "r = Inr c \<Longrightarrow> \<exists>rec src n' v'. lookupRecord name v d = Some rec \<and> src \<in> K
           \<and> hashBuf src = cv_sha rec \<and> compile n' v' src = Inr c"
proof -
  have "loader_inv compile K ld'
    \<and> (map_get (ld_bySha ld) s = Some e \<longrightarrow> 0 < ce_refCount e \<longrightarrow>
       (\<exists>e'. map_get (ld_bySha ld') s = Some e' \<and> ce_ctor e' = ce_ctor e \<and> ce_refCount e' = ce_refCount e))
    \<and> (\<forall>c. r = Inr c \<longrightarrow> (\<exists>rec src n' v'. lookupRecord name v d = Some rec \<and> src \<in> K
           \<and> hashBuf src = cv_sha rec \<and> compile n' v' src = Inr c))" (is "?A ld' \<and> ?B ld' \<and> ?C r")
  proof (cases "lookupRecord name v d")
    case None
    with load inv show ?thesis by (auto simp: load_class_def)
  next
    case (Some rec)
    show ?thesis
    proof (cases "(case cv_graceUntil rec of Some g \<Rightarrow> g \<le> d_now d | None \<Rightarrow> False)")
      case True
      with load inv Some show ?thesis by (auto simp: load_class_def)
    next
      case fresh: False
      show ?thesis
      proof (cases "map_get (ld_bySha ld) (cv_sha rec)")
        case hit: (Some x)
        have l: "r = Inr (ce_ctor x)" "ld' = ld \<lparr> ld_bySha :=
             map_set (cv_sha rec) (x \<lparr> ce_lastUsedAt := d_now d \<rparr>) (ld_bySha ld) \<rparr>"
          using load Some fresh hit by (auto simp: load_class_def)
        have "?A ld'" using inv hit unfolding l loader_inv_def by auto
        moreover have "?B ld'" using hit unfolding l by auto
        moreover have "?C r" using loader_invD(3) [OF inv hit] Some unfolding l by blast
        ultimately show ?thesis by blast
      next
        case miss: None
        show ?thesis
        proof (cases "getClassSource name v d")
          case None
          with load inv Some fresh miss show ?thesis by (auto simp: load_class_def)
        next
          case got: (Some b)
          let ?ld1 = "ld \<lparr> ld_compilations := ld_compilations ld + 1 \<rparr>"
          have b: "b \<in> K" "hashBuf b = cv_sha rec"
            using got src agr Some by (auto simp: getClassSource_def record_agrees_def sources_ok_def)
          have inv1: "loader_inv compile K ?ld1" using inv by (simp add: loader_inv_def)
          show ?thesis
          proof (cases "compile name v b")
            case (Inl x)
            then have l: "r = Inl x" "ld' = ?ld1"
              using load Some fresh miss got by (simp_all add: load_class_def Let_def)
            show ?thesis using inv1 unfolding l by auto
          next
            case (Inr c)
            then have l: "r = Inr c" "ld' = cachePut (cv_sha rec) c (d_now d) ?ld1"
              using load Some fresh miss got by (simp_all add: load_class_def Let_def)
            have "?A ld'" unfolding l by (rule loader_inv_cachePut [OF inv1 b Inr])
            moreover have "?B ld'" 
            proof (intro impI)
              assume e: "map_get (ld_bySha ld) s = Some e" "0 < ce_refCount e"
              then have "s \<noteq> cv_sha rec" using miss by auto
              with cachePut_get(2) [OF inv1 b Inr, of s e "d_now d"] e show
                "\<exists>e'. map_get (ld_bySha ld') s = Some e' \<and> ce_ctor e' = ce_ctor e \<and> ce_refCount e' = ce_refCount e"
                unfolding l by simp
            qed
            moreover have "?C r" using b Inr Some unfolding l by blast
            ultimately show ?thesis by blast
          qed
        qed
      qed
    qed
  qed
  then show "loader_inv compile K ld'"
    "map_get (ld_bySha ld) s = Some e \<Longrightarrow> 0 < ce_refCount e \<Longrightarrow>
         \<exists>e'. map_get (ld_bySha ld') s = Some e' \<and> ce_ctor e' = ce_ctor e \<and> ce_refCount e' = ce_refCount e"
    "r = Inr c \<Longrightarrow> \<exists>rec src n' v'. lookupRecord name v d = Some rec \<and> src \<in> K
           \<and> hashBuf src = cv_sha rec \<and> compile n' v' src = Inr c" by blast+
qed

section \<open>Properties\<close>

datatype loader_op = LoadOp class_name version | AcquireOp string | ReleaseOp string

fun loader_step :: "'c compiler \<Rightarrow> driver \<Rightarrow> loader_op \<Rightarrow> 'c class_loader \<Rightarrow> 'c class_loader" where
  "loader_step compile d (LoadOp n v) ld = snd (load_class compile n v d ld)"
| "loader_step compile d (AcquireOp sha) ld = acquire sha ld"
| "loader_step compile d (ReleaseOp sha) ld = release sha ld"

text \<open>The references a run takes and gives back on one hash.\<close>

fun net_refs :: "string \<Rightarrow> loader_op list \<Rightarrow> int" where
  "net_refs sha [] = 0"
| "net_refs sha (op # ops) = (case op of AcquireOp s \<Rightarrow> if s = sha then 1 else 0
     | ReleaseOp s \<Rightarrow> if s = sha then -1 else 0 | LoadOp _ _ \<Rightarrow> 0) + net_refs sha ops"


text \<open>
  When the hash separates the published sources and compiling depends on the source alone,
  a successful load returns exactly what compiling the requested version's own source gives,
  cached or not.
\<close>

theorem loader_runs_published_code:
  assumes "loader_inv compile K ld" and "sources_ok K d" and "record_agrees name v d"
    and "inj_on hashBuf K"
    and "\<And>n v n' v' src c. compile n v src = Inr c \<Longrightarrow> compile n' v' src = Inr c"
    and "load_class compile name v d ld = (Inr c, ld')" and "getClassSource name v d = Some src"
  shows "compile name v src = Inr c"
proof -
  obtain rec s n' v' where r: "lookupRecord name v d = Some rec" "s \<in> K" "hashBuf s = cv_sha rec"
    "compile n' v' s = Inr c"
    using load_class_effect(3) [OF assms(1-3,6) refl] by blast
  have "src \<in> K \<and> hashBuf src = cv_sha rec"
    using assms(2,3,7) r(1) by (auto simp: getClassSource_def record_agrees_def sources_ok_def)
  then have "s = src" using r(2,3) inj_onD [OF assms(4)] by metis
  then show ?thesis using assms(5) [OF r(4)] by simp
qed

definition demo_compile :: "bytes compiler" where
  "demo_compile n v src = Inr src"

definition demo_loaded :: "bytes class_loader" where
  "demo_loaded = acquire (hashBuf [97, 98])
     (snd (load_class demo_compile ''Cart'' ''1.0.0'' demo_published (new_loader (Some 1))))"

lemma demo_prefix: "starts_with (n @ ''@'') ''Cart@1.0.0'' \<longleftrightarrow> n = ''Cart''"
  by (auto simp: starts_with_iff Cons_eq_append_conv)

lemma demo_published_facts:
  "sources_ok {[97, 98]} demo_published" "record_agrees n v demo_published"
  "getClassSource ''Cart'' ''1.0.0'' demo_published = Some [97, 98]"
  using demo_prefix [of n]
  by (auto simp: demo_published_def publishClass_def demo_input_def empty_driver_def Let_def
      sources_ok_def record_agrees_def lookupRecord_def listClassVersions_def getClassSource_def
      mkClassRef_def split: if_splits)

lemma demo_loaded_eq:
  "load_class demo_compile ''Cart'' ''1.0.0'' demo_published (new_loader (Some 1)) =
     (Inr [97, 98], \<lparr> ld_bySha = [(hashBuf [97, 98], \<lparr> ce_sha = hashBuf [97, 98], ce_ctor = [97, 98],
        ce_lastUsedAt = 0, ce_refCount = 0 \<rparr>)], ld_maxEntries = 1, ld_compilations = 1 \<rparr>)"
  by (simp add: load_class_def lookupRecord_def listClassVersions_def demo_published_def publishClass_def
      demo_input_def empty_driver_def Let_def mkClassRef_def starts_with_def getClassSource_def
      new_loader_def cachePut_def maybeEvict_def demo_compile_def)

theorem loader_runs_published_code_witness:
  "demo_compile ''Cart'' ''1.0.0'' [97, 98] = Inr [97, 98]"
  by (rule loader_runs_published_code [OF loader_inv_new demo_published_facts(1,2) _ _
        demo_loaded_eq demo_published_facts(3)])
     (auto simp: demo_compile_def)


text \<open>
  The reference must be taken before anything else is loaded: an entry that was evicted
  between \<open>load\<close> and \<open>acquire\<close> is acquired without effect, and the host's later \<open>release\<close> then
  gives back the reference of another host, whose class can be evicted under it.
\<close>

theorem late_acquire_steals_reference:
  assumes "load1 = cachePut ''A'' ctorA 0 (new_loader (Some 1))"
    and "load2 = cachePut ''B'' ctorB 1 load1"
    and "held1 = acquire ''A'' load2"
    and "held2 = acquire ''A'' (cachePut ''A'' ctorA 2 held1)"
    and "gone1 = release ''A'' held2"
    and "load3 = cachePut ''B'' ctorB 3 gone1"
  shows "map_get (ld_bySha held1) ''A'' = None
    \<and> map_option ce_refCount (map_get (ld_bySha held2) ''A'') = Some 1
    \<and> map_get (ld_bySha load3) ''A'' = None"
proof -
  have 1: "ld_bySha load2 = [(''B'', \<lparr> ce_sha = ''B'', ce_ctor = ctorB, ce_lastUsedAt = 1, ce_refCount = 0 \<rparr>)]"
    "ld_maxEntries load2 = 1"
    unfolding assms(1,2) by (simp_all add: cachePut_def maybeEvict_def new_loader_def)
  then have 2: "held1 = load2"
    unfolding assms(3) by (simp add: acquire_def)
  have 3: "ld_bySha held2 = [(''A'', \<lparr> ce_sha = ''A'', ce_ctor = ctorA, ce_lastUsedAt = 2, ce_refCount = 1 \<rparr>)]"
    "ld_maxEntries held2 = 1"
    unfolding assms(4) 2 using 1 by (simp_all add: cachePut_def maybeEvict_def acquire_def)
  have 4: "ld_bySha gone1 = [(''A'', \<lparr> ce_sha = ''A'', ce_ctor = ctorA, ce_lastUsedAt = 2, ce_refCount = 0 \<rparr>)]"
    "ld_maxEntries gone1 = 1"
    unfolding assms(5) using 3 by (simp_all add: release_def)
  have 5: "map_get (ld_bySha load3) ''A'' = None"
    unfolding assms(6) using 4 by (simp add: cachePut_def maybeEvict_def)
  show ?thesis using 1 2 3 5 by simp
qed

theorem late_acquire_steals_reference_witness:
  "map_get (ld_bySha (cachePut ''B'' (2 :: nat) 3 (release ''A'' (acquire ''A'' (cachePut ''A'' 1 2
     (acquire ''A'' (cachePut ''B'' 2 1 (cachePut ''A'' 1 0 (new_loader (Some 1)))))))))) ''A'' = None"
  using late_acquire_steals_reference [OF refl refl refl refl refl refl, of 2 "1 :: nat"] by blast

end
