(* ===== verification/MemoryInbox.thy ===== *)
theory MemoryInbox
  imports MemoryDriver
begin

text \<open>
  The inbox stream of the memory driver (\<open>appendInbox\<close> to \<open>pendingInboxCount\<close> of
  \<open>src/storage/memory.ts\<close>): a bucket of records per actor and the set of acknowledged ids,
  compacted at the front. The bucket less the acknowledged records is the abstract pending
  queue of the \<open>durable_inbox\<close> contract, which the driver interprets.
\<close>

section \<open>Operations\<close>

definition appendInbox :: "actor_id \<Rightarrow> inbox_entry \<Rightarrow> driver \<Rightarrow> string \<times> driver" where
  "appendInbox i entry d = (
     let inboxId = show_int (d_now d) @ CHR ''-'' # show_nat (d_inboxSeq d);
         bucket = (case map_get (d_inbox d) i of Some b \<Rightarrow> b | None \<Rightarrow> [])
     in (inboxId,
         d \<lparr> d_inboxSeq := d_inboxSeq d + 1,
             d_inbox := map_set i (bucket @ [\<lparr> ir_id = inboxId, ir_entry = entry \<rparr>]) (d_inbox d) \<rparr>))"

text \<open>The scan of \<open>readPendingInbox\<close>; \<open>n\<close> is \<open>out.length\<close>, tested after the push.\<close>

fun read_loop :: "string set \<Rightarrow> int \<Rightarrow> int \<Rightarrow> inbox_record list \<Rightarrow> inbox_record list" where
  "read_loop acked limit n [] = []"
| "read_loop acked limit n (r # rs) =
     (if ir_id r \<in> acked then read_loop acked limit n rs
      else r # (if n + 1 \<ge> limit then [] else read_loop acked limit (n + 1) rs))"

definition acked_of :: "actor_id \<Rightarrow> driver \<Rightarrow> string set" where
  "acked_of i d = (case map_get (d_inboxAcked d) i of Some s \<Rightarrow> s | None \<Rightarrow> {})"

definition readPendingInbox :: "actor_id \<Rightarrow> int \<Rightarrow> driver \<Rightarrow> inbox_record list" where
  "readPendingInbox i limit d = (case map_get (d_inbox d) i of
      None \<Rightarrow> []
    | Some bucket \<Rightarrow> read_loop (acked_of i d) limit 0 bucket)"

definition ackInbox :: "actor_id \<Rightarrow> string list \<Rightarrow> driver \<Rightarrow> driver" where
  "ackInbox i entryIds d = (
     let acked = acked_of i d \<union> set entryIds in
     case map_get (d_inbox d) i of
       None \<Rightarrow> d \<lparr> d_inboxAcked := map_set i acked (d_inboxAcked d) \<rparr>
     | Some bucket \<Rightarrow>
        let dropped = takeWhile (\<lambda>r. ir_id r \<in> acked) bucket in
        d \<lparr> d_inboxAcked := map_set i (acked - ir_id ` set dropped) (d_inboxAcked d),
            d_inbox := map_set i (List.drop (length dropped) bucket) (d_inbox d) \<rparr>)"

definition pendingInboxCount :: "actor_id \<Rightarrow> driver \<Rightarrow> nat" where
  "pendingInboxCount i d = (case map_get (d_inbox d) i of
      None \<Rightarrow> 0
    | Some bucket \<Rightarrow>
       (if acked_of i d = {} then length bucket
        else length (filter (\<lambda>r. ir_id r \<notin> acked_of i d) bucket)))"

section \<open>The pending queue\<close>

definition bucket_of :: "actor_id \<Rightarrow> driver \<Rightarrow> inbox_record list" where
  "bucket_of i d = (case map_get (d_inbox d) i of Some b \<Rightarrow> b | None \<Rightarrow> [])"

definition pending_records :: "actor_id \<Rightarrow> driver \<Rightarrow> inbox_record list" where
  "pending_records i d = filter (\<lambda>r. ir_id r \<notin> acked_of i d) (bucket_of i d)"

definition entry_pair :: "inbox_record \<Rightarrow> string \<times> inbox_entry" where
  "entry_pair r = (ir_id r, ir_entry r)"

definition pending_of :: "actor_id \<Rightarrow> driver \<Rightarrow> (string \<times> inbox_entry) list" where
  "pending_of i d = map entry_pair (pending_records i d)"

definition id_issued :: "driver \<Rightarrow> string \<Rightarrow> bool" where
  "id_issued d k \<longleftrightarrow> (\<exists>t n. k = show_int t @ CHR ''-'' # show_nat n \<and> n < d_inboxSeq d)"

text \<open>Ids in a bucket are distinct, and no id is stored or acknowledged before it was issued.\<close>

definition inbox_inv :: "driver \<Rightarrow> bool" where
  "inbox_inv d \<longleftrightarrow> (\<forall>i. distinct (map ir_id (bucket_of i d))
     \<and> (\<forall>r\<in>set (bucket_of i d). id_issued d (ir_id r)) \<and> (\<forall>k\<in>acked_of i d. id_issued d k))"

lemma inbox_invD:
  assumes "inbox_inv d"
  shows "distinct (map ir_id (bucket_of i d))"
    "r \<in> set (bucket_of i d) \<Longrightarrow> id_issued d (ir_id r)"
    "k \<in> acked_of i d \<Longrightarrow> id_issued d k"
  using assms by (auto simp: inbox_inv_def)

lemma inbox_inv_cong:
  "inbox_inv d \<Longrightarrow> d_inbox d' = d_inbox d \<Longrightarrow> d_inboxAcked d' = d_inboxAcked d \<Longrightarrow>
   d_inboxSeq d' = d_inboxSeq d \<Longrightarrow> inbox_inv d'"
  by (simp add: inbox_inv_def bucket_of_def acked_of_def id_issued_def)

lemma pending_of_cong:
  "d_inbox d' = d_inbox d \<Longrightarrow> d_inboxAcked d' = d_inboxAcked d \<Longrightarrow> pending_of i d' = pending_of i d"
  by (simp add: pending_of_def pending_records_def bucket_of_def acked_of_def)

lemma inbox_inv_empty [simp, inv_intros]: "inbox_inv empty_driver"
  by (simp add: inbox_inv_def bucket_of_def acked_of_def empty_driver_def)

lemma id_issued_now: "\<not> id_issued d (show_int t @ CHR ''-'' # show_nat (d_inboxSeq d))"
  by (auto simp: id_issued_def dest: dash_suffix_inject)

lemma appendInbox_effect:
  assumes "appendInbox i e d = (k, d')"
  shows "k = show_int (d_now d) @ CHR ''-'' # show_nat (d_inboxSeq d)"
    "bucket_of j d' = (if j = i then bucket_of i d @ [\<lparr> ir_id = k, ir_entry = e \<rparr>] else bucket_of j d)"
    "acked_of j d' = acked_of j d"
    "id_issued d' x \<longleftrightarrow> id_issued d x \<or> (\<exists>t. x = show_int t @ CHR ''-'' # show_nat (d_inboxSeq d))"
    "d_events d' = d_events d" "d_headSeq d' = d_headSeq d" "d_actors d' = d_actors d"
    "d_snapshots d' = d_snapshots d" "d_now d' = d_now d"
proof -
  note d' = assms [unfolded appendInbox_def Let_def, symmetric]
  show "id_issued d' x \<longleftrightarrow> id_issued d x \<or> (\<exists>t. x = show_int t @ CHR ''-'' # show_nat (d_inboxSeq d))"
    using d' unfolding id_issued_def by (simp add: less_Suc_eq) blast
qed (use assms in \<open>auto simp: appendInbox_def Let_def bucket_of_def acked_of_def\<close>)

lemma read_loop_take:
  "n < limit \<Longrightarrow> read_loop acked limit n rs =
     take (nat (limit - n)) (filter (\<lambda>r. ir_id r \<notin> acked) rs)"
proof (induction acked limit n rs rule: read_loop.induct)
  case (1 acked limit n)
  then show ?case by simp
next
  case (2 acked limit n r rs)
  have "nat (limit - n) = Suc (nat (limit - (n + 1)))"
    using 2(3) by (simp add: Suc_nat_eq_nat_zadd1)
  with 2 show ?case by auto
qed

lemma readPendingInbox_take:
  "0 < limit \<Longrightarrow> readPendingInbox i limit d = take (nat limit) (pending_records i d)"
  by (simp add: readPendingInbox_def pending_records_def bucket_of_def read_loop_take
      split: option.split)

lemma pendingInboxCount_length: "pendingInboxCount i d = length (pending_records i d)"
  by (simp add: pendingInboxCount_def pending_records_def bucket_of_def split: option.split)

lemma filter_dropWhile: "filter (\<lambda>x. \<not> P x) (dropWhile P xs) = filter (\<lambda>x. \<not> P x) xs"
  by (induction xs) auto

lemma drop_takeWhile: "List.drop (length (takeWhile P xs)) xs = dropWhile P xs"
  by (induction xs) auto

lemma ackInbox_effect:
  "bucket_of j (ackInbox i ids d) =
     (if j = i then dropWhile (\<lambda>r. ir_id r \<in> acked_of i d \<union> set ids) (bucket_of i d)
      else bucket_of j d)"
  "acked_of j (ackInbox i ids d) =
     (if j = i then acked_of i d \<union> set ids -
        ir_id ` set (takeWhile (\<lambda>r. ir_id r \<in> acked_of i d \<union> set ids) (bucket_of i d))
      else acked_of j d)"
  "id_issued (ackInbox i ids d) k = id_issued d k"
  "d_events (ackInbox i ids d) = d_events d" "d_headSeq (ackInbox i ids d) = d_headSeq d"
  "d_actors (ackInbox i ids d) = d_actors d" "d_snapshots (ackInbox i ids d) = d_snapshots d"
  "d_now (ackInbox i ids d) = d_now d"
  by (auto simp: ackInbox_def Let_def bucket_of_def acked_of_def id_issued_def drop_takeWhile
      split: option.splits)

lemma inbox_inv_appendInbox [inv_intros]:
  assumes "inbox_inv d"
  shows "inbox_inv (snd (appendInbox i e d))"
proof (cases "appendInbox i e d")
  case (Pair k d')
  note eff = appendInbox_effect [OF Pair]
  have "k \<notin> ir_id ` set (bucket_of i d)"
    using inbox_invD(2) [OF assms, of _ i] id_issued_now [of d "d_now d"] eff(1)
    by (metis imageE)
  then show ?thesis
    using inbox_invD [OF assms] eff(1) unfolding inbox_inv_def Pair snd_conv eff(2,3,4)
    by auto
qed

lemma distinct_map_dropWhile: "distinct (map f xs) \<Longrightarrow> distinct (map f (dropWhile P xs))"
  by (metis distinct_drop drop_map drop_takeWhile)

lemma inbox_inv_ackInbox [inv_intros]:
  assumes "inbox_inv d" and "\<forall>k\<in>set ids. id_issued d k"
  shows "inbox_inv (ackInbox i ids d)"
  using inbox_invD [OF assms(1)] assms(2) unfolding inbox_inv_def ackInbox_effect
  by (auto simp: distinct_map_dropWhile dest: set_dropWhileD)

lemma pending_records_ackInbox:
  assumes "inbox_inv d"
  shows "pending_records i (ackInbox i ids d) =
         filter (\<lambda>r. ir_id r \<notin> set ids) (pending_records i d)"
proof -
  let ?P = "\<lambda>r. ir_id r \<in> acked_of i d \<union> set ids" and ?b = "bucket_of i d"
  have "distinct (map ir_id (takeWhile ?P ?b) @ map ir_id (dropWhile ?P ?b))"
    using inbox_invD(1) [OF assms, of i] by (metis map_append takeWhile_dropWhile_id)
  then have new: "r \<in> set (dropWhile ?P ?b) \<Longrightarrow> ir_id r \<notin> ir_id ` set (takeWhile ?P ?b)" for r
    by auto
  have "pending_records i (ackInbox i ids d) = filter (\<lambda>r. \<not> ?P r) (dropWhile ?P ?b)"
    unfolding pending_records_def ackInbox_effect using new by (auto intro!: filter_cong)
  also have "\<dots> = filter (\<lambda>r. \<not> ?P r) ?b"
    by (rule filter_dropWhile)
  finally show ?thesis
    by (simp add: pending_records_def conj_commute)
qed

lemma pending_of_ackInbox:
  "inbox_inv d \<Longrightarrow> pending_of i (ackInbox i ids d) = filter (\<lambda>r. fst r \<notin> set ids) (pending_of i d)"
  by (simp add: pending_of_def pending_records_ackInbox filter_map o_def entry_pair_def)

lemma pending_of_appendInbox:
  assumes "inbox_inv d" and "appendInbox i e d = (k, d')"
  shows "pending_of i d' = pending_of i d @ [(k, e)]" and "\<not> id_issued d k"
proof -
  note eff = appendInbox_effect [OF assms(2)]
  show new: "\<not> id_issued d k"
    by (simp add: eff(1) id_issued_now)
  then have "k \<notin> acked_of i d"
    using inbox_invD(3) [OF assms(1)] by blast
  then show "pending_of i d' = pending_of i d @ [(k, e)]"
    by (simp add: pending_of_def pending_records_def eff entry_pair_def)
qed

section \<open>The contract\<close>

interpretation mem_inbox: durable_inbox inbox_inv id_issued pending_of appendInbox
  "\<lambda>i ids d. ackInbox i ids d" "\<lambda>i n d. map entry_pair (readPendingInbox i n d)" pendingInboxCount
proof
  fix d :: driver and i j :: actor_id and e k d' ids r n
  show "inbox_inv d \<Longrightarrow> inbox_inv (snd (appendInbox i e d))"
    by (rule inbox_inv_appendInbox)
  show "inbox_inv d \<Longrightarrow> \<forall>k\<in>set ids. id_issued d k \<Longrightarrow> inbox_inv (ackInbox i ids d)"
    by (rule inbox_inv_ackInbox)
  show "appendInbox i e d = (k, d') \<Longrightarrow> id_issued d' k"
    using appendInbox_effect(1,4) [of i e d k d'] by blast
  show "id_issued d k \<Longrightarrow> id_issued (snd (appendInbox i e d)) k"
    using appendInbox_effect(4) [of i e d] by (metis prod.collapse)
  show "id_issued (ackInbox i ids d) k = id_issued d k"
    by (rule ackInbox_effect)
  show "inbox_inv d \<Longrightarrow> r \<in> set (pending_of i d) \<Longrightarrow> id_issued d (fst r)"
    using inbox_invD(2) [of d _ i]
    by (auto simp: pending_of_def pending_records_def entry_pair_def)
  show "inbox_inv d \<Longrightarrow> distinct (map fst (pending_of i d))"
    using inbox_invD(1) [of d i]
    by (auto simp: pending_of_def pending_records_def entry_pair_def o_def distinct_map_filter)
  show "inbox_inv d \<Longrightarrow> appendInbox i e d = (k, d') \<Longrightarrow>
          pending_of i d' = pending_of i d @ [(k, e)] \<and> \<not> id_issued d k"
    using pending_of_appendInbox by blast
  show "i \<noteq> j \<Longrightarrow> pending_of j (snd (appendInbox i e d)) = pending_of j d"
    using appendInbox_effect(2,3) [of i e d] 
    by (cases "appendInbox i e d") (simp add: pending_of_def pending_records_def)
  show "inbox_inv d \<Longrightarrow>
          pending_of i (ackInbox i ids d) = filter (\<lambda>r. fst r \<notin> set ids) (pending_of i d)"
    by (rule pending_of_ackInbox)
  show "i \<noteq> j \<Longrightarrow> pending_of j (ackInbox i ids d) = pending_of j d"
    by (simp add: pending_of_def pending_records_def ackInbox_effect)
  show "inbox_inv d \<Longrightarrow> 0 < n \<Longrightarrow>
          map entry_pair (readPendingInbox i n d) = take (nat n) (pending_of i d)"
    by (simp add: readPendingInbox_take pending_of_def take_map)
  show "inbox_inv d \<Longrightarrow> pendingInboxCount i d = length (pending_of i d)"
    by (simp add: pendingInboxCount_length pending_of_def)
qed

section \<open>Properties\<close>

text \<open>
  A producer appends to any actor's inbox; a consumer reads up to \<open>n\<close> pending records of an actor
  and acknowledges those it read. The specification is a plain queue of entries per actor.
\<close>

datatype inbox_op = Produce actor_id inbox_entry | Consume actor_id int

fun inbox_step :: "inbox_op \<Rightarrow> driver \<Rightarrow> inbox_entry list \<times> driver" where
  "inbox_step (Produce i e) d = ([], snd (appendInbox i e d))"
| "inbox_step (Consume i n) d = (
     let rs = readPendingInbox i n d in (map ir_entry rs, ackInbox i (map ir_id rs) d))"

fun inbox_run :: "inbox_op list \<Rightarrow> driver \<Rightarrow> (actor_id \<times> inbox_entry list) list \<times> driver" where
  "inbox_run [] d = ([], d)"
| "inbox_run (op # ops) d = (
     let (out, d1) = inbox_step op d; (outs, d2) = inbox_run ops d1
     in ((case op of Produce i _ \<Rightarrow> (i, out) | Consume i _ \<Rightarrow> (i, out)) # outs, d2))"

fun queue_step :: "inbox_op \<Rightarrow> (actor_id \<Rightarrow> inbox_entry list)
    \<Rightarrow> inbox_entry list \<times> (actor_id \<Rightarrow> inbox_entry list)" where
  "queue_step (Produce i e) q = ([], q (i := q i @ [e]))"
| "queue_step (Consume i n) q = (take (nat n) (q i), q (i := List.drop (nat n) (q i)))"

fun queue_run :: "inbox_op list \<Rightarrow> (actor_id \<Rightarrow> inbox_entry list)
    \<Rightarrow> (actor_id \<times> inbox_entry list) list \<times> (actor_id \<Rightarrow> inbox_entry list)" where
  "queue_run [] q = ([], q)"
| "queue_run (op # ops) q = (
     let (out, q1) = queue_step op q; (outs, q2) = queue_run ops q1
     in ((case op of Produce i _ \<Rightarrow> (i, out) | Consume i _ \<Rightarrow> (i, out)) # outs, q2))"

fun positive_limit :: "inbox_op \<Rightarrow> bool" where
  "positive_limit (Produce i e) \<longleftrightarrow> True"
| "positive_limit (Consume i n) \<longleftrightarrow> 0 < n"

definition inbox_abs :: "driver \<Rightarrow> actor_id \<Rightarrow> inbox_entry list" where
  "inbox_abs d i = map snd (pending_of i d)"

lemma inbox_step_refines:
  assumes inv: "inbox_inv d" and pos: "positive_limit op"
  shows "inbox_inv (snd (inbox_step op d))
    \<and> queue_step op (inbox_abs d) = (fst (inbox_step op d), inbox_abs (snd (inbox_step op d)))"
proof (cases op)
  case (Produce i e)
  obtain k d' where ap: "appendInbox i e d = (k, d')" by (cases "appendInbox i e d")
  have "inbox_abs d' = (inbox_abs d)(i := inbox_abs d i @ [e])"
    using mem_inbox.pending_append [OF inv ap] mem_inbox.append_other [of i _ e d] ap
    by (auto simp: inbox_abs_def fun_eq_iff)
  then show ?thesis
    using Produce ap inbox_inv_appendInbox [OF inv, of i e] by simp
next
  case (Consume i n)
  let ?rs = "readPendingInbox i n d"
  have n: "0 < n" using pos Consume by simp
  have read: "map entry_pair ?rs = take (nat n) (pending_of i d)"
    by (rule mem_inbox.read_take [OF inv n])
  have ids: "map ir_id ?rs = map fst (map entry_pair ?rs)"
    and ents: "map ir_entry ?rs = map snd (map entry_pair ?rs)"
    by (simp_all add: entry_pair_def)
  have "\<forall>k\<in>set (map ir_id ?rs). id_issued d k"
    unfolding ids read using mem_inbox.pending_issued [OF inv] by (auto dest: in_set_takeD)
  then have inv': "inbox_inv (ackInbox i (map ir_id ?rs) d)"
    by (rule inbox_inv_ackInbox [OF inv])
  have "inbox_abs (ackInbox i (map ir_id ?rs) d) = (inbox_abs d)(i := List.drop (nat n) (inbox_abs d i))"
    using mem_inbox.ack_read [OF inv n, of i] mem_inbox.ack_other [of i _ _ d]
    by (auto simp: inbox_abs_def fun_eq_iff ids drop_map simp del: map_map)
  then show ?thesis
    using Consume inv' read by (simp add: Let_def ents inbox_abs_def take_map del: map_map)
qed

text \<open>
  C2. The inbox implements one FIFO queue per actor: over any interleaving of producers and
  consumers, every consumer receives exactly what the plain queue would give it, in order, and
  what is still pending at the end is what the queue still holds. The compaction of the
  acknowledged prefix and the shared id counter are invisible.
\<close>

theorem inbox_is_fifo_queue:
  assumes "inbox_inv d" and "list_all positive_limit ops"
  shows "queue_run ops (inbox_abs d) = (fst (inbox_run ops d), inbox_abs (snd (inbox_run ops d)))"
  using assms
proof (induction ops arbitrary: d)
  case Nil
  then show ?case by simp
next
  case (Cons op ops)
  obtain out d1 where st: "inbox_step op d = (out, d1)" by (cases "inbox_step op d")
  have "inbox_inv d1" "queue_step op (inbox_abs d) = (out, inbox_abs d1)"
    using inbox_step_refines [of d op] Cons.prems st by auto
  with Cons.IH [of d1] Cons.prems st show ?case
    by (simp add: Let_def split_def split: inbox_op.splits)
qed

definition demo_ops :: "inbox_op list" where
  "demo_ops = [Produce ''a'' \<lparr> ie_type = ''x'', ie_payload = JNum 1 \<rparr>,
     Produce ''b'' \<lparr> ie_type = ''y'', ie_payload = JNum 2 \<rparr>,
     Produce ''a'' \<lparr> ie_type = ''z'', ie_payload = JNum 3 \<rparr>, Consume ''a'' 1, Consume ''a'' 9]"

theorem inbox_is_fifo_queue_witness:
  "map snd (fst (inbox_run demo_ops empty_driver)) =
     [[], [], [], [\<lparr> ie_type = ''x'', ie_payload = JNum 1 \<rparr>], [\<lparr> ie_type = ''z'', ie_payload = JNum 3 \<rparr>]]"
proof -
  have "list_all positive_limit demo_ops" by (simp add: demo_ops_def)
  from inbox_is_fifo_queue [OF inbox_inv_empty this]
  have "fst (inbox_run demo_ops empty_driver) = fst (queue_run demo_ops (inbox_abs empty_driver))"
    by simp
  moreover have "inbox_abs empty_driver = (\<lambda>_. [])"
    by (simp add: fun_eq_iff inbox_abs_def pending_of_def pending_records_def bucket_of_def
        empty_driver_def)
  ultimately show ?thesis by (simp add: demo_ops_def)
qed

end
