(* ===== verification/Host.thy ===== *)
theory Host
  imports ActorClass Mailbox Loader MemoryInbox MemoryRegistry
begin

text \<open>
  The per-actor owner (\<open>src/runtime/host.ts\<close>) over the memory driver and the class loader. A
  \<open>world\<close> is what a host shares with the rest of the process: the driver, the loader, and the
  outcomes of promises and the notifications it has produced so far. An operation is a
  function on \<open>host \<times> world\<close> that returns its result with the state it leaves, also when it
  throws. One call of \<open>handle\<close> is one mailbox turn; the worker is the single consumer of the
  mailbox, the waiter 0, and \<open>h_inhand\<close> is the item its \<open>dequeue\<close> was resolved with.
\<close>

section \<open>State\<close>

record registration =
  rg_name :: class_name
  rg_version :: version
  rg_ctor :: actor_class
  rg_mailboxCapacity :: "nat option"
  rg_snapshotEveryN :: "int option"
  rg_floating :: "bool option"

datatype mailbox_item =
    TellItem string jsval string
  | CallItem string jsval nat

datatype commit_info =
    CommitPatch "jsval list" jsval
  | CommitEvents "jsval list" int jsval
  | CommitTombstone

record host_metrics =
  m_tellsHandled :: nat
  m_callsHandled :: nat
  m_tellsDropped :: nat
  m_snapshotsWritten :: nat
  m_handlerErrors :: nat
  m_eventsAppended :: nat
  m_eventsReplayed :: nat
  m_migrationsApplied :: nat

record host =
  h_id :: actor_id
  h_reg :: registration
  h_hasLoader :: bool
  h_class :: actor_class
  h_instance :: "jsval option"
  h_mailbox :: "mailbox_item mailbox"
  h_inhand :: "mailbox_item option"
  h_isEs :: bool
  h_currentSeq :: int
  h_eventsSince :: int
  h_snapshotTimer :: bool
  h_snapshotDirty :: bool
  h_idleTimer :: bool
  h_lastActiveAt :: ms
  h_activated :: bool
  h_destroyed :: bool
  h_fence :: int
  h_runningVersion :: version
  h_runningSha :: "string option"
  h_listeners :: "nat list"
  h_prevCapture :: "jsval option"
  h_metrics :: host_metrics

record world =
  w_driver :: driver
  w_loader :: "actor_class class_loader"
  w_settled :: "(nat \<times> (error + jsval)) list"
  w_emitted :: "(nat \<times> commit_info) list"

text \<open>
  What the host takes from elsewhere: \<open>semver.gt\<close>, the compiler behind the loader,
  \<open>jsonpatch.compare\<close>, the id of the next audit entry, and whether an auditor is wired.
\<close>

record env =
  en_gt :: "version \<Rightarrow> version \<Rightarrow> bool"
  en_compile :: "actor_class compiler"
  en_compare :: "jsval \<Rightarrow> jsval \<Rightarrow> jsval list"
  en_auditId :: string
  en_auditor :: bool

type_synonym hw = "host \<times> world"

definition zero_metrics :: host_metrics where
  "zero_metrics = \<lparr> m_tellsHandled = 0, m_callsHandled = 0, m_tellsDropped = 0,
     m_snapshotsWritten = 0, m_handlerErrors = 0, m_eventsAppended = 0, m_eventsReplayed = 0,
     m_migrationsApplied = 0 \<rparr>"

definition idle_mailbox :: "nat \<Rightarrow> mailbox_item mailbox" where
  "idle_mailbox n = \<lparr> mb_buffer = [], mb_waiters = [], mb_closed = False, mb_capacity = n \<rparr>"

definition capacity_of :: "registration \<Rightarrow> nat" where
  "capacity_of r = (case rg_mailboxCapacity r of Some n \<Rightarrow> n | None \<Rightarrow> 1024)"

definition every_of :: "registration \<Rightarrow> int" where
  "every_of r = (case rg_snapshotEveryN r of Some n \<Rightarrow> n | None \<Rightarrow> 100)"

definition floating_of :: "registration \<Rightarrow> bool" where
  "floating_of r = (case rg_floating r of Some b \<Rightarrow> b | None \<Rightarrow> False)"

text \<open>The constructor of \<open>ActorHost\<close>.\<close>

definition new_host :: "registration \<Rightarrow> actor_id \<Rightarrow> bool \<Rightarrow> host" where
  "new_host r i hasLoader =
     \<lparr> h_id = i, h_reg = r, h_hasLoader = hasLoader, h_class = rg_ctor r, h_instance = None,
       h_mailbox = idle_mailbox (capacity_of r), h_inhand = None, h_isEs = False,
       h_currentSeq = 0, h_eventsSince = 0, h_snapshotTimer = False, h_snapshotDirty = False,
       h_idleTimer = False, h_lastActiveAt = 0, h_activated = False, h_destroyed = False,
       h_fence = 0, h_runningVersion = rg_version r, h_runningSha = None, h_listeners = [],
       h_prevCapture = None, h_metrics = zero_metrics \<rparr>"

section \<open>Small steps shared by the operations\<close>

text \<open>A promise settles once: a second \<open>resolve\<close> or \<open>reject\<close> has no effect.\<close>

definition settle :: "nat \<Rightarrow> error + jsval \<Rightarrow> world \<Rightarrow> world" where
  "settle c r w = (if c \<in> fst ` set (w_settled w) then w
                   else w \<lparr> w_settled := w_settled w @ [(c, r)] \<rparr>)"

definition touch :: "hw \<Rightarrow> hw" where
  "touch = (\<lambda>(h, w). (h \<lparr> h_lastActiveAt := d_now (w_driver w), h_idleTimer := True \<rparr>, w))"

definition emitCommit :: "commit_info \<Rightarrow> hw \<Rightarrow> hw" where
  "emitCommit info = (\<lambda>(h, w).
     (h, w \<lparr> w_emitted := w_emitted w @ map (\<lambda>l. (l, info)) (h_listeners h) \<rparr>))"

abbreviation count :: "(host_metrics \<Rightarrow> host_metrics) \<Rightarrow> host \<Rightarrow> host" where
  "count f h \<equiv> h \<lparr> h_metrics := f (h_metrics h) \<rparr>"

definition handlerError :: "host \<Rightarrow> host" where
  "handlerError h = count (\<lambda>m. m \<lparr> m_handlerErrors := m_handlerErrors m + 1 \<rparr>) h"

definition ack_item :: "string \<Rightarrow> hw \<Rightarrow> hw" where
  "ack_item k = (\<lambda>(h, w). (h, w \<lparr> w_driver := ackInbox (h_id h) [k] (w_driver w) \<rparr>))"

section \<open>Snapshots\<close>

definition flushSnapshot :: "hw \<Rightarrow> (error + unit) \<times> hw" where
  "flushSnapshot = (\<lambda>(h, w).
     case h_instance h of
       None \<Rightarrow> (Inr (), h, w)
     | Some s \<Rightarrow>
        if \<not> h_snapshotDirty h then (Inr (), h, w)
        else
          let h1 = h \<lparr> h_snapshotDirty := False \<rparr>;
              snap = \<lparr> sw_class = rg_name (h_reg h), sw_version = h_runningVersion h,
                       sw_seq = (if h_isEs h then h_currentSeq h else 0),
                       sw_state = ac_snapshot (h_class h) s \<rparr>
          in (case saveSnapshot (h_id h) snap (Some (h_fence h)) (w_driver w) of
                (Inl e, d) \<Rightarrow> (Inl e, h1, w \<lparr> w_driver := d \<rparr>)
              | (Inr _, d) \<Rightarrow>
                  let h2 = count (\<lambda>m. m \<lparr> m_snapshotsWritten := m_snapshotsWritten m + 1 \<rparr>) h1;
                      h3 = (if h_isEs h then h2 \<lparr> h_eventsSince := 0 \<rparr> else h2)
                  in (Inr (), h3, w \<lparr> w_driver := d \<rparr>)))"

definition scheduleSnapshot :: "host \<Rightarrow> host" where
  "scheduleSnapshot h = h \<lparr> h_snapshotDirty := True, h_snapshotTimer := True \<rparr>"

text \<open>The debounce timer fires: a failed flush is counted and dropped.\<close>

definition snapshotTimerFires :: "hw \<Rightarrow> hw" where
  "snapshotTimerFires = (\<lambda>(h, w).
     if \<not> h_snapshotTimer h then (h, w)
     else (case flushSnapshot (h \<lparr> h_snapshotTimer := False \<rparr>, w) of
        (Inl e, h1, w1) \<Rightarrow> (handlerError h1, w1)
      | (Inr _, h1, w1) \<Rightarrow> (h1, w1)))"

section \<open>Activation\<close>

text \<open>Which class this activation runs: the sticky-versus-floating policy of \<open>resolveCtor\<close>.\<close>

definition resolveCtor :: "env \<Rightarrow> version option \<Rightarrow> hw \<Rightarrow> (error + actor_class \<times> version \<times> bool) \<times> hw" where
  "resolveCtor en persisted = (\<lambda>(h, w).
     let registered = rg_version (h_reg h) in
     case persisted of
       None \<Rightarrow> (Inr (rg_ctor (h_reg h), registered, False), h, w)
     | Some p \<Rightarrow>
        if p = [] \<or> p = registered then (Inr (rg_ctor (h_reg h), registered, False), h, w)
        else if en_gt en p registered
        then (Inl (ManifestRegression (h_id h) (rg_name (h_reg h)) p registered), h, w)
        else if floating_of (h_reg h) then (Inr (rg_ctor (h_reg h), registered, True), h, w)
        else if \<not> h_hasLoader h
        then (Inl (PlainError ''actor is sticky and no ClassLoader is configured''), h, w)
        else (case load_class (en_compile en) (rg_name (h_reg h)) p (w_driver w) (w_loader w) of
            (Inl e, ld) \<Rightarrow> (Inl e, h, w \<lparr> w_loader := ld \<rparr>)
          | (Inr c, ld) \<Rightarrow>
             (case sha256For (rg_name (h_reg h)) p (w_driver w) of
                None \<Rightarrow> (Inr (c, p, False), h, w \<lparr> w_loader := ld \<rparr>)
              | Some sha \<Rightarrow>
                 (Inr (c, p, False), h \<lparr> h_runningSha := Some sha \<rparr>,
                  w \<lparr> w_loader := acquire sha ld \<rparr>))))"

text \<open>The loop of \<open>replayEvents\<close>: the state it folds to, \<open>currentSeq\<close>, and how many were replayed.\<close>

fun replay_loop :: "actor_class \<Rightarrow> version \<Rightarrow> event_record list \<Rightarrow> jsval \<Rightarrow> int \<Rightarrow> nat
    \<Rightarrow> (error + jsval) \<times> int \<times> nat" where
  "replay_loop c v [] s q n = (Inr s, q, n)"
| "replay_loop c v (r # rs) s q n =
     (case (case ac_migrateEvent c of
              None \<Rightarrow> Inr (er_payload r)
            | Some f \<Rightarrow> if er_version r \<noteq> v then f (er_payload r) (er_version r) else Inr (er_payload r)) of
        Inl x \<Rightarrow> (Inl x, q, n)
      | Inr e \<Rightarrow> (case ac_reduce c s e of
           Inl x \<Rightarrow> (Inl x, q, n)
         | Inr s' \<Rightarrow> replay_loop c v rs s' (er_seq r) (n + 1)))"

definition inst_state :: "host \<Rightarrow> jsval" where
  "inst_state h = (case h_instance h of Some s \<Rightarrow> s | None \<Rightarrow> JNull)"

definition replayEvents :: "hw \<Rightarrow> (error + unit) \<times> hw" where
  "replayEvents = (\<lambda>(h, w).
     if headEventSeq (h_id h) (w_driver w) \<le> h_currentSeq h then (Inr (), h, w)
     else
       let recs = readEvents (h_id h) (h_currentSeq h + 1) (w_driver w);
           (r, q, n) = replay_loop (h_class h) (rg_version (h_reg h)) recs (inst_state h) (h_currentSeq h) 0;
           h1 = h \<lparr> h_currentSeq := q \<rparr>
       in (case r of
             Inl e \<Rightarrow> (Inl e, h1, w)
           | Inr s \<Rightarrow>
              let h2 = count (\<lambda>m. m \<lparr> m_eventsReplayed := m_eventsReplayed m + n \<rparr>)
                         (h1 \<lparr> h_instance := Some s, h_eventsSince := int n \<rparr>)
              in if every_of (h_reg h) \<le> int n
                 then flushSnapshot (h2 \<lparr> h_snapshotDirty := True \<rparr>, w)
                 else (Inr (), h2, w)))"

definition record_migration :: "env \<Rightarrow> version \<Rightarrow> hw \<Rightarrow> hw" where
  "record_migration en prevVersion = (\<lambda>(h, w).
     if \<not> en_auditor en then (h, w)
     else (h, w \<lparr> w_driver := appendAudit
       \<lparr> ae_id = en_auditId en, ae_ts = d_now (w_driver w), ae_principal = ''system'',
         ae_action = ''actor.migrated'', ae_target = rg_name (h_reg h) @ '':'' @ h_id h,
         ae_meta = [(''actorId'', JStr (h_id h)), (''class'', JStr (rg_name (h_reg h))),
                    (''fromVersion'', JStr prevVersion), (''toVersion'', JStr (h_runningVersion h))] \<rparr>
       (w_driver w) \<rparr>))"

definition migrateSnapshot :: "env \<Rightarrow> jsval \<Rightarrow> version \<Rightarrow> hw \<Rightarrow> (error + unit) \<times> hw" where
  "migrateSnapshot en prevState prevVersion = (\<lambda>(h, w).
     case ac_migrate (h_class h) of
       None \<Rightarrow> (Inr (), h \<lparr> h_snapshotDirty := True \<rparr>, w)
     | Some f \<Rightarrow>
        (case saveSnapshot (h_id h) \<lparr> sw_class = rg_name (h_reg h), sw_version = prevVersion,
                sw_seq = -1, sw_state = prevState \<rparr> (Some (h_fence h)) (w_driver w) of
           (Inl e, d) \<Rightarrow> (Inl e, h, w \<lparr> w_driver := d \<rparr>)
         | (Inr _, d) \<Rightarrow>
            let w1 = w \<lparr> w_driver := d \<rparr> in
            (case f prevState prevVersion of
               Inl e \<Rightarrow> (Inl e, h, w1)
             | Inr s \<Rightarrow>
                let h1 = count (\<lambda>m. m \<lparr> m_migrationsApplied := m_migrationsApplied m + 1 \<rparr>)
                           (h \<lparr> h_instance := Some s, h_snapshotDirty := True \<rparr>)
                in (case flushSnapshot (h1, w1) of
                      (Inl e, hw) \<Rightarrow> (Inl e, hw)
                    | (Inr _, hw) \<Rightarrow> (Inr (), record_migration en prevVersion hw)))))"

text \<open>An optional lifecycle hook on the instance's state.\<close>

definition run_hook :: "(jsval \<Rightarrow> (error + unit) \<times> jsval) option \<Rightarrow> hw \<Rightarrow> (error + unit) \<times> hw" where
  "run_hook f = (\<lambda>(h, w). case f of
      None \<Rightarrow> (Inr (), h, w)
    | Some g \<Rightarrow> let (r, s) = g (inst_state h) in (r, h \<lparr> h_instance := Some s \<rparr>, w))"

text \<open>The item reaches the waiting worker, or the buffer.\<close>

definition host_enqueue :: "mailbox_item \<Rightarrow> host \<Rightarrow> (error + bool) \<times> host" where
  "host_enqueue item h = (
     let (r, wakes, mb) = enqueue item (h_mailbox h) in
     (r, h \<lparr> h_mailbox := mb,
             h_inhand := (case wakes of (_, Some x) # _ \<Rightarrow> Some x | _ \<Rightarrow> h_inhand h) \<rparr>))"

definition worker_next :: "host \<Rightarrow> host" where
  "worker_next h = (
     let (wakes, mb) = dequeue 0 (h_mailbox h) in
     h \<lparr> h_mailbox := mb, h_inhand := (case wakes of (_, x) # _ \<Rightarrow> x | [] \<Rightarrow> None) \<rparr>)"

definition tell_of_record :: "inbox_record \<Rightarrow> mailbox_item" where
  "tell_of_record r = TellItem (ie_type (ir_entry r)) (ie_payload (ir_entry r)) (ir_id r)"

text \<open>The replay of the durable inbox ignores what \<open>enqueue\<close> answers.\<close>

fun enqueue_all :: "inbox_record list \<Rightarrow> host \<Rightarrow> host" where
  "enqueue_all [] h = h"
| "enqueue_all (r # rs) h = enqueue_all rs (snd (host_enqueue (tell_of_record r) h))"

text \<open>\<open>Number.MAX_SAFE_INTEGER\<close>.\<close>

definition max_safe_integer :: int where
  "max_safe_integer = 9007199254740991"

definition open_host :: "hw \<Rightarrow> hw" where
  "open_host = (\<lambda>(h, w).
     let (h1, w1) = touch (h \<lparr> h_activated := True \<rparr>, w);
         h2 = worker_next h1
     in (enqueue_all (readPendingInbox (h_id h) max_safe_integer (w_driver w1)) h2, w1))"

text \<open>Loading the state: from the snapshot, or a cold start that registers the actor.\<close>

definition start_state :: "snapshot_read option \<Rightarrow> hw \<Rightarrow> (error + unit) \<times> hw" where
  "start_state snap = (\<lambda>(h, w). case snap of
      Some sn \<Rightarrow> (Inr (), h \<lparr> h_instance := Some (sr_state sn), h_currentSeq := sr_seq sn \<rparr>, w)
    | None \<Rightarrow>
       let w1 = w \<lparr> w_driver := registerActor (h_id h) (rg_name (h_reg h)) (h_runningVersion h) []
                                  (w_driver w) \<rparr>;
           h1 = (if h_isEs h
                 then h \<lparr> h_instance := Some (ac_initialState (h_class h)), h_currentSeq := 0 \<rparr>
                 else h)
       in run_hook (ac_onInit (h_class h1)) (h1, w1))"

definition doActivate :: "env \<Rightarrow> hw \<Rightarrow> (error + unit) \<times> hw" where
  "doActivate en = (\<lambda>(h, w).
     if h_destroyed h then (Inl (PlainError (''ActorHost '' @ h_id h @ '' is destroyed'')), h, w)
     else (case new_mailbox (capacity_of (h_reg h)) of
       Inl e \<Rightarrow> (Inl e, h, w)
     | Inr mb \<Rightarrow>
       let h0 = h \<lparr> h_mailbox := mb, h_inhand := None \<rparr>;
           snap = loadSnapshot (h_id h) (w_driver w)
       in (case resolveCtor en (map_option sr_version snap) (h0, w) of
         (Inl e, hw) \<Rightarrow> (Inl e, hw)
       | (Inr (c, v, willMigrate), h1, w1) \<Rightarrow>
         let h2 = h1 \<lparr> h_runningVersion := v, h_fence := loadActorFence (h_id h) (w_driver w1),
                        h_class := c, h_instance := Some (ac_state0 c), h_isEs := ac_isEs c \<rparr>
         in (case start_state snap (h2, w1) of
           (Inl e, hw) \<Rightarrow> (Inl e, hw)
         | (Inr _, hw3) \<Rightarrow>
           (case (case snap of
                    Some sn \<Rightarrow> if willMigrate then migrateSnapshot en (sr_state sn) (sr_version sn) hw3
                               else (Inr (), hw3)
                  | None \<Rightarrow> (Inr (), hw3)) of
             (Inl e, hw) \<Rightarrow> (Inl e, hw)
           | (Inr _, hw4) \<Rightarrow>
             (case (if h_isEs (fst hw4) then replayEvents hw4 else (Inr (), hw4)) of
               (Inl e, hw) \<Rightarrow> (Inl e, hw)
             | (Inr _, hw5) \<Rightarrow>
               (case run_hook (ac_onActivate (h_class (fst hw5))) hw5 of
                 (Inl e, hw) \<Rightarrow> (Inl e, hw)
               | (Inr _, hw6) \<Rightarrow> (Inr (), open_host hw6))))))))"

definition activate :: "env \<Rightarrow> hw \<Rightarrow> (error + unit) \<times> hw" where
  "activate en hw = (if h_activated (fst hw) then (Inr (), hw) else doActivate en hw)"

section \<open>Turns\<close>

text \<open>How both commits settle the item: resolve the call, or acknowledge the inbox entry.\<close>

definition acknowledge :: "mailbox_item \<Rightarrow> jsval \<Rightarrow> hw \<Rightarrow> hw" where
  "acknowledge item result = (\<lambda>(h, w). case item of
      CallItem m a c \<Rightarrow>
        (count (\<lambda>m. m \<lparr> m_callsHandled := m_callsHandled m + 1 \<rparr>) h, settle c (Inr result) w)
    | TellItem t p k \<Rightarrow>
        ack_item k (count (\<lambda>m. m \<lparr> m_tellsHandled := m_tellsHandled m + 1 \<rparr>) h, w))"

definition commitSwm :: "env \<Rightarrow> mailbox_item \<Rightarrow> jsval \<Rightarrow> hw \<Rightarrow> hw" where
  "commitSwm en item result hw = (
     let (h1, w1) = acknowledge item result hw;
         h2 = scheduleSnapshot h1
     in (case h_prevCapture h2 of
           None \<Rightarrow> (h2, w1)
         | Some prev \<Rightarrow>
            let patch = en_compare en prev (inst_state h2);
                h3 = h2 \<lparr> h_prevCapture := None \<rparr>
            in if patch = [] then (h3, w1)
               else emitCommit (CommitPatch patch (inst_state h2)) (h3, w1)))"

text \<open>The bookkeeping of \<open>commitEs\<close> once the events are in the log and folded to \<open>s\<close>.\<close>

definition appended :: "nat \<Rightarrow> int \<Rightarrow> jsval \<Rightarrow> host \<Rightarrow> host" where
  "appended n seq s h = count (\<lambda>m. m \<lparr> m_eventsAppended := m_eventsAppended m + n \<rparr>)
     (h \<lparr> h_instance := Some s, h_currentSeq := seq, h_eventsSince := h_eventsSince h + int n,
          h_snapshotDirty := True \<rparr>)"

definition commitEs :: "mailbox_item \<Rightarrow> jsval \<Rightarrow> hw \<Rightarrow> (error + unit) \<times> hw" where
  "commitEs item result = (\<lambda>(h, w). case result of
      JArr events \<Rightarrow>
        if events = [] then (Inr (), acknowledge item result (h, w))
        else (case normalize_all events of
            Inl e \<Rightarrow> (Inl e, h, w)
          | Inr writes \<Rightarrow>
             (case appendEvents (h_id h) writes (Some (h_fence h)) (w_driver w) of
                (Inl e, d) \<Rightarrow> (Inl e, h, w \<lparr> w_driver := d \<rparr>)
              | (Inr seq, d) \<Rightarrow>
                 (case reduce_all (h_class h) (inst_state h) events of
                    Inl e \<Rightarrow> (Inl e, h, w \<lparr> w_driver := d \<rparr>)
                  | Inr s \<Rightarrow>
                     let hw2 = acknowledge item result
                           (appended (length events) seq s h, w \<lparr> w_driver := d \<rparr>);
                         hw3 = emitCommit (CommitEvents events seq s) hw2
                     in if every_of (h_reg h) \<le> h_eventsSince (fst hw3)
                        then flushSnapshot hw3 else (Inr (), hw3))))
    | _ \<Rightarrow> (Inl (PlainError (''ES handler for '' @ rg_name (h_reg h) @ '' must return E[]; got ''
              @ js_typeof result)), h, w))"

definition item_name :: "mailbox_item \<Rightarrow> string" where
  "item_name item = (case item of CallItem m a c \<Rightarrow> m | TellItem t p k \<Rightarrow> t)"

definition item_arg :: "mailbox_item \<Rightarrow> jsval" where
  "item_arg item = (case item of CallItem m a c \<Rightarrow> a | TellItem t p k \<Rightarrow> p)"

text \<open>The \<open>catch\<close> of a turn: a call is rejected, the inbox entry of a tell stays unacknowledged.\<close>

definition turn_failed :: "mailbox_item \<Rightarrow> error \<Rightarrow> hw \<Rightarrow> hw" where
  "turn_failed item e = (\<lambda>(h, w). (handlerError h,
     case item of CallItem m a c \<Rightarrow> settle c (Inl e) w | TellItem t p k \<Rightarrow> w))"

definition handle :: "env \<Rightarrow> mailbox_item \<Rightarrow> hw \<Rightarrow> hw" where
  "handle en item = (\<lambda>(h, w). case find_handler (h_class h) (item_name item) of
      None \<Rightarrow>
        (case item of
           CallItem m a c \<Rightarrow>
             (h, settle c (Inl (PlainError (''no handler for '' @ m @ '' on '' @ rg_name (h_reg h)))) w)
         | TellItem t p k \<Rightarrow> ack_item k (handlerError h, w))
    | Some f \<Rightarrow>
       let h0 = (if \<not> h_isEs h \<and> h_listeners h \<noteq> []
                 then h \<lparr> h_prevCapture := Some (inst_state h) \<rparr> else h);
           (r, s) = f (inst_state h0) (item_arg item);
           h1 = h0 \<lparr> h_instance := Some s \<rparr>
       in (case r of
             Inl e \<Rightarrow> turn_failed item e (h1, w)
           | Inr result \<Rightarrow>
              (case (if h_isEs h1 then commitEs item result (h1, w)
                     else (Inr (), commitSwm en item result (h1, w))) of
                 (Inl e, hw) \<Rightarrow> turn_failed item e hw
               | (Inr _, hw) \<Rightarrow> touch hw)))"

text \<open>One iteration of \<open>workerLoop\<close>: handle the item in hand, then ask for the next.\<close>

definition worker_turn :: "env \<Rightarrow> hw \<Rightarrow> hw" where
  "worker_turn en = (\<lambda>(h, w). case h_inhand h of
      None \<Rightarrow> (h, w)
    | Some item \<Rightarrow>
       let (h1, w1) = handle en item (h \<lparr> h_inhand := None \<rparr>, w) in (worker_next h1, w1))"

section \<open>Requests\<close>

definition tell :: "env \<Rightarrow> string \<Rightarrow> jsval \<Rightarrow> hw \<Rightarrow> (error + unit) \<times> hw" where
  "tell en type payload hw = (
     if h_destroyed (fst hw)
     then (Inl (PlainError (''ActorHost '' @ h_id (fst hw) @ '' is destroyed'')), hw)
     else (case activate en hw of
       (Inl e, hw1) \<Rightarrow> (Inl e, hw1)
     | (Inr _, h, w) \<Rightarrow>
        let (k, d) = appendInbox (h_id h) \<lparr> ie_type = type, ie_payload = payload \<rparr> (w_driver w);
            w1 = w \<lparr> w_driver := d \<rparr>
        in (case host_enqueue (TellItem type payload k) h of
              (Inl e, h1) \<Rightarrow> (Inl e, h1, w1)
            | (Inr accepted, h1) \<Rightarrow>
               if accepted then (Inr (), touch (h1, w1))
               else (Inr (), ack_item k
                 (count (\<lambda>m. m \<lparr> m_tellsDropped := m_tellsDropped m + 1 \<rparr>) h1, w1)))))"

text \<open>\<open>Inr ()\<close>: the call was queued and its promise \<open>c\<close> is pending; \<open>Inl\<close>: it was rejected.\<close>

definition call :: "env \<Rightarrow> string \<Rightarrow> jsval \<Rightarrow> nat \<Rightarrow> hw \<Rightarrow> (error + unit) \<times> hw" where
  "call en method args c hw = (
     if h_destroyed (fst hw)
     then (Inl (PlainError (''ActorHost '' @ h_id (fst hw) @ '' is destroyed'')), hw)
     else (case activate en hw of
       (Inl e, hw1) \<Rightarrow> (Inl e, hw1)
     | (Inr _, h, w) \<Rightarrow>
        if isFull (h_mailbox h) then (Inl MailboxFullError, h, w)
        else (case host_enqueue (CallItem method args c) h of
            (Inl e, h1) \<Rightarrow> (Inl e, h1, w)
          | (Inr accepted, h1) \<Rightarrow>
             if accepted then (Inr (), touch (h1, w)) else (Inl MailboxFullError, h1, w))))"

section \<open>Deactivation\<close>

definition queued :: "host \<Rightarrow> mailbox_item list" where
  "queued h = (case h_inhand h of None \<Rightarrow> [] | Some x \<Rightarrow> [x]) @ mb_buffer (h_mailbox h)"

text \<open>What the worker still does after \<open>mailbox.close()\<close>: it handles all that is queued and stops.\<close>

definition drain_worker :: "env \<Rightarrow> hw \<Rightarrow> hw" where
  "drain_worker en = (\<lambda>(h, w). foldl (\<lambda>hw item. handle en item hw)
     (h \<lparr> h_inhand := None, h_mailbox := h_mailbox h \<lparr> mb_buffer := [] \<rparr> \<rparr>, w) (queued h))"

definition release_class :: "hw \<Rightarrow> hw" where
  "release_class = (\<lambda>(h, w). case h_runningSha h of
      Some sha \<Rightarrow>
        if h_hasLoader h
        then (h \<lparr> h_runningSha := None \<rparr>, w \<lparr> w_loader := release sha (w_loader w) \<rparr>) else (h, w)
    | None \<Rightarrow> (h, w))"

definition doDeactivate :: "env \<Rightarrow> hw \<Rightarrow> (error + unit) \<times> hw" where
  "doDeactivate en = (\<lambda>(h, w).
     let h1 = h \<lparr> h_idleTimer := False, h_mailbox := snd (close (h_mailbox h)) \<rparr>;
         (h2, w2) = drain_worker en (h1, w);
         h3 = h2 \<lparr> h_snapshotTimer := False \<rparr>
     in (case (if h_snapshotDirty h3 then flushSnapshot (h3, w2) else (Inr (), h3, w2)) of
           (Inl e, hw) \<Rightarrow> (Inl e, hw)
         | (Inr _, hw4) \<Rightarrow>
            let (r, h5, w5) = run_hook (ac_onDeactivate (h_class (fst hw4))) hw4;
                h6 = (case r of Inl e \<Rightarrow> handlerError h5 | Inr _ \<Rightarrow> h5);
                (h7, w7) = release_class (h6, w5)
            in (Inr (), h7 \<lparr> h_instance := None \<rparr>, w7)))"

definition deactivate :: "env \<Rightarrow> hw \<Rightarrow> (error + unit) \<times> hw" where
  "deactivate en hw = (
     if \<not> h_activated (fst hw) then (Inr (), hw)
     else let (r, h, w) = doDeactivate en hw in (r, h \<lparr> h_activated := False \<rparr>, w))"

text \<open>The idle timer: the flag says whether \<open>onIdleEvict\<close> is called.\<close>

definition deactivateForIdle :: "env \<Rightarrow> hw \<Rightarrow> bool \<times> hw" where
  "deactivateForIdle en = (\<lambda>(h, w).
     let h0 = h \<lparr> h_idleTimer := False \<rparr> in
     if \<not> h_activated h0 then (False, h0, w)
     else if 0 < mailbox_size (h_mailbox h0) then (False, h0 \<lparr> h_idleTimer := True \<rparr>, w)
     else (case deactivate en (h0, w) of (Inl e, hw) \<Rightarrow> (False, hw) | (Inr _, hw) \<Rightarrow> (True, hw)))"

definition destroy :: "env \<Rightarrow> hw \<Rightarrow> (error + unit) \<times> hw" where
  "destroy en = (\<lambda>(h, w).
     if h_destroyed h then (Inr (), h, w)
     else let h1 = h \<lparr> h_destroyed := True \<rparr> in
       if h_activated h1 then deactivate en (h1, w) else (Inr (), h1, w))"

section \<open>Commit listeners\<close>

definition onCommit :: "nat \<Rightarrow> host \<Rightarrow> host" where
  "onCommit l h = h \<lparr> h_listeners := (if l \<in> set (h_listeners h) then h_listeners h else h_listeners h @ [l]) \<rparr>"

definition offCommit :: "nat \<Rightarrow> host \<Rightarrow> host" where
  "offCommit l h = h \<lparr> h_listeners := removeAll l (h_listeners h) \<rparr>"

definition notifyTombstone :: "hw \<Rightarrow> hw" where
  "notifyTombstone = emitCommit CommitTombstone"

definition currentState :: "host \<Rightarrow> jsval" where
  "currentState h = inst_state h"

definition currentEventSeq :: "host \<Rightarrow> int" where
  "currentEventSeq h = h_currentSeq h"

section \<open>Steps\<close>

text \<open>The operations of one host, as the rest of the process and its timers invoke them.\<close>

datatype host_op =
    OpTell string jsval
  | OpCall string jsval nat
  | OpTurn
  | OpSnapshotTimer
  | OpIdle
  | OpDeactivate
  | OpListen nat
  | OpUnlisten nat
  | OpTick ms

fun host_step :: "env \<Rightarrow> host_op \<Rightarrow> hw \<Rightarrow> hw" where
  "host_step en (OpTell t p) hw = snd (tell en t p hw)"
| "host_step en (OpCall m a c) hw = snd (call en m a c hw)"
| "host_step en OpTurn hw = worker_turn en hw"
| "host_step en OpSnapshotTimer hw = snapshotTimerFires hw"
| "host_step en OpIdle hw = snd (deactivateForIdle en hw)"
| "host_step en OpDeactivate hw = snd (deactivate en hw)"
| "host_step en (OpListen l) (h, w) = (onCommit l h, w)"
| "host_step en (OpUnlisten l) (h, w) = (offCommit l h, w)"
| "host_step en (OpTick t) (h, w) = (h, w \<lparr> w_driver := (w_driver w) \<lparr> d_now := t \<rparr> \<rparr>)"

definition host_run :: "env \<Rightarrow> host_op list \<Rightarrow> hw \<Rightarrow> hw" where
  "host_run en ops hw = foldl (\<lambda>hw op. host_step en op hw) hw ops"

section \<open>What a turn leaves alone\<close>

text \<open>The part of a host no turn changes: its identity, its queue, its listeners and its class.\<close>

definition host_ctl :: "host \<Rightarrow> actor_id \<times> registration \<times> actor_class \<times> bool \<times> mailbox_item option
    \<times> mailbox_item mailbox \<times> bool \<times> bool \<times> nat list \<times> int \<times> version \<times> string option \<times> bool" where
  "host_ctl h = (h_id h, h_reg h, h_class h, h_isEs h, h_inhand h, h_mailbox h, h_destroyed h,
     h_activated h, h_listeners h, h_fence h, h_runningVersion h, h_runningSha h, h_hasLoader h)"

named_theorems ctl_frames "steps that leave the control part of a host alone"

lemma flushSnapshot_ctl [ctl_frames]:
  "host_ctl (fst (snd (flushSnapshot (h, w)))) = host_ctl h"
  by (auto simp: flushSnapshot_def host_ctl_def Let_def split: option.splits prod.splits sum.splits)

lemma acknowledge_ctl [ctl_frames]: "host_ctl (fst (acknowledge item v (h, w))) = host_ctl h"
  by (cases item) (simp_all add: acknowledge_def ack_item_def host_ctl_def)

lemma emitCommit_ctl [ctl_frames]: "host_ctl (fst (emitCommit info (h, w))) = host_ctl h"
  by (simp add: emitCommit_def)

lemma turn_failed_ctl [ctl_frames]: "host_ctl (fst (turn_failed item e (h, w))) = host_ctl h"
  by (simp add: turn_failed_def handlerError_def host_ctl_def)

lemma touch_ctl [ctl_frames]: "host_ctl (fst (touch (h, w))) = host_ctl h"
  by (simp add: touch_def host_ctl_def)

lemma scheduleSnapshot_ctl [ctl_frames]: "host_ctl (scheduleSnapshot h) = host_ctl h"
  by (simp add: scheduleSnapshot_def host_ctl_def)

lemma host_ctl_update [ctl_frames]:
  "host_ctl (h \<lparr> h_instance := s \<rparr>) = host_ctl h" "host_ctl (h \<lparr> h_prevCapture := p \<rparr>) = host_ctl h"
  "host_ctl (h \<lparr> h_metrics := m \<rparr>) = host_ctl h" "host_ctl (h \<lparr> h_currentSeq := q \<rparr>) = host_ctl h"
  "host_ctl (h \<lparr> h_eventsSince := n \<rparr>) = host_ctl h" "host_ctl (h \<lparr> h_snapshotDirty := b \<rparr>) = host_ctl h"
  by (simp_all add: host_ctl_def)

lemma commitSwm_ctl [ctl_frames]: "host_ctl (fst (commitSwm en item v (h, w))) = host_ctl h"
proof -
  obtain h1 w1 where ak: "acknowledge item v (h, w) = (h1, w1)" by (cases "acknowledge item v (h, w)")
  then have "host_ctl h1 = host_ctl h" using acknowledge_ctl [of item v h w] by simp
  then show ?thesis
    using ak by (simp add: commitSwm_def Let_def ctl_frames split: option.split)
qed

lemma commitEs_ctl [ctl_frames]: "host_ctl (fst (snd (commitEs item v (h, w)))) = host_ctl h"
proof -
  have ak: "host_ctl (fst (acknowledge item v (g, u))) = host_ctl g" for g u by (rule acknowledge_ctl)
  have em: "host_ctl (fst (emitCommit info p)) = host_ctl (fst p)" for info p
    by (cases p) (simp add: emitCommit_ctl)
  have fl: "host_ctl (fst (snd (flushSnapshot p))) = host_ctl (fst p)" for p
    by (cases p) (simp add: flushSnapshot_ctl)
  show ?thesis
    by (auto simp: commitEs_def appended_def Let_def ak em fl ctl_frames
        split: jsval.split sum.split prod.split)
qed

lemma handle_ctl [ctl_frames]: "host_ctl (fst (handle en item (h, w))) = host_ctl h"
proof (cases "find_handler (h_class h) (item_name item)")
  case None
  then show ?thesis
    by (cases item) (simp_all add: handle_def ack_item_def handlerError_def ctl_frames)
next
  case (Some f)
  let ?h0 = "if \<not> h_isEs h \<and> h_listeners h \<noteq> [] then h \<lparr> h_prevCapture := Some (inst_state h) \<rparr> else h"
  obtain x s where fx: "f (inst_state ?h0) (item_arg item) = (x, s)"
    by (cases "f (inst_state ?h0) (item_arg item)")
  let ?h1 = "?h0 \<lparr> h_instance := Some s \<rparr>"
  have h1: "host_ctl ?h1 = host_ctl h" by (simp add: ctl_frames)
  show ?thesis
  proof (cases x)
    case (Inl e)
    then show ?thesis using Some fx h1 turn_failed_ctl [of item e ?h1 w] by (simp add: handle_def Let_def)
  next
    case (Inr v)
    let ?c = "if h_isEs ?h1 then commitEs item v (?h1, w) else (Inr (), commitSwm en item v (?h1, w))"
    obtain y h2 w2 where c: "?c = (y, h2, w2)" by (cases ?c)
    have h2: "host_ctl h2 = host_ctl h"
      using c h1 commitEs_ctl [of item v ?h1 w] commitSwm_ctl [of en item v ?h1 w]
      by (auto split: if_splits)
    have "handle en item (h, w) = (case y of Inl e \<Rightarrow> turn_failed item e (h2, w2) | Inr _ \<Rightarrow> touch (h2, w2))"
      using Some fx Inr c by (simp add: handle_def Let_def)
    then show ?thesis
      using h2 turn_failed_ctl touch_ctl by (cases y) simp_all
  qed
qed

lemma foldl_handle_ctl [ctl_frames]:
  "host_ctl (fst (foldl (\<lambda>hw item. handle en item hw) (h, w) items)) = host_ctl h"
proof (induction items arbitrary: h w)
  case (Cons x items)
  obtain h1 w1 where "handle en x (h, w) = (h1, w1)" by (cases "handle en x (h, w)")
  with Cons.IH [of h1 w1] handle_ctl [of en x h w] show ?case by simp
qed simp

lemma host_ctlD:
  assumes "host_ctl h' = host_ctl h"
  shows "h_id h' = h_id h" "h_reg h' = h_reg h" "h_class h' = h_class h" "h_isEs h' = h_isEs h"
    "h_inhand h' = h_inhand h" "h_mailbox h' = h_mailbox h" "h_destroyed h' = h_destroyed h"
    "h_activated h' = h_activated h" "h_listeners h' = h_listeners h" "h_fence h' = h_fence h"
    "h_runningVersion h' = h_runningVersion h"
  using assms by (simp_all add: host_ctl_def)

end
