(* ===== verification/HostRecovery.thy ===== *)
theory HostRecovery
  imports Host
begin

text \<open>
  Event-sourced actors: what the host keeps in memory is the fold of the durable log, every
  stored snapshot is the fold of a prefix of it, and so a fresh host over the same storage
  recovers the state exactly, whenever the first one stopped.
\<close>

section \<open>The contract of an event-sourced class\<close>

text \<open>
  What \<open>src/event-sourced.ts\<close> asks of a class (handlers do not write the state, \<open>reduce\<close> is a
  total pure function, no hook changes the state), plus what replay needs beyond that: an event
  and the payload it is stored as reduce alike.
\<close>

definition payload_faithful :: "actor_class \<Rightarrow> bool" where
  "payload_faithful c \<longleftrightarrow> (\<forall>s e w. normalizeEvent e = Inr w \<longrightarrow> ac_reduce c s e = ac_reduce c s (ew_payload w))"

definition es_contract :: "actor_class \<Rightarrow> bool" where
  "es_contract c \<longleftrightarrow> ac_isEs c \<and> payload_faithful c
     \<and> (\<forall>s e. \<exists>s'. ac_reduce c s e = Inr s')
     \<and> (\<forall>name f s a. find_handler c name = Some f \<longrightarrow> snd (f s a) = s)
     \<and> (\<forall>s. ac_snapshot c s = s)
     \<and> ac_migrateEvent c = None \<and> ac_onInit c = None \<and> ac_onActivate c = None"

lemma es_contractD:
  assumes "es_contract c"
  shows "ac_isEs c" "payload_faithful c" "\<exists>s'. ac_reduce c s e = Inr s'"
    "find_handler c name = Some f \<Longrightarrow> snd (f s a) = s" "ac_snapshot c s = s"
    "ac_migrateEvent c = None" "ac_onInit c = None" "ac_onActivate c = None"
  using assms by (auto simp: es_contract_def)

lemma reduce_all_total: "es_contract c \<Longrightarrow> \<exists>s'. reduce_all c s es = Inr s'"
proof (induction es arbitrary: s)
  case (Cons e es)
  then show ?case using es_contractD(3) [OF Cons.prems, of s e] by auto
qed simp

lemma reduce_all_payloads:
  assumes "payload_faithful c" and "list_all2 (\<lambda>e w. normalizeEvent e = Inr w) es ws"
  shows "reduce_all c s es = reduce_all c s (map ew_payload ws)"
  using assms(2)
proof (induction es ws arbitrary: s rule: list_all2_induct)
  case (Cons e es w ws)
  have "ac_reduce c s e = ac_reduce c s (ew_payload w)"
    using Cons(1) assms(1) unfolding payload_faithful_def by blast
  then show ?case using Cons.IH by (simp split: sum.split)
qed simp

section \<open>Invariant\<close>

definition payloads :: "actor_id \<Rightarrow> driver \<Rightarrow> jsval list" where
  "payloads i d = map er_payload (event_log_of i d)"

definition log_fold :: "actor_class \<Rightarrow> jsval list \<Rightarrow> error + jsval" where
  "log_fold c ps = reduce_all c (ac_initialState c) ps"

text \<open>What is on disk: a well-formed log, the fence of a single owner, snapshots of prefixes.\<close>

definition store_ok :: "actor_class \<Rightarrow> registration \<Rightarrow> actor_id \<Rightarrow> driver \<Rightarrow> bool" where
  "store_ok c r i d \<longleftrightarrow> log_inv d \<and> loadActorFence i d = 0 \<and>
     (\<forall>k row. map_get (snaps_of i d) k = Some row \<longrightarrow>
        0 \<le> k \<and> k \<le> headEventSeq i d \<and> sn_version row = rg_version r
        \<and> log_fold c (take (nat k) (payloads i d)) = Inr (sn_state row))"

text \<open>What is in memory, for a host that runs: the fold of the whole log.\<close>

definition live :: "actor_class \<Rightarrow> registration \<Rightarrow> actor_id \<Rightarrow> host \<Rightarrow> driver \<Rightarrow> bool" where
  "live c r i h d \<longleftrightarrow> h_id h = i \<and> h_reg h = r \<and> h_class h = c \<and> h_isEs h
     \<and> h_runningVersion h = rg_version r \<and> h_fence h = 0 \<and> map_has (d_actors d) i
     \<and> h_currentSeq h = headEventSeq i d
     \<and> (\<exists>s. h_instance h = Some s \<and> log_fold c (payloads i d) = Inr s)"

definition es_ok :: "actor_class \<Rightarrow> registration \<Rightarrow> actor_id \<Rightarrow> hw \<Rightarrow> bool" where
  "es_ok c r i hw \<longleftrightarrow> store_ok c r i (w_driver (snd hw)) \<and> h_id (fst hw) = i \<and> h_reg (fst hw) = r
     \<and> (if h_activated (fst hw) then live c r i (fst hw) (w_driver (snd hw))
        else h_inhand (fst hw) = None \<and> \<not> h_snapshotTimer (fst hw))"

lemma length_payloads: "log_inv d \<Longrightarrow> int (length (payloads i d)) = headEventSeq i d"
  by (simp add: payloads_def mem_log.head_length)

lemma payloads_cong: "d_events d' = d_events d \<Longrightarrow> payloads i d' = payloads i d"
  unfolding payloads_def by (rule arg_cong [OF event_log_cong])

lemma store_ok_cong:
  assumes "store_ok c r i d" and "d_events d' = d_events d" and "d_headSeq d' = d_headSeq d"
    and "d_snapshots d' = d_snapshots d" and "d_actors d' = d_actors d"
  shows "store_ok c r i d'"
proof -
  have "log_inv d'"
    by (rule log_inv_cong [of d]) (use assms in \<open>simp_all add: store_ok_def\<close>)
  moreover have "payloads i d' = payloads i d" "headEventSeq i d' = headEventSeq i d"
    "snaps_of i d' = snaps_of i d" "loadActorFence i d' = loadActorFence i d"
    using assms payloads_cong [OF assms(2), of i]
    by (simp_all add: headEventSeq_def snaps_of_def loadActorFence_def)
  ultimately show ?thesis
    using assms(1) by (simp add: store_ok_def)
qed

lemma live_cong:
  assumes "live c r i h d" and "d_events d' = d_events d" and "d_headSeq d' = d_headSeq d"
    and "d_actors d' = d_actors d"
    and "h_id h' = h_id h" "h_reg h' = h_reg h" "h_class h' = h_class h" "h_isEs h' = h_isEs h"
    "h_runningVersion h' = h_runningVersion h" "h_fence h' = h_fence h"
    "h_currentSeq h' = h_currentSeq h" "h_instance h' = h_instance h"
  shows "live c r i h' d'"
proof -
  have "payloads i d' = payloads i d" "headEventSeq i d' = headEventSeq i d"
    using assms payloads_cong [OF assms(2), of i] by (simp_all add: headEventSeq_def)
  with assms show ?thesis by (simp add: live_def)
qed

lemma live_inst: "live c r i h d \<Longrightarrow> log_fold c (payloads i d) = Inr (inst_state h) \<and> h_instance h = Some (inst_state h)"
  by (auto simp: live_def inst_state_def)

lemma es_okI:
  "store_ok c r i (w_driver w) \<Longrightarrow> live c r i h (w_driver w) \<Longrightarrow> h_activated h \<Longrightarrow> es_ok c r i (h, w)"
  by (simp add: es_ok_def live_def)

section \<open>Snapshots and commits\<close>

lemma flushSnapshot_live:
  assumes c: "es_contract c" and st: "store_ok c r i (w_driver w)" and lv: "live c r i h (w_driver w)"
  obtains h' w' where "flushSnapshot (h, w) = (Inr (), h', w')"
    "store_ok c r i (w_driver w')" "live c r i h' (w_driver w')" "h_activated h' = h_activated h"
    "inst_state h' = inst_state h" "payloads i (w_driver w') = payloads i (w_driver w)"
    "headEventSeq i (w_driver w') = headEventSeq i (w_driver w)"
proof (cases "h_snapshotDirty h")
  case False
  with lv have "flushSnapshot (h, w) = (Inr (), h, w)" by (auto simp: flushSnapshot_def live_def)
  then show ?thesis using st lv by (rule that) simp_all
next
  case True
  let ?d = "w_driver w" and ?s = "inst_state h"
  let ?snap = "\<lparr> sw_class = rg_name (h_reg h), sw_version = h_runningVersion h,
                 sw_seq = h_currentSeq h, sw_state = ?s \<rparr>"
  note L = live_inst [OF lv]
  have f0: "h_fence h = loadActorFence i ?d" and es: "h_isEs h" and id: "h_id h = i" and cl: "h_class h = c"
    using lv st by (simp_all add: live_def store_ok_def)
  obtain x d' where sv: "saveSnapshot i ?snap (Some (h_fence h)) ?d = (x, d')"
    by (cases "saveSnapshot i ?snap (Some (h_fence h)) ?d")
  note eff = saveSnapshot_effect [OF sv]
  have x: "x = Inr ()" using eff f0 by (cases x) auto
  have ev: "d_events d' = d_events ?d" "d_headSeq d' = d_headSeq ?d"
    and fence: "loadActorFence i d' = loadActorFence i ?d"
    and snaps: "snaps_of i d' = map_set (h_currentSeq h)
        \<lparr> sn_ts = d_now ?d, sn_version = h_runningVersion h, sn_state = ?s \<rparr> (snaps_of i ?d)"
    and cls: "\<And>j. map_option ar_class (map_get (d_actors d') j) = map_option ar_class (map_get (d_actors ?d) j)"
    using eff x by auto
  have has: "map_has (d_actors d') j = map_has (d_actors ?d) j" for j
    by (rule has_of_option_eq [OF cls])
  have pay: "payloads i d' = payloads i ?d" by (rule payloads_cong [OF ev(1)])
  have hd': "headEventSeq i d' = headEventSeq i ?d" using ev by (simp add: headEventSeq_def)
  have linv: "log_inv d'" using st ev has by (intro log_inv_cong [of ?d d']) (simp_all add: store_ok_def)
  have seq: "h_currentSeq h = headEventSeq i ?d" and ver: "h_runningVersion h = rg_version r"
    using lv by (simp_all add: live_def)
  have "take (nat (headEventSeq i ?d)) (payloads i ?d) = payloads i ?d"
    using length_payloads [of ?d i] st by (simp add: store_ok_def)
  then have store: "store_ok c r i d'"
    using st linv fence seq ver L log_invD(2) [of ?d i]
    unfolding store_ok_def snaps pay hd' by (auto split: if_splits)
  let ?h = "(count (\<lambda>m. m \<lparr> m_snapshotsWritten := m_snapshotsWritten m + 1 \<rparr>)
      (h \<lparr> h_snapshotDirty := False \<rparr>)) \<lparr> h_eventsSince := 0 \<rparr>"
  have "flushSnapshot (h, w) = (Inr (), ?h, w \<lparr> w_driver := d' \<rparr>)"
    using True L sv x es id cl es_contractD(5) [OF c] by (simp add: flushSnapshot_def Let_def)
  moreover have "live c r i ?h d'"
    using lv has pay hd' by (simp add: live_def)
  ultimately show ?thesis
    using store pay hd' by (intro that [of ?h "w \<lparr> w_driver := d' \<rparr>"]) (auto simp: inst_state_def)
qed

lemma acknowledge_frame:
  assumes "acknowledge item v (h, w) = (h', w')"
  shows "h_id h' = h_id h" "h_reg h' = h_reg h" "h_class h' = h_class h" "h_isEs h' = h_isEs h"
    "h_runningVersion h' = h_runningVersion h" "h_fence h' = h_fence h"
    "h_currentSeq h' = h_currentSeq h" "h_instance h' = h_instance h" "h_activated h' = h_activated h"
    "d_events (w_driver w') = d_events (w_driver w)" "d_headSeq (w_driver w') = d_headSeq (w_driver w)"
    "d_snapshots (w_driver w') = d_snapshots (w_driver w)" "d_actors (w_driver w') = d_actors (w_driver w)"
    "h_eventsSince h' = h_eventsSince h"
  using assms
  by (auto simp: acknowledge_def ack_item_def settle_def ackInbox_effect split: mailbox_item.splits)

lemmas frame_cong = store_ok_cong live_cong

lemma commitEs_live:
  assumes c: "es_contract c" and st: "store_ok c r i (w_driver w)" and lv: "live c r i h (w_driver w)"
    and run: "commitEs item result (h, w) = (x, h', w')"
  shows "store_ok c r i (w_driver w') \<and> live c r i h' (w_driver w') \<and> h_activated h' = h_activated h"
proof -
  let ?d = "w_driver w"
  have id: "h_id h = i" "h_class h = c" "h_fence h = 0" using lv by (simp_all add: live_def)
  have linv: "log_inv ?d" using st by (simp add: store_ok_def)
  show ?thesis
  proof (cases "\<exists>events. result = JArr events")
    case False
    with run st lv show ?thesis by (cases result) (auto simp: commitEs_def)
  next
    case True
    then obtain events where res: "result = JArr events" by blast
    show ?thesis
    proof (cases "events = []")
      case True
      then have ak: "acknowledge item result (h, w) = (h', w')"
        using run res by (simp add: commitEs_def)
      note fr = acknowledge_frame [OF ak]
      show ?thesis
        using store_ok_cong [OF st fr(10-13)] live_cong [OF lv fr(10,11,13,1-8)] fr(9) by simp
    next
      case ne: False
      show ?thesis
      proof (cases "normalize_all events")
        case (Inl e)
        with run res ne st lv show ?thesis by (simp add: commitEs_def)
      next
        case (Inr writes)
        obtain y d1 where ap: "appendEvents i writes (Some 0) ?d = (y, d1)"
          by (cases "appendEvents i writes (Some 0) ?d")
        show ?thesis
        proof (cases y)
          case (Inl e)
          then have "d1 = ?d" using mem_log.append_err ap by blast
          with run res ne \<open>normalize_all events = Inr writes\<close> ap Inl st lv id show ?thesis
            by (auto simp: commitEs_def)
        next
          case (Inr seq)
          note ap' = ap [unfolded Inr]
          obtain v where log': "event_log_of i d1 = event_log_of i ?d @
               map2 (new_record i (d_now ?d) v) [headEventSeq i ?d + 1..seq] writes"
            and sq: "seq = headEventSeq i ?d + int (length writes)" "headEventSeq i d1 = seq"
            using appendEvents_log [OF linv ap'] by blast
          have l2: "list_all2 (\<lambda>e w. normalizeEvent e = Inr w) events writes"
            using \<open>normalize_all events = Inr writes\<close> by (simp add: normalize_all_ok)
          have pay: "payloads i d1 = payloads i ?d @ map ew_payload writes"
          proof -
            have "map er_payload (map2 (new_record i (d_now ?d) v) [headEventSeq i ?d + 1..seq] writes)
                  = map ew_payload writes"
              by (rule map_map2_snd) (simp_all add: sq new_record_def event_of_row_def new_row_def)
            then show ?thesis by (simp add: payloads_def log')
          qed
          obtain s where s: "reduce_all c (inst_state h) events = Inr s"
            using reduce_all_total [OF c] by blast
          have fold: "log_fold c (payloads i d1) = Inr s"
            using live_inst [OF lv] s reduce_all_payloads [OF es_contractD(2) [OF c] l2]
            by (simp add: pay log_fold_def reduce_all_append)
          have eff: "d_actors d1 = d_actors ?d \<and> d_snapshots d1 = d_snapshots ?d \<and> log_inv d1"
            using linv
          proof (cases rule: appendEvents_effect [where i = i and es = writes and fence = "Some 0"])
            case (ok a d')
            with ap' log_inv_appendEvents [OF linv, of i writes "Some 0"] show ?thesis by simp
          qed (use ap' linv in auto)
          have st1: "store_ok c r i d1"
            unfolding store_ok_def
          proof (intro conjI allI impI)
            show "loadActorFence i d1 = 0" using eff st by (simp add: store_ok_def loadActorFence_def)
            fix k row
            assume "map_get (snaps_of i d1) k = Some row"
            then have g: "map_get (snaps_of i ?d) k = Some row" using eff by (simp add: snaps_of_def)
            with st have k: "0 \<le> k" "k \<le> headEventSeq i ?d" and "sn_version row = rg_version r"
              and "log_fold c (take (nat k) (payloads i ?d)) = Inr (sn_state row)"
              by (auto simp: store_ok_def)
            moreover have "nat k \<le> length (payloads i ?d)"
              using k length_payloads [OF linv, of i] by simp
            ultimately show "0 \<le> k" "k \<le> headEventSeq i d1" "sn_version row = rg_version r"
              "log_fold c (take (nat k) (payloads i d1)) = Inr (sn_state row)"
              using sq by (simp_all add: pay)
          qed (use eff in simp)
          let ?h1 = "appended (length events) seq s h"
          have lv1: "live c r i ?h1 d1"
            using lv sq fold eff by (simp add: live_def appended_def)
          have act1: "h_activated ?h1 = h_activated h" by (simp add: appended_def)
          obtain h2 w2 where ak: "acknowledge item result (?h1, w \<lparr> w_driver := d1 \<rparr>) = (h2, w2)"
            by (cases "acknowledge item result (?h1, w \<lparr> w_driver := d1 \<rparr>)")
          note fr = acknowledge_frame [OF ak]
          let ?w3 = "w2 \<lparr> w_emitted := w_emitted w2 @ map (\<lambda>l. (l, CommitEvents events seq s)) (h_listeners h2) \<rparr>"
          have st3: "store_ok c r i (w_driver ?w3)" and lv3: "live c r i h2 (w_driver ?w3)"
            using store_ok_cong [OF st1, of "w_driver w2"] live_cong [OF lv1, of "w_driver w2" h2] fr
            by simp_all
          have commit: "commitEs item result (h, w) =
             (if every_of (h_reg h) \<le> h_eventsSince h2 then flushSnapshot (h2, ?w3) else (Inr (), h2, ?w3))"
            using res ne \<open>normalize_all events = Inr writes\<close> ap' s id ak
            by (simp add: commitEs_def Let_def emitCommit_def)
          show ?thesis
          proof (cases "every_of (h_reg h) \<le> h_eventsSince h2")
            case True
            obtain h4 w4 where "flushSnapshot (h2, ?w3) = (Inr (), h4, w4)"
              "store_ok c r i (w_driver w4)" "live c r i h4 (w_driver w4)" "h_activated h4 = h_activated h2"
              using flushSnapshot_live [OF c st3 lv3] by metis
            with True commit run fr(9) act1 show ?thesis by simp
          next
            case False
            with commit run fr(9) act1 st3 lv3 show ?thesis by simp
          qed
        qed
      qed
    qed
  qed
qed

lemma turn_failed_frame:
  "turn_failed item e (h, w) = (h', w') \<Longrightarrow> w_driver w' = w_driver w \<and> h' = handlerError h"
  by (auto simp: turn_failed_def settle_def split: mailbox_item.splits)

lemma live_fields:
  assumes "live c r i h d"
    and "h_id h' = h_id h" "h_reg h' = h_reg h" "h_class h' = h_class h" "h_isEs h' = h_isEs h"
    "h_runningVersion h' = h_runningVersion h" "h_fence h' = h_fence h"
    "h_currentSeq h' = h_currentSeq h" "h_instance h' = h_instance h"
  shows "live c r i h' d"
  using assms by (simp add: live_def)

lemma handle_live:
  assumes c: "es_contract c" and st: "store_ok c r i (w_driver w)" and lv: "live c r i h (w_driver w)"
    and run: "handle en item (h, w) = (h', w')"
  shows "store_ok c r i (w_driver w') \<and> live c r i h' (w_driver w') \<and> h_activated h' = h_activated h"
proof (cases "find_handler (h_class h) (item_name item)")
  case None
  show ?thesis
  proof (cases item)
    case (TellItem t p k)
    then have eq: "h' = handlerError h" "w_driver w' = ackInbox (h_id h) [k] (w_driver w)"
      using run None by (auto simp: handle_def ack_item_def handlerError_def)
    have "store_ok c r i (w_driver w')" "live c r i h (w_driver w')"
      unfolding eq by (auto intro!: store_ok_cong [OF st] live_cong [OF lv] simp: ackInbox_effect)
    then show ?thesis by (auto simp: eq handlerError_def intro: live_fields)
  next
    case (CallItem m a k)
    with run None st lv show ?thesis by (auto simp: handle_def settle_def)
  qed
next
  case (Some f)
  have es: "h_isEs h" and cl: "h_class h = c" using lv by (simp_all add: live_def)
  note inst = live_inst [OF lv]
  obtain x where fx: "f (inst_state h) (item_arg item) = (x, inst_state h)"
    using es_contractD(4) [OF c Some [unfolded cl]] by (metis prod.collapse)
  have same: "h \<lparr> h_instance := Some (inst_state h) \<rparr> = h"
    using inst by (metis host.surjective host.update_convs(5) host.select_convs(5))
  show ?thesis
  proof (cases x)
    case (Inl e)
    then have "turn_failed item e (h, w) = (h', w')"
      using run Some es fx same by (simp add: handle_def Let_def)
    from turn_failed_frame [OF this] st lv show ?thesis
      by (auto simp: handlerError_def intro: live_fields)
  next
    case (Inr result)
    obtain y h1 w1 where cm: "commitEs item result (h, w) = (y, h1, w1)"
      by (cases "commitEs item result (h, w)")
    note ok = commitEs_live [OF c st lv cm]
    show ?thesis
    proof (cases y)
      case (Inl e)
      then have "turn_failed item e (h1, w1) = (h', w')"
        using run Some es fx same \<open>x = Inr result\<close> cm by (simp add: handle_def Let_def)
      from turn_failed_frame [OF this] ok show ?thesis
        by (auto simp: handlerError_def intro: live_fields)
    next
      case (Inr u)
      then have "touch (h1, w1) = (h', w')"
        using run Some es fx same \<open>x = Inr result\<close> cm by (simp add: handle_def Let_def)
      with ok show ?thesis by (auto simp: touch_def intro: live_fields)
    qed
  qed
qed

lemma foldl_handle_live:
  "es_contract c \<Longrightarrow> store_ok c r i (w_driver w) \<Longrightarrow> live c r i h (w_driver w) \<Longrightarrow>
   foldl (\<lambda>hw item. handle en item hw) (h, w) items = (h', w') \<Longrightarrow>
   store_ok c r i (w_driver w') \<and> live c r i h' (w_driver w') \<and> h_activated h' = h_activated h"
proof (induction items arbitrary: h w)
  case (Cons x items)
  obtain h1 w1 where hd: "handle en x (h, w) = (h1, w1)" by (cases "handle en x (h, w)")
  note ok = handle_live [OF Cons.prems(1-3) hd]
  with Cons.IH [of w1 h1] Cons.prems hd show ?case by simp
qed simp

section \<open>Activation\<close>

lemma host_enqueue_fields:
  "h' = snd (host_enqueue x h) \<Longrightarrow>
   h_id h' = h_id h \<and> h_reg h' = h_reg h \<and> h_class h' = h_class h \<and> h_isEs h' = h_isEs h
   \<and> h_runningVersion h' = h_runningVersion h \<and> h_fence h' = h_fence h
   \<and> h_currentSeq h' = h_currentSeq h \<and> h_instance h' = h_instance h
   \<and> h_activated h' = h_activated h \<and> h_destroyed h' = h_destroyed h"
  by (simp add: host_enqueue_def split_def Let_def)

lemma enqueue_all_fields:
  "h' = enqueue_all rs h \<Longrightarrow>
   h_id h' = h_id h \<and> h_reg h' = h_reg h \<and> h_class h' = h_class h \<and> h_isEs h' = h_isEs h
   \<and> h_runningVersion h' = h_runningVersion h \<and> h_fence h' = h_fence h
   \<and> h_currentSeq h' = h_currentSeq h \<and> h_instance h' = h_instance h
   \<and> h_activated h' = h_activated h \<and> h_destroyed h' = h_destroyed h"
  by (induction rs arbitrary: h) (simp_all add: host_enqueue_fields [OF refl])

lemma open_host_fields:
  assumes "open_host (h, w) = (h', w')"
  shows "w' = w" and "h_id h' = h_id h \<and> h_reg h' = h_reg h \<and> h_class h' = h_class h \<and> h_isEs h' = h_isEs h
   \<and> h_runningVersion h' = h_runningVersion h \<and> h_fence h' = h_fence h
   \<and> h_currentSeq h' = h_currentSeq h \<and> h_instance h' = h_instance h
   \<and> h_activated h' \<and> h_destroyed h' = h_destroyed h"
  using assms enqueue_all_fields [OF refl]
  by (auto simp: open_host_def touch_def worker_next_def split_def Let_def)

lemma replay_loop_fold:
  assumes c: "es_contract c"
  shows "reduce_all c s (map er_payload recs) = Inr s' \<Longrightarrow>
    replay_loop c v recs s q n = (Inr s', if recs = [] then q else er_seq (last recs), n + length recs)"
proof (induction recs arbitrary: s q n)
  case (Cons x recs)
  obtain t where t: "ac_reduce c s (er_payload x) = Inr t" using es_contractD(3) [OF c] by blast
  with Cons.prems have "reduce_all c t (map er_payload recs) = Inr s'" by simp
  with Cons.IH [OF this, of "er_seq x" "n + 1"] t es_contractD(6) [OF c] show ?case by simp
qed simp

lemma replayEvents_live:
  assumes c: "es_contract c" and st: "store_ok c r i (w_driver w)"
    and h: "h_id h = i" "h_reg h = r" "h_class h = c" "h_isEs h" "h_runningVersion h = rg_version r"
      "h_fence h = 0" "map_has (d_actors (w_driver w)) i"
    and q: "0 \<le> h_currentSeq h" "h_currentSeq h \<le> headEventSeq i (w_driver w)"
    and s: "h_instance h = Some s" "log_fold c (take (nat (h_currentSeq h)) (payloads i (w_driver w))) = Inr s"
  obtains h' w' where "replayEvents (h, w) = (Inr (), h', w')" "store_ok c r i (w_driver w')"
    "live c r i h' (w_driver w')" "h_activated h' = h_activated h" "h_destroyed h' = h_destroyed h"
    "payloads i (w_driver w') = payloads i (w_driver w)"
    "headEventSeq i (w_driver w') = headEventSeq i (w_driver w)"
proof (cases "headEventSeq i (w_driver w) \<le> h_currentSeq h")
  case True
  then have "h_currentSeq h = headEventSeq i (w_driver w)" using q by simp
  then have "live c r i h (w_driver w)"
    using h s length_payloads [of "w_driver w" i] st by (simp add: live_def store_ok_def)
  with True h st show ?thesis by (intro that [of h w]) (simp_all add: replayEvents_def)
next
  case False
  let ?d = "w_driver w" and ?q = "h_currentSeq h"
  have linv: "log_inv ?d" using st by (simp add: store_ok_def)
  let ?recs = "readEvents i (?q + 1) ?d"
  have recs: "?recs = drop (nat ?q) (event_log_of i ?d)"
    by (rule mem_log.read_drop [OF linv q(1)])
  then have pays: "map er_payload ?recs = drop (nat ?q) (payloads i ?d)"
    by (simp add: payloads_def drop_map)
  have seqs: "map er_seq ?recs = [?q + 1..headEventSeq i ?d]"
    by (rule mem_log.read_contiguous [OF linv]) (use q in simp)
  then have ne: "?recs \<noteq> []" using False by auto
  have "last (map er_seq ?recs) = headEventSeq i ?d"
    unfolding seqs using False by (simp add: upto_rec2)
  then have last: "er_seq (last ?recs) = headEventSeq i ?d"
    using ne by (simp add: last_map)
  obtain s' where s': "reduce_all c s (map er_payload ?recs) = Inr s'"
    using reduce_all_total [OF c] by blast
  have whole: "log_fold c (payloads i ?d) = Inr s'"
    using s(2) s' unfolding pays log_fold_def
    by (metis (no_types, lifting) append_take_drop_id reduce_all_append sum.case(2))
  have loop: "replay_loop c (rg_version r) ?recs s ?q 0 = (Inr s', headEventSeq i ?d, length ?recs)"
    using replay_loop_fold [OF c s'] ne last by simp
  let ?h = "count (\<lambda>m. m \<lparr> m_eventsReplayed := m_eventsReplayed m + length ?recs \<rparr>)
     (h \<lparr> h_currentSeq := headEventSeq i ?d, h_instance := Some s', h_eventsSince := int (length ?recs) \<rparr>)"
  have rep: "replayEvents (h, w) = (if every_of r \<le> int (length ?recs)
      then flushSnapshot (?h \<lparr> h_snapshotDirty := True \<rparr>, w) else (Inr (), ?h, w))"
    using False h s loop by (simp add: replayEvents_def inst_state_def Let_def)
  have lv: "live c r i ?h ?d" using h whole by (simp add: live_def)
  show ?thesis
  proof (cases "every_of r \<le> int (length ?recs)")
    case False
    with rep lv st show ?thesis by (intro that [of ?h w]) simp_all
  next
    case True
    let ?h2 = "?h \<lparr> h_snapshotDirty := True \<rparr>"
    have lv2: "live c r i ?h2 ?d" by (rule live_fields [OF lv]) simp_all
    obtain h3 w3 where fl: "flushSnapshot (?h2, w) = (Inr (), h3, w3)"
      "store_ok c r i (w_driver w3)" "live c r i h3 (w_driver w3)" "h_activated h3 = h_activated ?h2"
      "payloads i (w_driver w3) = payloads i ?d" "headEventSeq i (w_driver w3) = headEventSeq i ?d"
      using flushSnapshot_live [OF c st lv2] by metis
    moreover have "h_destroyed h3 = h_destroyed ?h2"
      using fl(1) by (auto simp: flushSnapshot_def Let_def split: option.splits if_splits prod.splits sum.splits)
    ultimately show ?thesis using rep True by (intro that [of h3 w3]) simp_all
  qed
qed

lemma resolveCtor_registered:
  "p = None \<or> p = Some (rg_version (h_reg h)) \<Longrightarrow>
   resolveCtor en p (h, w) = (Inr (rg_ctor (h_reg h), rg_version (h_reg h), False), h, w)"
  by (auto simp: resolveCtor_def Let_def)

lemma doActivate_store:
  assumes c: "es_contract c" and r: "rg_ctor r = c" "0 < capacity_of r"
    and st: "store_ok c r i (w_driver w)"
    and h: "h_id h = i" "h_reg h = r" "\<not> h_destroyed h"
  obtains h' w' where "doActivate en (h, w) = (Inr (), h', w')" "es_ok c r i (h', w')"
    "h_activated h'" "\<not> h_destroyed h'"
    "log_fold c (payloads i (w_driver w)) = Inr (inst_state h')"
    "h_currentSeq h' = headEventSeq i (w_driver w)"
    "payloads i (w_driver w') = payloads i (w_driver w)"
proof -
  let ?d = "w_driver w"
  have linv: "log_inv ?d" using st by (simp add: store_ok_def)
  obtain mb :: "mailbox_item mailbox" where mb: "new_mailbox (capacity_of r) = Inr mb"
    using r(2) by (simp add: new_mailbox_def)
  let ?snap = "loadSnapshot i ?d"
  have ver: "map_option sr_version ?snap = None \<or> map_option sr_version ?snap = Some (rg_version r)"
    using st by (cases ?snap) (auto simp: loadSnapshot_Some store_ok_def, metis snapshot_read.select_convs(2))
  define h2 where "h2 = h \<lparr> h_mailbox := mb, h_inhand := None, h_runningVersion := rg_version r,
      h_fence := loadActorFence i ?d, h_class := c, h_instance := Some (ac_state0 c), h_isEs := ac_isEs c \<rparr>"
  have h2: "h_id h2 = i" "h_reg h2 = r" "h_class h2 = c" "h_isEs h2" "h_runningVersion h2 = rg_version r"
    "h_fence h2 = 0" "\<not> h_destroyed h2"
    using h st es_contractD(1) [OF c] by (simp_all add: h2_def store_ok_def)
  have act: "doActivate en (h, w) = (case start_state ?snap (h2, w) of
           (Inl e, hw) \<Rightarrow> (Inl e, hw)
         | (Inr _, hw3) \<Rightarrow>
             (case (if h_isEs (fst hw3) then replayEvents hw3 else (Inr (), hw3)) of
               (Inl e, hw) \<Rightarrow> (Inl e, hw)
             | (Inr _, hw5) \<Rightarrow>
               (case run_hook (ac_onActivate (h_class (fst hw5))) hw5 of
                 (Inl e, hw) \<Rightarrow> (Inl e, hw)
               | (Inr _, hw6) \<Rightarrow> (Inr (), open_host hw6))))"
    using resolveCtor_registered [of "map_option sr_version ?snap" "h \<lparr> h_mailbox := mb, h_inhand := None \<rparr>" en w]
      ver h mb r
    by (simp add: doActivate_def h2_def Let_def split: option.split prod.split sum.split)
  obtain h3 w3 s where ss: "start_state ?snap (h2, w) = (Inr (), h3, w3)"
    and h3: "h_id h3 = i" "h_reg h3 = r" "h_class h3 = c" "h_isEs h3" "h_runningVersion h3 = rg_version r"
      "h_fence h3 = 0" "map_has (d_actors (w_driver w3)) i" "\<not> h_destroyed h3"
    and st3: "store_ok c r i (w_driver w3)" and pay3: "payloads i (w_driver w3) = payloads i ?d"
    and hd3: "headEventSeq i (w_driver w3) = headEventSeq i ?d"
    and q: "0 \<le> h_currentSeq h3" "h_currentSeq h3 \<le> headEventSeq i (w_driver w3)"
    and s: "h_instance h3 = Some s" "log_fold c (take (nat (h_currentSeq h3)) (payloads i (w_driver w3))) = Inr s"
  proof (cases ?snap)
    case None
    let ?w = "w \<lparr> w_driver := registerActor i (rg_name r) (rg_version r) [] ?d \<rparr>"
    have "start_state ?snap (h2, w) =
        (Inr (), h2 \<lparr> h_instance := Some (ac_initialState c), h_currentSeq := 0 \<rparr>, ?w)"
      using None h2 es_contractD(7) [OF c] by (simp add: start_state_def run_hook_def Let_def)
    moreover have ev: "d_events (w_driver ?w) = d_events ?d" "headEventSeq i (w_driver ?w) = headEventSeq i ?d"
      "snaps_of i (w_driver ?w) = snaps_of i ?d" "loadActorFence i (w_driver ?w) = 0"
      "map_has (d_actors (w_driver ?w)) i"
      by (simp_all add: registerActor_def headEventSeq_def snaps_of_def loadActorFence_def)
    moreover have "payloads i (w_driver ?w) = payloads i ?d" by (rule payloads_cong [OF ev(1)])
    moreover have "store_ok c r i (w_driver ?w)"
      using st log_inv_registerActor [OF linv] ev \<open>payloads i (w_driver ?w) = payloads i ?d\<close>
      by (simp add: store_ok_def)
    ultimately show ?thesis
      using h2 log_invD(2) [OF linv, of i]
      by (intro that [of "h2 \<lparr> h_instance := Some (ac_initialState c), h_currentSeq := 0 \<rparr>" ?w
            "ac_initialState c"]) (simp_all add: log_fold_def)
  next
    case (Some sn)
    then obtain a row where a: "map_get (d_actors ?d) i = Some a"
      "map_get (snaps_of i ?d) (sr_seq sn) = Some row" "sr_state sn = sn_state row"
      unfolding loadSnapshot_Some by (metis snapshot_read.select_convs(4))
    have k: "0 \<le> sr_seq sn" "sr_seq sn \<le> headEventSeq i ?d"
      "log_fold c (take (nat (sr_seq sn)) (payloads i ?d)) = Inr (sr_state sn)"
      using st a(2,3) by (auto simp: store_ok_def)
    have "start_state ?snap (h2, w) =
        (Inr (), h2 \<lparr> h_instance := Some (sr_state sn), h_currentSeq := sr_seq sn \<rparr>, w)"
      using Some by (simp add: start_state_def)
    then show ?thesis
      using h2 k a st
      by (intro that [of "h2 \<lparr> h_instance := Some (sr_state sn), h_currentSeq := sr_seq sn \<rparr>" w
            "sr_state sn"]) simp_all
  qed
  obtain h5 w5 where rp: "replayEvents (h3, w3) = (Inr (), h5, w5)" "store_ok c r i (w_driver w5)"
    "live c r i h5 (w_driver w5)" "h_activated h5 = h_activated h3" "h_destroyed h5 = h_destroyed h3"
    "payloads i (w_driver w5) = payloads i (w_driver w3)"
    "headEventSeq i (w_driver w5) = headEventSeq i (w_driver w3)"
    using replayEvents_live [OF c st3 h3(1-7) q s] by metis
  have cl5: "h_class h5 = c" using rp(3) by (simp add: live_def)
  obtain h7 w7 where op: "open_host (h5, w5) = (h7, w7)" by (cases "open_host (h5, w5)")
  note of7 = open_host_fields [OF op]
  have lv7: "live c r i h7 (w_driver w5)" using of7(2) by (intro live_fields [OF rp(3)]) simp_all
  have "doActivate en (h, w) = (Inr (), h7, w7)"
    using act ss h3(4) rp(1) cl5 es_contractD(8) [OF c] op by (simp add: run_hook_def)
  moreover have "es_ok c r i (h7, w7)"
    using rp(2) lv7 of7 by (simp add: es_okI)
  moreover have "log_fold c (payloads i ?d) = Inr (inst_state h7)"
    using live_inst [OF lv7] rp(6) pay3 by simp
  moreover have "h_currentSeq h7 = headEventSeq i ?d"
    using lv7 rp(7) hd3 by (simp add: live_def)
  ultimately show ?thesis
    using of7 rp(5,6) h3(8) pay3 by (intro that [of h7 w7]) simp_all
qed

section \<open>Every operation keeps the invariant\<close>

lemma activate_ok:
  assumes "es_contract c" and "rg_ctor r = c" "0 < capacity_of r" and "es_ok c r i (h, w)" "\<not> h_destroyed h"
  obtains h' w' where "activate en (h, w) = (Inr (), h', w')" "es_ok c r i (h', w')" "h_activated h'"
proof (cases "h_activated h")
  case True
  with assms show ?thesis by (intro that [of h w]) (simp_all add: activate_def)
next
  case False
  with doActivate_store [OF assms(1-3), of i w h en] assms(4,5) that show ?thesis
    by (simp add: activate_def es_ok_def) metis
qed

lemma es_ok_touch:
  "store_ok c r i (w_driver w) \<Longrightarrow> live c r i h (w_driver w) \<Longrightarrow> h_activated h \<Longrightarrow>
   es_ok c r i (touch (h, w))"
  unfolding touch_def prod.case by (rule es_okI, simp, erule live_fields) simp_all

lemma live_count: "live c r i h d \<Longrightarrow> live c r i (count f h) d"
  by (erule live_fields) simp_all

lemma es_ok_live: "es_ok c r i (h, w) \<Longrightarrow> h_activated h \<Longrightarrow> store_ok c r i (w_driver w) \<and> live c r i h (w_driver w)"
  by (simp add: es_ok_def)

lemma appendInbox_frame:
  assumes st: "store_ok c r i (w_driver w)" and lv: "live c r i h (w_driver w)"
    and "appendInbox j e (w_driver w) = (k, d)"
  shows "store_ok c r i d" "live c r i h d"
  using store_ok_cong [OF st appendInbox_effect(5,6,8,7) [OF assms(3)]]
    live_cong [OF lv appendInbox_effect(5,6,7) [OF assms(3)]] by simp_all

lemma ackInbox_frame:
  assumes st: "store_ok c r i d" and lv: "live c r i h d"
  shows "store_ok c r i (ackInbox j ids d)" "live c r i h (ackInbox j ids d)"
  using store_ok_cong [OF st ackInbox_effect(4,5,7,6)] live_cong [OF lv ackInbox_effect(4,5,6)]
  by simp_all

lemma tell_ok:
  assumes "es_contract c" and "rg_ctor r = c" "0 < capacity_of r" and ok: "es_ok c r i (h, w)"
  shows "es_ok c r i (snd (tell en t p (h, w)))"
proof (cases "h_destroyed h")
  case True
  with ok show ?thesis by (simp add: tell_def)
next
  case False
  obtain h1 w1 where ac: "activate en (h, w) = (Inr (), h1, w1)" and ok1: "es_ok c r i (h1, w1)"
    and act: "h_activated h1"
    using activate_ok [OF assms False] by metis
  obtain k d where ap: "appendInbox (h_id h1) \<lparr> ie_type = t, ie_payload = p \<rparr> (w_driver w1) = (k, d)"
    by (cases "appendInbox (h_id h1) \<lparr> ie_type = t, ie_payload = p \<rparr> (w_driver w1)")
  obtain x h2 where en: "host_enqueue (TellItem t p k) h1 = (x, h2)"
    by (cases "host_enqueue (TellItem t p k) h1")
  note sl = es_ok_live [OF ok1 act]
  have st: "store_ok c r i d" and lv1: "live c r i h1 d"
    using appendInbox_frame [OF conjunct1 [OF sl] conjunct2 [OF sl] ap] by simp_all
  have lv: "live c r i h2 d"
    by (rule live_fields [OF lv1])
       (use host_enqueue_fields [of h2 "TellItem t p k" h1] en in simp_all)
  have act2: "h_activated h2" using host_enqueue_fields [of h2 "TellItem t p k" h1] en act by simp
  have "es_ok c r i (h2, w1 \<lparr> w_driver := d \<rparr>)"
    using st lv act2 by (intro es_okI) simp_all
  moreover have "es_ok c r i (touch (h2, w1 \<lparr> w_driver := d \<rparr>))"
    using st lv act2 by (intro es_ok_touch) simp_all
  moreover have "es_ok c r i (ack_item k (count (\<lambda>m. m \<lparr> m_tellsDropped := m_tellsDropped m + 1 \<rparr>) h2,
      w1 \<lparr> w_driver := d \<rparr>))"
    using ackInbox_frame [OF st lv] act2 by (simp add: ack_item_def es_okI live_count)
  ultimately show ?thesis
    using False ac ap en by (cases x) (simp_all add: tell_def Let_def)
qed

lemma call_ok:
  assumes "es_contract c" and "rg_ctor r = c" "0 < capacity_of r" and ok: "es_ok c r i (h, w)"
  shows "es_ok c r i (snd (call en m a k (h, w)))"
proof (cases "h_destroyed h")
  case True
  with ok show ?thesis by (simp add: call_def)
next
  case False
  obtain h1 w1 where ac: "activate en (h, w) = (Inr (), h1, w1)" and ok1: "es_ok c r i (h1, w1)"
    and act: "h_activated h1"
    using activate_ok [OF assms False] by metis
  obtain x h2 where en: "host_enqueue (CallItem m a k) h1 = (x, h2)"
    by (cases "host_enqueue (CallItem m a k) h1")
  note sl = es_ok_live [OF ok1 act]
  have lv: "live c r i h2 (w_driver w1)"
    by (rule live_fields [OF conjunct2 [OF sl]])
       (use host_enqueue_fields [of h2 "CallItem m a k" h1] en in simp_all)
  have act2: "h_activated h2" using host_enqueue_fields [of h2 "CallItem m a k" h1] en act by simp
  have "es_ok c r i (h2, w1)" "es_ok c r i (touch (h2, w1))"
    using sl lv act2 by (simp_all add: es_okI es_ok_touch)
  with ok1 show ?thesis
    using False ac en by (cases x) (simp_all add: call_def)
qed

lemma worker_turn_ok:
  assumes c: "es_contract c" and ok: "es_ok c r i (h, w)" and act: "h_activated h"
  shows "es_ok c r i (worker_turn en (h, w))"
proof (cases "h_inhand h")
  case None
  with ok show ?thesis by (simp add: worker_turn_def)
next
  case (Some item)
  note sl = es_ok_live [OF ok act]
  have lv0: "live c r i (h \<lparr> h_inhand := None \<rparr>) (w_driver w)"
    using sl by (auto intro: live_fields [of c r i h])
  obtain h1 w1 where hd: "handle en item (h \<lparr> h_inhand := None \<rparr>, w) = (h1, w1)"
    by (cases "handle en item (h \<lparr> h_inhand := None \<rparr>, w)")
  have ok1: "store_ok c r i (w_driver w1)" "live c r i h1 (w_driver w1)" "h_activated h1"
    using handle_live [OF c _ lv0 hd] sl act by auto
  have "h_activated (worker_next h1)" using ok1 by (simp add: worker_next_def split_def Let_def)
  moreover
  have "live c r i (worker_next h1) (w_driver w1)"
    by (rule live_fields [OF ok1(2)]) (simp_all add: worker_next_def split_def Let_def)
  ultimately show ?thesis using ok1 Some hd by (auto simp: worker_turn_def intro: es_okI)
qed

lemma snapshotTimer_ok:
  assumes c: "es_contract c" and ok: "es_ok c r i (h, w)" and act: "h_activated h"
  shows "es_ok c r i (snapshotTimerFires (h, w))"
proof (cases "h_snapshotTimer h")
  case False
  with ok show ?thesis by (simp add: snapshotTimerFires_def)
next
  case True
  note sl = es_ok_live [OF ok act]
  have lv0: "live c r i (h \<lparr> h_snapshotTimer := False \<rparr>) (w_driver w)"
    using sl by (auto intro: live_fields [of c r i h])
  obtain h1 w1 where "flushSnapshot (h \<lparr> h_snapshotTimer := False \<rparr>, w) = (Inr (), h1, w1)"
    "store_ok c r i (w_driver w1)" "live c r i h1 (w_driver w1)"
    "h_activated h1 = h_activated (h \<lparr> h_snapshotTimer := False \<rparr>)"
    using flushSnapshot_live [OF c conjunct1 [OF sl] lv0] by metis
  with True act show ?thesis by (auto simp: snapshotTimerFires_def intro: es_okI)
qed

lemma deactivate_ok:
  assumes c: "es_contract c" and ok: "es_ok c r i (h, w)"
  shows "es_ok c r i (snd (deactivate en (h, w)))"
proof (cases "h_activated h")
  case False
  with ok show ?thesis by (simp add: deactivate_def)
next
  case True
  note sl = es_ok_live [OF ok True]
  let ?h1 = "h \<lparr> h_idleTimer := False, h_mailbox := snd (close (h_mailbox h)) \<rparr>"
  obtain h2 w2 where dr: "drain_worker en (?h1, w) = (h2, w2)" by (cases "drain_worker en (?h1, w)")
  have lv0: "live c r i (?h1 \<lparr> h_inhand := None, h_mailbox := h_mailbox ?h1 \<lparr> mb_buffer := [] \<rparr> \<rparr>) (w_driver w)"
    using sl by (auto intro: live_fields [of c r i h])
  have ok2: "store_ok c r i (w_driver w2)" "live c r i h2 (w_driver w2)"
    using foldl_handle_live [OF c conjunct1 [OF sl] lv0 dr [unfolded drain_worker_def prod.case]] by auto
  let ?h3 = "h2 \<lparr> h_snapshotTimer := False \<rparr>"
  have lv3: "live c r i ?h3 (w_driver w2)" using ok2(2) by (auto intro: live_fields)
  obtain h4 w4 where fl: "(if h_snapshotDirty ?h3 then flushSnapshot (?h3, w2) else (Inr (), ?h3, w2)) = (Inr (), h4, w4)"
    and ok4: "store_ok c r i (w_driver w4)" "live c r i h4 (w_driver w4)"
  proof (cases "h_snapshotDirty ?h3")
    case True
    obtain h4 w4 where "flushSnapshot (?h3, w2) = (Inr (), h4, w4)"
      "store_ok c r i (w_driver w4)" "live c r i h4 (w_driver w4)"
      using flushSnapshot_live [OF c ok2(1) lv3] by metis
    with True that show ?thesis by simp
  next
    case False
    with that [of ?h3 w2] ok2(1) lv3 show ?thesis by simp
  qed
  have ctl2: "host_ctl h2 = host_ctl (?h1 \<lparr> h_inhand := None, h_mailbox := h_mailbox ?h1 \<lparr> mb_buffer := [] \<rparr> \<rparr>)"
    using foldl_handle_ctl [of en "?h1 \<lparr> h_inhand := None, h_mailbox := h_mailbox ?h1 \<lparr> mb_buffer := [] \<rparr> \<rparr>"
        w "queued ?h1"]
    unfolding dr [unfolded drain_worker_def prod.case] fst_conv by (rule sym [OF sym])
  have h3: "h_inhand ?h3 = None" using host_ctlD(5) [OF ctl2] by simp
  have h4: "h_inhand h4 = None \<and> \<not> h_snapshotTimer h4"
    using fl h3 by (auto simp: flushSnapshot_def Let_def split: if_splits option.splits prod.splits sum.splits)
  obtain x h5 w5 where hk: "run_hook (ac_onDeactivate (h_class h4)) (h4, w4) = (x, h5, w5)"
    by (cases "run_hook (ac_onDeactivate (h_class h4)) (h4, w4)")
  have h5: "w5 = w4" "h_id h5 = h_id h4" "h_reg h5 = h_reg h4" "h_inhand h5 = None" "\<not> h_snapshotTimer h5"
    using hk h4 by (auto simp: run_hook_def split_def Let_def split: option.splits)
  let ?h6 = "case x of Inl e \<Rightarrow> handlerError h5 | Inr _ \<Rightarrow> h5"
  have h6: "h_id ?h6 = i" "h_reg ?h6 = r" "h_inhand ?h6 = None" "\<not> h_snapshotTimer ?h6"
    using h5 ok4(2) by (auto simp: live_def handlerError_def split: sum.split)
  obtain h7 w7 where rl: "release_class (?h6, w5) = (h7, w7)" by (cases "release_class (?h6, w5)")
  have h7: "h_id h7 = i" "h_reg h7 = r" "h_inhand h7 = None" "\<not> h_snapshotTimer h7" "w_driver w7 = w_driver w4"
    using rl h6 h5(1) by (auto simp: release_class_def split: option.splits if_splits)
  have "snd (deactivate en (h, w)) = (h7 \<lparr> h_instance := None, h_activated := False \<rparr>, w7)"
    using True dr fl hk rl by (simp add: deactivate_def doDeactivate_def Let_def)
  then show ?thesis using h7 ok4 by (simp add: es_ok_def)
qed

lemma idle_ok:
  assumes c: "es_contract c" and ok: "es_ok c r i (h, w)"
  shows "es_ok c r i (snd (deactivateForIdle en (h, w)))"
proof -
  have ok0: "es_ok c r i (h \<lparr> h_idleTimer := b \<rparr>, w)" for b
    using ok live_fields [of c r i h "w_driver w" "h \<lparr> h_idleTimer := b \<rparr>"]
    by (simp add: es_ok_def split: if_splits)
  then have "es_ok c r i (h \<lparr> h_idleTimer := False, h_idleTimer := True \<rparr>, w)" by simp
  with ok0 deactivate_ok [OF c ok0] show ?thesis
    by (auto simp: deactivateForIdle_def Let_def split: prod.split sum.split)
       (metis snd_conv)+
qed

lemma host_step_ok:
  assumes c: "es_contract c" and r: "rg_ctor r = c" "0 < capacity_of r" and ok: "es_ok c r i hw"
  shows "es_ok c r i (host_step en op hw)"
proof -
  obtain h w where hw: "hw = (h, w)" by (cases hw)
  note ok' = ok [unfolded hw]
  show ?thesis
  proof (cases op)
    case (OpTell t p)
    with tell_ok [OF c r ok'] hw show ?thesis by simp
  next
    case (OpCall m a k)
    with call_ok [OF c r ok'] hw show ?thesis by simp
  next
    case OpTurn
    show ?thesis
    proof (cases "h_activated h")
      case True
      with worker_turn_ok [OF c ok'] OpTurn hw show ?thesis by simp
    next
      case False
      with ok' OpTurn hw show ?thesis by (simp add: es_ok_def worker_turn_def)
    qed
  next
    case OpSnapshotTimer
    show ?thesis
    proof (cases "h_activated h")
      case True
      with snapshotTimer_ok [OF c ok'] OpSnapshotTimer hw show ?thesis by simp
    next
      case False
      with ok' OpSnapshotTimer hw show ?thesis by (simp add: es_ok_def snapshotTimerFires_def)
    qed
  next
    case OpIdle
    with idle_ok [OF c ok'] hw show ?thesis by simp
  next
    case OpDeactivate
    with deactivate_ok [OF c ok'] hw show ?thesis by simp
  next
    case (OpListen l)
    with ok' hw live_fields [of c r i h "w_driver w" "onCommit l h"] show ?thesis
      by (simp add: es_ok_def onCommit_def split: if_splits)
  next
    case (OpUnlisten l)
    with ok' hw live_fields [of c r i h "w_driver w" "offCommit l h"] show ?thesis
      by (simp add: es_ok_def offCommit_def split: if_splits)
  next
    case (OpTick t)
    let ?d = "(w_driver w) \<lparr> d_now := t \<rparr>"
    have "store_ok c r i (w_driver w)" using ok' by (simp add: es_ok_def)
    then have "store_ok c r i ?d" by (rule store_ok_cong) simp_all
    moreover have "live c r i h (w_driver w) \<Longrightarrow> live c r i h ?d" by (erule live_cong) simp_all
    ultimately show ?thesis using ok' hw OpTick by (simp add: es_ok_def split: if_splits)
  qed
qed

lemma host_run_ok:
  "es_contract c \<Longrightarrow> rg_ctor r = c \<Longrightarrow> 0 < capacity_of r \<Longrightarrow> es_ok c r i hw \<Longrightarrow> es_ok c r i (host_run en ops hw)"
proof (induction ops arbitrary: hw)
  case (Cons op ops)
  with host_step_ok [OF Cons.prems, of en op] show ?case by (simp add: host_run_def)
qed (simp add: host_run_def)

lemma es_ok_fresh:
  assumes "store_ok c r i (w_driver w)"
  shows "es_ok c r i (new_host r i b, w)"
  using assms by (simp add: es_ok_def new_host_def)

lemma store_ok_empty: "d_actors d = [] \<Longrightarrow> d_snapshots d = [] \<Longrightarrow> log_inv d \<Longrightarrow> store_ok c r i d"
  by (simp add: store_ok_def loadActorFence_def snaps_of_def)

section \<open>Properties\<close>


text \<open>An event-sourced class whose state counts its events, and one that adds up amounts.\<close>

definition visits_class :: actor_class where
  "visits_class = \<lparr> ac_isEs = True,
     ac_handlers = [(''hit'', \<lambda>s a. (Inr (JArr [JObj [(''type'', JStr ''Hit'')]]), s))],
     ac_proto_call = (\<lambda>n s a. (Inr JUndefined, s)),
     ac_state0 = JUndefined, ac_initialState = JNum 0,
     ac_reduce = (\<lambda>s e. Inr (JNum (1 + (case s of JNum n \<Rightarrow> n | _ \<Rightarrow> 0)))),
     ac_migrateEvent = None, ac_migrate = None, ac_onInit = None, ac_onActivate = None,
     ac_onDeactivate = None, ac_snapshot = (\<lambda>s. s) \<rparr>"

definition demo_reg :: "actor_class \<Rightarrow> registration" where
  "demo_reg c = \<lparr> rg_name = ''Ledger'', rg_version = ''1.0.0'', rg_ctor = c,
     rg_mailboxCapacity = None, rg_snapshotEveryN = None, rg_floating = None \<rparr>"

definition demo_env :: env where
  "demo_env = \<lparr> en_gt = (\<lambda>a b. False), en_compile = (\<lambda>n v s. Inl (CompileError n [])),
     en_compare = (\<lambda>a b. []), en_auditId = ''audit-1'', en_auditor = False \<rparr>"

definition demo_world :: world where
  "demo_world = \<lparr> w_driver = empty_driver, w_loader = new_loader None, w_settled = [], w_emitted = [] \<rparr>"

lemma visits_contract: "es_contract visits_class"
  by (auto simp: es_contract_def visits_class_def payload_faithful_def find_handler_def getHandlers_def
      obj_lookup_def split: option.splits if_splits js_lookup.splits)

definition demo_ops :: "host_op list" where
  "demo_ops = [OpCall ''hit'' JNull 1, OpTurn, OpTell ''hit'' JNull, OpTick 5, OpTurn, OpDeactivate,
     OpCall ''hit'' JNull 2, OpCall ''nope'' JNull 3, OpTurn, OpTurn]"

lemma visits_run:
  "h_activated (fst (host_run demo_env demo_ops (new_host (demo_reg visits_class) ''a'' False, demo_world)))
   \<and> currentState (fst (host_run demo_env demo_ops (new_host (demo_reg visits_class) ''a'' False, demo_world)))
     = JNum 3"
  by code_simp


text \<open>
  The ledger of the repository's own tests, whose \<open>reduce\<close> switches on the event's type; a switch
  without a matching case returns \<open>undefined\<close>.
\<close>

definition ledger_class :: actor_class where
  "ledger_class = visits_class \<lparr>
     ac_handlers := [(''deposit'', \<lambda>s a.
        (Inr (JArr [JObj [(''type'', JStr ''Deposited''), (''amount'', a)]]), s))],
     ac_reduce := (\<lambda>s e. Inr (if js_prop e ''type'' = JStr ''Deposited''
        then (case (s, js_prop e ''amount'') of (JNum b, JNum n) \<Rightarrow> JNum (b + n) | _ \<Rightarrow> JUndefined)
        else JUndefined)) \<rparr>"

text \<open>
  Replay is not faithful for such a class: the live commit folds the event as the handler
  returned it, but the log keeps the type apart from the payload and replay folds the payload
  alone. After a crash the ledger's balance of 10 comes back as \<open>undefined\<close>, while a graceful
  deactivation, which writes a snapshot, hides the defect.
\<close>

theorem replay_drops_event_type:
  "(let fresh = new_host (demo_reg ledger_class) ''a'' False;
        ran = host_run demo_env [OpCall ''deposit'' (JNum 10) 1, OpTurn] (fresh, demo_world);
        crashed = activate demo_env (fresh, snd ran);
        stopped = host_run demo_env [OpDeactivate] ran;
        graceful = activate demo_env (fresh, snd stopped)
    in currentState (fst ran) = JNum 10
     \<and> currentState (fst (snd crashed)) = JUndefined
     \<and> currentState (fst (snd graceful)) = JNum 10)"
  by code_simp

text \<open>
  A \<open>reduce\<close> that throws does so after the append: the call is rejected, yet its event is
  durable, and from then on every activation of the actor fails on it.
\<close>

theorem throwing_reduce_poisons_log:
  "(let bad = visits_class \<lparr> ac_reduce := (\<lambda>s e. Inl (UserError (JStr ''boom''))) \<rparr>;
        fresh = new_host (demo_reg bad) ''a'' False;
        ran = host_run demo_env [OpCall ''hit'' JNull 1, OpTurn] (fresh, demo_world)
    in w_settled (snd ran) = [(1, Inl (UserError (JStr ''boom'')))]
     \<and> headEventSeq ''a'' (w_driver (snd ran)) = 1
     \<and> currentEventSeq (fst ran) = 0
     \<and> fst (activate demo_env (fresh, snd ran)) = Inl (UserError (JStr ''boom'')))"
  by code_simp

end
