(* ===== verification/HostDelivery.thy ===== *)
theory HostDelivery
  imports HostRecovery
begin

text \<open>
  What a host owes its callers, for every class: each accepted call is settled exactly once and
  in order, and a tell leaves the durable inbox only once a turn has disposed of it.
\<close>

section \<open>Settlement of calls\<close>

definition settled_ids :: "world \<Rightarrow> nat list" where
  "settled_ids w = map fst (w_settled w)"

definition call_ids :: "mailbox_item list \<Rightarrow> nat list" where
  "call_ids items = concat (map (\<lambda>x. case x of CallItem m a c \<Rightarrow> [c] | TellItem t p k \<Rightarrow> []) items)"

lemma call_ids_simps [simp]:
  "call_ids [] = []" "call_ids (CallItem m a c # xs) = c # call_ids xs"
  "call_ids (TellItem t p k # xs) = call_ids xs" "call_ids (xs @ ys) = call_ids xs @ call_ids ys"
  by (simp_all add: call_ids_def)

lemma settled_ids_settle:
  "settled_ids (settle c x w) = settled_ids w @ (if c \<in> set (settled_ids w) then [] else [c])"
  by (auto simp: settled_ids_def settle_def)

lemma settled_ids_driver [simp]:
  "settled_ids (w \<lparr> w_driver := d \<rparr>) = settled_ids w" "settled_ids (w \<lparr> w_emitted := x \<rparr>) = settled_ids w"
  "settled_ids (w \<lparr> w_loader := l \<rparr>) = settled_ids w"
  by (simp_all add: settled_ids_def)

lemma flushSnapshot_settled [simp]: "settled_ids (snd (snd (flushSnapshot (h, w)))) = settled_ids w"
  by (auto simp: flushSnapshot_def Let_def split: option.splits prod.splits sum.splits)

lemma emitCommit_settled [simp]: "settled_ids (snd (emitCommit info (h, w))) = settled_ids w"
  by (simp add: emitCommit_def)

lemma touch_settled [simp]: "settled_ids (snd (touch (h, w))) = settled_ids w"
  by (simp add: touch_def)

lemma acknowledge_settled:
  "settled_ids (snd (acknowledge item v (h, w))) = (case item of
     CallItem m a c \<Rightarrow> settled_ids w @ (if c \<in> set (settled_ids w) then [] else [c])
   | TellItem t p k \<Rightarrow> settled_ids w)"
  by (simp add: acknowledge_def settled_ids_settle ack_item_def split: mailbox_item.split)

lemma turn_failed_settled:
  "settled_ids (snd (turn_failed item e (h, w))) = (case item of
     CallItem m a c \<Rightarrow> settled_ids w @ (if c \<in> set (settled_ids w) then [] else [c])
   | TellItem t p k \<Rightarrow> settled_ids w)"
  by (simp add: turn_failed_def settled_ids_settle split: mailbox_item.split)

lemma commitSwm_settled:
  "settled_ids (snd (commitSwm en item v (h, w))) = settled_ids (snd (acknowledge item v (h, w)))"
  by (cases "acknowledge item v (h, w)") (simp add: commitSwm_def Let_def split: option.split)

lemma commitEs_settled:
  assumes "commitEs item v (h, w) = (x, h', w')"
  shows "settled_ids w' = settled_ids (snd (acknowledge item v (h, w)))
       \<or> (settled_ids w' = settled_ids w \<and> (\<exists>e. x = Inl e))"
proof -
  have ak: "settled_ids (snd (acknowledge item v (g, u))) = settled_ids (snd (acknowledge item v (h, w)))"
    if "settled_ids u = settled_ids w" for g u
    using that by (simp add: acknowledge_settled split: mailbox_item.split)
  have fl: "settled_ids (snd (snd (flushSnapshot p))) = settled_ids (snd p)" for p
    by (cases p) simp
  have em: "settled_ids (snd (emitCommit i p)) = settled_ids (snd p)" for i p
    by (cases p) simp
  show ?thesis
  proof (cases v)
    case (JArr es)
    show ?thesis
    proof (cases "es = []")
      case True
      with assms JArr show ?thesis by (auto simp: commitEs_def)
    next
      case ne: False
      show ?thesis
      proof (cases "normalize_all es")
        case (Inl e)
        with assms JArr ne show ?thesis by (auto simp: commitEs_def)
      next
        case (Inr ws)
        obtain y d where ap: "appendEvents (h_id h) ws (Some (h_fence h)) (w_driver w) = (y, d)"
          by (cases "appendEvents (h_id h) ws (Some (h_fence h)) (w_driver w)")
        show ?thesis
        proof (cases "\<exists>q s. y = Inr q \<and> reduce_all (h_class h) (inst_state h) es = Inr s")
          case False
          with assms JArr ne Inr ap show ?thesis
            by (auto simp: commitEs_def split: sum.splits)
        next
          case True
          then obtain q s where qs: "y = Inr q" "reduce_all (h_class h) (inst_state h) es = Inr s" by blast
          obtain h2 w2 where h2: "emitCommit (CommitEvents es q s) (acknowledge item v
              (appended (length es) q s h, w \<lparr> w_driver := d \<rparr>)) = (h2, w2)"
            by fastforce
          then have "settled_ids w2 = settled_ids (snd (acknowledge item v (h, w)))"
            using em ak by (metis settled_ids_driver(1) snd_conv)
          moreover have "(x, h', w') = (if every_of (h_reg h) \<le> h_eventsSince h2
              then flushSnapshot (h2, w2) else (Inr (), h2, w2))"
            using assms by (cases "every_of (h_reg h) \<le> h_eventsSince h2")
              (simp_all add: commitEs_def Let_def JArr ne Inr ap qs h2 [unfolded JArr])
          ultimately show ?thesis using fl [of "(h2, w2)"] by (metis snd_conv)
        qed
      qed
    qed
  qed (use assms in \<open>auto simp: commitEs_def\<close>)
qed

lemma handle_settled:
  "settled_ids (snd (handle en item (h, w))) = (case item of
     CallItem m a c \<Rightarrow> settled_ids w @ (if c \<in> set (settled_ids w) then [] else [c])
   | TellItem t p k \<Rightarrow> settled_ids w)" (is "_ = ?r w")
proof (cases "find_handler (h_class h) (item_name item)")
  case None
  then show ?thesis
    by (cases item) (simp_all add: handle_def settled_ids_settle ack_item_def)
next
  case (Some f)
  have twice: "settled_ids u = ?r w \<Longrightarrow> ?r u = ?r w" for u
    by (simp split: mailbox_item.splits)
  let ?h0 = "if \<not> h_isEs h \<and> h_listeners h \<noteq> [] then h \<lparr> h_prevCapture := Some (inst_state h) \<rparr> else h"
  obtain x s where fx: "f (inst_state ?h0) (item_arg item) = (x, s)"
    by (cases "f (inst_state ?h0) (item_arg item)")
  let ?h1 = "?h0 \<lparr> h_instance := Some s \<rparr>"
  show ?thesis
  proof (cases x)
    case (Inl e)
    then show ?thesis using Some fx turn_failed_settled [of item e ?h1 w] by (simp add: handle_def Let_def)
  next
    case (Inr v)
    let ?c = "if h_isEs ?h1 then commitEs item v (?h1, w) else (Inr (), commitSwm en item v (?h1, w))"
    obtain y h2 w2 where c: "?c = (y, h2, w2)" by (cases ?c)
    have "settled_ids w2 = ?r w \<or> (settled_ids w2 = settled_ids w \<and> (\<exists>e. y = Inl e))"
    proof (cases "h_isEs ?h1")
      case True
      with c have "commitEs item v (?h1, w) = (y, h2, w2)" by simp
      from commitEs_settled [OF this] show ?thesis by (simp add: acknowledge_settled)
    next
      case False
      with c have "commitSwm en item v (?h1, w) = (h2, w2)" by simp
      then have "w2 = snd (commitSwm en item v (?h1, w))" by simp
      then show ?thesis by (simp add: commitSwm_settled acknowledge_settled)
    qed
    then have fin: "settled_ids (snd (case y of Inl e \<Rightarrow> turn_failed item e (h2, w2) | Inr _ \<Rightarrow> touch (h2, w2))) = ?r w"
    proof
      assume A: "settled_ids w2 = ?r w"
      show ?thesis
      proof (cases y)
        case (Inl e)
        with turn_failed_settled [of item e h2 w2] twice [OF A] show ?thesis by simp
      next
        case (Inr u)
        with A show ?thesis by simp
      qed
    next
      assume "settled_ids w2 = settled_ids w \<and> (\<exists>e. y = Inl e)"
      then obtain e where "settled_ids w2 = settled_ids w" "y = Inl e" by blast
      with turn_failed_settled [of item e h2 w2] show ?thesis by (cases item) simp_all
    qed
    have "handle en item (h, w) = (case y of Inl e \<Rightarrow> turn_failed item e (h2, w2) | Inr _ \<Rightarrow> touch (h2, w2))"
      using Some fx Inr c by (simp add: handle_def Let_def)
    then show ?thesis using fin by simp
  qed
qed

lemma foldl_handle_settled:
  "distinct (settled_ids w @ call_ids items) \<Longrightarrow>
   settled_ids (snd (foldl (\<lambda>hw item. handle en item hw) (h, w) items)) = settled_ids w @ call_ids items"
proof (induction items arbitrary: h w)
  case (Cons x xs)
  obtain h1 w1 where hd: "handle en x (h, w) = (h1, w1)" by (cases "handle en x (h, w)")
  then have "settled_ids w1 = settled_ids w @ call_ids [x]"
    using handle_settled [of en x h w] Cons.prems by (cases x) auto
  moreover from this have "distinct (settled_ids w1 @ call_ids xs)"
    using Cons.prems by (cases x) auto
  ultimately show ?case using Cons.IH [of w1 h1] hd by (cases x) auto
qed simp

section \<open>What an activation leaves alone\<close>

definition inbox_part :: "driver \<Rightarrow> (actor_id, inbox_record list) jsmap \<times> (actor_id, string set) jsmap \<times> nat" where
  "inbox_part d = (d_inbox d, d_inboxAcked d, d_inboxSeq d)"

definition world_part :: "world \<Rightarrow> nat list \<times> ((actor_id, inbox_record list) jsmap \<times> (actor_id, string set) jsmap \<times> nat)
    \<times> (nat \<times> commit_info) list" where
  "world_part w = (settled_ids w, inbox_part (w_driver w), w_emitted w)"

definition queue_part :: "host \<Rightarrow> mailbox_item mailbox \<times> mailbox_item option \<times> bool \<times> actor_id \<times> registration" where
  "queue_part h = (h_mailbox h, h_inhand h, h_activated h, h_id h, h_reg h)"

definition parts :: "hw \<Rightarrow> _" where
  "parts hw = (queue_part (fst hw), world_part (snd hw))"

lemma inbox_part_saveSnapshot [simp]: "inbox_part (snd (saveSnapshot i s f d)) = inbox_part d"
  by (auto simp: saveSnapshot_def inbox_part_def Let_def split: sum.splits option.splits)

lemma world_part_driver: "inbox_part d = inbox_part (w_driver w) \<Longrightarrow> world_part (w \<lparr> w_driver := d \<rparr>) = world_part w"
  by (simp add: world_part_def)

lemma world_part_loader: "world_part (w \<lparr> w_loader := l \<rparr>) = world_part w"
  by (simp add: world_part_def)

lemma flushSnapshot_parts: "parts (snd (flushSnapshot hw)) = parts hw"
proof -
  have "inbox_part d' = inbox_part d" if "saveSnapshot i s f d = (x, d')" for i s f d x d'
    using inbox_part_saveSnapshot [of i s f d] that by simp
  then show ?thesis
    by (cases hw) (auto simp: flushSnapshot_def parts_def queue_part_def Let_def world_part_driver
        split: option.split prod.split sum.split)
qed

lemma resolveCtor_parts: "parts (snd (resolveCtor en p hw)) = parts hw"
  by (cases hw) (auto simp: resolveCtor_def parts_def queue_part_def Let_def world_part_loader
      split: option.split prod.split sum.split)

lemma run_hook_parts: "parts (snd (run_hook f hw)) = parts hw"
  by (cases hw) (auto simp: run_hook_def parts_def queue_part_def Let_def split: option.split prod.split)

lemma start_state_parts: "parts (snd (start_state snap hw)) = parts hw"
proof (cases snap)
  case None
  obtain h w where hw: "hw = (h, w)" by (cases hw)
  have "inbox_part (registerActor i c v t d) = inbox_part d" for i c v t d
    by (simp add: registerActor_def inbox_part_def)
  then show ?thesis
    using None hw by (simp add: start_state_def Let_def run_hook_parts)
      (simp add: parts_def queue_part_def world_part_driver)
next
  case (Some sn)
  then show ?thesis by (cases hw) (simp add: start_state_def parts_def queue_part_def)
qed

lemma replayEvents_parts: "parts (snd (replayEvents hw)) = parts hw"
proof -
  obtain h w where hw: "hw = (h, w)" by (cases hw)
  have q: "parts (h \<lparr> h_currentSeq := q \<rparr>, w) = parts (h, w)"
    "parts (h \<lparr> h_currentSeq := q, h_instance := s, h_eventsSince := n, h_metrics := m \<rparr>, w) = parts (h, w)"
    "parts (h \<lparr> h_currentSeq := q, h_instance := s, h_eventsSince := n, h_metrics := m, h_snapshotDirty := b \<rparr>, w)
       = parts (h, w)" for q s n m b
    by (simp_all add: parts_def queue_part_def)
  show ?thesis
    by (auto simp: hw replayEvents_def Let_def flushSnapshot_parts q split: prod.split sum.split)
qed

lemma migrateSnapshot_parts: "parts (snd (migrateSnapshot en s v hw)) = parts hw"
proof -
  obtain h w where hw: "hw = (h, w)" by (cases hw)
  have sv: "inbox_part d' = inbox_part d" if "saveSnapshot i s f d = (x, d')" for i s f d x d'
    using inbox_part_saveSnapshot [of i s f d] that by simp
  have rm: "parts (record_migration en v p) = parts p" for p
    by (cases p) (simp add: record_migration_def parts_def appendAudit_def world_part_def inbox_part_def settled_ids_def)
  have fl: "parts hw' = parts p" if "flushSnapshot p = (x, hw')" for p x hw'
    using flushSnapshot_parts [of p] that by simp
  have q: "parts (h \<lparr> h_snapshotDirty := b \<rparr>, u) = (queue_part h, world_part u)"
    "parts (h \<lparr> h_instance := i, h_snapshotDirty := b, h_metrics := m \<rparr>, u) = (queue_part h, world_part u)"
    "parts (h, u) = (queue_part h, world_part u)" for b i m u
    by (simp_all add: parts_def queue_part_def)
  show ?thesis
    by (auto simp: hw migrateSnapshot_def Let_def rm q world_part_driver dest!: sv fl
        split: option.split prod.split sum.split)
qed

section \<open>The queue of a host\<close>

text \<open>
  A running host's worker either has an item in hand or waits on an empty mailbox; a host that
  does not run has nothing queued.
\<close>

definition queue_inv :: "host \<Rightarrow> bool" where
  "queue_inv h \<longleftrightarrow> (if h_activated h
     then \<not> mb_closed (h_mailbox h) \<and> length (mb_buffer (h_mailbox h)) \<le> mb_capacity (h_mailbox h)
        \<and> (case h_inhand h of
             None \<Rightarrow> mb_buffer (h_mailbox h) = [] \<and> mb_waiters (h_mailbox h) = [0]
           | Some _ \<Rightarrow> mb_waiters (h_mailbox h) = [])
     else queued h = [])"

definition cap :: "host \<Rightarrow> nat" where
  "cap h = mb_capacity (h_mailbox h)"

lemma host_enqueue_queue:
  assumes "queue_inv h" and "h_activated h" and "host_enqueue x h = (r, h')"
  shows "queue_inv h' \<and> h_activated h' \<and> cap h' = cap h
    \<and> r = Inr (length (queued h) \<le> cap h)
    \<and> queued h' = (if length (queued h) \<le> cap h then queued h @ [x] else queued h)"
  using assms
  by (auto simp: queue_inv_def host_enqueue_def enqueue_def queued_def cap_def Let_def
      split: option.splits if_splits)

lemma enqueue_all_queue:
  "queue_inv h \<Longrightarrow> h_activated h \<Longrightarrow>
   queue_inv (enqueue_all rs h) \<and> h_activated (enqueue_all rs h) \<and> cap (enqueue_all rs h) = cap h
   \<and> queued (enqueue_all rs h) = queued h @ take (Suc (cap h) - length (queued h)) (map tell_of_record rs)"
proof (induction rs arbitrary: h)
  case (Cons x rs)
  obtain r h1 where e: "host_enqueue (tell_of_record x) h = (r, h1)" by (cases "host_enqueue (tell_of_record x) h")
  note q = host_enqueue_queue [OF Cons.prems e]
  have "queue_inv h1" "h_activated h1" using q by simp_all
  note ih = Cons.IH [OF this]
  show ?case
  proof (cases "length (queued h) \<le> cap h")
    case True
    then have "Suc (cap h) - length (queued h) = Suc (Suc (cap h) - length (queued h1))"
      using q by simp
    with ih q e True show ?thesis by simp
  next
    case False
    with ih q e show ?thesis by simp
  qed
qed simp

lemma worker_next_queue:
  assumes "h_activated h" and "h_inhand h = None" and "mb_waiters (h_mailbox h) = []"
    and "\<not> mb_closed (h_mailbox h)" and "length (mb_buffer (h_mailbox h)) \<le> mb_capacity (h_mailbox h)"
  shows "queue_inv (worker_next h) \<and> queued (worker_next h) = mb_buffer (h_mailbox h)
    \<and> cap (worker_next h) = cap h \<and> h_activated (worker_next h)"
  using assms
  by (auto simp: worker_next_def dequeue_def queue_inv_def queued_def cap_def Let_def
      split: list.split)

lemma open_host_queue:
  assumes "h_inhand h = None" and "new_mailbox n = Inr (h_mailbox h)" and "open_host (h, w) = (h', w')"
  shows "w' = w \<and> queue_inv h' \<and> h_activated h' \<and> cap h' = n \<and> h_id h' = h_id h \<and> h_reg h' = h_reg h
    \<and> queued h' = take (Suc n) (map tell_of_record (readPendingInbox (h_id h) max_safe_integer (w_driver w)))"
proof -
  let ?h1 = "h \<lparr> h_activated := True, h_lastActiveAt := d_now (w_driver w), h_idleTimer := True \<rparr>"
  have mb: "mb_buffer (h_mailbox h) = []" "mb_waiters (h_mailbox h) = []" "\<not> mb_closed (h_mailbox h)"
    "mb_capacity (h_mailbox h) = n"
  proof -
    have "h_mailbox h = \<lparr> mb_buffer = [], mb_waiters = [], mb_closed = False, mb_capacity = n \<rparr>"
      using assms(2) by (simp add: new_mailbox_def split: if_splits)
    then show "mb_buffer (h_mailbox h) = []" "mb_waiters (h_mailbox h) = []" "\<not> mb_closed (h_mailbox h)"
      "mb_capacity (h_mailbox h) = n" by simp_all
  qed
  have w1: "queue_inv (worker_next ?h1) \<and> queued (worker_next ?h1) = []
    \<and> cap (worker_next ?h1) = n \<and> h_activated (worker_next ?h1)"
    using worker_next_queue [of ?h1] assms(1) mb by (simp add: cap_def)
  have h': "h' = enqueue_all (readPendingInbox (h_id h) max_safe_integer (w_driver w)) (worker_next ?h1)" "w' = w"
    using assms(3) by (auto simp: open_host_def touch_def Let_def)
  have "h_id (worker_next ?h1) = h_id h" "h_reg (worker_next ?h1) = h_reg h"
    by (simp_all add: worker_next_def split_def Let_def)
  then show ?thesis
    using enqueue_all_queue [of "worker_next ?h1" "readPendingInbox (h_id h) max_safe_integer (w_driver w)"]
      enqueue_all_fields [OF h'(1)] w1 h' by simp
qed

lemma partsD:
  assumes "parts (h', w') = parts (h, w)"
  shows "h_mailbox h' = h_mailbox h" "h_inhand h' = h_inhand h" "h_activated h' = h_activated h"
    "h_id h' = h_id h" "h_reg h' = h_reg h" "world_part w' = world_part w"
  using assms by (simp_all add: parts_def queue_part_def)

lemma doActivate_queue:
  assumes "doActivate en (h, w) = (x, h', w')"
  shows "world_part w' = world_part w \<and> h_id h' = h_id h \<and> h_reg h' = h_reg h"
    and "x = Inl e \<Longrightarrow> h_activated h' = h_activated h \<and> (queued h' = [] \<or> queued h' = queued h)"
    and "x = Inr u \<Longrightarrow> h_activated h' \<and> queue_inv h' \<and> cap h' = capacity_of (h_reg h)
      \<and> queued h' = take (Suc (capacity_of (h_reg h)))
           (map tell_of_record (readPendingInbox (h_id h) max_safe_integer (w_driver w)))"
proof -
  have "world_part w' = world_part w \<and> h_id h' = h_id h \<and> h_reg h' = h_reg h
    \<and> (case x of Inl e \<Rightarrow> h_activated h' = h_activated h \<and> (queued h' = [] \<or> queued h' = queued h)
      | Inr u \<Rightarrow> h_activated h' \<and> queue_inv h' \<and> cap h' = capacity_of (h_reg h)
          \<and> queued h' = take (Suc (capacity_of (h_reg h)))
           (map tell_of_record (readPendingInbox (h_id h) max_safe_integer (w_driver w))))"
    (is "?G x h' w'")
  proof (cases "h_destroyed h \<or> (\<exists>e. new_mailbox (capacity_of (h_reg h)) = (Inl e :: error + mailbox_item mailbox))")
    case True
    then obtain e where "x = Inl e" "h' = h" "w' = w"
      using assms by (cases "h_destroyed h") (auto simp: doActivate_def)
    then show ?thesis by simp
  next
    case False
    then obtain mb :: "mailbox_item mailbox" where mb: "new_mailbox (capacity_of (h_reg h)) = Inr mb"
      by (cases "new_mailbox (capacity_of (h_reg h)) :: error + mailbox_item mailbox") auto
    have mbe: "mb_buffer mb = []" using mb by (auto simp: new_mailbox_def split: if_splits)
    let ?h0 = "h \<lparr> h_mailbox := mb, h_inhand := None \<rparr>" and ?snap = "loadSnapshot (h_id h) (w_driver w)"
    have early: "?G (Inl e) g u" if "parts (g, u) = parts (?h0, w)" for e g u
      using partsD [OF that] mbe by (simp add: queued_def)
    obtain y h1 w1 where rc: "resolveCtor en (map_option sr_version ?snap) (?h0, w) = (y, h1, w1)"
      by (cases "resolveCtor en (map_option sr_version ?snap) (?h0, w)")
    have p1: "parts (h1, w1) = parts (?h0, w)"
      using resolveCtor_parts [of en "map_option sr_version ?snap" "(?h0, w)"] rc by simp
    show ?thesis
    proof (cases y)
      case (Inl e)
      with assms False mb rc have "x = Inl e" "h' = h1" "w' = w1" by (auto simp: doActivate_def Let_def)
      with early [OF p1] show ?thesis by simp
    next
      case (Inr cvm)
      obtain c v m where cvm: "cvm = (c, v, m)" by (cases cvm)
      let ?h2 = "h1 \<lparr> h_runningVersion := v, h_fence := loadActorFence (h_id h) (w_driver w1),
                        h_class := c, h_instance := Some (ac_state0 c), h_isEs := ac_isEs c \<rparr>"
      have p2: "parts (?h2, w1) = parts (?h0, w)" using p1 by (simp add: parts_def queue_part_def)
      obtain y3 hw3 where s3: "start_state ?snap (?h2, w1) = (y3, hw3)" by (cases "start_state ?snap (?h2, w1)")
      have p3: "parts hw3 = parts (?h0, w)" using start_state_parts [of ?snap "(?h2, w1)"] s3 p2 by simp
      let ?m = "case ?snap of Some sn \<Rightarrow> if m then migrateSnapshot en (sr_state sn) (sr_version sn) hw3
                               else (Inr (), hw3) | None \<Rightarrow> (Inr (), hw3)"
      obtain y4 hw4 where s4: "?m = (y4, hw4)" by (cases ?m)
      have "parts (snd ?m) = parts hw3" by (simp add: migrateSnapshot_parts split: option.split)
      with s4 p3 have p4: "parts hw4 = parts (?h0, w)" by simp
      let ?r = "if h_isEs (fst hw4) then replayEvents hw4 else (Inr (), hw4)"
      obtain y5 hw5 where s5: "?r = (y5, hw5)" by (cases ?r)
      have "parts (snd ?r) = parts hw4" by (simp add: replayEvents_parts)
      with s5 p4 have p5: "parts hw5 = parts (?h0, w)" by simp
      obtain y6 hw6 where s6: "run_hook (ac_onActivate (h_class (fst hw5))) hw5 = (y6, hw6)"
        by (cases "run_hook (ac_onActivate (h_class (fst hw5))) hw5")
      have p6: "parts hw6 = parts (?h0, w)"
        using run_hook_parts [of "ac_onActivate (h_class (fst hw5))" hw5] s6 p5 by simp
      have act: "doActivate en (h, w) = (case start_state ?snap (?h2, w1) of (Inl e, hw) \<Rightarrow> (Inl e, hw) | (Inr _, hw3) \<Rightarrow>
          (case (case ?snap of Some sn \<Rightarrow> if m then migrateSnapshot en (sr_state sn) (sr_version sn) hw3
                                         else (Inr (), hw3) | None \<Rightarrow> (Inr (), hw3)) of
             (Inl e, hw) \<Rightarrow> (Inl e, hw) | (Inr _, hw4) \<Rightarrow>
          (case (if h_isEs (fst hw4) then replayEvents hw4 else (Inr (), hw4)) of
             (Inl e, hw) \<Rightarrow> (Inl e, hw) | (Inr _, hw5) \<Rightarrow>
          (case run_hook (ac_onActivate (h_class (fst hw5))) hw5 of
             (Inl e, hw) \<Rightarrow> (Inl e, hw) | (Inr _, hw6) \<Rightarrow> (Inr (), open_host hw6)))))"
        using False by (simp add: doActivate_def Let_def mb rc Inr cvm)
      have run: "(x, h', w') = (case y3 of Inl e \<Rightarrow> (Inl e, hw3) | Inr _ \<Rightarrow>
          (case y4 of Inl e \<Rightarrow> (Inl e, hw4) | Inr _ \<Rightarrow>
          (case y5 of Inl e \<Rightarrow> (Inl e, hw5) | Inr _ \<Rightarrow>
          (case y6 of Inl e \<Rightarrow> (Inl e, hw6) | Inr _ \<Rightarrow> (Inr (), open_host hw6)))))"
        unfolding assms [symmetric] act s3 prod.case s4 s5 s6 ..
      have out: "(\<exists>e. x = Inl e \<and> parts (h', w') = parts (?h0, w)) \<or> (x = Inr () \<and> open_host hw6 = (h', w'))"
      proof (cases y3)
        case (Inl e) then show ?thesis using run p3 by (metis old.sum.simps(5) prod.inject)
      next
        case y3: (Inr u3)
        show ?thesis
        proof (cases y4)
          case (Inl e) then show ?thesis using run p4 y3 by (metis old.sum.simps(5,6) prod.inject)
        next
          case y4: (Inr u4)
          show ?thesis
          proof (cases y5)
            case (Inl e) then show ?thesis using run p5 y3 y4 by (metis old.sum.simps(5,6) prod.inject)
          next
            case (Inr u5)
            then show ?thesis
              using run p6 y3 y4 by (cases y6) (metis old.sum.simps(5,6) prod.inject)+
          qed
        qed
      qed
      show ?thesis
      proof (cases "\<exists>e. x = Inl e \<and> parts (h', w') = parts (?h0, w)")
        case True
        then obtain e where "x = Inl e" "parts (h', w') = parts (?h0, w)" by blast
        with early [OF this(2)] show ?thesis by simp
      next
        case False
        with out have x: "x = Inr ()" and op: "open_host hw6 = (h', w')" by blast+
        obtain h6 w6 where hw6: "hw6 = (h6, w6)" by (cases hw6)
        note q6 = partsD [OF p6 [unfolded hw6]]
        have "acked_of (h_id h) (w_driver w6) = acked_of (h_id h) (w_driver w)"
          using q6(6) by (simp add: world_part_def inbox_part_def acked_of_def)
        then have "readPendingInbox (h_id h) max_safe_integer (w_driver w6) =
              readPendingInbox (h_id h) max_safe_integer (w_driver w)"
          using q6(6) by (simp add: world_part_def inbox_part_def readPendingInbox_def split: option.split)
        then show ?thesis
          using open_host_queue [of h6 "capacity_of (h_reg h)" w6 h' w'] op q6 mb x hw6 by simp
      qed
    qed
  qed
  then show "world_part w' = world_part w \<and> h_id h' = h_id h \<and> h_reg h' = h_reg h"
    "x = Inl e \<Longrightarrow> h_activated h' = h_activated h \<and> (queued h' = [] \<or> queued h' = queued h)"
    "x = Inr u \<Longrightarrow> h_activated h' \<and> queue_inv h' \<and> cap h' = capacity_of (h_reg h)
      \<and> queued h' = take (Suc (capacity_of (h_reg h)))
           (map tell_of_record (readPendingInbox (h_id h) max_safe_integer (w_driver w)))" by simp_all
qed

section \<open>Every operation accounts for the calls it accepted\<close>

definition calls :: "hw \<Rightarrow> nat list" where
  "calls hw = settled_ids (snd hw) @ call_ids (queued (fst hw))"

definition accepted_now :: "env \<Rightarrow> host_op \<Rightarrow> hw \<Rightarrow> nat list" where
  "accepted_now en op hw = (case op of
     OpCall m a c \<Rightarrow> if fst (call en m a c hw) = Inr () then [c] else [] | _ \<Rightarrow> [])"

fun accepted_run :: "env \<Rightarrow> host_op list \<Rightarrow> hw \<Rightarrow> nat list" where
  "accepted_run en [] hw = []"
| "accepted_run en (op # ops) hw = accepted_now en op hw @ accepted_run en ops (host_step en op hw)"

definition op_calls :: "host_op list \<Rightarrow> nat list" where
  "op_calls ops = concat (map (\<lambda>op. case op of OpCall m a c \<Rightarrow> [c] | _ \<Rightarrow> []) ops)"

definition step_ok :: "hw \<Rightarrow> hw \<Rightarrow> nat list \<Rightarrow> bool" where
  "step_ok hw hw' new \<longleftrightarrow> queue_inv (fst hw') \<and> calls hw' = calls hw @ new"

lemma call_ids_tells [simp]: "call_ids (map tell_of_record rs) = []"
  by (simp add: call_ids_def tell_of_record_def)

lemma call_ids_take_tells [simp]: "call_ids (take n (map tell_of_record rs)) = []"
  by (simp add: take_map)

lemma activate_step:
  assumes "queue_inv h" and "activate en (h, w) = (x, h', w')"
  shows "step_ok (h, w) (h', w') []" and "x = Inr u \<Longrightarrow> h_activated h'"
proof -
  have "step_ok (h, w) (h', w') [] \<and> (x = Inr u \<longrightarrow> h_activated h')"
  proof (cases "h_activated h")
    case True
    with assms show ?thesis by (simp add: activate_def step_ok_def)
  next
    case False
    then have q: "queued h = []" and da: "doActivate en (h, w) = (x, h', w')"
      using assms by (simp_all add: queue_inv_def activate_def)
    have s: "settled_ids w' = settled_ids w"
      using doActivate_queue(1) [OF da] by (simp add: world_part_def)
    show ?thesis
    proof (cases x)
      case (Inl e)
      then have "\<not> h_activated h' \<and> queued h' = []" using doActivate_queue(2) [OF da] False q by auto
      with s q Inl show ?thesis by (simp add: step_ok_def calls_def queue_inv_def)
    next
      case (Inr v)
      with doActivate_queue(3) [OF da this] s q show ?thesis by (simp add: step_ok_def calls_def)
    qed
  qed
  then show "step_ok (h, w) (h', w') []" and "x = Inr u \<Longrightarrow> h_activated h'" by blast+
qed

lemma step_ok_cong:
  assumes "h_mailbox h' = h_mailbox h" "h_inhand h' = h_inhand h" "h_activated h' = h_activated h"
    "settled_ids w' = settled_ids w"
  shows "step_ok p (h', w') n \<longleftrightarrow> step_ok p (h, w) n"
  using assms by (cases "h_inhand h") (simp_all add: step_ok_def calls_def queue_inv_def queued_def)

lemma step_ok_update [simp]:
  "step_ok p (h \<lparr> h_lastActiveAt := a \<rparr>, w) n \<longleftrightarrow> step_ok p (h, w) n"
  "step_ok p (h \<lparr> h_idleTimer := b \<rparr>, w) n \<longleftrightarrow> step_ok p (h, w) n"
  "step_ok p (h \<lparr> h_metrics := m \<rparr>, w) n \<longleftrightarrow> step_ok p (h, w) n"
  "step_ok p (h \<lparr> h_listeners := ls \<rparr>, w) n \<longleftrightarrow> step_ok p (h, w) n"
  "step_ok p (h, w \<lparr> w_driver := d \<rparr>) n \<longleftrightarrow> step_ok p (h, w) n"
  by (rule step_ok_cong; simp)+

lemma tell_step: "queue_inv h \<Longrightarrow> step_ok (h, w) (snd (tell en t p (h, w))) []"
proof (cases "h_destroyed h")
  case False
  assume inv: "queue_inv h"
  obtain x h1 w1 where a: "activate en (h, w) = (x, h1, w1)" by (cases "activate en (h, w)")
  note act = activate_step [OF inv a]
  show ?thesis
  proof (cases x)
    case (Inl e)
    with False a act show ?thesis by (simp add: tell_def)
  next
    case (Inr u)
    obtain k d where k: "appendInbox (h_id h1) \<lparr> ie_type = t, ie_payload = p \<rparr> (w_driver w1) = (k, d)"
      by (cases "appendInbox (h_id h1) \<lparr> ie_type = t, ie_payload = p \<rparr> (w_driver w1)")
    obtain r h2 where e: "host_enqueue (TellItem t p k) h1 = (r, h2)" by (cases "host_enqueue (TellItem t p k) h1")
    have q1: "queue_inv h1" using act(1) by (simp add: step_ok_def)
    note q = host_enqueue_queue [OF q1 act(2) [OF Inr] e]
    have "step_ok (h, w) (h2, w1) []"
      using act(1) q by (simp add: step_ok_def calls_def)
    then show ?thesis
      using False a Inr k e q by (cases "length (queued h1) \<le> cap h1") (simp_all add: tell_def touch_def ack_item_def)
  qed
qed (simp add: tell_def step_ok_def)

lemma call_step:
  assumes "queue_inv h"
  shows "step_ok (h, w) (snd (call en m a c (h, w))) (accepted_now en (OpCall m a c) (h, w))"
proof (cases "h_destroyed h")
  case True
  with assms show ?thesis by (simp add: call_def step_ok_def accepted_now_def)
next
  case False
  obtain x h1 w1 where a: "activate en (h, w) = (x, h1, w1)" by (cases "activate en (h, w)")
  note act = activate_step [OF assms a]
  have q1: "queue_inv h1" using act(1) by (simp add: step_ok_def)
  show ?thesis
  proof (cases x)
    case (Inl e)
    with False a act show ?thesis by (simp add: call_def accepted_now_def)
  next
    case (Inr u)
    obtain r h2 where e: "host_enqueue (CallItem m a c) h1 = (r, h2)" by (cases "host_enqueue (CallItem m a c) h1")
    note q = host_enqueue_queue [OF q1 act(2) [OF Inr] e]
    show ?thesis
    proof (cases "isFull (h_mailbox h1)")
      case True
      with False a Inr act show ?thesis by (simp add: call_def accepted_now_def)
    next
      case room: False
      have "step_ok (h, w) (h2, w1) (if r = Inr True then [c] else [])"
        using act(1) q by (simp add: step_ok_def calls_def)
      then show ?thesis
        using False a Inr e q room by (cases "length (queued h1) \<le> cap h1") (simp_all add: call_def accepted_now_def touch_def)
    qed
  qed
qed

lemma worker_turn_step:
  assumes "queue_inv h" and "distinct (calls (h, w))"
  shows "step_ok (h, w) (worker_turn en (h, w)) []"
proof (cases "h_inhand h")
  case None
  with assms show ?thesis by (simp add: worker_turn_def step_ok_def)
next
  case (Some item)
  let ?h0 = "h \<lparr> h_inhand := None \<rparr>"
  obtain h1 w1 where hd: "handle en item (?h0, w) = (h1, w1)" by (cases "handle en item (?h0, w)")
  have "host_ctl h1 = host_ctl ?h0" using handle_ctl [of en item ?h0 w] hd by simp
  note f = host_ctlD [OF this]
  have act: "h_activated h" using assms(1) Some by (auto simp: queue_inv_def queued_def split: if_splits)
  have mb: "mb_waiters (h_mailbox h) = []" "\<not> mb_closed (h_mailbox h)"
    "length (mb_buffer (h_mailbox h)) \<le> mb_capacity (h_mailbox h)"
    using assms(1) Some act by (simp_all add: queue_inv_def)
  have nx: "queue_inv (worker_next h1) \<and> queued (worker_next h1) = mb_buffer (h_mailbox h)"
    using worker_next_queue [of h1] f act mb by simp
  have "settled_ids w1 = settled_ids w @ call_ids [item]"
    using handle_settled [of en item ?h0 w] hd assms(2) Some
    by (cases item) (auto simp: calls_def queued_def)
  moreover have "queued h = [item] @ mb_buffer (h_mailbox h)" using Some by (simp add: queued_def)
  ultimately have "step_ok (h, w) (worker_next h1, w1) []"
    using nx by (simp add: step_ok_def calls_def del: call_ids_simps(2,3)) (cases item; simp)
  then show ?thesis using Some hd by (simp add: worker_turn_def)
qed

lemma flushSnapshot_step: "step_ok p (snd (flushSnapshot hw)) n \<longleftrightarrow> step_ok p hw n"
proof -
  obtain h w h' w' where hw: "hw = (h, w)" "snd (flushSnapshot hw) = (h', w')"
    by (cases hw; cases "snd (flushSnapshot hw)")
  then have "parts (h', w') = parts (h, w)" using flushSnapshot_parts [of hw] by simp
  note f = partsD [OF this]
  have "settled_ids w' = settled_ids w" using f(6) by (simp add: world_part_def)
  then show ?thesis using f hw step_ok_cong by metis
qed

lemma snapshotTimer_step: "queue_inv h \<Longrightarrow> step_ok (h, w) (snapshotTimerFires (h, w)) []"
proof -
  assume inv: "queue_inv h"
  have "step_ok (h, w) (h \<lparr> h_snapshotTimer := False \<rparr>, w) []"
    using inv by (subst step_ok_cong [of _ h _ w]) (simp_all add: step_ok_def)
  then have fl: "step_ok (h, w) (snd (flushSnapshot (h \<lparr> h_snapshotTimer := False \<rparr>, w))) []"
    by (simp add: flushSnapshot_step)
  obtain x h1 w1 where f: "flushSnapshot (h \<lparr> h_snapshotTimer := False \<rparr>, w) = (x, h1, w1)"
    by (cases "flushSnapshot (h \<lparr> h_snapshotTimer := False \<rparr>, w)")
  have self: "step_ok (h, w) (h, w) []" using inv by (simp add: step_ok_def)
  have "snapshotTimerFires (h, w) = (h, w) \<or> snapshotTimerFires (h, w) = (handlerError h1, w1)
      \<or> snapshotTimerFires (h, w) = (h1, w1)"
    by (cases x) (simp_all add: snapshotTimerFires_def f)
  then show ?thesis using self fl f by (elim disjE) (simp_all add: handlerError_def)
qed

lemma drain_worker_calls:
  assumes "distinct (calls (h, w))" and "drain_worker en (h, w) = (h', w')"
  shows "settled_ids w' = calls (h, w) \<and> queued h' = [] \<and> h_activated h' = h_activated h"
proof -
  let ?h0 = "h \<lparr> h_inhand := None, h_mailbox := h_mailbox h \<lparr> mb_buffer := [] \<rparr> \<rparr>"
  have fo: "foldl (\<lambda>hw item. handle en item hw) (?h0, w) (queued h) = (h', w')"
    using assms(2) by (simp add: drain_worker_def)
  then have "host_ctl h' = host_ctl ?h0" using foldl_handle_ctl [of en ?h0 w "queued h"] by simp
  note f = host_ctlD [OF this]
  show ?thesis
    using foldl_handle_settled [of w "queued h" en ?h0] fo assms(1) f by (simp add: calls_def queued_def)
qed

lemma doDeactivate_calls:
  assumes "distinct (calls (h, w))" and "doDeactivate en (h, w) = (x, h', w')"
  shows "settled_ids w' = calls (h, w) \<and> queued h' = []"
proof -
  let ?h1 = "h \<lparr> h_idleTimer := False, h_mailbox := snd (close (h_mailbox h)) \<rparr>"
  obtain h2 w2 where dr: "drain_worker en (?h1, w) = (h2, w2)" by (cases "drain_worker en (?h1, w)")
  have "calls (?h1, w) = calls (h, w)" by (simp add: calls_def queued_def close_def)
  then have c2: "settled_ids w2 = calls (h, w)" "queued h2 = []"
    using drain_worker_calls [OF _ dr] assms(1) by simp_all
  have fl: "settled_ids (snd hw) = calls (h, w) \<and> queued (fst hw) = []"
    if "flushSnapshot (h2 \<lparr> h_snapshotTimer := False \<rparr>, w2) = (y, hw)" for y hw
  proof -
    have "parts hw = parts (h2 \<lparr> h_snapshotTimer := False \<rparr>, w2)"
      using flushSnapshot_parts [of "(h2 \<lparr> h_snapshotTimer := False \<rparr>, w2)"] that by simp
    then show ?thesis
      using c2 by (cases hw) (simp add: parts_def queue_part_def world_part_def queued_def)
  qed
  have hook: "settled_ids (snd hw) = settled_ids (snd p) \<and> queued (fst hw) = queued (fst p)"
    if "run_hook g p = (y, hw)" for y hw p g
    using run_hook_parts [of g p] that
    by (cases hw; cases p) (simp add: parts_def queue_part_def world_part_def queued_def)
  show ?thesis
    using assms(2) c2
    by (auto simp: doDeactivate_def Let_def dr release_class_def handlerError_def queued_def settled_ids_def
        dest!: fl hook split: prod.splits sum.splits if_splits option.splits)
qed

lemma deactivate_calls:
  assumes "queue_inv h" and "distinct (calls (h, w))"
  shows "step_ok (h, w) (snd (deactivate en (h, w))) []"
    and "calls (h, w) = settled_ids (snd (snd (deactivate en (h, w))))"
proof -
  have "step_ok (h, w) (snd (deactivate en (h, w))) [] \<and> calls (h, w) = settled_ids (snd (snd (deactivate en (h, w))))"
  proof (cases "h_activated h")
    case False
    with assms(1) show ?thesis by (simp add: deactivate_def step_ok_def calls_def queue_inv_def)
  next
    case True
    obtain x h' w' where d: "doDeactivate en (h, w) = (x, h', w')" by (cases "doDeactivate en (h, w)")
    note c = doDeactivate_calls [OF assms(2) d]
    have "queued (h' \<lparr> h_activated := False \<rparr>) = []" using c by (simp add: queued_def)
    then show ?thesis using True d c by (simp add: deactivate_def step_ok_def calls_def queue_inv_def)
  qed
  then show "step_ok (h, w) (snd (deactivate en (h, w))) []"
    and "calls (h, w) = settled_ids (snd (snd (deactivate en (h, w))))" by blast+
qed

lemma idle_step:
  assumes "queue_inv h" and "distinct (calls (h, w))"
  shows "step_ok (h, w) (snd (deactivateForIdle en (h, w))) []"
proof -
  let ?h0 = "h \<lparr> h_idleTimer := False \<rparr>"
  have self: "step_ok (h, w) (h, w) []" using assms(1) by (simp add: step_ok_def)
  have "queue_inv ?h0 = queue_inv h" by (cases "h_inhand h") (simp_all add: queue_inv_def queued_def)
  moreover have "calls (?h0, w) = calls (h, w)" by (simp add: calls_def queued_def)
  ultimately have q: "queue_inv ?h0" "calls (?h0, w) = calls (h, w)" using assms(1) by simp_all
  have "step_ok (?h0, w) (snd (deactivate en (?h0, w))) []"
    using deactivate_calls(1) [OF q(1)] assms(2) q(2) by simp
  then have d: "step_ok (h, w) (snd (deactivate en (?h0, w))) []"
    using q(2) by (simp add: step_ok_def)
  obtain x hw where e: "deactivate en (?h0, w) = (x, hw)" by (cases "deactivate en (?h0, w)")
  show ?thesis
    using d self by (cases x) (simp_all add: deactivateForIdle_def Let_def e)
qed

lemma host_step_calls:
  assumes "queue_inv h" and "distinct (calls (h, w))"
  shows "step_ok (h, w) (host_step en op (h, w)) (accepted_now en op (h, w))"
proof (cases op)
  case (OpCall m a c)
  with call_step [OF assms(1)] show ?thesis by simp
next
  case (OpTell t p)
  with tell_step [OF assms(1)] show ?thesis by (simp add: accepted_now_def)
next
  case OpTurn
  with worker_turn_step [OF assms] show ?thesis by (simp add: accepted_now_def)
next
  case OpSnapshotTimer
  with snapshotTimer_step [OF assms(1)] show ?thesis by (simp add: accepted_now_def)
next
  case OpIdle
  with idle_step [OF assms] show ?thesis by (simp add: accepted_now_def)
next
  case OpDeactivate
  with deactivate_calls(1) [OF assms] show ?thesis by (simp add: accepted_now_def)
next
  case (OpListen l)
  have "step_ok (h, w) (h, w) []" using assms(1) by (simp add: step_ok_def)
  with OpListen show ?thesis by (simp add: accepted_now_def onCommit_def)
next
  case (OpUnlisten l)
  have "step_ok (h, w) (h, w) []" using assms(1) by (simp add: step_ok_def)
  with OpUnlisten show ?thesis by (simp add: accepted_now_def offCommit_def)
next
  case (OpTick t)
  have "step_ok (h, w) (h, w) []" using assms(1) by (simp add: step_ok_def)
  with OpTick show ?thesis by (simp add: accepted_now_def)
qed

lemma op_calls_Cons: "op_calls (op # ops) = (case op of OpCall m a c \<Rightarrow> [c] | _ \<Rightarrow> []) @ op_calls ops"
  by (simp add: op_calls_def)

lemma accepted_now_sub: "accepted_now en op hw = [] \<or> accepted_now en op hw = (case op of OpCall m a c \<Rightarrow> [c] | _ \<Rightarrow> [])"
  by (cases op) (simp_all add: accepted_now_def)

lemma host_run_calls:
  assumes "queue_inv (fst hw)" and "distinct (calls hw @ op_calls ops)"
  shows "queue_inv (fst (host_run en ops hw)) \<and> calls (host_run en ops hw) = calls hw @ accepted_run en ops hw"
  using assms
proof (induction ops arbitrary: hw)
  case Nil
  then show ?case by (simp add: host_run_def)
next
  case (Cons op ops)
  obtain h w where hw: "hw = (h, w)" by (cases hw)
  have inv: "queue_inv h" and d: "distinct (calls (h, w))" using Cons.prems hw by simp_all
  have st: "queue_inv (fst (host_step en op hw))"
    "calls (host_step en op hw) = calls hw @ accepted_now en op hw"
    using host_step_calls [OF inv d, of en op] hw by (simp_all add: step_ok_def)
  have "distinct (calls (host_step en op hw) @ op_calls ops)"
    using Cons.prems(2) accepted_now_sub [of en op hw] st(2) by (auto simp: op_calls_Cons)
  from Cons.IH [OF st(1) this] show ?case using st(2) by (simp add: host_run_def)
qed

lemma host_run_append: "host_run en (ops @ ops') hw = host_run en ops' (host_run en ops hw)"
  by (simp add: host_run_def)

lemma worker_turn_queued:
  assumes "queue_inv h"
  shows "queued (fst (worker_turn en (h, w))) = tl (queued h)"
proof (cases "h_inhand h")
  case None
  with assms show ?thesis by (auto simp: worker_turn_def queue_inv_def queued_def split: if_splits)
next
  case (Some item)
  let ?h0 = "h \<lparr> h_inhand := None \<rparr>"
  obtain h1 w1 where hd: "handle en item (?h0, w) = (h1, w1)" by (cases "handle en item (?h0, w)")
  have "host_ctl h1 = host_ctl ?h0" using handle_ctl [of en item ?h0 w] hd by simp
  note f = host_ctlD [OF this]
  have act: "h_activated h" using assms Some by (auto simp: queue_inv_def queued_def split: if_splits)
  then have "mb_waiters (h_mailbox h) = []" "\<not> mb_closed (h_mailbox h)"
    "length (mb_buffer (h_mailbox h)) \<le> mb_capacity (h_mailbox h)"
    using assms Some by (simp_all add: queue_inv_def)
  then have "queued (worker_next h1) = mb_buffer (h_mailbox h)"
    using worker_next_queue [of h1] f act by simp
  then show ?thesis using Some hd by (simp add: worker_turn_def queued_def)
qed

lemma worker_turns_queued:
  assumes "queue_inv (fst hw)" and "distinct (calls hw)"
  shows "queued (fst (host_run en (replicate n OpTurn) hw)) = drop n (queued (fst hw))"
  using assms
proof (induction n arbitrary: hw)
  case 0
  then show ?case by (simp add: host_run_def)
next
  case (Suc n)
  obtain h w where hw: "hw = (h, w)" by (cases hw)
  have "step_ok hw (worker_turn en hw) []" using worker_turn_step [of h w en] Suc.prems hw by simp
  then have "queue_inv (fst (worker_turn en hw))" "distinct (calls (worker_turn en hw))"
    using Suc.prems by (simp_all add: step_ok_def)
  from Suc.IH [OF this] show ?case
    using worker_turn_queued [of h en w] Suc.prems(1) hw by (simp add: host_run_def drop_Suc)
qed

lemma queue_inv_new: "queue_inv (new_host r i b)" "queued (new_host r i b) = []"
  by (simp_all add: queue_inv_def new_host_def queued_def idle_mailbox_def)

lemma host_run_fresh:
  assumes "w_settled w = []" and "distinct (op_calls ops)"
  shows "queue_inv (fst (host_run en ops (new_host r i b, w)))"
    and "calls (host_run en ops (new_host r i b, w)) = accepted_run en ops (new_host r i b, w)"
    and "distinct (accepted_run en ops (new_host r i b, w))"
proof -
  have c0: "calls (new_host r i b, w) = []" using assms(1) queue_inv_new by (simp add: calls_def settled_ids_def)
  show "queue_inv (fst (host_run en ops (new_host r i b, w)))"
    and "calls (host_run en ops (new_host r i b, w)) = accepted_run en ops (new_host r i b, w)"
    using host_run_calls [of "(new_host r i b, w)" ops en] c0 queue_inv_new assms(2) by simp_all
  have "distinct (accepted_run en ops hw) \<and> set (accepted_run en ops hw) \<subseteq> set (op_calls ops)"
    if "distinct (op_calls ops)" for ops hw
    using that
  proof (induction ops arbitrary: hw)
    case (Cons op ops)
    then have "distinct (op_calls ops)" by (simp add: op_calls_Cons)
    from Cons.IH [OF this, of "host_step en op hw"] show ?case
      using accepted_now_sub [of en op hw] Cons.prems by (auto simp: op_calls_Cons split: host_op.splits)
  qed simp
  then show "distinct (accepted_run en ops (new_host r i b, w))" using assms(2) by blast
qed

section \<open>Properties\<close>

text \<open>
  C8. Over any run of a host - tells, calls, turns, timers, idle evictions and deactivations in any
  order, with any user class, driver and loader - every call that was accepted is settled exactly
  once and in the order of acceptance: the settled calls are the accepted ones without those still
  queued, and as many turns as items are queued, or one deactivation, settle the rest.
\<close>

theorem calls_settled_once_in_order:
  assumes "w_settled w = []" and "distinct (op_calls ops)"
    and "host_run en ops (new_host r i b, w) = (h', w')"
  shows "map fst (w_settled w') @ call_ids (queued h') = accepted_run en ops (new_host r i b, w)
    \<and> distinct (map fst (w_settled w'))
    \<and> map fst (w_settled (snd (host_run en (replicate (length (queued h')) OpTurn) (h', w'))))
        = accepted_run en ops (new_host r i b, w)
    \<and> map fst (w_settled (snd (host_run en [OpDeactivate] (h', w'))))
        = accepted_run en ops (new_host r i b, w)"
proof -
  let ?a = "accepted_run en ops (new_host r i b, w)"
  note f = host_run_fresh [OF assms(1,2), of en r i b, unfolded assms(3)]
  have inv: "queue_inv h'" and c: "calls (h', w') = ?a" and d: "distinct (calls (h', w'))"
    using f by simp_all
  let ?turns = "replicate (length (queued h')) OpTurn"
  have "op_calls ?turns = []" by (simp add: op_calls_def)
  moreover have "accepted_run en (replicate n OpTurn) hw = []" for n hw
    by (induction n arbitrary: hw) (simp_all add: accepted_now_def)
  ultimately have "calls (host_run en ?turns (h', w')) = ?a"
    using host_run_calls [of "(h', w')" ?turns en] inv d c by simp
  then have "settled_ids (snd (host_run en ?turns (h', w'))) = ?a"
    using worker_turns_queued [of "(h', w')" en "length (queued h')"] inv d by (simp add: calls_def)
  moreover have "settled_ids (snd (host_run en [OpDeactivate] (h', w'))) = ?a"
    using deactivate_calls(2) [OF inv d, of en] c by (simp add: host_run_def)
  moreover have "distinct (settled_ids w')" using d by (simp add: calls_def)
  ultimately show ?thesis
    using c by (simp add: settled_ids_def calls_def)
qed

theorem calls_settled_once_in_order_witness:
  "accepted_run demo_env [OpCall ''hit'' JNull 7, OpTell ''hit'' JNull, OpCall ''nope'' JNull 9, OpTurn, OpTurn]
     (new_host (demo_reg visits_class) ''a'' False, demo_world)
   = [7] @ call_ids [CallItem ''nope'' JNull 9]"
proof -
  let ?ops = "[OpCall ''hit'' JNull 7, OpTell ''hit'' JNull, OpCall ''nope'' JNull 9, OpTurn, OpTurn]"
  obtain h' w' where run: "host_run demo_env ?ops (new_host (demo_reg visits_class) ''a'' False, demo_world) = (h', w')"
    by (cases "host_run demo_env ?ops (new_host (demo_reg visits_class) ''a'' False, demo_world)")
  have 1: "w_settled demo_world = []" "distinct (op_calls ?ops)" by (simp_all add: demo_world_def op_calls_def)
  note props = calls_settled_once_in_order [OF 1 run]
  have "map fst (w_settled (snd (host_run demo_env ?ops (new_host (demo_reg visits_class) ''a'' False, demo_world)))) = [7]
    \<and> queued (fst (host_run demo_env ?ops (new_host (demo_reg visits_class) ''a'' False, demo_world))) = [CallItem ''nope'' JNull 9]"
    by code_simp
  with run props show ?thesis by simp
qed

text \<open>
  A successful activation of an idle host puts the pending entries of the actor's durable
  inbox, oldest first, in front of the worker: the first \<open>capacity + 1\<close> of them (one in the
  worker's hand and a full buffer). What lies beyond stays in the inbox, unacknowledged, until
  another activation.
\<close>

theorem activation_replays_inbox:
  assumes "\<not> h_activated h" and "activate en (h, w) = (Inr (), h', w')"
  shows "queued h' = take (Suc (capacity_of (h_reg h)))
           (map tell_of_record (readPendingInbox (h_id h) max_safe_integer (w_driver w)))
    \<and> readPendingInbox (h_id h) max_safe_integer (w_driver w')
        = readPendingInbox (h_id h) max_safe_integer (w_driver w)"
proof -
  have da: "doActivate en (h, w) = (Inr (), h', w')" using assms by (simp add: activate_def)
  have "inbox_part (w_driver w') = inbox_part (w_driver w)"
    using doActivate_queue(1) [OF da] by (simp add: world_part_def)
  then have "d_inbox (w_driver w') = d_inbox (w_driver w)"
    "acked_of (h_id h) (w_driver w') = acked_of (h_id h) (w_driver w)"
    by (simp_all add: inbox_part_def acked_of_def)
  then show ?thesis
    using doActivate_queue(3) [OF da] by (simp add: readPendingInbox_def split: option.split)
qed

theorem activation_replays_inbox_witness:
  "queued (fst (snd (activate demo_env
      (new_host ((demo_reg visits_class) \<lparr> rg_mailboxCapacity := Some 1 \<rparr>) ''a'' False,
       demo_world \<lparr> w_driver := snd (appendInbox ''a'' \<lparr> ie_type = ''hit'', ie_payload = JNum 3 \<rparr>
         (snd (appendInbox ''a'' \<lparr> ie_type = ''hit'', ie_payload = JNum 2 \<rparr>
           (snd (appendInbox ''a'' \<lparr> ie_type = ''hit'', ie_payload = JNum 1 \<rparr> empty_driver))))) \<rparr>))))
   = [TellItem ''hit'' (JNum 1) ''0-0'', TellItem ''hit'' (JNum 2) ''0-1'']"
  (is "queued (fst (snd (activate demo_env (?h, ?w)))) = ?r")
proof -
  obtain x h' w' where a: "activate demo_env (?h, ?w) = (x, h', w')" by (cases "activate demo_env (?h, ?w)")
  have "fst (activate demo_env (?h, ?w)) = Inr ()" by code_simp
  with a have "activate demo_env (?h, ?w) = (Inr (), h', w')" by simp
  from activation_replays_inbox [OF _ this]
  have "queued h' = take (Suc (capacity_of (h_reg ?h)))
      (map tell_of_record (readPendingInbox (h_id ?h) max_safe_integer (w_driver ?w)))"
    by (simp add: new_host_def)
  moreover have "take (Suc (capacity_of (h_reg ?h)))
      (map tell_of_record (readPendingInbox (h_id ?h) max_safe_integer (w_driver ?w))) = ?r"
    by code_simp
  ultimately show ?thesis using a by simp
qed

text \<open>
  C9. A tell is not lost to a failing handler: when the turn throws, its durable inbox entry is
  still pending, so a host that takes the actor over after a crash puts the tell in its queue
  again (if it is among the first \<open>capacity + 1\<close> pending ones).
\<close>

theorem failed_tell_is_redelivered:
  assumes "h_inhand h = Some (TellItem t p k)" and "find_handler (h_class h) t = Some f"
    and "f (inst_state h) p = (Inl e, s)" and "worker_turn en (h, w) = (h1, w1)"
    and "activate en (new_host r (h_id h) b, w1) = (Inr (), h2, w2)"
    and "n < length (readPendingInbox (h_id h) max_safe_integer (w_driver w))" and "n \<le> capacity_of r"
  shows "queued h2 ! n = tell_of_record (readPendingInbox (h_id h) max_safe_integer (w_driver w) ! n)
    \<and> w_driver w1 = w_driver w \<and> m_handlerErrors (h_metrics h1) = Suc (m_handlerErrors (h_metrics h))"
proof -
  have w: "w1 = w" and m: "m_handlerErrors (h_metrics h1) = Suc (m_handlerErrors (h_metrics h))"
    using assms(1-4)
    by (auto simp: worker_turn_def handle_def item_name_def item_arg_def inst_state_def turn_failed_def
        handlerError_def worker_next_def Let_def split_def split: if_splits)
  have na: "\<not> h_activated (new_host r (h_id h) b)" by (simp add: new_host_def)
  have "doActivate en (new_host r (h_id h) b, w1) = (Inr (), h2, w2)"
    using assms(5) na by (simp add: activate_def)
  from doActivate_queue(3) [OF this]
  have "queued h2 = take (Suc (capacity_of r))
      (map tell_of_record (readPendingInbox (h_id h) max_safe_integer (w_driver w1)))"
    by (simp add: new_host_def)
  then show ?thesis using assms(6,7) w m by simp
qed

definition faulty_class :: actor_class where
  "faulty_class = visits_class \<lparr> ac_isEs := False,
     ac_handlers := [(''hit'', \<lambda>s a. (Inl (PlainError ''boom''), JNum 99))] \<rparr>"

theorem failed_tell_is_redelivered_witness:
  "queued (fst (snd (activate demo_env (new_host (demo_reg faulty_class) ''a'' False,
     snd (host_run demo_env [OpTell ''hit'' (JNum 5), OpTurn] (new_host (demo_reg faulty_class) ''a'' False, demo_world))))))
     ! 0 = TellItem ''hit'' (JNum 5) ''0-0''"
proof -
  let ?n = "new_host (demo_reg faulty_class) ''a'' False"
  let ?hw = "host_run demo_env [OpTell ''hit'' (JNum 5)] (?n, demo_world)"
  have in1: "h_inhand (fst ?hw) = Some (TellItem ''hit'' (JNum 5) ''0-0'')"
    and id1: "h_id (fst ?hw) = ''a''"
    and cl: "map_option (\<lambda>f. f (inst_state (fst ?hw)) (JNum 5)) (find_handler (h_class (fst ?hw)) ''hit'')
      = Some (Inl (PlainError ''boom''), JNum 99)"
    and pend: "map tell_of_record (readPendingInbox ''a'' max_safe_integer (w_driver (snd ?hw)))
      = [TellItem ''hit'' (JNum 5) ''0-0'']"
    and ok: "fst (activate demo_env (?n, snd (worker_turn demo_env ?hw))) = Inr ()"
    by code_simp+
  obtain f where f: "find_handler (h_class (fst ?hw)) ''hit'' = Some f"
    "f (inst_state (fst ?hw)) (JNum 5) = (Inl (PlainError ''boom''), JNum 99)"
    using cl by auto
  obtain h1 w1 where t: "worker_turn demo_env (fst ?hw, snd ?hw) = (h1, w1)"
    by (cases "worker_turn demo_env (fst ?hw, snd ?hw)")
  obtain x h2 w2 where a: "activate demo_env (new_host (demo_reg faulty_class) (h_id (fst ?hw)) False, w1) = (x, h2, w2)"
    by (cases "activate demo_env (new_host (demo_reg faulty_class) (h_id (fst ?hw)) False, w1)")
  have x: "x = Inr ()" using ok t a id1 by simp
  have len: "0 < length (readPendingInbox (h_id (fst ?hw)) max_safe_integer (w_driver (snd ?hw)))"
    using pend id1 by (cases "readPendingInbox ''a'' max_safe_integer (w_driver (snd ?hw))") simp_all
  from failed_tell_is_redelivered [OF in1 f t a [unfolded x] len]
  have "queued h2 ! 0 = tell_of_record (readPendingInbox ''a'' max_safe_integer (w_driver (snd ?hw)) ! 0)"
    using id1 by simp
  also have "\<dots> = TellItem ''hit'' (JNum 5) ''0-0''"
    using pend by (cases "readPendingInbox ''a'' max_safe_integer (w_driver (snd ?hw))") simp_all
  finally show ?thesis using t a id1 by (simp add: host_run_def)
qed

end
