(* ===== verification/Manifests.thy ===== *)
theory Manifests
  imports Errors "HOL-Library.List_Lexorder" "HOL-Library.Char_ord"
begin

text \<open>
  Manifests and principals: \<open>src/types/manifest.ts\<close> (the canonical JSON a manifest is hashed
  from) and \<open>src/types/principal.ts\<close>. SHA-256 is \<open>node:crypto\<close>, a parameter.
\<close>

section \<open>JSON strings\<close>

definition hex_digit :: "nat \<Rightarrow> char" where
  "hex_digit d = char_of (if d < 10 then 48 + d else 87 + d)"

text \<open>The escapes of \<open>JSON.stringify\<close> for one character: a table, then \<open>u\<close> escapes below 32.\<close>

definition short_escapes :: "(nat \<times> char) list" where
  "short_escapes = [(34, CHR 0x22), (92, CHR 0x5C), (8, CHR ''b''), (9, CHR ''t''),
     (10, CHR ''n''), (12, CHR ''f''), (13, CHR ''r'')]"

definition json_escape :: "char \<Rightarrow> string" where
  "json_escape c = (case map_of short_escapes (of_char c) of
      Some x \<Rightarrow> [CHR 0x5C, x]
    | None \<Rightarrow>
       if of_char c < (32 :: nat)
       then [CHR 0x5C, CHR ''u'', CHR ''0'', CHR ''0'', hex_digit (of_char c div 16),
             hex_digit (of_char c mod 16)]
       else [c])"

definition json_quote :: "string \<Rightarrow> string" where
  "json_quote s = [CHR 0x22] @ concat (map json_escape s) @ [CHR 0x22]"

lemma hex_digit_low: "d < 10 \<Longrightarrow> hex_digit d = char_of (48 + d)"
  unfolding hex_digit_def by (rule arg_cong [of _ _ char_of], rule if_P)

lemma hex_digit_high: "\<not> d < 10 \<Longrightarrow> hex_digit d = char_of (87 + d)"
  unfolding hex_digit_def by (rule arg_cong [of _ _ char_of], rule if_not_P)

lemma of_char_low: "d < 10 \<Longrightarrow> (of_char (char_of (48 + d)) :: nat) = 48 + d"
  by simp

lemma of_char_high: "d < 16 \<Longrightarrow> (of_char (char_of (87 + d)) :: nat) = 87 + d"
  by simp

lemma of_char_hex_digit:
  "d < 16 \<Longrightarrow> (of_char (hex_digit d) :: nat) = (if d < 10 then 48 + d else 87 + d)"
  using hex_digit_low [of d] hex_digit_high [of d] of_char_low [of d] of_char_high [of d]
  by metis

lemma hex_digit_inject:
  assumes "d < 16" and "e < 16" and "hex_digit d = hex_digit e"
  shows "d = e"
proof -
  have "(if d < 10 then 48 + d else 87 + d) = (if e < 10 then 48 + e else 87 + e)"
    using of_char_hex_digit [OF assms(1)] of_char_hex_digit [OF assms(2)]
    unfolding assms(3) by (rule trans [OF sym])
  then show ?thesis by (auto split: if_splits)
qed

lemma hex_pair_inject:
  assumes "m < 32" and "n < 32" and "hex_digit (m div 16) = hex_digit (n div 16)"
    and "hex_digit (m mod 16) = hex_digit (n mod 16)"
  shows "m = (n :: nat)"
proof -
  have "m div 16 = n div 16" using assms by (intro hex_digit_inject) auto
  moreover have "m mod 16 = n mod 16" using assms by (intro hex_digit_inject) auto
  ultimately show ?thesis by (metis div_mult_mod_eq)
qed

lemma char_code_iff:
  "c = CHR 0x22 \<longleftrightarrow> (of_char c :: nat) = 34"
  "c = CHR 0x5C \<longleftrightarrow> (of_char c :: nat) = 92"
  by (simp_all flip: of_char_eq_iff [where 'a = nat])

lemma short_escapes_inject:
  "map_of short_escapes m = Some x \<Longrightarrow> map_of short_escapes n = Some x \<Longrightarrow> m = n"
  unfolding short_escapes_def by (auto split: if_splits)

lemma short_escapes_not_u: "map_of short_escapes m \<noteq> Some (CHR ''u'')"
  unfolding short_escapes_def by (auto split: if_splits)

lemma short_escapes_None: "map_of short_escapes m = None \<Longrightarrow> m \<noteq> 92 \<and> m \<noteq> 34"
  unfolding short_escapes_def by (auto split: if_splits)

text \<open>The escapes form a prefix code, none of whose words starts with the closing quote.\<close>

lemma json_escape_hd: "json_escape c \<noteq> [] \<and> hd (json_escape c) \<noteq> CHR 0x22"
  using short_escapes_None [of "of_char c"]
  by (auto simp: json_escape_def char_code_iff split: option.splits)

lemma json_escape_prefix:
  assumes "json_escape c @ x = json_escape d @ y"
  shows "c = d \<and> x = y"
proof -
  have "(of_char c :: nat) = of_char d \<and> x = y"
  proof (cases "map_of short_escapes (of_char c)"; cases "map_of short_escapes (of_char d)")
    fix a b
    assume "map_of short_escapes (of_char c) = Some a" "map_of short_escapes (of_char d) = Some b"
    with assms short_escapes_inject [of "of_char c" a "of_char d"] show ?thesis
      by (simp add: json_escape_def)
  next
    fix a
    assume "map_of short_escapes (of_char c) = Some a" "map_of short_escapes (of_char d) = None"
    with assms short_escapes_not_u [of "of_char c"] short_escapes_None [of "of_char d"] show ?thesis
      by (auto simp: json_escape_def char_code_iff split: if_splits)
  next
    fix a
    assume "map_of short_escapes (of_char c) = None" "map_of short_escapes (of_char d) = Some a"
    with assms short_escapes_not_u [of "of_char d"] short_escapes_None [of "of_char c"] show ?thesis
      by (auto simp: json_escape_def char_code_iff split: if_splits)
  next
    assume "map_of short_escapes (of_char c) = None" "map_of short_escapes (of_char d) = None"
    with assms short_escapes_None [of "of_char c"] short_escapes_None [of "of_char d"]
      hex_pair_inject [of "of_char c" "of_char d"] show ?thesis
      by (auto simp: json_escape_def char_code_iff split: if_splits)
  qed
  then show ?thesis by simp
qed

lemma json_quote_prefix:
  assumes "json_quote a @ x = json_quote b @ y"
  shows "a = b \<and> x = y"
proof -
  have "concat (map json_escape a) @ CHR 0x22 # x = concat (map json_escape b) @ CHR 0x22 # y"
    using assms by (simp add: json_quote_def)
  then show ?thesis
  proof (induction a arbitrary: b)
    case Nil
    show ?case
    proof (cases b)
      case (Cons d ds)
      with Nil json_escape_hd [of d] have False
        by (cases "json_escape d") auto
      then show ?thesis ..
    qed (use Nil in simp)
  next
    case (Cons c cs)
    show ?case
    proof (cases b)
      case Nil
      with Cons.prems json_escape_hd [of c] have False
        by (cases "json_escape c") auto
      then show ?thesis ..
    next
      case (Cons d ds)
      with Cons.prems json_escape_prefix have
        "c = d" "concat (map json_escape cs) @ CHR 0x22 # x = concat (map json_escape ds) @ CHR 0x22 # y"
        by fastforce+
      with Cons.IH [of ds] Cons show ?thesis by simp
    qed
  qed
qed

section \<open>Manifests\<close>

type_synonym manifest = "(class_name, version) jsmap"

definition json_pair :: "string \<times> string \<Rightarrow> string" where
  "json_pair p = json_quote (fst p) @ CHR '':'' # json_quote (snd p)"

definition json_object :: "(string \<times> string) list \<Rightarrow> string" where
  "json_object ps = CHR 0x7B # join '','' (map json_pair ps) @ [CHR 0x7D]"

text \<open>
  \<open>obj[k] = v\<close> for a string \<open>v\<close>: the key \<open>__proto__\<close> reaches the prototype setter, which ignores
  a value that is not an object.
\<close>

definition obj_assign :: "(string, string) jsmap \<Rightarrow> string \<times> string \<Rightarrow> (string, string) jsmap" where
  "obj_assign obj p = (if fst p = ''__proto__'' then obj else map_set (fst p) (snd p) obj)"

definition manifest_canonical :: "manifest \<Rightarrow> string" where
  "manifest_canonical m = (
     let entries = sort_key fst m;
         obj = foldl obj_assign [] entries
     in json_object (map (\<lambda>k. (k, the (map_get obj k))) (own_keys obj)))"

definition manifestSha256 :: "(string \<Rightarrow> string) \<Rightarrow> manifest \<Rightarrow> string" where
  "manifestSha256 sha256 m = sha256 (manifest_canonical m)"

definition manifestFromEntries :: "(string \<times> string) list \<Rightarrow> manifest" where
  "manifestFromEntries entries = foldl (\<lambda>m (k, v). map_set k v m) [] entries"

lemma map_wf_foldl_set: "map_wf m \<Longrightarrow> map_wf (foldl (\<lambda>m (k, v). map_set k v m) m es)"
  by (induction es arbitrary: m) auto

lemma manifestFromEntries_wf [simp, inv_intros]: "map_wf (manifestFromEntries es)"
  unfolding manifestFromEntries_def by (rule map_wf_foldl_set) simp

lemma foldl_obj_assign:
  "map_wf (obj @ es) \<Longrightarrow> foldl obj_assign obj es = obj @ filter (\<lambda>p. fst p \<noteq> ''__proto__'') es"
proof (induction es arbitrary: obj)
  case Nil
  then show ?case by simp
next
  case (Cons p es)
  obtain k v where p: "p = (k, v)" by (cases p)
  have "map_get obj k = None"
    using Cons.prems by (auto simp: map_wf_def p map_of_eq_None_iff)
  then have "obj_assign obj p = obj @ (if k = ''__proto__'' then [] else [p])"
    by (simp add: obj_assign_def p map_set_fresh)
  moreover have "map_wf ((obj @ (if k = ''__proto__'' then [] else [p])) @ es)"
    using Cons.prems by (auto simp: map_wf_def p)
  ultimately show ?case
    using Cons.IH [of "obj @ (if k = ''__proto__'' then [] else [p])"] by (auto simp: p)
qed

lemma sort_key_unique:
  assumes "map_wf m" and "map_wf m'" and "set m = set m'"
  shows "sort_key fst m = sort_key fst (m' :: (string \<times> 'a) list)"
proof (rule map_sorted_distinct_set_unique [where f = fst])
  have d: "distinct (map fst m)" "distinct (map fst m')"
    using assms by (simp_all add: map_wf_def)
  show "inj_on fst (set (sort_key fst m) \<union> set (sort_key fst m'))"
    using d assms(3) by (simp add: distinct_map)
  show "distinct (map fst (sort_key fst m))" "distinct (map fst (sort_key fst m'))"
    using d by (metis mset_sort mset_map mset_eq_imp_distinct_iff)+
qed (use assms in simp_all)

text \<open>The object the canonical form prints, and its properties in printing order.\<close>

definition manifest_obj :: "manifest \<Rightarrow> (string, string) jsmap" where
  "manifest_obj m = filter (\<lambda>p. fst p \<noteq> ''__proto__'') (sort_key fst m)"

definition manifest_pairs :: "manifest \<Rightarrow> (string \<times> string) list" where
  "manifest_pairs m =
     map (\<lambda>k. (k, the (map_get (manifest_obj m) k))) (own_keys (manifest_obj m))"

lemma map_wf_sort: "map_wf m \<Longrightarrow> map_wf (sort_key fst m)"
  unfolding map_wf_def by (metis mset_sort mset_map mset_eq_imp_distinct_iff)

lemma map_get_sort: "map_wf m \<Longrightarrow> map_get (sort_key fst m) k = map_get m k"
  using map_wf_get_iff [of m k] map_wf_get_iff [OF map_wf_sort, of m k]
  by (metis not_Some_eq set_sort)

lemma manifest_canonical_pairs:
  "map_wf m \<Longrightarrow> manifest_canonical m = json_object (manifest_pairs m)"
  using foldl_obj_assign [of "[]" "sort_key fst m"] map_wf_sort [of m]
  by (simp add: manifest_canonical_def manifest_pairs_def manifest_obj_def Let_def)

lemma manifest_obj_get:
  "map_wf m \<Longrightarrow> map_get (manifest_obj m) k = (if k = ''__proto__'' then None else map_get m k)"
  using map_get_filter_keys [of "\<lambda>x. x \<noteq> ''__proto__''" "sort_key fst m" k]
  by (simp add: manifest_obj_def map_get_sort)

lemma map_of_keyed: "map_of (map (\<lambda>k. (k, f k)) ks) k = (if k \<in> set ks then Some (f k) else None)"
  by (induction ks) auto

lemma map_of_manifest_pairs: "map_get (manifest_pairs m) k = map_get (manifest_obj m) k"
  using map_of_eq_None_iff [of "manifest_obj m" k]
  by (auto simp: manifest_pairs_def map_of_keyed set_own_keys)

lemma manifest_obj_unique:
  assumes "map_wf m" and "map_wf m'"
    and "\<And>k. k \<noteq> ''__proto__'' \<Longrightarrow> map_get m k = map_get m' k"
  shows "manifest_obj m = manifest_obj m'"
proof -
  let ?f = "filter (\<lambda>p. fst p \<noteq> ''__proto__'')"
  have "set (?f m) = set (?f m')"
    using assms map_wf_get_iff [OF assms(1)] map_wf_get_iff [OF assms(2)]
    by (auto simp flip: map_wf_get_iff) 
  then have "sort_key fst (?f m) = sort_key fst (?f m')"
    using assms map_wf_filter by (intro sort_key_unique) auto
  then show ?thesis by (simp add: manifest_obj_def filter_sort)
qed

lemma json_join_Cons:
  "join '','' (map json_pair (r # rs)) @ [CHR 0x7D] =
     json_quote (fst r) @ CHR '':'' # json_quote (snd r)
       @ (if rs = [] then [] else CHR '','' # join '','' (map json_pair rs)) @ [CHR 0x7D]"
  by (cases rs) (simp_all add: json_pair_def)

lemma json_quote_hd: "json_quote s @ x = CHR 0x22 # concat (map json_escape s) @ CHR 0x22 # x"
  by (simp add: json_quote_def)

lemma json_pairs_prefix:
  "join '','' (map json_pair ps) @ [CHR 0x7D] = join '','' (map json_pair qs) @ [CHR 0x7D] \<Longrightarrow> ps = qs"
proof (induction ps arbitrary: qs)
  case Nil
  show ?case
  proof (cases qs)
    case (Cons q qs')
    with Nil have False
      using json_join_Cons [of q qs'] by (simp add: json_quote_hd del: list.map(2))
    then show ?thesis ..
  qed simp
next
  case (Cons p ps)
  let ?t = "\<lambda>rs. (if rs = [] then [] else CHR '','' # join '','' (map json_pair rs)) @ [CHR 0x7D]"
  show ?case
  proof (cases qs)
    case Nil
    with Cons.prems have False
      using json_join_Cons [of p ps] by (simp add: json_quote_hd del: list.map(2))
    then show ?thesis ..
  next
    case (Cons q qs')
    have "json_quote (fst p) @ CHR '':'' # json_quote (snd p) @ ?t ps =
          json_quote (fst q) @ CHR '':'' # json_quote (snd q) @ ?t qs'"
      using Cons.prems unfolding Cons json_join_Cons .
    from json_quote_prefix [OF this] have f: "fst p = fst q"
      and "json_quote (snd p) @ ?t ps = json_quote (snd q) @ ?t qs'" by simp_all
    from json_quote_prefix [OF this(2)] have "snd p = snd q" and t: "?t ps = ?t qs'" by simp_all
    moreover have "ps = qs'"
      using t Cons.IH [of qs'] by (cases "ps = []"; cases "qs' = []") auto
    ultimately show ?thesis using f Cons by (simp add: prod_eq_iff)
  qed
qed

section \<open>Properties\<close>

text \<open>
  C13. Two manifests have the same digest exactly when they pin the same version for every class
  other than one called \<open>__proto__\<close>: the order of insertion never matters, and no two different
  manifests share a canonical form. Only collisions of SHA-256 itself are excluded.
\<close>

theorem manifest_digest_exact:
  assumes "map_wf m" and "map_wf m'"
    and "sha256 (manifest_canonical m) = sha256 (manifest_canonical m') \<Longrightarrow>
         manifest_canonical m = manifest_canonical m'"
  shows "manifestSha256 sha256 m = manifestSha256 sha256 m' \<longleftrightarrow>
         (\<forall>k. k \<noteq> ''__proto__'' \<longrightarrow> map_get m k = map_get m' k)"
proof
  assume "manifestSha256 sha256 m = manifestSha256 sha256 m'"
  then have "json_object (manifest_pairs m) = json_object (manifest_pairs m')"
    using assms by (simp add: manifestSha256_def manifest_canonical_pairs)
  then have "manifest_pairs m = manifest_pairs m'"
    using json_pairs_prefix by (simp add: json_object_def)
  then have "map_get (manifest_obj m) k = map_get (manifest_obj m') k" for k
    by (metis map_of_manifest_pairs)
  then show "\<forall>k. k \<noteq> ''__proto__'' \<longrightarrow> map_get m k = map_get m' k"
    using manifest_obj_get [OF assms(1)] manifest_obj_get [OF assms(2)] by (metis (full_types))
next
  assume "\<forall>k. k \<noteq> ''__proto__'' \<longrightarrow> map_get m k = map_get m' k"
  then have "manifest_obj m = manifest_obj m'"
    using assms by (intro manifest_obj_unique) auto
  then show "manifestSha256 sha256 m = manifestSha256 sha256 m'"
    using assms by (simp add: manifestSha256_def manifest_canonical_pairs manifest_pairs_def)
qed

theorem manifest_digest_exact_witness:
  "manifestSha256 id [(''Cart'', ''1.0.0''), (''Item'', ''2.0.0'')] =
     manifestSha256 id [(''Item'', ''2.0.0''), (''Cart'', ''1.0.0'')] \<and>
   manifestSha256 id [(''Cart'', ''1.0.0'')] \<noteq> manifestSha256 id [(''Cart'', ''1.0.1'')]"
  using manifest_digest_exact [of "[(''Cart'', ''1.0.0''), (''Item'', ''2.0.0'')]"
      "[(''Item'', ''2.0.0''), (''Cart'', ''1.0.0'')]" id]
    manifest_digest_exact [of "[(''Cart'', ''1.0.0'')]" "[(''Cart'', ''1.0.1'')]" id]
  by (simp add: map_wf_def)

section \<open>Principals\<close>

record principal =
  p_sub :: string
  p_roles :: "string list option"
  p_tenant :: "string option"
  p_capabilities :: "string list option"
  p_claims :: "(string, jsval) jsmap option"

definition anonymousPrincipal :: principal where
  "anonymousPrincipal = \<lparr> p_sub = ''anonymous'', p_roles = Some [], p_tenant = None,
     p_capabilities = None, p_claims = None \<rparr>"

definition systemPrincipal :: principal where
  "systemPrincipal = \<lparr> p_sub = ''system'', p_roles = Some [''system''], p_tenant = None,
     p_capabilities = None, p_claims = None \<rparr>"

definition isAnonymous :: "principal \<Rightarrow> bool" where
  "isAnonymous p \<longleftrightarrow> p_sub p = ''anonymous''"

definition isSystem :: "principal \<Rightarrow> bool" where
  "isSystem p \<longleftrightarrow> p_sub p = ''system''"

definition hasRole :: "principal option \<Rightarrow> string \<Rightarrow> bool" where
  "hasRole p role \<longleftrightarrow> (case p of None \<Rightarrow> False
     | Some q \<Rightarrow> (case p_roles q of None \<Rightarrow> False | Some rs \<Rightarrow> role \<in> set rs))"

definition hasCapability :: "principal option \<Rightarrow> string \<Rightarrow> bool" where
  "hasCapability p cap \<longleftrightarrow> (case p of None \<Rightarrow> False
     | Some q \<Rightarrow> (case p_capabilities q of None \<Rightarrow> False | Some cs \<Rightarrow> cap \<in> set cs))"

end
