(* ===== verification/Policy.thy ===== *)
theory Policy
  imports Manifests MemoryRegistry
begin

text \<open>
  Who may do what: the policy evaluation of \<open>src/policy/evaluate.ts\<close> and \<open>src/policy/types.ts\<close>, the
  revocation lists of \<open>src/policy/blocklist.ts\<close>, and the audit writer of \<open>src/audit/auditor.ts\<close>.
\<close>

section \<open>Decisions\<close>

record policy_actor =
  pa_class :: class_name
  pa_id :: actor_id
  pa_version :: version
  pa_state :: jsval

datatype policy_action =
    CallAction string jsval policy_actor
  | ReadAction policy_actor
  | CreateAction jsval
  | DestroyAction policy_actor

datatype policy_decision =
    DecisionAllow
  | DecisionDeny
  | DecisionObject bool "string option"

text \<open>A class's static \<open>policy\<close>: user code that may throw.\<close>

type_synonym policy_fn = "principal \<Rightarrow> policy_action \<Rightarrow> error + policy_decision"

definition isAuthenticated :: "principal \<Rightarrow> bool" where
  "isAuthenticated p \<longleftrightarrow> p_sub p \<noteq> ''anonymous''"

definition normalizeDecision :: "policy_decision \<Rightarrow> bool \<times> string option" where
  "normalizeDecision d = (case d of
      DecisionAllow \<Rightarrow> (True, None)
    | DecisionDeny \<Rightarrow> (False, None)
    | DecisionObject b r \<Rightarrow> (b, r))"

definition defaultPolicy :: "principal \<Rightarrow> policy_action \<Rightarrow> policy_decision" where
  "defaultPolicy p a = DecisionAllow"

text \<open>\<open>msg\<close> is the text of an exception: its \<open>message\<close>, or \<open>String\<close> of what was thrown.\<close>

definition evaluatePolicy ::
  "(error \<Rightarrow> string) \<Rightarrow> policy_fn option \<Rightarrow> principal \<Rightarrow> policy_action \<Rightarrow> bool \<times> string option" where
  "evaluatePolicy msg fn p a = (case fn of
      Some f \<Rightarrow> (case f p a of
          Inl e \<Rightarrow> (False, Some (''policy threw: '' @ msg e))
        | Inr d \<Rightarrow> normalizeDecision d)
    | None \<Rightarrow> normalizeDecision (defaultPolicy p a))"

lemma evaluatePolicy_allows:
  "fst (evaluatePolicy msg fn p a) \<longleftrightarrow> (case fn of None \<Rightarrow> True | Some f \<Rightarrow>
     f p a = Inr DecisionAllow \<or> (\<exists>r. f p a = Inr (DecisionObject True r)))"
  by (auto simp: evaluatePolicy_def normalizeDecision_def defaultPolicy_def
      split: option.split sum.split policy_decision.split)

section \<open>The blocklist contract\<close>

text \<open>
  What a revocation list promises: the answer is whether the token is revoked at that moment,
  asking changes no later answer, a revocation holds until its expiry, and one that has
  already expired changes nothing.
\<close>

locale blocklist =
  fixes revoked :: "'s \<Rightarrow> ms \<Rightarrow> string \<Rightarrow> bool"
    and is_revoked :: "string \<Rightarrow> ms \<Rightarrow> 's \<Rightarrow> bool \<times> 's"
    and add :: "string \<Rightarrow> ms \<Rightarrow> ms \<Rightarrow> 's \<Rightarrow> 's"
    and del :: "string \<Rightarrow> 's \<Rightarrow> 's"
  assumes answer: "fst (is_revoked j t s) = revoked s t j"
    and asking: "t \<le> t' \<Longrightarrow> revoked (snd (is_revoked j t s)) t' k = revoked s t' k"
    and adding: "t \<le> t' \<Longrightarrow> revoked (add j e t s) t' k =
                   (if k = j \<and> t < e then t' < e else revoked s t' k)"
    and deleting: "revoked (del j s) t k = (k \<noteq> j \<and> revoked s t k)"

section \<open>The memory blocklist\<close>

record memory_blocklist =
  bl_entries :: "(string, ms) jsmap"

definition empty_blocklist :: memory_blocklist where
  "empty_blocklist = \<lparr> bl_entries = [] \<rparr>"

definition isRevoked :: "string \<Rightarrow> ms \<Rightarrow> memory_blocklist \<Rightarrow> bool \<times> memory_blocklist" where
  "isRevoked jti nowMs bl = (case map_get (bl_entries bl) jti of
      None \<Rightarrow> (False, bl)
    | Some expiry \<Rightarrow>
        if expiry \<le> nowMs then (False, bl \<lparr> bl_entries := map_delete jti (bl_entries bl) \<rparr>)
        else (True, bl))"

definition revoke :: "string \<Rightarrow> ms \<Rightarrow> ms \<Rightarrow> memory_blocklist \<Rightarrow> memory_blocklist" where
  "revoke jti expiresAtMs nowMs bl =
     (if expiresAtMs \<le> nowMs then bl else bl \<lparr> bl_entries := map_set jti expiresAtMs (bl_entries bl) \<rparr>)"

definition unrevoke :: "string \<Rightarrow> memory_blocklist \<Rightarrow> memory_blocklist" where
  "unrevoke jti bl = bl \<lparr> bl_entries := map_delete jti (bl_entries bl) \<rparr>"

text \<open>The sweep of \<open>size\<close> deletes while it iterates, which visits every entry.\<close>

definition blocklist_size :: "ms \<Rightarrow> memory_blocklist \<Rightarrow> nat \<times> memory_blocklist" where
  "blocklist_size nowMs bl = (
     let kept = filter (\<lambda>p. \<not> snd p \<le> nowMs) (bl_entries bl)
     in (length kept, bl \<lparr> bl_entries := kept \<rparr>))"

definition mem_revoked :: "memory_blocklist \<Rightarrow> ms \<Rightarrow> string \<Rightarrow> bool" where
  "mem_revoked bl t j = (case map_get (bl_entries bl) j of None \<Rightarrow> False | Some e \<Rightarrow> t < e)"

interpretation memory: blocklist mem_revoked isRevoked revoke unrevoke
proof unfold_locales
  fix j k :: string and t t' e :: ms and s :: memory_blocklist
  show "fst (isRevoked j t s) = mem_revoked s t j"
    by (auto simp: isRevoked_def mem_revoked_def split: option.split)
  show "mem_revoked (snd (isRevoked j t s)) t' k = mem_revoked s t' k" if "t \<le> t'"
    using that by (auto simp: isRevoked_def mem_revoked_def split: option.split)
  show "mem_revoked (revoke j e t s) t' k = (if k = j \<and> t < e then t' < e else mem_revoked s t' k)"
    if "t \<le> t'"
    by (auto simp: revoke_def mem_revoked_def split: option.split)
  show "mem_revoked (unrevoke j s) t k = (k \<noteq> j \<and> mem_revoked s t k)"
    by (auto simp: unrevoke_def mem_revoked_def split: option.split)
qed

section \<open>The cached blocklist\<close>

record 's cached_blocklist =
  cb_source :: 's
  cb_ttlMs :: ms
  cb_cache :: "(string, bool \<times> ms) jsmap"

definition cachedIsRevoked ::
  "(string \<Rightarrow> ms \<Rightarrow> 's \<Rightarrow> bool \<times> 's) \<Rightarrow> string \<Rightarrow> ms \<Rightarrow> 's cached_blocklist \<Rightarrow> bool \<times> 's cached_blocklist" where
  "cachedIsRevoked source jti nowMs cb = (
     let fetch = (let (r, s) = source jti nowMs (cb_source cb)
                  in (r, cb \<lparr> cb_source := s, cb_cache := map_set jti (r, nowMs) (cb_cache cb) \<rparr>))
     in case map_get (cb_cache cb) jti of
          Some (r, checkedAt) \<Rightarrow> if nowMs - checkedAt < cb_ttlMs cb then (r, cb) else fetch
        | None \<Rightarrow> fetch)"

definition cachedRevoke ::
  "(string \<Rightarrow> ms \<Rightarrow> ms \<Rightarrow> 's \<Rightarrow> 's) \<Rightarrow> string \<Rightarrow> ms \<Rightarrow> ms \<Rightarrow> 's cached_blocklist \<Rightarrow> 's cached_blocklist" where
  "cachedRevoke source jti expiresAtMs nowMs cb =
     cb \<lparr> cb_source := source jti expiresAtMs nowMs (cb_source cb),
          cb_cache := map_delete jti (cb_cache cb) \<rparr>"

definition cachedUnrevoke ::
  "(string \<Rightarrow> 's \<Rightarrow> 's) \<Rightarrow> string \<Rightarrow> 's cached_blocklist \<Rightarrow> 's cached_blocklist" where
  "cachedUnrevoke source jti cb =
     cb \<lparr> cb_source := source jti (cb_source cb), cb_cache := map_delete jti (cb_cache cb) \<rparr>"

text \<open>
  What happens to a cached list over time: reads, revocations and withdrawals through it, and
  revocations another node writes to the shared source.
\<close>

datatype blocklist_op =
    BlRead string
  | BlRevoke string ms
  | BlUnrevoke string
  | BlRemoteRevoke string ms

fun op_touches :: "string \<Rightarrow> blocklist_op \<Rightarrow> bool" where
  "op_touches j (BlRead k) = False"
| "op_touches j (BlRevoke k e) = (k = j)"
| "op_touches j (BlUnrevoke k) = (k = j)"
| "op_touches j (BlRemoteRevoke k e) = (k = j)"

fun cached_step ::
  "(string \<Rightarrow> ms \<Rightarrow> 's \<Rightarrow> bool \<times> 's) \<Rightarrow> (string \<Rightarrow> ms \<Rightarrow> ms \<Rightarrow> 's \<Rightarrow> 's) \<Rightarrow> (string \<Rightarrow> 's \<Rightarrow> 's) \<Rightarrow>
   blocklist_op \<Rightarrow> ms \<Rightarrow> 's cached_blocklist \<Rightarrow> 's cached_blocklist" where
  "cached_step isr add del (BlRead j) t cb = snd (cachedIsRevoked isr j t cb)"
| "cached_step isr add del (BlRevoke j e) t cb = cachedRevoke add j e t cb"
| "cached_step isr add del (BlUnrevoke j) t cb = cachedUnrevoke del j cb"
| "cached_step isr add del (BlRemoteRevoke j e) t cb = cb \<lparr> cb_source := add j e t (cb_source cb) \<rparr>"

fun cached_run ::
  "(string \<Rightarrow> ms \<Rightarrow> 's \<Rightarrow> bool \<times> 's) \<Rightarrow> (string \<Rightarrow> ms \<Rightarrow> ms \<Rightarrow> 's \<Rightarrow> 's) \<Rightarrow> (string \<Rightarrow> 's \<Rightarrow> 's) \<Rightarrow>
   (ms \<times> blocklist_op) list \<Rightarrow> 's cached_blocklist \<Rightarrow> 's cached_blocklist" where
  "cached_run isr add del [] cb = cb"
| "cached_run isr add del ((t, op) # ops) cb = cached_run isr add del ops (cached_step isr add del op t cb)"

text \<open>The times of a run do not decrease, from \<open>t0\<close> to \<open>t1\<close>.\<close>

fun times_between :: "ms \<Rightarrow> (ms \<times> 'o) list \<Rightarrow> ms \<Rightarrow> bool" where
  "times_between t0 [] t1 = (t0 \<le> t1)"
| "times_between t0 ((t, op) # ops) t1 = (t0 \<le> t \<and> times_between t ops t1)"

lemma times_between_le: "times_between t0 ops t1 \<Longrightarrow> t0 \<le> t1"
  by (induction t0 ops t1 rule: times_between.induct) auto

context blocklist
begin

text \<open>
  From the moment \<open>r\<close> the source has the token revoked until \<open>e\<close>: a cached answer \<open>False\<close> is one
  that was fetched before \<open>r\<close>, and every cached moment has passed.
\<close>

definition stale_only :: "string \<Rightarrow> ms \<Rightarrow> ms \<Rightarrow> ms \<Rightarrow> 's cached_blocklist \<Rightarrow> bool" where
  "stale_only j r e t cb \<longleftrightarrow> (\<forall>t'. t \<le> t' \<longrightarrow> revoked (cb_source cb) t' j = (t' < e))
     \<and> (\<forall>c. map_get (cb_cache cb) j = Some (False, c) \<longrightarrow> c \<le> t \<and> (c \<le> r \<or> e \<le> c))"

lemma stale_only_step:
  assumes "stale_only j r e t cb" and "t \<le> t'" and "\<not> op_touches j op"
  shows "stale_only j r e t' (cached_step is_revoked add del op t' cb)"
proof -
  have src: "revoked (cb_source cb) t'' j = (t'' < e)" if "t' \<le> t''" for t''
    using assms(1,2) that by (simp add: stale_only_def)
  have cache: "c \<le> t' \<and> (c \<le> r \<or> e \<le> c)" if "map_get (cb_cache cb) j = Some (False, c)" for c
    using assms(1,2) that by (auto simp: stale_only_def)
  show ?thesis
  proof (cases op)
    case (BlRead k)
    obtain b s where q: "is_revoked k t' (cb_source cb) = (b, s)" by (cases "is_revoked k t' (cb_source cb)")
    have b: "b = revoked (cb_source cb) t' k" using answer [of k t' "cb_source cb"] q by simp
    have s: "revoked s t'' j = (t'' < e)" if "t' \<le> t''" for t''
      using asking [of t' t'' k "cb_source cb" j] q src that by simp
    show ?thesis
    proof (cases "k = j")
      case True
      with b src have "b = (t' < e)" by simp
      with BlRead True q s src cache show ?thesis
        by (auto simp: stale_only_def cachedIsRevoked_def Let_def split: option.split)
    next
      case False
      with BlRead q s src cache show ?thesis
        by (auto simp: stale_only_def cachedIsRevoked_def Let_def split: option.split)
    qed
  next
    case (BlRevoke k x)
    with assms(3) src cache show ?thesis by (auto simp: stale_only_def cachedRevoke_def adding)
  next
    case (BlUnrevoke k)
    with assms(3) src cache show ?thesis by (auto simp: stale_only_def cachedUnrevoke_def deleting)
  next
    case (BlRemoteRevoke k x)
    with assms(3) src cache show ?thesis by (auto simp: stale_only_def adding)
  qed
qed

lemma stale_only_run:
  "stale_only j r e t cb \<Longrightarrow> times_between t ops t1 \<Longrightarrow> \<forall>(t', op) \<in> set ops. \<not> op_touches j op \<Longrightarrow>
   \<exists>t'. t' \<le> t1 \<and> stale_only j r e t' (cached_run is_revoked add del ops cb)"
proof (induction t ops t1 arbitrary: cb rule: times_between.induct)
  case (1 t0 t1)
  then show ?case by auto
next
  case (2 t0 t op ops t1)
  have "stale_only j r e t (cached_step is_revoked add del op t cb)"
    using stale_only_step [of j r e t0 cb t op] 2 by simp
  with 2 show ?case by auto
qed

lemma stale_only_answer:
  assumes "stale_only j r e t cb" and "t \<le> t1" and "r + cb_ttlMs cb \<le> t1" and "t1 < e"
  shows "fst (cachedIsRevoked is_revoked j t1 cb)"
proof -
  have "fst (is_revoked j t1 (cb_source cb))" using assms by (simp add: answer stale_only_def)
  moreover have "\<forall>c. map_get (cb_cache cb) j = Some (False, c) \<longrightarrow> \<not> t1 - c < cb_ttlMs cb"
    using assms by (force simp: stale_only_def)
  ultimately show ?thesis
    by (cases "is_revoked j t1 (cb_source cb)")
       (auto simp: cachedIsRevoked_def Let_def split: option.split)
qed

end
section \<open>Audit\<close>

text \<open>The action vocabulary of \<open>src/audit/types.ts\<close>.\<close>

datatype audit_action =
    CLASS_PUBLISHED | CLASS_DEPRECATED | CLASS_SIGNED | ACTOR_TOMBSTONED | ACTOR_MIGRATED
  | POLICY_CHANGED | SIGNING_KEY_ADDED | SIGNING_KEY_REVOKED | CAPABILITY_MINTED
  | CAPABILITY_REVOKED | ADMIN_RPC

fun audit_action_name :: "audit_action \<Rightarrow> string" where
  "audit_action_name CLASS_PUBLISHED = ''class.published''"
| "audit_action_name CLASS_DEPRECATED = ''class.deprecated''"
| "audit_action_name CLASS_SIGNED = ''class.signed''"
| "audit_action_name ACTOR_TOMBSTONED = ''actor.tombstoned''"
| "audit_action_name ACTOR_MIGRATED = ''actor.migrated''"
| "audit_action_name POLICY_CHANGED = ''policy.changed''"
| "audit_action_name SIGNING_KEY_ADDED = ''signing-key.added''"
| "audit_action_name SIGNING_KEY_REVOKED = ''signing-key.revoked''"
| "audit_action_name CAPABILITY_MINTED = ''capability.minted''"
| "audit_action_name CAPABILITY_REVOKED = ''capability.revoked''"
| "audit_action_name ADMIN_RPC = ''admin.rpc''"

datatype audit_mode = Strict | BestEffort

datatype audit_principal = NoPrincipal | PrincipalName string | PrincipalOf principal

definition derivePrincipal :: "audit_principal \<Rightarrow> string" where
  "derivePrincipal i = (case i of
      NoPrincipal \<Rightarrow> ''anonymous''
    | PrincipalName s \<Rightarrow> if s = [] then ''anonymous'' else s
    | PrincipalOf p \<Rightarrow> if isSystem p then ''system'' else p_sub p)"

record record_input =
  ri_action :: string
  ri_target :: string
  ri_meta :: "(string, jsval) jsmap"
  ri_principal :: audit_principal

text \<open>
  An auditor over any driver: \<open>writer\<close> is its \<open>appendAudit\<close>, \<open>au_id\<close> and \<open>au_now\<close> what the id
  source and the clock give; the last component says whether \<open>onError\<close> was called.
\<close>

record auditor =
  au_mode :: audit_mode
  au_id :: string
  au_now :: ms
  au_noop :: bool

definition audit_entry_of :: "auditor \<Rightarrow> record_input \<Rightarrow> audit_entry" where
  "audit_entry_of au i = \<lparr> ae_id = au_id au, ae_ts = au_now au, ae_principal = derivePrincipal (ri_principal i),
     ae_action = ri_action i, ae_target = ri_target i, ae_meta = ri_meta i \<rparr>"

definition audit_record ::
  "(error \<Rightarrow> string) \<Rightarrow> (audit_entry \<Rightarrow> 'd \<Rightarrow> (error + unit) \<times> 'd) \<Rightarrow> auditor \<Rightarrow> record_input \<Rightarrow> 'd
   \<Rightarrow> (error + unit) \<times> bool \<times> 'd" where
  "audit_record msg writer au i d = (
     if au_noop au then (Inr (), False, d)
     else (case writer (audit_entry_of au i) d of
        (Inr _, d') \<Rightarrow> (Inr (), False, d')
      | (Inl e, d') \<Rightarrow>
         ((case au_mode au of
             Strict \<Rightarrow> Inl (AuditWriteError (''audit write failed for '' @ ri_action i @ '' on '' @ ri_target i
                       @ '': '' @ msg e))
           | BestEffort \<Rightarrow> Inr ()), True, d')))"

section \<open>Properties\<close>

text \<open>
  C14. The revocation lag of the cached blocklist is at most its ttl: once the shared source
  has a token revoked until \<open>e\<close> (written by any node at \<open>r\<close>), every read through the cache from
  \<open>r + ttl\<close> until \<open>e\<close> answers revoked, whatever else is read, revoked or withdrawn in between.
\<close>

theorem revocation_lag_bounded:
  assumes "times_between r ops t" and "list_all (\<lambda>o1. \<not> op_touches j (snd o1)) ops"
    and "r < e" and "r + cb_ttlMs cb \<le> t" and "t < e"
    and "\<forall>b c. map_get (cb_cache cb) j = Some (b, c) \<longrightarrow> c \<le> r"
  shows "fst (cachedIsRevoked isRevoked j t
           (cached_run isRevoked revoke unrevoke ((r, BlRemoteRevoke j e) # ops) cb))"
proof -
  let ?cb = "cached_step isRevoked revoke unrevoke (BlRemoteRevoke j e) r cb"
  have "memory.stale_only j r e r ?cb"
    using assms(3,6) by (auto simp: memory.stale_only_def memory.adding)
  moreover have "\<forall>(t', op) \<in> set ops. \<not> op_touches j op"
    using assms(2) by (auto simp: list_all_iff)
  ultimately obtain t' where t': "t' \<le> t"
    "memory.stale_only j r e t' (cached_run isRevoked revoke unrevoke ops ?cb)"
    using memory.stale_only_run [OF _ assms(1)] by blast
  have ttl: "cb_ttlMs (cached_run isr add del os c) = cb_ttlMs c" for isr add del os and c :: "'a cached_blocklist"
  proof (induction os arbitrary: c)
    case (Cons o1 os)
    obtain t op where "o1 = (t, op)" by (cases o1)
    moreover have "cb_ttlMs (cached_step isr add del op t c) = cb_ttlMs c"
      by (cases op) (simp_all add: cachedIsRevoked_def cachedRevoke_def cachedUnrevoke_def Let_def split_def
          split: option.split)
    ultimately show ?case using Cons by simp
  qed simp
  show ?thesis
    using memory.stale_only_answer [OF t'(2,1)] assms(4,5) by (simp add: ttl)
qed

theorem revocation_lag_bounded_witness:
  "fst (cachedIsRevoked isRevoked ''tok'' 10100 (cached_run isRevoked revoke unrevoke
      [(100, BlRemoteRevoke ''tok'' 99999), (200, BlRead ''tok''), (5000, BlRevoke ''other'' 7000)]
      \<lparr> cb_source = empty_blocklist, cb_ttlMs = 10000, cb_cache = [(''tok'', (False, 50))] \<rparr>))"
  by (rule revocation_lag_bounded) auto



end
