(* ===== verification/Directory.thy ===== *)
theory Directory
  imports HostDelivery Policy
begin

text \<open>
  The actor directory (\<open>src/runtime/directory.ts\<close>): which hosts are live, which are being
  activated, and the active-actor gauge per class. \<open>resolve\<close> is split at its \<open>await\<close>:
  \<open>resolve_begin\<close> is what runs before it (the checks, the entry in \<open>materializing\<close>) and
  \<open>resolve_finish\<close> the activation with what follows, so that other operations may come in
  between.
\<close>

section \<open>State\<close>

record runtime_class =
  rc_reg :: registration
  rc_policy :: "policy_fn option"

record directory =
  dr_hosts :: "(actor_id, host) jsmap"
  dr_materializing :: "(actor_id, host) jsmap"
  dr_destroyed :: bool
  dr_perClassActive :: "(class_name, int) jsmap"
  dr_classes :: "(class_name, runtime_class) jsmap"
  dr_cap :: int

type_synonym dw = "directory \<times> world"

definition new_directory :: "(class_name, runtime_class) jsmap \<Rightarrow> int \<Rightarrow> directory" where
  "new_directory classes c = \<lparr> dr_hosts = [], dr_materializing = [], dr_destroyed = False,
     dr_perClassActive = [], dr_classes = classes, dr_cap = c \<rparr>"

section \<open>Operations\<close>

definition activeCount :: "class_name \<Rightarrow> directory \<Rightarrow> int" where
  "activeCount cn d = (case map_get (dr_perClassActive d) cn of Some n \<Rightarrow> n | None \<Rightarrow> 0)"

definition checkActiveCap :: "class_name \<Rightarrow> directory \<Rightarrow> error + unit" where
  "checkActiveCap cn d = (
     if dr_cap d \<le> 0 then Inr ()
     else if dr_cap d \<le> activeCount cn d then Inl (CapacityExhaustedError cn (dr_cap d)) else Inr ())"

definition bumpActive :: "class_name \<Rightarrow> int \<Rightarrow> directory \<Rightarrow> directory" where
  "bumpActive cn delta d = (
     let next = activeCount cn d + delta in
     if next \<le> 0 then d \<lparr> dr_perClassActive := map_delete cn (dr_perClassActive d) \<rparr>
     else d \<lparr> dr_perClassActive := map_set cn next (dr_perClassActive d) \<rparr>)"

datatype resolve_state = RCached | RInflight | RStarted

definition resolve_begin :: "actor_id \<Rightarrow> class_name \<Rightarrow> directory \<Rightarrow> (error + resolve_state) \<times> directory" where
  "resolve_begin i cn d = (
     if dr_destroyed d then (Inl (PlainError ''Directory is destroyed''), d)
     else if map_has (dr_hosts d) i then (Inr RCached, d)
     else if map_has (dr_materializing d) i then (Inr RInflight, d)
     else (case map_get (dr_classes d) cn of
        None \<Rightarrow> (Inl (PlainError (''unknown class: '' @ cn)), d)
      | Some c \<Rightarrow> (case checkActiveCap cn d of
           Inl e \<Rightarrow> (Inl e, d)
         | Inr _ \<Rightarrow> (Inr RStarted,
             d \<lparr> dr_materializing := map_set i (new_host (rc_reg c) i True) (dr_materializing d) \<rparr>))))"

definition resolve_finish :: "env \<Rightarrow> actor_id \<Rightarrow> dw \<Rightarrow> (error + unit) \<times> dw" where
  "resolve_finish en i = (\<lambda>(d, w). case map_get (dr_materializing d) i of
      None \<Rightarrow> (Inr (), d, w)
    | Some h0 \<Rightarrow>
       let (r, h, w1) = activate en (h0, w) in
       (case r of
          Inl e \<Rightarrow> (Inl e, d \<lparr> dr_materializing := map_delete i (dr_materializing d) \<rparr>, w1)
        | Inr _ \<Rightarrow>
           (let d1 = bumpActive (rg_name (h_reg h0)) 1 (d \<lparr> dr_hosts := map_set i h (dr_hosts d) \<rparr>)
            in (Inr (), d1 \<lparr> dr_materializing := map_delete i (dr_materializing d1) \<rparr>, w1))))"

text \<open>\<open>resolve\<close> when nothing comes in between; a caller that joins an activation awaits it too.\<close>

definition resolve :: "env \<Rightarrow> actor_id \<Rightarrow> class_name \<Rightarrow> dw \<Rightarrow> (error + unit) \<times> dw" where
  "resolve en i cn = (\<lambda>(d, w). case resolve_begin i cn d of
      (Inl e, d1) \<Rightarrow> (Inl e, d1, w)
    | (Inr RCached, d1) \<Rightarrow> (Inr (), d1, w)
    | (Inr _, d1) \<Rightarrow> resolve_finish en i (d1, w))"

definition evict :: "actor_id \<Rightarrow> directory \<Rightarrow> directory" where
  "evict i d = (case map_get (dr_hosts d) i of
      None \<Rightarrow> d
    | Some h \<Rightarrow> (let d1 = bumpActive (rg_name (h_reg h)) (-1) d
                 in d1 \<lparr> dr_hosts := map_delete i (dr_hosts d1) \<rparr>))"

definition getLive :: "actor_id \<Rightarrow> directory \<Rightarrow> host option" where
  "getLive i d = map_get (dr_hosts d) i"

definition liveCount :: "directory \<Rightarrow> nat" where
  "liveCount d = length (dr_hosts d)"

definition liveIds :: "directory \<Rightarrow> actor_id list" where
  "liveIds d = map fst (dr_hosts d)"

text \<open>An operation on a live host, in place.\<close>

definition on_host :: "(hw \<Rightarrow> 'r \<times> hw) \<Rightarrow> actor_id \<Rightarrow> dw \<Rightarrow> 'r option \<times> dw" where
  "on_host f i = (\<lambda>(d, w). case map_get (dr_hosts d) i of
      None \<Rightarrow> (None, d, w)
    | Some h \<Rightarrow> (let (r, h1, w1) = f (h, w) in (Some r, d \<lparr> dr_hosts := map_set i h1 (dr_hosts d) \<rparr>, w1)))"

text \<open>The idle timer of a live host; \<open>onIdleEvict\<close> is \<open>evict\<close>.\<close>

definition idle_fires :: "env \<Rightarrow> actor_id \<Rightarrow> dw \<Rightarrow> dw" where
  "idle_fires en i dw0 = (case on_host (deactivateForIdle en) i dw0 of
      (Some True, d, w) \<Rightarrow> (evict i d, w)
    | (_, d, w) \<Rightarrow> (d, w))"

fun finish_all :: "env \<Rightarrow> actor_id list \<Rightarrow> dw \<Rightarrow> dw" where
  "finish_all en [] p = p"
| "finish_all en (i # is) p = finish_all en is (snd (resolve_finish en i p))"

fun destroy_all :: "env \<Rightarrow> host list \<Rightarrow> world \<Rightarrow> world" where
  "destroy_all en [] w = w"
| "destroy_all en (h # hs) w = destroy_all en hs (snd (snd (destroy en (h, w))))"

definition dir_shutdown :: "env \<Rightarrow> dw \<Rightarrow> dw" where
  "dir_shutdown en = (\<lambda>(d, w).
     if dr_destroyed d then (d, w)
     else let (d1, w1) = finish_all en (map fst (dr_materializing d)) (d \<lparr> dr_destroyed := True \<rparr>, w)
          in (d1 \<lparr> dr_hosts := [], dr_perClassActive := [] \<rparr>, destroy_all en (map snd (dr_hosts d1)) w1))"

section \<open>Steps\<close>

datatype dir_op =
    DBegin actor_id class_name
  | DFinish actor_id
  | DHost actor_id host_op
  | DIdle actor_id
  | DShutdown

fun dir_step :: "env \<Rightarrow> dir_op \<Rightarrow> dw \<Rightarrow> dw" where
  "dir_step en (DBegin i cn) (d, w) = (snd (resolve_begin i cn d), w)"
| "dir_step en (DFinish i) p = snd (resolve_finish en i p)"
| "dir_step en (DHost i op) p = snd (on_host (\<lambda>hw. ((), host_step en op hw)) i p)"
| "dir_step en (DIdle i) p = idle_fires en i p"
| "dir_step en DShutdown p = dir_shutdown en p"

definition dir_run :: "env \<Rightarrow> dir_op list \<Rightarrow> dw \<Rightarrow> dw" where
  "dir_run en ops p = foldl (\<lambda>p op. dir_step en op p) p ops"

section \<open>Identity of a host\<close>

definition ident :: "hw \<Rightarrow> actor_id \<times> registration" where
  "ident hw = (h_id (fst hw), h_reg (fst hw))"

lemma ident_ctl: "host_ctl h' = host_ctl h \<Longrightarrow> ident (h', w') = ident (h, w)"
  by (simp add: ident_def host_ctl_def)

lemma ident_update [simp]:
  "ident (h, w) = ident (h, w')" "ident (h \<lparr> h_activated := a \<rparr>, w) = ident (h, w)"
  "ident (h \<lparr> h_idleTimer := b \<rparr>, w) = ident (h, w)" "ident (h \<lparr> h_metrics := m \<rparr>, w) = ident (h, w)"
  "ident (h \<lparr> h_listeners := ls \<rparr>, w) = ident (h, w)" "ident (h \<lparr> h_destroyed := a \<rparr>, w) = ident (h, w)"
  by (simp_all add: ident_def)

lemma ident_activate: "ident (snd (activate en hw)) = ident hw"
proof -
  obtain h w where hw: "hw = (h, w)" by (cases hw)
  obtain x h' w' where a: "doActivate en (h, w) = (x, h', w')" by (cases "doActivate en (h, w)")
  show ?thesis using doActivate_queue(1) [OF a] a hw by (simp add: activate_def ident_def)
qed

lemma ident_host_step: "ident (host_step en op hw) = ident hw"
proof -
  obtain h w where hw: "hw = (h, w)" by (cases hw)
  have enq: "ident (h', w') = ident (g, u)" if "host_enqueue x g = (r, h')" for x g r h' w' u
    using that by (auto simp: host_enqueue_def ident_def Let_def split: prod.splits)
  have nxt: "ident (worker_next g, u) = ident (g, u)" for g u
    by (simp add: worker_next_def ident_def Let_def split_def)
  have act: "ident (g, u) = ident hw" if "activate en hw = (x, g, u)" for x g u
    using ident_activate [of en hw] that by simp
  have fl: "ident (snd (flushSnapshot p)) = ident p" for p
  proof (cases p)
    case (Pair g u)
    have "host_ctl (fst (snd (flushSnapshot (g, u)))) = host_ctl g" by (rule flushSnapshot_ctl)
    then show ?thesis using Pair by (simp add: ident_def host_ctl_def)
  qed
  have de: "ident (snd (deactivate en p)) = ident p" for p
  proof (cases p)
    case (Pair g u)
    let ?h1 = "g \<lparr> h_idleTimer := False, h_mailbox := snd (close (h_mailbox g)) \<rparr>"
    obtain h2 w2 where dr: "drain_worker en (?h1, u) = (h2, w2)" by (cases "drain_worker en (?h1, u)")
    have "host_ctl h2 = host_ctl (?h1 \<lparr> h_inhand := None, h_mailbox := h_mailbox ?h1 \<lparr> mb_buffer := [] \<rparr> \<rparr>)"
      using foldl_handle_ctl [of en "?h1 \<lparr> h_inhand := None, h_mailbox := h_mailbox ?h1 \<lparr> mb_buffer := [] \<rparr> \<rparr>" u
          "queued ?h1"] dr by (simp add: drain_worker_def)
    then have i2: "h_id h2 = h_id g" "h_reg h2 = h_reg g" by (simp_all add: host_ctl_def)
    let ?h3 = "h2 \<lparr> h_snapshotTimer := False \<rparr>"
    obtain x hw4 where f4: "(if h_snapshotDirty ?h3 then flushSnapshot (?h3, w2) else (Inr (), ?h3, w2)) = (x, hw4)"
      by (cases "if h_snapshotDirty ?h3 then flushSnapshot (?h3, w2) else (Inr (), ?h3, w2)")
    then have i4: "ident hw4 = ident p"
      using fl [of "(?h3, w2)"] i2 Pair by (auto simp: ident_def split: if_splits)
    have hook: "ident (snd (run_hook f q)) = ident q" for f q
      by (cases q) (auto simp: run_hook_def ident_def Let_def split: option.split prod.split)
    have "ident (snd (doDeactivate en p)) = ident p"
      using i4 Pair f4 hook [of "ac_onDeactivate (h_class (fst hw4))" hw4]
      by (auto simp: doDeactivate_def Let_def dr release_class_def handlerError_def ident_def
          split: prod.split sum.split option.split)
    then show ?thesis using Pair by (auto simp: deactivate_def ident_def Let_def split: prod.split)
  qed
  show ?thesis
  proof (cases op)
    case (OpTell t p)
    then show ?thesis
      by (auto simp: tell_def touch_def ack_item_def Let_def split: prod.split sum.split
          dest!: act enq) (simp_all add: ident_def)
  next
    case (OpCall m a c)
    then show ?thesis
      by (auto simp: call_def touch_def Let_def split: prod.split sum.split dest!: act enq)
         (simp_all add: ident_def)
  next
    case OpTurn
    have "ident (worker_turn en (h, w)) = ident (h, w)"
    proof (cases "h_inhand h")
      case None
      then show ?thesis by (simp add: worker_turn_def)
    next
      case (Some item)
      obtain h1 w1 where hd: "handle en item (h \<lparr> h_inhand := None \<rparr>, w) = (h1, w1)"
        by (cases "handle en item (h \<lparr> h_inhand := None \<rparr>, w)")
      have "host_ctl h1 = host_ctl (h \<lparr> h_inhand := None \<rparr>)"
        using handle_ctl [of en item "h \<lparr> h_inhand := None \<rparr>" w] hd by simp
      then show ?thesis using Some hd nxt [of h1 w1] by (simp add: worker_turn_def ident_def host_ctl_def)
    qed
    with OpTurn hw show ?thesis by simp
  next
    case OpSnapshotTimer
    have "ident (snapshotTimerFires (h, w)) = ident (h, w)"
      using fl [of "(h \<lparr> h_snapshotTimer := False \<rparr>, w)"]
      by (auto simp: snapshotTimerFires_def handlerError_def ident_def split: prod.split sum.split)
    with OpSnapshotTimer hw show ?thesis by simp
  next
    case OpIdle
    have "ident (snd (deactivateForIdle en (h, w))) = ident (h, w)"
      using de [of "(h \<lparr> h_idleTimer := False \<rparr>, w)"]
      by (auto simp: deactivateForIdle_def Let_def split: prod.split sum.split)
    with OpIdle hw show ?thesis by simp
  next
    case OpDeactivate
    with de hw show ?thesis by simp
  qed (simp_all add: hw onCommit_def offCommit_def)
qed

section \<open>The invariant\<close>

definition live_of :: "class_name \<Rightarrow> (actor_id, host) jsmap \<Rightarrow> nat" where
  "live_of cn hs = length (filter (\<lambda>p. rg_name (h_reg (snd p)) = cn) hs)"

definition dir_inv :: "directory \<Rightarrow> bool" where
  "dir_inv d \<longleftrightarrow> map_wf (dr_hosts d) \<and> map_wf (dr_materializing d)
     \<and> (\<forall>i. map_has (dr_materializing d) i \<longrightarrow> \<not> map_has (dr_hosts d) i)
     \<and> (\<forall>i h. map_get (dr_hosts d) i = Some h \<longrightarrow> h_id h = i)
     \<and> (\<forall>i h. map_get (dr_materializing d) i = Some h \<longrightarrow> h_id h = i)
     \<and> (\<forall>cn. activeCount cn d = int (live_of cn (dr_hosts d)))"

lemma dir_invI:
  assumes "map_wf (dr_hosts d)" "map_wf (dr_materializing d)"
    "\<And>i. map_has (dr_materializing d) i \<Longrightarrow> \<not> map_has (dr_hosts d) i"
    "\<And>i h. map_get (dr_hosts d) i = Some h \<Longrightarrow> h_id h = i"
    "\<And>i h. map_get (dr_materializing d) i = Some h \<Longrightarrow> h_id h = i"
    "\<And>cn. activeCount cn d = int (live_of cn (dr_hosts d))"
  shows "dir_inv d"
  using assms by (simp add: dir_inv_def)

lemma dir_invD:
  assumes "dir_inv d"
  shows "map_wf (dr_hosts d)" "map_wf (dr_materializing d)"
    "map_has (dr_materializing d) i \<Longrightarrow> \<not> map_has (dr_hosts d) i"
    "map_get (dr_hosts d) i = Some h \<Longrightarrow> h_id h = i"
    "map_get (dr_materializing d) i = Some h \<Longrightarrow> h_id h = i"
    "activeCount cn d = int (live_of cn (dr_hosts d))"
  using assms by (simp_all add: dir_inv_def)

lemma live_of_fresh:
  "map_get hs i = None \<Longrightarrow> live_of cn (map_set i h hs) = live_of cn hs + (if rg_name (h_reg h) = cn then 1 else 0)"
  by (simp add: live_of_def map_set_fresh)

lemma live_of_replace:
  "map_wf hs \<Longrightarrow> map_get hs i = Some h0 \<Longrightarrow> h_reg h = h_reg h0 \<Longrightarrow> live_of cn (map_set i h hs) = live_of cn hs"
  unfolding live_of_def
proof (induction hs)
  case (Cons p hs)
  then show ?case by (cases p) (auto simp: map_wf_def split: if_splits)
qed simp

lemma live_of_delete:
  "map_wf hs \<Longrightarrow> map_get hs i = Some h \<Longrightarrow>
   live_of cn hs = live_of cn (map_delete i hs) + (if rg_name (h_reg h) = cn then 1 else 0)"
  unfolding live_of_def
proof (induction hs)
  case (Cons p hs)
  obtain k g where p: "p = (k, g)" by (cases p)
  show ?case
  proof (cases "k = i")
    case True
    with Cons.prems p have "map_get hs i = None" by (simp add: map_wf_def map_of_eq_None_iff)
    then have "map_delete i hs = hs" by (simp add: delete_id map_of_eq_None_iff)
    with True p Cons.prems show ?thesis by simp
  next
    case False
    with p Cons.prems have "map_wf hs" "map_get hs i = Some h" by (simp_all add: map_wf_def)
    with Cons.IH False p show ?thesis by simp
  qed
qed simp

lemma activeCount_bump:
  "activeCount cn' (bumpActive cn delta d) =
     (if cn' = cn then max 0 (activeCount cn d + delta) else activeCount cn' d)"
  by (auto simp: bumpActive_def activeCount_def Let_def)

lemma bumpActive_frame [simp]:
  "dr_hosts (bumpActive cn n d) = dr_hosts d" "dr_materializing (bumpActive cn n d) = dr_materializing d"
  "dr_classes (bumpActive cn n d) = dr_classes d" "dr_cap (bumpActive cn n d) = dr_cap d"
  "dr_destroyed (bumpActive cn n d) = dr_destroyed d"
  by (simp_all add: bumpActive_def Let_def)

lemma activeCount_frame [simp]:
  "activeCount cn (d \<lparr> dr_hosts := hs \<rparr>) = activeCount cn d"
  "activeCount cn (d \<lparr> dr_materializing := ms \<rparr>) = activeCount cn d"
  "activeCount cn (d \<lparr> dr_destroyed := b \<rparr>) = activeCount cn d"
  by (simp_all add: activeCount_def)

lemma dir_inv_new: "dir_inv (new_directory classes c)"
  by (simp add: dir_inv_def new_directory_def activeCount_def live_of_def)

lemma dir_inv_begin: "dir_inv d \<Longrightarrow> dir_inv (snd (resolve_begin i cn d))"
  by (auto simp: resolve_begin_def dir_inv_def new_host_def split: option.split sum.split)

lemma dir_inv_finish:
  assumes "dir_inv d"
  shows "dir_inv (fst (snd (resolve_finish en i (d, w))))"
proof (cases "map_get (dr_materializing d) i")
  case None
  with assms show ?thesis by (simp add: resolve_finish_def)
next
  case (Some h0)
  obtain r h w1 where a: "activate en (h0, w) = (r, h, w1)" by (cases "activate en (h0, w)")
  have id: "h_id h = h_id h0" "h_reg h = h_reg h0"
    using ident_activate [of en "(h0, w)"] a by (simp_all add: ident_def)
  note v = dir_invD [OF assms]
  have fresh: "map_get (dr_hosts d) i = None" using v(3) [of i] Some by simp
  have h0: "h_id h0 = i" using v(5) [OF Some] .
  show ?thesis
  proof (cases r)
    case (Inl e)
    with Some a v show ?thesis
      by (auto simp: resolve_finish_def intro!: dir_invI split: if_splits)
  next
    case (Inr u)
    let ?d' = "fst (snd (resolve_finish en i (d, w)))"
    have d': "dr_hosts ?d' = map_set i h (dr_hosts d)" "dr_materializing ?d' = map_delete i (dr_materializing d)"
      "activeCount cn ?d' = activeCount cn (bumpActive (rg_name (h_reg h0)) 1 (d \<lparr> dr_hosts := map_set i h (dr_hosts d) \<rparr>))" for cn
      using Some a Inr by (simp_all add: resolve_finish_def Let_def)
    show ?thesis
      using v h0 id fresh
      by (intro dir_invI)
         (auto simp: d' activeCount_bump live_of_fresh split: if_splits)
  qed
qed

lemma dir_inv_on_host:
  assumes "dir_inv d" and "\<And>hw. ident (snd (f hw)) = ident hw"
  shows "dir_inv (fst (snd (on_host f i (d, w))))"
proof (cases "map_get (dr_hosts d) i")
  case None
  with assms show ?thesis by (simp add: on_host_def)
next
  case (Some h)
  obtain r h1 w1 where f: "f (h, w) = (r, h1, w1)" by (cases "f (h, w)")
  have id: "h_id h1 = h_id h" "h_reg h1 = h_reg h" using assms(2) [of "(h, w)"] f by (simp_all add: ident_def)
  note v = dir_invD [OF assms(1)]
  show ?thesis
    using v id Some f live_of_replace [OF v(1) Some id(2)]
    by (intro dir_invI) (auto simp: on_host_def split: if_splits)
qed

lemma dir_inv_evict: "dir_inv d \<Longrightarrow> dir_inv (evict i d)"
proof (cases "map_get (dr_hosts d) i")
  case (Some h)
  assume inv: "dir_inv d"
  note v = dir_invD [OF inv]
  have "activeCount cn (evict i d) = int (live_of cn (dr_hosts (evict i d)))" for cn
    using v(6) [of cn] live_of_delete [OF v(1) Some, of cn] Some
    by (auto simp: evict_def Let_def activeCount_bump)
  then show ?thesis
    using v Some by (intro dir_invI) (auto simp: evict_def Let_def split: if_splits)
qed (simp add: evict_def)

lemma dir_inv_finish_all: "dir_inv (fst p) \<Longrightarrow> dir_inv (fst (finish_all en is p))"
proof (induction "is" arbitrary: p)
  case (Cons i js)
  obtain d w where "p = (d, w)" by (cases p)
  with Cons dir_inv_finish [of d en i w] show ?case by simp
qed simp

lemma finish_removes: "map_keys_set_of (fst (snd (resolve_finish en i (d, w)))) = map_keys_set_of d - {i}"
  if "map_keys_set_of = (\<lambda>d. fst ` set (dr_materializing d))"
  using that by (auto simp: resolve_finish_def Let_def map_of_eq_None_iff split: option.split prod.split sum.split)

lemma finish_all_removes:
  "fst ` set (dr_materializing (fst (finish_all en is p))) = fst ` set (dr_materializing (fst p)) - set is"
proof (induction "is" arbitrary: p)
  case (Cons i js)
  obtain d w where "p = (d, w)" by (cases p)
  with Cons finish_removes [OF refl, of en i d w] show ?case by auto
qed simp

lemma dir_inv_shutdown: "dir_inv d \<Longrightarrow> dir_inv (fst (dir_shutdown en (d, w)))"
proof (cases "dr_destroyed d")
  case False
  let ?p = "finish_all en (map fst (dr_materializing d)) (d \<lparr> dr_destroyed := True \<rparr>, w)"
  have "fst ` set (dr_materializing (fst ?p)) = {}" using finish_all_removes by simp
  then have "dr_materializing (fst ?p) = []" by simp
  then show ?thesis
    using False by (auto simp: dir_shutdown_def Let_def dir_inv_def activeCount_def live_of_def split: prod.split)
qed (simp add: dir_shutdown_def)

lemma dir_inv_step: "dir_inv (fst p) \<Longrightarrow> dir_inv (fst (dir_step en op p))"
proof -
  assume inv: "dir_inv (fst p)"
  obtain d w where p: "p = (d, w)" by (cases p)
  show ?thesis
  proof (cases op)
    case (DIdle i)
    have "ident (snd (deactivateForIdle en hw)) = ident hw" for hw
      using ident_host_step [of en OpIdle hw] by simp
    then have "dir_inv (fst (snd (on_host (deactivateForIdle en) i (d, w))))"
      using inv p by (intro dir_inv_on_host) simp_all
    with DIdle p show ?thesis
      by (auto simp: idle_fires_def intro: dir_inv_evict split: prod.split option.split bool.split)
  qed (use inv p in \<open>simp_all add: dir_inv_begin dir_inv_finish dir_inv_shutdown dir_inv_on_host ident_host_step\<close>)
qed

lemma dir_inv_run: "dir_inv (fst p) \<Longrightarrow> dir_inv (fst (dir_run en ops p))"
proof (induction ops arbitrary: p)
  case (Cons op ops)
  from Cons.IH [OF dir_inv_step [OF Cons.prems]] show ?case by (simp add: dir_run_def)
qed (simp add: dir_run_def)

section \<open>Properties\<close>



text \<open>
  The active-actor cap holds for resolves that run one after the other: with nothing in
  flight, a resolve never lifts the gauge of its class above the cap, and at the cap a cold
  actor is refused with the class and the cap while a live one is still found.
\<close>

theorem active_cap_sequential:
  assumes "dir_inv d" and "dr_materializing d = []" and "0 < dr_cap d" and "activeCount cn d \<le> dr_cap d"
    and "\<forall>k c. map_get (dr_classes d) k = Some c \<longrightarrow> rg_name (rc_reg c) = k" and "\<not> dr_destroyed d"
    and "resolve en i cn (d, w) = (r, d', w')"
  shows "activeCount cn d' \<le> dr_cap d
    \<and> (activeCount cn d = dr_cap d \<and> map_has (dr_classes d) cn \<longrightarrow>
         r = (if map_has (dr_hosts d) i then Inr () else Inl (CapacityExhaustedError cn (dr_cap d))))"
proof (cases "map_has (dr_hosts d) i")
  case True
  with assms(4,6,7) show ?thesis by (auto simp: resolve_def resolve_begin_def)
next
  case fresh: False
  show ?thesis
  proof (cases "map_get (dr_classes d) cn")
    case None
    with assms(2,4,6,7) fresh show ?thesis by (auto simp: resolve_def resolve_begin_def)
  next
    case (Some c)
    show ?thesis
    proof (cases "dr_cap d \<le> activeCount cn d")
      case True
      with Some assms(2,3,4,6,7) fresh show ?thesis by (auto simp: resolve_def resolve_begin_def checkActiveCap_def)
    next
      case False
      let ?h0 = "new_host (rc_reg c) i True"
      have name: "rg_name (h_reg ?h0) = cn" using assms(5) Some by (simp add: new_host_def)
      obtain x h w1 where a: "activate en (?h0, w) = (x, h, w1)" by (cases "activate en (?h0, w)")
      have "0 \<le> activeCount cn d" using dir_invD(6) [OF assms(1)] by simp
      then show ?thesis
        using assms(2,3,6,7) fresh Some False name a
        by (cases x) (auto simp: resolve_def resolve_begin_def checkActiveCap_def resolve_finish_def Let_def
            activeCount_bump)
    qed
  qed
qed

definition demo_directory :: directory where
  "demo_directory = new_directory [(''Ledger'', \<lparr> rc_reg = demo_reg visits_class, rc_policy = None \<rparr>)] 1"

theorem active_cap_sequential_witness:
  "fst (resolve demo_env ''b'' ''Ledger'' (dir_run demo_env [DBegin ''a'' ''Ledger'', DFinish ''a''] (demo_directory, demo_world)))
   = Inl (CapacityExhaustedError ''Ledger'' 1)"
proof -
  let ?p = "dir_run demo_env [DBegin ''a'' ''Ledger'', DFinish ''a''] (demo_directory, demo_world)"
  obtain d w where p: "?p = (d, w)" by (cases ?p)
  obtain r d' w' where res: "resolve demo_env ''b'' ''Ledger'' (d, w) = (r, d', w')"
    by (cases "resolve demo_env ''b'' ''Ledger'' (d, w)")
  have inv: "dir_inv d"
    using dir_inv_run [of "(demo_directory, demo_world)" demo_env] dir_inv_new p
    by (metis demo_directory_def fst_conv)
  have f: "dr_materializing (fst ?p) = [] \<and> dr_cap (fst ?p) = 1 \<and> activeCount ''Ledger'' (fst ?p) = 1
      \<and> map fst (dr_classes (fst ?p)) = [''Ledger''] \<and> map (rg_name \<circ> rc_reg \<circ> snd) (dr_classes (fst ?p)) = [''Ledger'']
      \<and> \<not> dr_destroyed (fst ?p) \<and> \<not> map_has (dr_hosts (fst ?p)) ''b''"
    by code_simp
  then have cl: "\<forall>k c. map_get (dr_classes d) k = Some c \<longrightarrow> rg_name (rc_reg c) = k" "map_has (dr_classes d) ''Ledger''"
    using p by (cases "dr_classes d"; auto)+
  from active_cap_sequential [OF inv _ _ _ cl(1) _ res] f p cl(2) show ?thesis by (simp add: res)
qed

text \<open>
  Two activations that overlap both pass the cap: the gauge is only raised when an
  activation ends, so with a cap of one, two cold actors resolved at the same time are both
  admitted and two are active.
\<close>

theorem active_cap_race:
  "dr_cap demo_directory = 1
   \<and> activeCount ''Ledger'' (fst (dir_run demo_env
        [DBegin ''a'' ''Ledger'', DBegin ''b'' ''Ledger'', DFinish ''a'', DFinish ''b''] (demo_directory, demo_world))) = 2"
  by code_simp

end
