(* ===== verification/MemoryReminders.thy ===== *)
theory MemoryReminders
  imports MemoryDriver "HOL-Library.Product_Lexorder" "HOL-Library.Multiset"
begin

text \<open>
  Reminders of the memory driver (\<open>enqueueReminder\<close>, \<open>peekReminders\<close>, \<open>popDueReminders\<close> of
  \<open>src/storage/memory.ts\<close>). The comparator \<open>a.when - b.when || a.seq - b.seq\<close> of the stable
  \<open>Array.sort\<close> is \<open>sort_key\<close> on the pair \<open>(when, seq)\<close>.
\<close>

abbreviation reminder_key :: "reminder_row \<Rightarrow> ms \<times> nat" where
  "reminder_key r \<equiv> (rr_when r, rr_seq r)"

definition enqueueReminder :: "ms \<Rightarrow> reminder_msg \<Rightarrow> driver \<Rightarrow> driver" where
  "enqueueReminder t msg d =
     d \<lparr> d_reminders := d_reminders d @ [\<lparr> rr_when = t, rr_msg = msg, rr_seq = d_reminderSeq d \<rparr>],
         d_reminderSeq := d_reminderSeq d + 1 \<rparr>"

definition peekReminders :: "driver \<Rightarrow> (ms \<times> reminder_msg) list" where
  "peekReminders d =
     map (\<lambda>r. (rr_when r, rr_msg r)) (sort_key reminder_key (d_reminders d))"

text \<open>The loop of \<open>popDueReminders\<close>; \<open>n\<close> is \<open>due.length\<close>. It returns what was shifted and what is left.\<close>

fun pop_loop :: "ms \<Rightarrow> int \<Rightarrow> int \<Rightarrow> reminder_row list \<Rightarrow> reminder_msg list \<times> reminder_row list" where
  "pop_loop t limit n [] = ([], [])"
| "pop_loop t limit n (r # rs) =
     (if \<not> n < limit then ([], r # rs)
      else if rr_when r > t then ([], r # rs)
      else let (due, left) = pop_loop t limit (n + 1) rs in (rr_msg r # due, left))"

definition popDueReminders :: "ms \<Rightarrow> int \<Rightarrow> driver \<Rightarrow> reminder_msg list \<times> driver" where
  "popDueReminders t limit d = (
     let sorted = sort_key reminder_key (d_reminders d);
         (due, left) = pop_loop t limit 0 sorted
     in (due, d \<lparr> d_reminders := left \<rparr>))"

lemma pop_loop_split:
  "n \<le> limit \<Longrightarrow> pop_loop t limit n rs =
     (map rr_msg (take (nat (limit - n)) (takeWhile (\<lambda>r. rr_when r \<le> t) rs)),
      drop (length (take (nat (limit - n)) (takeWhile (\<lambda>r. rr_when r \<le> t) rs))) rs)"
proof (induction t limit n rs rule: pop_loop.induct)
  case (1 t limit n)
  then show ?case by simp
next
  case (2 t limit n r rs)
  show ?case
  proof (cases "n < limit \<and> rr_when r \<le> t")
    case True
    then have "nat (limit - n) = Suc (nat (limit - (n + 1)))"
      by (simp add: Suc_nat_eq_nat_zadd1)
    with True 2 show ?thesis by auto
  next
    case False
    with 2(2) show ?thesis by auto
  qed
qed

text \<open>The rows one pop removes: the due ones in delivery order, at most \<open>limit\<close>.\<close>

definition popped_rows :: "ms \<Rightarrow> int \<Rightarrow> driver \<Rightarrow> reminder_row list" where
  "popped_rows t limit d =
     take (nat limit) (takeWhile (\<lambda>r. rr_when r \<le> t) (sort_key reminder_key (d_reminders d)))"

lemma popDueReminders_eq:
  assumes "0 \<le> limit"
  shows "popDueReminders t limit d =
    (map rr_msg (popped_rows t limit d),
     d \<lparr> d_reminders := drop (length (popped_rows t limit d)) (sort_key reminder_key (d_reminders d)) \<rparr>)"
  using pop_loop_split [of 0 limit t "sort_key reminder_key (d_reminders d)"] assms
  by (simp add: popDueReminders_def popped_rows_def Let_def del: length_take)

lemma sorted_split:
  "popped_rows t limit d @ drop (length (popped_rows t limit d)) (sort_key reminder_key (d_reminders d))
    = sort_key reminder_key (d_reminders d)"
proof -
  let ?s = "sort_key reminder_key (d_reminders d)" and ?w = "\<lambda>r. rr_when r \<le> t"
  have "popped_rows t limit d = take (length (popped_rows t limit d)) ?s"
    unfolding popped_rows_def
    by (metis (no_types, lifting) append_eq_conv_conj append_take_drop_id takeWhile_dropWhile_id take_add length_append append.assoc)
  then show ?thesis by (metis append_take_drop_id)
qed

lemma popped_due: "r \<in> set (popped_rows t limit d) \<Longrightarrow> rr_when r \<le> t"
  unfolding popped_rows_def by (auto dest: in_set_takeD set_takeWhileD)

lemma popped_length: "0 \<le> limit \<Longrightarrow> int (length (popped_rows t limit d)) \<le> limit"
  by (simp add: popped_rows_def)

lemma popped_first:
  assumes "r \<in> set (popped_rows t limit d)"
    and "r' \<in> set (drop (length (popped_rows t limit d)) (sort_key reminder_key (d_reminders d)))"
  shows "reminder_key r \<le> reminder_key r'"
proof -
  let ?l = "drop (length (popped_rows t limit d)) (sort_key reminder_key (d_reminders d))"
  have "sorted (map reminder_key (popped_rows t limit d @ ?l))"
    unfolding sorted_split by (rule sorted_sort_key)
  then show ?thesis
    using assms by (auto simp: sorted_append)
qed

lemma popped_all_due:
  assumes "int (length (popped_rows t limit d)) < limit"
    and "r \<in> set (drop (length (popped_rows t limit d)) (sort_key reminder_key (d_reminders d)))"
  shows "t < rr_when r"
proof -
  let ?s = "sort_key reminder_key (d_reminders d)" and ?w = "\<lambda>r. rr_when r \<le> t"
  have len: "popped_rows t limit d = takeWhile ?w ?s"
    using assms(1) unfolding popped_rows_def by simp
  then have r: "r \<in> set (dropWhile ?w ?s)"
    using assms(2) by (simp add: dropWhile_eq_drop)
  then obtain x xs where dw: "dropWhile ?w ?s = x # xs" by (cases "dropWhile ?w ?s") auto
  then have "t < rr_when x"
    by (metis hd_dropWhile list.distinct(1) list.sel(1) not_le)
  moreover have "sorted (map reminder_key (takeWhile ?w ?s @ x # xs))"
    using sorted_sort_key [of reminder_key "d_reminders d"] dw by (metis takeWhile_dropWhile_id)
  then have "reminder_key x \<le> reminder_key r"
    using r dw by (auto simp: sorted_append)
  ultimately show ?thesis by (auto simp: less_eq_prod_def)
qed

lemma popped_conserved:
  "mset (popped_rows t limit d) + mset (drop (length (popped_rows t limit d))
     (sort_key reminder_key (d_reminders d))) = mset (d_reminders d)"
  by (metis mset_append sorted_split mset_sort)

text \<open>Pending reminders carry distinct insertion numbers below the counter.\<close>

definition reminder_inv :: "driver \<Rightarrow> bool" where
  "reminder_inv d \<longleftrightarrow> distinct (map rr_seq (d_reminders d))
     \<and> (\<forall>r\<in>set (d_reminders d). rr_seq r < d_reminderSeq d)"

lemma reminder_inv_enqueue [inv_intros]: "reminder_inv d \<Longrightarrow> reminder_inv (enqueueReminder t m d)"
  by (fastforce simp: reminder_inv_def enqueueReminder_def)

lemma reminder_inv_pop [inv_intros]:
  assumes "reminder_inv d" and "0 \<le> limit"
  shows "reminder_inv (snd (popDueReminders t limit d))"
proof -
  let ?l = "drop (length (popped_rows t limit d)) (sort_key reminder_key (d_reminders d))"
  have "distinct (map rr_seq (sort_key reminder_key (d_reminders d)))"
    using assms(1) unfolding reminder_inv_def
    by (metis mset_sort mset_map mset_eq_imp_distinct_iff)
  then have "distinct (map rr_seq ?l)"
    by (simp add: drop_map [symmetric])
  moreover have "set ?l \<subseteq> set (d_reminders d)"
    by (metis set_drop_subset set_sort)
  ultimately show ?thesis
    using assms by (auto simp: popDueReminders_eq reminder_inv_def)
qed

section \<open>Properties\<close>

text \<open>
  C4. One pop hands out due reminders only, in the order of their time (ties in insertion
  order), at most \<open>limit\<close> of them; nothing left behind should have gone first; if it returns
  fewer than \<open>limit\<close>, nothing due is left; and no reminder is lost or duplicated.
\<close>

theorem pop_due_reminders:
  assumes "0 \<le> limit" and "popDueReminders t limit d = (msgs, d')"
  shows "\<exists>rows. msgs = map rr_msg rows
    \<and> int (length msgs) \<le> limit
    \<and> sorted (map reminder_key rows)
    \<and> (\<forall>r\<in>set rows. rr_when r \<le> t)
    \<and> (\<forall>r\<in>set rows. \<forall>r'\<in>set (d_reminders d'). reminder_key r \<le> reminder_key r')
    \<and> (int (length msgs) < limit \<longrightarrow> (\<forall>r'\<in>set (d_reminders d'). t < rr_when r'))
    \<and> mset rows + mset (d_reminders d') = mset (d_reminders d)"
proof (intro exI [of _ "popped_rows t limit d"] conjI)
  let ?rows = "popped_rows t limit d"
  have m: "msgs = map rr_msg ?rows"
    and d': "d_reminders d' = drop (length ?rows) (sort_key reminder_key (d_reminders d))"
    using assms by (auto simp: popDueReminders_eq)
  show "msgs = map rr_msg ?rows" by (rule m)
  show "int (length msgs) \<le> limit" using popped_length [OF assms(1)] m by simp
  show "sorted (map reminder_key ?rows)"
  proof -
    have "sorted (map reminder_key (?rows @ drop (length ?rows) (sort_key reminder_key (d_reminders d))))"
      unfolding sorted_split by (rule sorted_sort_key)
    then show ?thesis by (simp add: sorted_append)
  qed
  show "\<forall>r\<in>set ?rows. rr_when r \<le> t" using popped_due by blast
  show "\<forall>r\<in>set ?rows. \<forall>r'\<in>set (d_reminders d'). reminder_key r \<le> reminder_key r'"
    using popped_first unfolding d' by blast
  show "int (length msgs) < limit \<longrightarrow> (\<forall>r'\<in>set (d_reminders d'). t < rr_when r')"
    using popped_all_due unfolding d' m by auto
  show "mset ?rows + mset (d_reminders d') = mset (d_reminders d)"
    unfolding d' by (rule popped_conserved)
qed

definition demo_msg :: "string \<Rightarrow> reminder_msg" where
  "demo_msg i = \<lparr> rm_actor = i, rm_class = ''Cart'', rm_type = ''wake'', rm_payload = JNull \<rparr>"

definition demo_reminders :: driver where
  "demo_reminders = enqueueReminder 30 (demo_msg ''c'')
     (enqueueReminder 10 (demo_msg ''a'') (enqueueReminder 20 (demo_msg ''b'') empty_driver))"

theorem pop_due_reminders_witness:
  "fst (popDueReminders 25 5 demo_reminders) = [demo_msg ''a'', demo_msg ''b''] \<and>
   list_all (\<lambda>r. 25 < rr_when r) (d_reminders (snd (popDueReminders 25 5 demo_reminders)))"
proof -
  have out: "fst (popDueReminders 25 5 demo_reminders) = [demo_msg ''a'', demo_msg ''b'']"
    by (simp add: popDueReminders_def demo_reminders_def enqueueReminder_def empty_driver_def
        Let_def less_eq_prod_def split_def)
  then have eq: "popDueReminders 25 5 demo_reminders =
      ([demo_msg ''a'', demo_msg ''b''], snd (popDueReminders 25 5 demo_reminders))"
    by (metis prod.collapse)
  have "(0::int) \<le> 5" by simp
  from pop_due_reminders [OF this eq] out show ?thesis by (auto simp: list_all_iff)
qed

end
