(* ===== verification/RateLimits.thy ===== *)
theory RateLimits
  imports Complex_Main Manifests
begin

text \<open>
  Rate limiting: the token bucket (\<open>src/limits/token-bucket.ts\<close>) and the per-principal limiter
  over it (\<open>src/limits/rate-limiter.ts\<close>). Token counts are rationals, an exact reading of the
  code's floating point; a wait of \<open>None\<close> milliseconds is \<open>Number.POSITIVE_INFINITY\<close>.
\<close>

section \<open>Token bucket\<close>

record bucket_state =
  bs_tokens :: rat
  bs_lastRefill :: ms

record token_bucket =
  tb_buckets :: "(string, bucket_state) jsmap"
  tb_capacity :: rat
  tb_refillPerMs :: rat
  tb_idleEvict :: ms
  tb_lastGcAt :: ms

record token_result =
  tr_ok :: bool
  tr_retryAfterMs :: "int option"
  tr_remaining :: int

definition new_token_bucket :: "rat \<Rightarrow> rat \<Rightarrow> ms option \<Rightarrow> error + token_bucket" where
  "new_token_bucket capacity refillPerSec idleEvictMs = (
     if capacity \<le> 0 then Inl (PlainError ''token bucket capacity must be positive'')
     else if refillPerSec < 0 then Inl (PlainError ''token bucket refill rate must be non-negative'')
     else Inr \<lparr> tb_buckets = [], tb_capacity = capacity, tb_refillPerMs = refillPerSec / 1000,
                tb_idleEvict = (case idleEvictMs of Some i \<Rightarrow> i | None \<Rightarrow> 600000), tb_lastGcAt = 0 \<rparr>)"

definition peek :: "string \<Rightarrow> ms \<Rightarrow> token_bucket \<Rightarrow> bucket_state \<times> token_bucket" where
  "peek subject nowMs tb = (case map_get (tb_buckets tb) subject of
      None \<Rightarrow>
        let st = \<lparr> bs_tokens = tb_capacity tb, bs_lastRefill = nowMs \<rparr>
        in (st, tb \<lparr> tb_buckets := map_set subject st (tb_buckets tb) \<rparr>)
    | Some st \<Rightarrow>
        let elapsed = nowMs - bs_lastRefill st;
            tokens = (if 0 < elapsed \<and> 0 < tb_refillPerMs tb
                      then min (tb_capacity tb) (bs_tokens st + of_int elapsed * tb_refillPerMs tb)
                      else bs_tokens st);
            st' = \<lparr> bs_tokens = tokens, bs_lastRefill = nowMs \<rparr>
        in (st', tb \<lparr> tb_buckets := map_set subject st' (tb_buckets tb) \<rparr>))"

definition evictable :: "ms \<Rightarrow> token_bucket \<Rightarrow> bucket_state \<Rightarrow> bool" where
  "evictable nowMs tb st \<longleftrightarrow>
     tb_idleEvict tb < nowMs - bs_lastRefill st \<and> tb_capacity tb - 1 / 1000000 \<le> bs_tokens st"

definition maybeGc :: "ms \<Rightarrow> token_bucket \<Rightarrow> token_bucket" where
  "maybeGc nowMs tb = (
     if nowMs - tb_lastGcAt tb < tb_idleEvict tb then tb
     else tb \<lparr> tb_lastGcAt := nowMs,
               tb_buckets := filter (\<lambda>(s, st). \<not> evictable nowMs tb st) (tb_buckets tb) \<rparr>)"

definition try_take :: "string \<Rightarrow> rat \<Rightarrow> ms \<Rightarrow> token_bucket \<Rightarrow> token_result \<times> token_bucket" where
  "try_take subject cost nowMs tb = (
     if cost \<le> 0
     then (\<lparr> tr_ok = True, tr_retryAfterMs = Some 0, tr_remaining = \<lfloor>tb_capacity tb\<rfloor> \<rparr>, tb)
     else
       let (st, tb1) = peek subject nowMs (maybeGc nowMs tb) in
       if cost \<le> bs_tokens st
       then let left = bs_tokens st - cost in
         (\<lparr> tr_ok = True, tr_retryAfterMs = Some 0, tr_remaining = \<lfloor>left\<rfloor> \<rparr>,
          tb1 \<lparr> tb_buckets := map_set subject (st \<lparr> bs_tokens := left \<rparr>) (tb_buckets tb1) \<rparr>)
       else
         let deficit = cost - bs_tokens st in
         (\<lparr> tr_ok = False,
            tr_retryAfterMs = (if 0 < tb_refillPerMs tb1
                               then Some \<lceil>deficit / tb_refillPerMs tb1\<rceil> else None),
            tr_remaining = \<lfloor>bs_tokens st\<rfloor> \<rparr>, tb1))"

definition remaining :: "string \<Rightarrow> ms \<Rightarrow> token_bucket \<Rightarrow> int \<times> token_bucket" where
  "remaining subject nowMs tb = (let (st, tb1) = peek subject nowMs tb in (\<lfloor>bs_tokens st\<rfloor>, tb1))"

section \<open>What a bucket holds\<close>

text \<open>The tokens a subject could draw at time \<open>t\<close>.\<close>

definition avail :: "string \<Rightarrow> ms \<Rightarrow> token_bucket \<Rightarrow> rat" where
  "avail s t tb = (case map_get (tb_buckets tb) s of
      None \<Rightarrow> tb_capacity tb
    | Some st \<Rightarrow> min (tb_capacity tb)
        (bs_tokens st + of_int (t - bs_lastRefill st) * tb_refillPerMs tb))"

lemma avail_set:
  "avail s' t (tb \<lparr> tb_buckets := map_set s st (tb_buckets tb) \<rparr>) =
     (if s' = s then min (tb_capacity tb)
        (bs_tokens st + of_int (t - bs_lastRefill st) * tb_refillPerMs tb)
      else avail s' t tb)"
  by (simp add: avail_def split: option.split)

text \<open>
  The buckets were last touched no later than \<open>t\<close>, each holds between 0 and the capacity; and a
  bucket that stays idle long enough to be evicted has had the time to fill up.
\<close>

definition tb_inv :: "ms \<Rightarrow> token_bucket \<Rightarrow> bool" where
  "tb_inv t tb \<longleftrightarrow> map_wf (tb_buckets tb) \<and> 0 < tb_capacity tb
     \<and> 1 / 1000000 \<le> of_int (tb_idleEvict tb) * tb_refillPerMs tb \<and> 0 < tb_refillPerMs tb
     \<and> (\<forall>s st. map_get (tb_buckets tb) s = Some st \<longrightarrow>
           bs_lastRefill st \<le> t \<and> 0 \<le> bs_tokens st \<and> bs_tokens st \<le> tb_capacity tb)"

lemma tb_inv_mono: "tb_inv t tb \<Longrightarrow> t \<le> t' \<Longrightarrow> tb_inv t' tb"
  unfolding tb_inv_def by force

lemma tb_inv_new:
  "new_token_bucket cap rate idle = Inr tb \<Longrightarrow> 0 < rate \<Longrightarrow>
   1 / 1000 \<le> of_int (case idle of Some i \<Rightarrow> i | None \<Rightarrow> 600000) * rate \<Longrightarrow> tb_inv t tb"
  by (auto simp: new_token_bucket_def tb_inv_def field_simps split: if_splits)

lemma avail_bounds:
  assumes "tb_inv t tb"
  shows "0 \<le> avail s t tb" and "avail s t tb \<le> tb_capacity tb"
  using assms by (auto simp: avail_def tb_inv_def split: option.splits)

lemma avail_later:
  assumes "tb_inv t tb" and "t \<le> t'"
  shows "avail s t' tb \<le> avail s t tb + of_int (t' - t) * tb_refillPerMs tb"
    and "avail s t tb \<le> avail s t' tb"
proof -
  let ?r = "tb_refillPerMs tb"
  have r: "0 < ?r" using assms by (simp add: tb_inv_def)
  have d: "0 \<le> of_int (t' - t) * ?r" using r assms(2) by simp
  show "avail s t' tb \<le> avail s t tb + of_int (t' - t) * ?r"
  proof (cases "map_get (tb_buckets tb) s")
    case (Some st)
    have "of_int (t' - bs_lastRefill st) * ?r =
          of_int (t - bs_lastRefill st) * ?r + of_int (t' - t) * ?r"
      by (simp add: algebra_simps)
    with Some d show ?thesis by (simp add: avail_def min_def)
  qed (use d in \<open>simp add: avail_def\<close>)
  show "avail s t tb \<le> avail s t' tb"
  proof (cases "map_get (tb_buckets tb) s")
    case (Some st)
    have "of_int (t - bs_lastRefill st) * ?r \<le> of_int (t' - bs_lastRefill st) * ?r"
      using r assms(2) by (intro mult_right_mono) auto
    with Some show ?thesis by (auto simp: avail_def min_def)
  qed (simp add: avail_def)
qed

lemma maybeGc_config [simp]:
  "tb_capacity (maybeGc t tb) = tb_capacity tb" "tb_refillPerMs (maybeGc t tb) = tb_refillPerMs tb"
  "tb_idleEvict (maybeGc t tb) = tb_idleEvict tb"
  by (simp_all add: maybeGc_def)

lemma map_get_filter_sub:
  "map_wf m \<Longrightarrow> map_get (filter P m) k = (case map_get m k of None \<Rightarrow> None
     | Some v \<Rightarrow> if P (k, v) then Some v else None)"
  using map_wf_get_iff [of m k] map_wf_get_iff [OF map_wf_filter [of m P], of k]
  by (auto split: option.splits) (metis not_Some_eq map_wf_get_iff mem_Collect_eq set_filter)+

lemma maybeGc_get:
  "map_wf (tb_buckets tb) \<Longrightarrow> map_get (tb_buckets (maybeGc t tb)) s =
     (if nowGc then (case map_get (tb_buckets tb) s of None \<Rightarrow> None
        | Some st \<Rightarrow> if evictable t tb st then None else Some st)
      else map_get (tb_buckets tb) s)"
  if "nowGc \<longleftrightarrow> \<not> (t - tb_lastGcAt tb < tb_idleEvict tb)"
  using that by (auto simp: maybeGc_def map_get_filter_sub split: option.splits)

lemma tb_inv_maybeGc [inv_intros]:
  assumes "tb_inv t tb"
  shows "tb_inv t (maybeGc t tb)"
proof -
  have wf: "map_wf (tb_buckets tb)" using assms by (simp add: tb_inv_def)
  have "map_wf (tb_buckets (maybeGc t tb))"
    using wf by (simp add: maybeGc_def map_wf_filter)
  moreover have "map_get (tb_buckets (maybeGc t tb)) s = Some st \<Longrightarrow>
                 map_get (tb_buckets tb) s = Some st" for s st
    using maybeGc_get [OF refl wf, of t s] by (auto split: option.splits if_splits)
  ultimately show ?thesis
    using assms unfolding tb_inv_def by (simp only: maybeGc_config) blast
qed

text \<open>An evicted bucket had filled up, so a fresh one in its place holds the same tokens.\<close>

lemma avail_maybeGc:
  assumes "tb_inv t tb"
  shows "avail s t (maybeGc t tb) = avail s t tb"
proof (cases "map_get (tb_buckets tb) s")
  case None
  then show ?thesis
    using assms by (simp add: avail_def tb_inv_def maybeGc_get [OF refl])
next
  case (Some st)
  have wf: "map_wf (tb_buckets tb)" using assms by (simp add: tb_inv_def)
  show ?thesis
  proof (cases "evictable t tb st \<and> \<not> (t - tb_lastGcAt tb < tb_idleEvict tb)")
    case True
    have "of_int (tb_idleEvict tb) * tb_refillPerMs tb
            \<le> of_int (t - bs_lastRefill st) * tb_refillPerMs tb"
      using True assms by (intro mult_right_mono) (auto simp: evictable_def tb_inv_def)
    moreover have "1 / 1000000 \<le> of_int (tb_idleEvict tb) * tb_refillPerMs tb"
      using assms by (simp add: tb_inv_def)
    moreover have "tb_capacity tb - 1 / 1000000 \<le> bs_tokens st"
      using True by (simp add: evictable_def)
    ultimately have "tb_capacity tb \<le> bs_tokens st + of_int (t - bs_lastRefill st) * tb_refillPerMs tb"
      by linarith
    with True Some wf show ?thesis
      by (simp add: avail_def maybeGc_get [OF refl] min_def)
  next
    case False
    with Some wf show ?thesis
      by (auto simp: avail_def maybeGc_get [OF refl])
  qed
qed

lemma peek_effect:
  assumes "tb_inv t tb" and "peek s t tb = (st, tb')"
  shows "bs_tokens st = avail s t tb" and "bs_lastRefill st = t" and "tb_inv t tb'"
    and "avail s' t tb' = avail s' t tb"
    and "tb' = tb \<lparr> tb_buckets := map_set s st (tb_buckets tb) \<rparr>"
proof -
  show eq: "tb' = tb \<lparr> tb_buckets := map_set s st (tb_buckets tb) \<rparr>"
    using assms(2) by (auto simp: peek_def Let_def split: option.splits)
  show last: "bs_lastRefill st = t"
    using assms(2) by (auto simp: peek_def Let_def split: option.splits)
  show tok: "bs_tokens st = avail s t tb"
  proof (cases "map_get (tb_buckets tb) s")
    case None
    then show ?thesis using assms(2) by (auto simp: peek_def avail_def Let_def)
  next
    case (Some b)
    then have "bs_lastRefill b \<le> t" "bs_tokens b \<le> tb_capacity tb" "0 < tb_refillPerMs tb"
      using assms(1) by (auto simp: tb_inv_def)
    with Some assms(2) show ?thesis
      by (cases "bs_lastRefill b = t") (auto simp: peek_def avail_def Let_def min_def)
  qed
  show "tb_inv t tb'"
    using assms(1) avail_bounds [OF assms(1), of s] tok last unfolding eq tb_inv_def
    by (auto simp: map_wf_set)
  show "avail s' t tb' = avail s' t tb"
    using tok last avail_bounds(2) [OF assms(1), of s] by (simp add: eq avail_set)
qed

text \<open>What one draw does, with \<open>a\<close> the tokens available at that moment.\<close>

lemma try_take_effect:
  assumes inv: "tb_inv t tb" and take: "try_take s cost t tb = (r, tb')" and pos: "0 < cost"
  shows "tr_ok r \<longleftrightarrow> cost \<le> avail s t tb"
    and "tb_inv t tb'"
    and "avail s' t tb' = avail s' t tb - (if s' = s \<and> tr_ok r then cost else 0)"
    and "tb_capacity tb' = tb_capacity tb" and "tb_refillPerMs tb' = tb_refillPerMs tb"
    and "tr_retryAfterMs r = (if tr_ok r then Some 0
           else Some \<lceil>(cost - avail s t tb) / tb_refillPerMs tb\<rceil>)"
proof -
  let ?g = "maybeGc t tb"
  obtain st tb1 where pk: "peek s t ?g = (st, tb1)" by (cases "peek s t ?g")
  note p = peek_effect [OF tb_inv_maybeGc [OF inv] pk]
  have a: "bs_tokens st = avail s t tb" and a1: "avail x t tb1 = avail x t tb" for x
    using p(1,4) avail_maybeGc [OF inv] by simp_all
  have cfg: "tb_capacity tb1 = tb_capacity tb" "tb_refillPerMs tb1 = tb_refillPerMs tb"
    using p(5) by simp_all
  have r: "0 < tb_refillPerMs tb" using inv by (simp add: tb_inv_def)
  show ok: "tr_ok r \<longleftrightarrow> cost \<le> avail s t tb"
    using take pos pk a by (auto simp: try_take_def Let_def split: if_splits)
  show "tr_retryAfterMs r = (if tr_ok r then Some 0
           else Some \<lceil>(cost - avail s t tb) / tb_refillPerMs tb\<rceil>)"
    using take pos pk a cfg r by (auto simp: try_take_def Let_def split: if_splits)
  show "tb_capacity tb' = tb_capacity tb" "tb_refillPerMs tb' = tb_refillPerMs tb"
    using take pos pk cfg by (auto simp: try_take_def Let_def split: if_splits)
  have tb': "tb' = (if cost \<le> bs_tokens st
      then tb1 \<lparr> tb_buckets := map_set s (st \<lparr> bs_tokens := bs_tokens st - cost \<rparr>) (tb_buckets tb1) \<rparr>
      else tb1)"
    using take pos pk by (auto simp: try_take_def Let_def split: if_splits)
  show "tb_inv t tb'"
  proof (cases "cost \<le> bs_tokens st")
    case True
    have "0 \<le> bs_tokens st - cost" "bs_tokens st - cost \<le> tb_capacity tb1" "bs_lastRefill st \<le> t"
      using True pos a avail_bounds [OF inv, of s] cfg p(2) by auto
    with p(3) True tb' show ?thesis unfolding tb_inv_def by (auto simp: map_wf_set)
  qed (use p(3) tb' in simp)
  show "avail s' t tb' = avail s' t tb - (if s' = s \<and> tr_ok r then cost else 0)"
  proof (cases "cost \<le> bs_tokens st")
    case True
    then have "avail s t tb' = avail s t tb - cost"
      using tb' p(2) pos cfg a avail_bounds [OF inv, of s] by (simp add: avail_set)
    moreover have "s' \<noteq> s \<Longrightarrow> avail s' t tb' = avail s' t tb1"
      using tb' True by (simp add: avail_set)
    ultimately show ?thesis using a1 ok a True by auto
  next
    case False
    with tb' a1 ok a show ?thesis by simp
  qed
qed

section \<open>Runs\<close>

type_synonym draw = "ms \<times> string \<times> rat"

fun draw_run :: "draw list \<Rightarrow> token_bucket \<Rightarrow> token_result list \<times> token_bucket" where
  "draw_run [] tb = ([], tb)"
| "draw_run ((t, s, cost) # ds) tb = (
     let (r, tb1) = try_take s cost t tb; (rs, tb2) = draw_run ds tb1 in (r # rs, tb2))"

fun granted :: "string \<Rightarrow> draw list \<Rightarrow> token_result list \<Rightarrow> rat" where
  "granted s ((t, s', cost) # ds) (r # rs) =
     (if s' = s \<and> tr_ok r then cost else 0) + granted s ds rs"
| "granted s _ _ = 0"

fun timed :: "ms \<Rightarrow> ms \<Rightarrow> draw list \<Rightarrow> bool" where
  "timed t0 t1 [] \<longleftrightarrow> t0 \<le> t1"
| "timed t0 t1 ((t, s, cost) # ds) \<longleftrightarrow> t0 \<le> t \<and> 0 < cost \<and> timed t t1 ds"

lemma timed_le: "timed t0 t1 ds \<Longrightarrow> t0 \<le> t1"
  by (induction t0 t1 ds rule: timed.induct) auto

lemma granted_le_avail:
  "tb_inv t0 tb \<Longrightarrow> timed t0 t1 ds \<Longrightarrow> draw_run ds tb = (rs, tb') \<Longrightarrow>
   granted s ds rs + avail s t1 tb' \<le> avail s t0 tb + of_int (t1 - t0) * tb_refillPerMs tb
     \<and> tb_inv t1 tb'"
proof (induction ds arbitrary: t0 tb rs)
  case Nil
  then show ?case using avail_later(1) [of t0 tb t1 s] by (auto intro: tb_inv_mono)
next
  case (Cons d ds)
  obtain t sub cost where d: "d = (t, sub, cost)" by (cases d)
  have t0: "t0 \<le> t" and pos: "0 < cost" and tm: "timed t t1 ds"
    using Cons.prems(2) d by auto
  obtain r tb1 where tk: "try_take sub cost t tb = (r, tb1)" by (cases "try_take sub cost t tb")
  obtain rs1 where rn: "draw_run ds tb1 = (rs1, tb')" and rs: "rs = r # rs1"
    using Cons.prems(3) d tk by (cases "draw_run ds tb1") auto
  have invt: "tb_inv t tb" by (rule tb_inv_mono [OF Cons.prems(1) t0])
  note e = try_take_effect [OF invt tk pos]
  have "granted s ds rs1 + avail s t1 tb' \<le> avail s t tb1 + of_int (t1 - t) * tb_refillPerMs tb"
    and inv': "tb_inv t1 tb'"
    using Cons.IH [OF e(2) tm rn] e(5) by auto
  moreover have "avail s t tb \<le> avail s t0 tb + of_int (t - t0) * tb_refillPerMs tb"
    by (rule avail_later(1) [OF Cons.prems(1) t0])
  moreover have "of_int (t1 - t0) * tb_refillPerMs tb =
      of_int (t - t0) * tb_refillPerMs tb + of_int (t1 - t) * tb_refillPerMs tb"
    by (simp add: algebra_simps)
  ultimately show ?case
    using e(3) [of s] inv' by (cases "sub = s \<and> tr_ok r") (auto simp: d rs)
qed

section \<open>Properties\<close>

text \<open>
  C11. Whatever the calls, their subjects and costs, the tokens granted to a subject between two
  instants never exceed the capacity plus what was refilled in between, eviction of idle
  buckets included.
\<close>

theorem token_bucket_rate_bound:
  assumes "tb_inv t0 tb" and "timed t0 t1 ds"
  shows "granted s ds (fst (draw_run ds tb)) \<le> tb_capacity tb + of_int (t1 - t0) * tb_refillPerMs tb"
proof -
  have "granted s ds (fst (draw_run ds tb)) + avail s t1 (snd (draw_run ds tb))
          \<le> avail s t0 tb + of_int (t1 - t0) * tb_refillPerMs tb"
    and inv: "tb_inv t1 (snd (draw_run ds tb))"
    using granted_le_avail [OF assms, of _ _ s] by (metis prod.collapse)+
  with avail_bounds(1) [OF inv, of s] avail_bounds(2) [OF assms(1), of s] show ?thesis by linarith
qed

definition demo_bucket :: token_bucket where
  "demo_bucket = \<lparr> tb_buckets = [], tb_capacity = 2, tb_refillPerMs = 1 / 1000,
     tb_idleEvict = 600000, tb_lastGcAt = 0 \<rparr>"

lemma demo_bucket_inv: "tb_inv 0 demo_bucket"
  by (simp add: tb_inv_def demo_bucket_def)

theorem token_bucket_rate_bound_witness:
  "granted ''u'' [(0, ''u'', 1), (0, ''u'', 1), (500, ''u'', 1), (1000, ''u'', 1)]
     (fst (draw_run [(0, ''u'', 1), (0, ''u'', 1), (500, ''u'', 1), (1000, ''u'', 1)] demo_bucket)) \<le> 3"
  using token_bucket_rate_bound [OF demo_bucket_inv,
      of 1000 "[(0, ''u'', 1), (0, ''u'', 1), (500, ''u'', 1), (1000, ''u'', 1)]" "''u''"]
  by (simp add: demo_bucket_def)

text \<open>
  The advertised wait is exact: a refused draw no larger than the capacity succeeds when it
  is repeated after \<open>retryAfterMs\<close>, and one millisecond less than that is not enough.
\<close>

theorem retry_after_exact:
  assumes "tb_inv t tb" and "0 < cost" and "cost \<le> tb_capacity tb"
    and "try_take s cost t tb = (r, tb1)" and "\<not> tr_ok r"
  shows "\<exists>w. tr_retryAfterMs r = Some w \<and> 0 < w
    \<and> tr_ok (fst (try_take s cost (t + w) tb1))
    \<and> \<not> tr_ok (fst (try_take s cost (t + w - 1) tb1))"
proof -
  note e = try_take_effect [OF assms(1,4,2)]
  let ?a = "avail s t tb" and ?r = "tb_refillPerMs tb"
  let ?w = "\<lceil>(cost - ?a) / ?r\<rceil>"
  have r: "0 < ?r" using assms(1) by (simp add: tb_inv_def)
  have short: "?a < cost" using e(1) assms(5) by simp
  then have "0 < (cost - ?a) / ?r" using r by simp
  then have w: "0 < ?w" by simp
  have later: "avail s (t + k) tb1 = min (tb_capacity tb) (?a + of_int k * ?r)" if "0 \<le> k" for k
  proof -
    obtain st tb0 where pk: "peek s t (maybeGc t tb) = (st, tb0)" by (cases "peek s t (maybeGc t tb)")
    note p = peek_effect [OF tb_inv_maybeGc [OF assms(1)] pk]
    have "tb1 = tb0"
      using assms(2,4,5) pk by (auto simp: try_take_def Let_def split: if_splits)
    then have "map_get (tb_buckets tb1) s = Some st" "bs_tokens st = ?a" "bs_lastRefill st = t"
      using p(1,2,5) avail_maybeGc [OF assms(1)] by simp_all
    then show ?thesis using e(4,5) by (simp add: avail_def)
  qed
  have again: "tr_ok (fst (try_take s cost (t + k) tb1)) \<longleftrightarrow> cost \<le> ?a + of_int k * ?r" if "0 \<le> k" for k
  proof -
    have "tb_inv (t + k) tb1" using tb_inv_mono [OF e(2)] that by simp
    from try_take_effect(1) [OF this _ assms(2), of s "fst (try_take s cost (t + k) tb1)"]
    show ?thesis using later [OF that] assms(3) by (simp add: prod_eq_iff)
  qed
  have "(cost - ?a) / ?r \<le> of_int ?w" by simp
  then have "cost \<le> ?a + of_int ?w * ?r" using pos_divide_le_eq [OF r] by (metis diff_le_eq add.commute)
  moreover have "of_int (?w - 1) < (cost - ?a) / ?r" by linarith
  then have "\<not> cost \<le> ?a + of_int (?w - 1) * ?r"
    using pos_less_divide_eq [OF r] by (metis less_diff_eq add.commute not_less)
  ultimately show ?thesis
    using again [of ?w] again [of "?w - 1"] w e(6) assms(5) by (auto simp: algebra_simps)
qed

theorem retry_after_exact_witness:
  "tr_retryAfterMs (fst (try_take ''u'' 2 0 (snd (try_take ''u'' 2 0 demo_bucket)))) = Some 2000 \<and>
   tr_ok (fst (try_take ''u'' 2 2000 (snd (try_take ''u'' 2 0 (snd (try_take ''u'' 2 0 demo_bucket))))))"
proof -
  obtain r0 tb0 where t0: "try_take ''u'' 2 0 demo_bucket = (r0, tb0)"
    by (cases "try_take ''u'' 2 0 demo_bucket")
  have two: "(0 :: rat) < 2" by simp
  note e0 = try_take_effect [OF demo_bucket_inv t0 two]
  have cap: "2 \<le> tb_capacity tb0" and a0: "avail ''u'' 0 tb0 = 0" and r0: "tb_refillPerMs tb0 = 1 / 1000"
    using e0(1,3,4,5) by (simp_all add: demo_bucket_def avail_def)
  obtain r1 tb1 where t1: "try_take ''u'' 2 0 tb0 = (r1, tb1)" by (cases "try_take ''u'' 2 0 tb0")
  note e1 = try_take_effect [OF e0(2) t1 two]
  have "\<not> tr_ok r1" and "tr_retryAfterMs r1 = Some 2000"
    using e1(1,6) a0 r0 by simp_all
  with retry_after_exact [OF e0(2) two cap t1] t0 t1 show ?thesis by auto
qed

text \<open>A cost above the capacity is refused for ever, although a finite wait is advertised.\<close>

lemma oversized_cost_refused:
  assumes "tb_inv t tb" and "tb_capacity tb < cost"
  shows "\<not> tr_ok (fst (try_take s cost t tb)) \<and> tr_retryAfterMs (fst (try_take s cost t tb)) \<noteq> None"
proof -
  have "0 < cost" using assms by (simp add: tb_inv_def)
  from try_take_effect(1,6) [OF assms(1) _ this, of s "fst (try_take s cost t tb)"
      "snd (try_take s cost t tb)"] avail_bounds(2) [OF assms(1), of s] assms(2)
  show ?thesis by auto
qed

section \<open>Rate limiter\<close>

record bucket_config =
  bc_capacity :: rat
  bc_refillPerSec :: rat

record rate_limiter =
  rl_default :: token_bucket
  rl_roles :: "(string, token_bucket) jsmap"
  rl_operation :: string

record limit_result =
  lr_ok :: bool
  lr_retryAfterSeconds :: "int option"
  lr_remaining :: "int option"
  lr_bucket :: string

fun new_role_buckets ::
  "(string \<times> bucket_config) list \<Rightarrow> (string, token_bucket) jsmap \<Rightarrow> error + (string, token_bucket) jsmap" where
  "new_role_buckets [] m = Inr m"
| "new_role_buckets ((role, c) # cs) m =
     (case new_token_bucket (bc_capacity c) (bc_refillPerSec c) None of
        Inl e \<Rightarrow> Inl e
      | Inr tb \<Rightarrow> new_role_buckets cs (map_set role tb m))"

definition new_rate_limiter ::
  "bucket_config \<Rightarrow> (string \<times> bucket_config) list \<Rightarrow> string option \<Rightarrow> error + rate_limiter" where
  "new_rate_limiter dflt perRole operation = (
     case new_token_bucket (bc_capacity dflt) (bc_refillPerSec dflt) None of
       Inl e \<Rightarrow> Inl e
     | Inr tb \<Rightarrow> (case new_role_buckets perRole [] of
          Inl e \<Rightarrow> Inl e
        | Inr rs \<Rightarrow> Inr \<lparr> rl_default = tb, rl_roles = rs,
            rl_operation = (case operation of Some o1 \<Rightarrow> o1 | None \<Rightarrow> ''actor.call'') \<rparr>))"

definition subjectOf :: "principal option \<Rightarrow> string" where
  "subjectOf p = (case p of None \<Rightarrow> ''anonymous'' | Some q \<Rightarrow> p_sub q)"

text \<open>\<open>bucketFor\<close>: the first role with a bucket of its own, by name, else the default one.\<close>

fun role_bucket :: "(string, token_bucket) jsmap \<Rightarrow> string list \<Rightarrow> string option" where
  "role_bucket m [] = None"
| "role_bucket m (r # rs) = (if map_has m r then Some r else role_bucket m rs)"

definition bucketFor :: "principal option \<Rightarrow> rate_limiter \<Rightarrow> string option" where
  "bucketFor p rl = role_bucket (rl_roles rl)
     (case p of None \<Rightarrow> [] | Some q \<Rightarrow> (case p_roles q of None \<Rightarrow> [] | Some rs \<Rightarrow> rs))"

definition get_bucket :: "string option \<Rightarrow> rate_limiter \<Rightarrow> token_bucket" where
  "get_bucket b rl = (case b of None \<Rightarrow> rl_default rl | Some r \<Rightarrow> the (map_get (rl_roles rl) r))"

definition put_bucket :: "string option \<Rightarrow> token_bucket \<Rightarrow> rate_limiter \<Rightarrow> rate_limiter" where
  "put_bucket b tb rl = (case b of
      None \<Rightarrow> rl \<lparr> rl_default := tb \<rparr>
    | Some r \<Rightarrow> rl \<lparr> rl_roles := map_set r tb (rl_roles rl) \<rparr>)"

definition check_limit ::
  "principal option \<Rightarrow> rat \<Rightarrow> ms \<Rightarrow> rate_limiter \<Rightarrow> limit_result \<times> rate_limiter" where
  "check_limit p cost nowMs rl = (
     if (case p of None \<Rightarrow> False | Some q \<Rightarrow> isSystem q)
     then (\<lparr> lr_ok = True, lr_retryAfterSeconds = Some 0, lr_remaining = None, lr_bucket = [] \<rparr>, rl)
     else
       let subject = subjectOf p;
           b = bucketFor p rl;
           (r, tb) = try_take subject cost nowMs (get_bucket b rl)
       in (\<lparr> lr_ok = tr_ok r,
             lr_retryAfterSeconds = map_option (\<lambda>w. max 1 \<lceil>of_int w / (1000 :: rat)\<rceil>) (tr_retryAfterMs r),
             lr_remaining = Some (tr_remaining r), lr_bucket = subject \<rparr>,
           put_bucket b tb rl))"

definition enforce_limit ::
  "principal option \<Rightarrow> rat \<Rightarrow> ms \<Rightarrow> rate_limiter \<Rightarrow> (error + unit) \<times> rate_limiter" where
  "enforce_limit p cost nowMs rl = (
     let (r, rl') = check_limit p cost nowMs rl in
     if lr_ok r then (Inr (), rl')
     else (Inl (RateLimitedError (lr_bucket r) (rl_operation rl) (lr_retryAfterSeconds r)), rl'))"

definition rl_inv :: "ms \<Rightarrow> rate_limiter \<Rightarrow> bool" where
  "rl_inv t rl \<longleftrightarrow> tb_inv t (rl_default rl) \<and>
     (\<forall>r tb. map_get (rl_roles rl) r = Some tb \<longrightarrow> tb_inv t tb)"

lemma role_bucket_Some: "role_bucket m rs = Some r \<Longrightarrow> map_has m r \<and> r \<in> set rs"
  by (induction rs) (auto split: if_splits)

lemma role_bucket_cong:
  "(\<And>r. map_has m' r = map_has m r) \<Longrightarrow> role_bucket m' rs = role_bucket m rs"
  by (induction rs) auto

lemma get_bucket_inv: "rl_inv t rl \<Longrightarrow> tb_inv t (get_bucket (bucketFor p rl) rl)"
  by (auto simp: rl_inv_def get_bucket_def bucketFor_def split: option.split dest: role_bucket_Some)

lemma bucketFor_put: "bucketFor p (put_bucket (bucketFor p rl) tb rl) = bucketFor p rl"
proof -
  have "map_has (rl_roles (put_bucket (bucketFor p rl) tb rl)) r = map_has (rl_roles rl) r" for r
    by (auto simp: bucketFor_def put_bucket_def split: option.splits dest: role_bucket_Some)
  then show ?thesis unfolding bucketFor_def by (intro role_bucket_cong) simp
qed

lemma get_put_bucket: "get_bucket b (put_bucket b tb rl) = tb"
  by (simp add: get_bucket_def put_bucket_def split: option.split)

text \<open>
  A refusal is honest: an enforced limit that throws names the subject and a whole number of
  seconds, at least one; repeating the call after that many seconds is admitted. The system
  principal is never limited and leaves no trace in the limiter.
\<close>

theorem rate_limiter_honest:
  assumes "rl_inv t rl" and "0 < cost" and "cost \<le> tb_capacity (get_bucket (bucketFor p rl) rl)"
  shows "(case enforce_limit p cost t rl of
       (Inl e, rl') \<Rightarrow> (\<exists>s. e = RateLimitedError (subjectOf p) (rl_operation rl) (Some s) \<and> 1 \<le> s
          \<and> fst (enforce_limit p cost (t + 1000 * s) rl') = Inr ())
     | (Inr _, _) \<Rightarrow> True)
   \<and> ((\<exists>q. p = Some q \<and> isSystem q) \<longrightarrow> enforce_limit p c t' rl = (Inr (), rl))"
proof -
  let ?tb = "get_bucket (bucketFor p rl) rl" and ?s = "subjectOf p"
  obtain r tb1 where tk: "try_take ?s cost t ?tb = (r, tb1)" by (cases "try_take ?s cost t ?tb")
  note inv = get_bucket_inv [OF assms(1), of p]
  have sys: "(\<exists>q. p = Some q \<and> isSystem q) \<longrightarrow> enforce_limit p c t' rl = (Inr (), rl)"
    by (auto simp: enforce_limit_def check_limit_def)
  show ?thesis
  proof (cases "tr_ok r \<or> (\<exists>q. p = Some q \<and> isSystem q)")
    case True
    then show ?thesis
      using tk sys by (auto simp: enforce_limit_def check_limit_def Let_def split: option.splits)
  next
    case False
    then have nsys: "\<not> (case p of None \<Rightarrow> False | Some q \<Rightarrow> isSystem q)" and no: "\<not> tr_ok r"
      by (auto split: option.splits)
    obtain w where w: "tr_retryAfterMs r = Some w" "0 < w"
      using retry_after_exact [OF inv assms(2,3) tk no] by blast
    let ?sec = "max 1 \<lceil>of_int w / (1000 :: rat)\<rceil>" and ?rl = "put_bucket (bucketFor p rl) tb1 rl"
    have "of_int w / 1000 \<le> (of_int ?sec :: rat)"
      by (rule order_trans [OF le_of_int_ceiling]) (simp only: of_int_le_iff max.cobounded2)
    then have "of_int w \<le> (1000 * of_int ?sec :: rat)" by linarith
    also have "\<dots> = of_int (1000 * ?sec)" by simp
    finally have ge: "w \<le> 1000 * ?sec" by (simp only: of_int_le_iff)
    note e = try_take_effect [OF inv tk assms(2)]
    have ok1: "tr_ok (fst (try_take ?s cost (t + w) tb1))"
      using retry_after_exact [OF inv assms(2,3) tk no] w by auto
    have inv1: "tb_inv (t + w) tb1" using tb_inv_mono [OF e(2)] w by simp
    then have inv2: "tb_inv (t + 1000 * ?sec) tb1" using tb_inv_mono [OF _ ] ge by fastforce
    have "cost \<le> avail ?s (t + w) tb1"
      using try_take_effect(1) [OF inv1 prod.collapse [symmetric] assms(2)] ok1 by blast
    also have "\<dots> \<le> avail ?s (t + 1000 * ?sec) tb1"
      using avail_later(2) [OF inv1] ge by simp
    finally have ok2: "tr_ok (fst (try_take ?s cost (t + 1000 * ?sec) tb1))"
      using try_take_effect(1) [OF inv2 prod.collapse [symmetric] assms(2)] by blast
    have "enforce_limit p cost t rl =
        (Inl (RateLimitedError ?s (rl_operation rl) (Some ?sec)), ?rl)"
      using tk nsys no w by (simp add: enforce_limit_def check_limit_def)
    moreover have "fst (enforce_limit p cost (t + 1000 * ?sec) ?rl) = Inr ()"
      using nsys ok2 by (simp add: enforce_limit_def check_limit_def bucketFor_put get_put_bucket
          split_def Let_def)
    ultimately show ?thesis using sys by auto
  qed
qed

definition demo_limiter :: rate_limiter where
  "demo_limiter = \<lparr> rl_default = demo_bucket, rl_roles = [], rl_operation = ''actor.call'' \<rparr>"

theorem rate_limiter_honest_witness:
  "fst (enforce_limit (Some systemPrincipal) 5 0 demo_limiter) = Inr ()"
proof -
  have "rl_inv 0 demo_limiter"
    using demo_bucket_inv by (simp add: rl_inv_def demo_limiter_def)
  moreover have "(0 :: rat) < 1" by simp
  moreover have "1 \<le> tb_capacity (get_bucket (bucketFor (Some systemPrincipal) demo_limiter) demo_limiter)"
    by (simp add: demo_limiter_def get_bucket_def bucketFor_def systemPrincipal_def demo_bucket_def)
  ultimately show ?thesis
    using rate_limiter_honest [of 0 demo_limiter 1 "Some systemPrincipal" 5 0]
    by (simp add: isSystem_def systemPrincipal_def)
qed

end
