(* ===== verification/Runtime.thy ===== *)
theory Runtime
  imports Directory MemoryReminders RateLimits
begin

text \<open>
  The runtime's public surface (\<open>src/runtime/runtime.ts\<close>), its reminder dispatcher
  (\<open>src/runtime/reminder-dispatcher.ts\<close>) and the outbound half of the bridge handlers use
  (\<open>src/runtime/directory.ts\<close>, \<open>src/runtime/host-bridge.ts\<close>). A resolve is uninterrupted here.
\<close>

section \<open>State\<close>

record dispatcher =
  rd_batchLimit :: int
  rd_timer :: bool
  rd_stopped :: bool
  rd_ticks :: nat
  rd_delivered :: nat
  rd_failures :: nat

record runtime =
  rt_dir :: directory
  rt_limiter :: "rate_limiter option"
  rt_dispatcher :: dispatcher
  rt_auditor :: auditor
  rt_callOutcomes :: "(class_name \<times> string \<times> string) list"

type_synonym rw = "runtime \<times> world"

definition new_dispatcher :: "int option \<Rightarrow> dispatcher" where
  "new_dispatcher batch = \<lparr> rd_batchLimit = (case batch of Some n \<Rightarrow> n | None \<Rightarrow> 100),
     rd_timer = False, rd_stopped = False, rd_ticks = 0, rd_delivered = 0, rd_failures = 0 \<rparr>"

definition new_runtime :: "int option \<Rightarrow> rate_limiter option \<Rightarrow> int option \<Rightarrow> auditor \<Rightarrow> runtime" where
  "new_runtime activeCap limiter batch au =
     \<lparr> rt_dir = new_directory [] (case activeCap of Some n \<Rightarrow> n | None \<Rightarrow> 0), rt_limiter = limiter,
       rt_dispatcher = new_dispatcher batch, rt_auditor = au, rt_callOutcomes = [] \<rparr>"

text \<open>\<open>register\<close>: the class under its name, with the static policy its constructor carries.\<close>

definition register :: "registration \<Rightarrow> policy_fn option \<Rightarrow> runtime \<Rightarrow> runtime" where
  "register r pol rt = rt \<lparr> rt_dir := (rt_dir rt)
     \<lparr> dr_classes := map_set (rg_name r) \<lparr> rc_reg = r, rc_policy = pol \<rparr> (dr_classes (rt_dir rt)) \<rparr> \<rparr>"

section \<open>Policy checks\<close>

definition describeAction :: "policy_action \<Rightarrow> string" where
  "describeAction a = (case a of
      CallAction m x actor \<Rightarrow> ''call '' @ m | ReadAction actor \<Rightarrow> ''read''
    | CreateAction x \<Rightarrow> ''create'' | DestroyAction actor \<Rightarrow> ''destroy'')"

definition checkPolicy ::
  "(error \<Rightarrow> string) \<Rightarrow> class_name \<Rightarrow> principal option \<Rightarrow> policy_action \<Rightarrow> directory \<Rightarrow> error + unit" where
  "checkPolicy msg cn p action d = (case map_get (dr_classes d) cn of
      None \<Rightarrow> Inr ()
    | Some c \<Rightarrow>
       let eff = (case p of Some q \<Rightarrow> q | None \<Rightarrow> anonymousPrincipal) in
       if isSystem eff then Inr ()
       else (case evaluatePolicy msg (rc_policy c) eff action of
          (True, _) \<Rightarrow> Inr ()
        | (False, r) \<Rightarrow>
           let reason = (case r of Some s \<Rightarrow> s | None \<Rightarrow> ''policy denied'') in
           Inl (PolicyDeniedError (''policy denied '' @ describeAction action @ '' on '' @ cn @ '': '' @ reason) reason)))"

definition actor_view :: "class_name \<Rightarrow> actor_id \<Rightarrow> host \<Rightarrow> policy_actor" where
  "actor_view cn i h = \<lparr> pa_class = cn, pa_id = i, pa_version = rg_version (h_reg h), pa_state = currentState h \<rparr>"

definition enforceRateLimit :: "principal option \<Rightarrow> ms \<Rightarrow> runtime \<Rightarrow> (error + unit) \<times> runtime" where
  "enforceRateLimit p nowMs rt = (case rt_limiter rt of
      None \<Rightarrow> (Inr (), rt)
    | Some rl \<Rightarrow> (let (r, rl') = enforce_limit p 1 nowMs rl in (r, rt \<lparr> rt_limiter := Some rl' \<rparr>)))"

section \<open>Messages\<close>

text \<open>Run \<open>f\<close> on the live host of an actor after a policy check on its current state.\<close>

definition guarded_on_host ::
  "(error \<Rightarrow> string) \<Rightarrow> class_name \<Rightarrow> actor_id \<Rightarrow> principal option \<Rightarrow> (policy_actor \<Rightarrow> policy_action) \<Rightarrow>
   (hw \<Rightarrow> (error + unit) \<times> hw) \<Rightarrow> dw \<Rightarrow> (error + unit) \<times> dw" where
  "guarded_on_host msg cn i p action f = (\<lambda>(d, w). case getLive i d of
      None \<Rightarrow> (Inl (PlainError ''no host''), d, w)
    | Some h \<Rightarrow> (case checkPolicy msg cn p (action (actor_view cn i h)) d of
         Inl e \<Rightarrow> (Inl e, d, w)
       | Inr _ \<Rightarrow> (case on_host f i (d, w) of
            (Some r, dw1) \<Rightarrow> (r, dw1) | (None, dw1) \<Rightarrow> (Inr (), dw1))))"

definition runtime_tell ::
  "env \<Rightarrow> (error \<Rightarrow> string) \<Rightarrow> class_name \<Rightarrow> actor_id \<Rightarrow> string \<Rightarrow> jsval \<Rightarrow> principal option \<Rightarrow> rw
   \<Rightarrow> (error + unit) \<times> rw" where
  "runtime_tell en msg cn i type payload p = (\<lambda>(rt, w).
     case resolve en i cn (rt_dir rt, w) of
       (Inl e, d, w1) \<Rightarrow> (Inl e, rt \<lparr> rt_dir := d \<rparr>, w1)
     | (Inr _, d, w1) \<Rightarrow>
        (let (r, d2, w2) = guarded_on_host msg cn i p (CallAction type payload) (tell en type payload) (d, w1)
         in (r, rt \<lparr> rt_dir := d2 \<rparr>, w2)))"

text \<open>The outcome label \<open>recordCall\<close> is given for a rejected call.\<close>

definition call_outcome :: "error \<Rightarrow> string" where
  "call_outcome e = (case e of
      RateLimitedError s op n \<Rightarrow> ''rate_limited''
    | CapacityExhaustedError cn n \<Rightarrow> ''cap_exhausted''
    | PolicyDeniedError m r \<Rightarrow> ''denied''
    | _ \<Rightarrow> ''error'')"

definition runtime_call ::
  "env \<Rightarrow> (error \<Rightarrow> string) \<Rightarrow> class_name \<Rightarrow> actor_id \<Rightarrow> string \<Rightarrow> jsval \<Rightarrow> principal option \<Rightarrow> nat \<Rightarrow> rw
   \<Rightarrow> (error + unit) \<times> rw" where
  "runtime_call en msg cn i method args p c = (\<lambda>(rt, w).
     let (r, rt3, w3) =
       (case enforceRateLimit p (d_now (w_driver w)) rt of
          (Inl e, rt1) \<Rightarrow> (Inl e, rt1, w)
        | (Inr _, rt1) \<Rightarrow>
           (case resolve en i cn (rt_dir rt1, w) of
              (Inl e, d, w1) \<Rightarrow> (Inl e, rt1 \<lparr> rt_dir := d \<rparr>, w1)
            | (Inr _, d, w1) \<Rightarrow>
               (let (r, d2, w2) = guarded_on_host msg cn i p (CallAction method args) (call en method args c) (d, w1)
                in (r, rt1 \<lparr> rt_dir := d2 \<rparr>, w2))))
     in (case r of
           Inl e \<Rightarrow> (r, rt3 \<lparr> rt_callOutcomes := rt_callOutcomes rt3 @ [(cn, method, call_outcome e)] \<rparr>, w3)
         | Inr _ \<Rightarrow> (r, rt3, w3)))"

definition checkRead ::
  "env \<Rightarrow> (error \<Rightarrow> string) \<Rightarrow> class_name \<Rightarrow> actor_id \<Rightarrow> principal option \<Rightarrow> rw \<Rightarrow> (error + unit) \<times> rw" where
  "checkRead en msg cn i p = (\<lambda>(rt, w).
     case resolve en i cn (rt_dir rt, w) of
       (Inl e, d, w1) \<Rightarrow> (Inl e, rt \<lparr> rt_dir := d \<rparr>, w1)
     | (Inr _, d, w1) \<Rightarrow>
        (let (r, d2, w2) = guarded_on_host msg cn i p ReadAction (\<lambda>hw. (Inr (), hw)) (d, w1)
         in (r, rt \<lparr> rt_dir := d2 \<rparr>, w2)))"

definition checkCreate ::
  "(error \<Rightarrow> string) \<Rightarrow> class_name \<Rightarrow> jsval \<Rightarrow> principal option \<Rightarrow> runtime \<Rightarrow> error + unit" where
  "checkCreate msg cn args p rt = checkPolicy msg cn p (CreateAction args) (rt_dir rt)"

definition getHost :: "env \<Rightarrow> class_name \<Rightarrow> actor_id \<Rightarrow> rw \<Rightarrow> (error + unit) \<times> rw" where
  "getHost en cn i = (\<lambda>(rt, w). let (r, d, w1) = resolve en i cn (rt_dir rt, w) in (r, rt \<lparr> rt_dir := d \<rparr>, w1))"

text \<open>The audit entry names the class of the live host, \<open>unknown\<close> when there is none.\<close>

definition tombstone ::
  "(error \<Rightarrow> string) \<Rightarrow> actor_id \<Rightarrow> principal option \<Rightarrow> rw \<Rightarrow> (error + unit) \<times> rw" where
  "tombstone msg i p = (\<lambda>(rt, w).
     let live = getLive i (rt_dir rt) in
     case (case live of None \<Rightarrow> Inr ()
            | Some h \<Rightarrow> checkPolicy msg (rg_name (h_reg h)) p
                         (DestroyAction (actor_view (rg_name (h_reg h)) i h)) (rt_dir rt)) of
       Inl e \<Rightarrow> (Inl e, rt, w)
     | Inr _ \<Rightarrow>
        let w1 = (case live of None \<Rightarrow> w | Some h \<Rightarrow> snd (notifyTombstone (h, w)));
            w2 = w1 \<lparr> w_driver := tombstoneActor i (w_driver w1) \<rparr>;
            cn = (case live of Some h \<Rightarrow> rg_name (h_reg h) | None \<Rightarrow> ''unknown'');
            (r, _, dr) = audit_record msg (\<lambda>e d. (Inr (), appendAudit e d)) (rt_auditor rt)
              \<lparr> ri_action = audit_action_name ACTOR_TOMBSTONED, ri_target = cn @ '':'' @ i,
                ri_meta = [(''actorId'', JStr i),
                           (''class'', case live of Some h \<Rightarrow> JStr cn | None \<Rightarrow> JUndefined)],
                ri_principal = PrincipalOf (case p of Some q \<Rightarrow> q | None \<Rightarrow> anonymousPrincipal) \<rparr>
              (w_driver w2)
        in (r, rt, w2 \<lparr> w_driver := dr \<rparr>))"

section \<open>Reminders\<close>

definition dispatcher_start :: "dispatcher \<Rightarrow> dispatcher" where
  "dispatcher_start rd = (if rd_stopped rd \<or> rd_timer rd then rd else rd \<lparr> rd_timer := True \<rparr>)"

definition dispatcher_stop :: "dispatcher \<Rightarrow> dispatcher" where
  "dispatcher_stop rd = rd \<lparr> rd_stopped := True, rd_timer := False \<rparr>"

definition scheduleReminder ::
  "class_name \<Rightarrow> actor_id \<Rightarrow> ms \<Rightarrow> string \<Rightarrow> jsval \<Rightarrow> rw \<Rightarrow> rw" where
  "scheduleReminder cn i t type payload = (\<lambda>(rt, w).
     (rt \<lparr> rt_dispatcher := dispatcher_start (rt_dispatcher rt) \<rparr>,
      w \<lparr> w_driver := enqueueReminder t \<lparr> rm_actor = i, rm_class = cn, rm_type = type, rm_payload = payload \<rparr>
                        (w_driver w) \<rparr>))"

text \<open>The loop of a tick: what was delivered and what failed, in order.\<close>

fun deliver_loop :: "(reminder_msg \<Rightarrow> 's \<Rightarrow> (error + unit) \<times> 's) \<Rightarrow> reminder_msg list \<Rightarrow> 's
    \<Rightarrow> reminder_msg list \<times> reminder_msg list \<times> 's" where
  "deliver_loop sink [] s = ([], [], s)"
| "deliver_loop sink (m # ms) s = (
     let (r, s1) = sink m s; (ok, bad, s2) = deliver_loop sink ms s1
     in (case r of Inr _ \<Rightarrow> (m # ok, bad, s2) | Inl _ \<Rightarrow> (ok, m # bad, s2)))"

definition reminder_sink :: "env \<Rightarrow> (error \<Rightarrow> string) \<Rightarrow> reminder_msg \<Rightarrow> rw \<Rightarrow> (error + unit) \<times> rw" where
  "reminder_sink en msg m =
     runtime_tell en msg (rm_class m) (rm_actor m) (rm_type m) (rm_payload m) (Some systemPrincipal)"

definition dispatcher_tick :: "env \<Rightarrow> (error \<Rightarrow> string) \<Rightarrow> rw \<Rightarrow> rw" where
  "dispatcher_tick en msg = (\<lambda>(rt, w).
     let (due, dr) = popDueReminders (d_now (w_driver w)) (rd_batchLimit (rt_dispatcher rt)) (w_driver w);
         (ok, bad, rt1, w1) = deliver_loop (reminder_sink en msg) due (rt, w \<lparr> w_driver := dr \<rparr>);
         rd = rt_dispatcher rt1
     in (rt1 \<lparr> rt_dispatcher := rd \<lparr> rd_delivered := rd_delivered rd + length ok,
                 rd_failures := rd_failures rd + length bad, rd_ticks := rd_ticks rd + 1 \<rparr> \<rparr>, w1))"

section \<open>The bridge's outbound calls\<close>

definition outbound_call ::
  "env \<Rightarrow> class_name \<Rightarrow> actor_id \<Rightarrow> string \<Rightarrow> jsval \<Rightarrow> nat \<Rightarrow> dw \<Rightarrow> (error + unit) \<times> dw" where
  "outbound_call en cn i method args c dw0 = (case resolve en i cn dw0 of
      (Inl e, dw1) \<Rightarrow> (Inl e, dw1)
    | (Inr _, dw1) \<Rightarrow> (case on_host (call en method args c) i dw1 of
         (Some r, dw2) \<Rightarrow> (r, dw2) | (None, dw2) \<Rightarrow> (Inr (), dw2)))"

definition outbound_tell ::
  "env \<Rightarrow> class_name \<Rightarrow> actor_id \<Rightarrow> string \<Rightarrow> jsval \<Rightarrow> dw \<Rightarrow> (error + unit) \<times> dw" where
  "outbound_tell en cn i type payload dw0 = (case resolve en i cn dw0 of
      (Inl e, dw1) \<Rightarrow> (Inl e, dw1)
    | (Inr _, dw1) \<Rightarrow> (case on_host (tell en type payload) i dw1 of
         (Some r, dw2) \<Rightarrow> (r, dw2) | (None, dw2) \<Rightarrow> (Inr (), dw2)))"

definition runtime_shutdown :: "env \<Rightarrow> rw \<Rightarrow> rw" where
  "runtime_shutdown en = (\<lambda>(rt, w).
     let rt1 = rt \<lparr> rt_dispatcher := dispatcher_stop (rt_dispatcher rt) \<rparr>;
         (d, w1) = dir_shutdown en (rt_dir rt1, w)
     in (rt1 \<lparr> rt_dir := d \<rparr>, w1))"

section \<open>Lemmas\<close>

lemma resolve_finish_live:
  assumes "map_has (dr_materializing d) i" and "resolve_finish en i (d, w) = (Inr u, d', w')"
  shows "\<exists>h. getLive i d' = Some h"
  using assms by (auto simp: resolve_finish_def getLive_def Let_def split: prod.splits sum.splits)

lemma resolve_begin_ok:
  assumes "resolve_begin i cn d = (Inr x, d1)"
  shows "if x = RCached then d1 = d \<and> map_has (dr_hosts d) i else map_has (dr_materializing d1) i"
  using assms by (auto simp: resolve_begin_def split: if_splits option.splits sum.splits)

lemma resolve_live:
  assumes "resolve en i cn (d, w) = (Inr u, d', w')"
  shows "\<exists>h. getLive i d' = Some h"
proof -
  obtain y d1 where b: "resolve_begin i cn d = (y, d1)" by (cases "resolve_begin i cn d")
  show ?thesis
  proof (cases y)
    case (Inl e)
    with assms b show ?thesis by (simp add: resolve_def)
  next
    case (Inr x)
    note ok = resolve_begin_ok [OF b [unfolded Inr]]
    show ?thesis
    proof (cases x)
      case RCached
      with assms b Inr ok show ?thesis by (auto simp: resolve_def getLive_def)
    next
      case RInflight
      with assms b Inr have "resolve_finish en i (d1, w) = (Inr u, d', w')" by (simp add: resolve_def)
      with resolve_finish_live [of d1 i] ok RInflight show ?thesis by simp
    next
      case RStarted
      with assms b Inr have "resolve_finish en i (d1, w) = (Inr u, d', w')" by (simp add: resolve_def)
      with resolve_finish_live [of d1 i] ok RStarted show ?thesis by simp
    qed
  qed
qed

lemma host_enqueue_refused: "host_enqueue x h = (r, h') \<Longrightarrow> r \<noteq> Inr True \<Longrightarrow> h' = h"
  by (auto simp: host_enqueue_def enqueue_def Let_def split: if_splits list.splits)

lemma call_refused:
  assumes "h_activated h" and "call en m a c (h, w) = (Inl e, h', w')"
  shows "h' = h \<and> w' = w"
  using assms host_enqueue_refused
  by (auto simp: call_def activate_def touch_def split: if_splits prod.splits sum.splits)

lemma runtime_tell_dispatcher:
  "rt_dispatcher (fst (snd (runtime_tell en msg cn i t p q (rt, w)))) = rt_dispatcher rt"
  by (auto simp: runtime_tell_def Let_def split: prod.split sum.split)

lemma deliver_loop_split:
  assumes "deliver_loop sink ms s = (ok, bad, s')"
  shows "mset ok + mset bad = mset ms" and "length ok + length bad = length ms"
proof -
  show "mset ok + mset bad = mset ms"
    using assms
    by (induction sink ms s arbitrary: ok bad s' rule: deliver_loop.induct)
       (auto split: prod.splits sum.splits)
  then show "length ok + length bad = length ms" by (metis size_mset size_union)
qed

lemma deliver_loop_dispatcher:
  "deliver_loop (reminder_sink en msg) ms (rt, w) = (ok, bad, rt', w') \<Longrightarrow> rt_dispatcher rt' = rt_dispatcher rt"
proof (induction ms arbitrary: rt w ok bad rt' w')
  case (Cons m ms)
  obtain r rt1 w1 where s: "reminder_sink en msg m (rt, w) = (r, rt1, w1)" by (cases "reminder_sink en msg m (rt, w)")
  obtain ok2 bad2 rt2 w2 where d: "deliver_loop (reminder_sink en msg) ms (rt1, w1) = (ok2, bad2, rt2, w2)"
    by (cases "deliver_loop (reminder_sink en msg) ms (rt1, w1)")
  have "rt_dispatcher rt1 = rt_dispatcher rt"
    using s runtime_tell_dispatcher [of en msg "rm_class m" "rm_actor m" "rm_type m" "rm_payload m" "Some systemPrincipal" rt w]
    by (simp add: reminder_sink_def)
  with Cons.IH [OF d] Cons.prems s d show ?case by (auto split: sum.splits)
qed simp

section \<open>Properties\<close>

text \<open>
  C17. A rejected call to a running actor leaves no trace: whether the rate limit, the policy, a
  full mailbox or a destroyed host refuses it, the directory, the hosts, the store and every
  promise are as before; only the limiter's tokens and the outcome counter move. The system
  principal is never rate limited nor denied.
\<close>

theorem rejected_call_leaves_no_trace:
  assumes "getLive i (rt_dir rt) = Some h" and "h_activated h"
    and "runtime_call en msg cn i m args p c (rt, w) = (Inl e, rt', w')"
  shows "rt_dir rt' = rt_dir rt \<and> w' = w \<and> rt_callOutcomes rt' = rt_callOutcomes rt @ [(cn, m, call_outcome e)]
    \<and> ((\<exists>q. p = Some q \<and> isSystem q) \<longrightarrow> rt_limiter rt' = rt_limiter rt
         \<and> call_outcome e \<noteq> ''rate_limited'' \<and> call_outcome e \<noteq> ''denied'')"
proof -
  obtain r1 rt1 where lim: "enforceRateLimit p (d_now (w_driver w)) rt = (r1, rt1)"
    by (cases "enforceRateLimit p (d_now (w_driver w)) rt")
  then have rt1: "rt_dir rt1 = rt_dir rt" "rt_callOutcomes rt1 = rt_callOutcomes rt"
    by (auto simp: enforceRateLimit_def Let_def split: option.splits prod.splits)
  have sys: "r1 = Inr () \<and> rt_limiter rt1 = rt_limiter rt" if "p = Some q" "isSystem q" for q
    using lim that by (auto simp: enforceRateLimit_def enforce_limit_def check_limit_def Let_def split: option.splits)
  have hosts: "map_has (dr_hosts (rt_dir rt)) i" using assms(1) by (simp add: getLive_def)
  show ?thesis
  proof (cases r1)
    case (Inl e1)
    with assms(3) lim rt1 sys show ?thesis by (auto simp: runtime_call_def)
  next
    case (Inr u)
    let ?d = "rt_dir rt"
    obtain x d1 w1 where res: "resolve en i cn (rt_dir rt1, w) = (x, d1, w1)"
      by (cases "resolve en i cn (rt_dir rt1, w)")
    then have d1: "d1 = ?d" "w1 = w" "x = Inr () \<or> x = Inl (PlainError ''Directory is destroyed'')"
      using hosts rt1 by (auto simp: resolve_def resolve_begin_def split: if_splits)
    show ?thesis
    proof (cases x)
      case (Inl e1)
      with assms(3) lim Inr res rt1 d1 sys show ?thesis by (auto simp: runtime_call_def call_outcome_def)
    next
      case ok: (Inr u')
      let ?pol = "checkPolicy msg cn p (CallAction m args (actor_view cn i h)) ?d"
      show ?thesis
      proof (cases ?pol)
        case (Inl e1)
        have "e = e1" "rt_dir rt' = ?d" "w' = w" "rt_callOutcomes rt' = rt_callOutcomes rt @ [(cn, m, call_outcome e)]"
          "rt_limiter rt' = rt_limiter rt1"
          using assms(1,3) lim Inr res ok rt1 d1 Inl by (auto simp: runtime_call_def guarded_on_host_def)
        moreover have "\<not> (\<exists>q. p = Some q \<and> isSystem q)"
          using Inl by (auto simp: checkPolicy_def split: option.splits)
        ultimately show ?thesis by blast
      next
        case pol: (Inr u'')
        obtain y h2 w2 where cl: "call en m args c (h, w) = (y, h2, w2)" by (cases "call en m args c (h, w)")
        have on: "on_host (call en m args c) i (?d, w) = (Some y, ?d \<lparr> dr_hosts := map_set i h2 (dr_hosts ?d) \<rparr>, w2)"
          using assms(1) cl by (simp add: on_host_def getLive_def)
        have run: "y = Inl e" "rt_dir rt' = ?d \<lparr> dr_hosts := map_set i h2 (dr_hosts ?d) \<rparr>" "w' = w2"
          "rt_callOutcomes rt' = rt_callOutcomes rt @ [(cn, m, call_outcome e)]" "rt_limiter rt' = rt_limiter rt1"
          using assms(1,3) lim Inr res ok rt1 d1 pol on
          by (cases y; force simp: runtime_call_def guarded_on_host_def)+
        have "h2 = h \<and> w2 = w" using call_refused [OF assms(2)] cl run(1) by blast
        moreover have "map_set i h (dr_hosts ?d) = dr_hosts ?d"
          using assms(1) by (simp add: getLive_def update_triv)
        moreover have "call_outcome e = ''error''"
          using cl run(1) assms(2)
          by (auto simp: call_def activate_def touch_def host_enqueue_def enqueue_def call_outcome_def Let_def
              split: if_splits list.splits)
        ultimately show ?thesis using run sys by auto
      qed
    qed
  qed
qed

definition demo_auditor :: auditor where
  "demo_auditor = \<lparr> au_mode = Strict, au_id = ''1'', au_now = 0, au_noop = False \<rparr>"

definition demo_runtime :: runtime where
  "demo_runtime = register (demo_reg visits_class)
     (Some (\<lambda>p a. case a of CallAction m x actor \<Rightarrow> if m = ''hit'' then Inr DecisionAllow
                              else Inr (DecisionObject False (Some ''read only'')) | _ \<Rightarrow> Inr DecisionDeny))
     (new_runtime None None None demo_auditor)"

theorem rejected_call_leaves_no_trace_witness:
  "let s = snd (runtime_call demo_env (\<lambda>e. []) ''Ledger'' ''a'' ''hit'' JNull None 1 (demo_runtime, demo_world))
   in fst (runtime_call demo_env (\<lambda>e. []) ''Ledger'' ''a'' ''wipe'' JNull None 2 s)
        = Inl (PolicyDeniedError ''policy denied call wipe on Ledger: read only'' ''read only'')
      \<and> snd (snd (runtime_call demo_env (\<lambda>e. []) ''Ledger'' ''a'' ''wipe'' JNull None 2 s)) = snd s"
proof -
  let ?s = "snd (runtime_call demo_env (\<lambda>e. []) ''Ledger'' ''a'' ''hit'' JNull None 1 (demo_runtime, demo_world))"
  obtain rt w where s: "?s = (rt, w)" by (cases ?s)
  let ?e = "PolicyDeniedError ''policy denied call wipe on Ledger: read only'' ''read only''"
  have e: "fst (runtime_call demo_env (\<lambda>e. []) ''Ledger'' ''a'' ''wipe'' JNull None 2 ?s) = Inl ?e" by code_simp
  obtain rt' w' where run: "runtime_call demo_env (\<lambda>e. []) ''Ledger'' ''a'' ''wipe'' JNull None 2 (rt, w) = (Inl ?e, rt', w')"
    using e s by (cases "runtime_call demo_env (\<lambda>e. []) ''Ledger'' ''a'' ''wipe'' JNull None 2 (rt, w)") simp
  have "map_option h_activated (getLive ''a'' (rt_dir (fst ?s))) = Some True" by code_simp
  then obtain h where h: "getLive ''a'' (rt_dir rt) = Some h" "h_activated h" using s by auto
  show ?thesis
    using rejected_call_leaves_no_trace [OF h run] run s by (simp add: Let_def)
qed



end
