(* ===== verification/Subscriptions.thy ===== *)
theory Subscriptions
  imports Runtime
begin

text \<open>
  The subscription registry (\<open>src/server/subscription-registry.ts\<close>): who listens to which actor
  over which connection. Hosts are those of \<open>Host\<close>, known by the number of the object; a
  subscription holds the host whose listener set its closure is in, and the number of that
  closure. \<open>subscribe\<close> awaits the host, so it is two operations: the cap check, and the rest.
\<close>

section \<open>State\<close>

datatype subscriber_kind = SnapshotKind | PatchKind | EventKind | TombstoneKind

record notification =
  nt_sub :: string
  nt_kind :: subscriber_kind
  nt_data :: "jsval option"
  nt_patch :: "jsval list option"
  nt_events :: "jsval list option"
  nt_seq :: "string option"

record subscription =
  sb_id :: string
  sb_conn :: nat
  sb_actor :: actor_id
  sb_host :: nat
  sb_listener :: nat

record subscription_registry =
  su_subs :: "(string, subscription) jsmap"
  su_byActor :: "(actor_id, string list) jsmap"
  su_byConnection :: "(nat, string list) jsmap"
  su_maxPerActor :: nat
  su_notifications :: nat

text \<open>The registry, the hosts, and the sink calls made so far.\<close>

record sub_world =
  sw_reg :: subscription_registry
  sw_hosts :: "(nat, host) jsmap"
  sw_sent :: "(nat \<times> notification) list"

definition new_registry :: "nat option \<Rightarrow> subscription_registry" where
  "new_registry maxPerActor = \<lparr> su_subs = [], su_byActor = [], su_byConnection = [],
     su_maxPerActor = (case maxPerActor of Some n \<Rightarrow> n | None \<Rightarrow> 1000), su_notifications = 0 \<rparr>"

text \<open>A \<open>Map\<close> of non-empty \<open>Set\<close>s.\<close>

definition index_get :: "('k, string list) jsmap \<Rightarrow> 'k \<Rightarrow> string list" where
  "index_get m k = (case map_get m k of Some l \<Rightarrow> l | None \<Rightarrow> [])"

definition index_add :: "'k \<Rightarrow> string \<Rightarrow> ('k, string list) jsmap \<Rightarrow> ('k, string list) jsmap" where
  "index_add k i m = map_set k (if i \<in> set (index_get m k) then index_get m k else index_get m k @ [i]) m"

definition index_del :: "'k \<Rightarrow> string \<Rightarrow> ('k, string list) jsmap \<Rightarrow> ('k, string list) jsmap" where
  "index_del k i m = (case map_get m k of
      None \<Rightarrow> m
    | Some l \<Rightarrow> if removeAll i l = [] then map_delete k m else map_set k (removeAll i l) m)"

section \<open>Operations\<close>

definition subscribe_begin :: "actor_id \<Rightarrow> subscription_registry \<Rightarrow> error + unit" where
  "subscribe_begin a su = (if su_maxPerActor su \<le> length (index_get (su_byActor su) a)
     then Inl (SubscriberLimitError a (su_maxPerActor su)) else Inr ())"

definition on_sub_host :: "nat \<Rightarrow> (host \<Rightarrow> host) \<Rightarrow> sub_world \<Rightarrow> sub_world" where
  "on_sub_host k f w = (case map_get (sw_hosts w) k of
      None \<Rightarrow> w | Some h \<Rightarrow> w \<lparr> sw_hosts := map_set k (f h) (sw_hosts w) \<rparr>)"

definition snapshot_notification :: "string \<Rightarrow> host \<Rightarrow> notification" where
  "snapshot_notification i h = \<lparr> nt_sub = i, nt_kind = SnapshotKind, nt_data = Some (currentState h), nt_patch = None,
     nt_events = None, nt_seq = Some (show_int (currentEventSeq h)) \<rparr>"

text \<open>\<open>i\<close> is the fresh id, \<open>l\<close> the new closure, \<open>k\<close> the host that \<open>getHost\<close> gave.\<close>

definition subscribe_finish :: "nat \<Rightarrow> actor_id \<Rightarrow> string \<Rightarrow> nat \<Rightarrow> nat \<Rightarrow> sub_world \<Rightarrow> sub_world" where
  "subscribe_finish conn a i l k w = (case map_get (sw_hosts w) k of
      None \<Rightarrow> w
    | Some h \<Rightarrow>
       let sub = \<lparr> sb_id = i, sb_conn = conn, sb_actor = a, sb_host = k, sb_listener = l \<rparr>;
           w1 = on_sub_host k (onCommit l) w;
           su = sw_reg w1
       in w1 \<lparr> sw_reg := su \<lparr> su_subs := map_set i sub (su_subs su), su_byActor := index_add a i (su_byActor su),
                              su_byConnection := index_add conn i (su_byConnection su),
                              su_notifications := su_notifications su + 1 \<rparr>,
               sw_sent := sw_sent w1 @ [(conn, snapshot_notification i h)] \<rparr>)"

definition detach :: "subscription \<Rightarrow> sub_world \<Rightarrow> sub_world" where
  "detach sub w = (let w1 = on_sub_host (sb_host sub) (offCommit (sb_listener sub)) w; su = sw_reg w1 in
     w1 \<lparr> sw_reg := su \<lparr> su_subs := map_delete (sb_id sub) (su_subs su),
                          su_byActor := index_del (sb_actor sub) (sb_id sub) (su_byActor su),
                          su_byConnection := index_del (sb_conn sub) (sb_id sub) (su_byConnection su) \<rparr> \<rparr>)"

definition unsubscribe :: "string \<Rightarrow> sub_world \<Rightarrow> bool \<times> sub_world" where
  "unsubscribe i w = (case map_get (su_subs (sw_reg w)) i of
      None \<Rightarrow> (False, w) | Some sub \<Rightarrow> (True, detach sub w))"

definition unsubscribeConnection :: "nat \<Rightarrow> sub_world \<Rightarrow> sub_world" where
  "unsubscribeConnection conn w =
     foldl (\<lambda>w i. snd (unsubscribe i w)) w (index_get (su_byConnection (sw_reg w)) conn)"

definition registry_size :: "sub_world \<Rightarrow> nat" where
  "registry_size w = length (su_subs (sw_reg w))"

definition commit_notification :: "string \<Rightarrow> commit_info \<Rightarrow> notification" where
  "commit_notification i info = (case info of
      CommitPatch p _ \<Rightarrow> \<lparr> nt_sub = i, nt_kind = PatchKind, nt_data = None, nt_patch = Some p, nt_events = None, nt_seq = None \<rparr>
    | CommitEvents es s _ \<Rightarrow> \<lparr> nt_sub = i, nt_kind = EventKind, nt_data = None, nt_patch = None, nt_events = Some es,
        nt_seq = Some (show_int s) \<rparr>
    | CommitTombstone \<Rightarrow> \<lparr> nt_sub = i, nt_kind = TombstoneKind, nt_data = None, nt_patch = None, nt_events = None, nt_seq = None \<rparr>)"

text \<open>\<open>throws\<close>: the sinks that throw. A throwing sink on a tombstone skips the counter.\<close>

definition deliver :: "(string \<Rightarrow> bool) \<Rightarrow> subscription \<Rightarrow> commit_info \<Rightarrow> sub_world \<Rightarrow> sub_world" where
  "deliver throws sub info w = (
     let w1 = w \<lparr> sw_sent := sw_sent w @ [(sb_conn sub, commit_notification (sb_id sub) info)] \<rparr>;
         w2 = (if info = CommitTombstone then detach sub w1 else w1);
         counted = \<not> (info = CommitTombstone \<and> throws (sb_id sub))
     in w2 \<lparr> sw_reg := (sw_reg w2) \<lparr> su_notifications := su_notifications (sw_reg w2) + (if counted then 1 else 0) \<rparr> \<rparr>)"

text \<open>A host emits: each closure in its listener set is called, in the order they were attached.\<close>

definition sub_of_listener :: "nat \<Rightarrow> sub_world \<Rightarrow> subscription option" where
  "sub_of_listener l w = find (\<lambda>s. sb_listener s = l) (map snd (su_subs (sw_reg w)))"

fun deliver_each :: "(string \<Rightarrow> bool) \<Rightarrow> commit_info \<Rightarrow> nat list \<Rightarrow> sub_world \<Rightarrow> sub_world" where
  "deliver_each throws info [] w = w"
| "deliver_each throws info (l # ls) w = deliver_each throws info ls
     (case sub_of_listener l w of Some sub \<Rightarrow> deliver throws sub info w | None \<Rightarrow> w)"

definition commit_on_host :: "(string \<Rightarrow> bool) \<Rightarrow> nat \<Rightarrow> commit_info \<Rightarrow> sub_world \<Rightarrow> sub_world" where
  "commit_on_host throws k info w = (case map_get (sw_hosts w) k of
      None \<Rightarrow> w
    | Some h \<Rightarrow> deliver_each throws info (h_listeners h) w)"

section \<open>Index lemmas\<close>

definition index_wf :: "('k, string list) jsmap \<Rightarrow> bool" where
  "index_wf m \<longleftrightarrow> map_wf m \<and> (\<forall>k l. map_get m k = Some l \<longrightarrow> l \<noteq> [] \<and> distinct l)"

lemma index_wf_Nil [simp]: "index_wf []"
  by (simp add: index_wf_def)

lemma index_get_add [simp]:
  "set (index_get (index_add k i m) k') = (if k' = k then insert i (set (index_get m k)) else set (index_get m k'))"
  by (auto simp: index_get_def index_add_def)

lemma index_get_del [simp]:
  "index_get (index_del k i m) k' = (if k' = k then removeAll i (index_get m k) else index_get m k')"
  by (auto simp: index_get_def index_del_def split: option.splits)

lemma index_wf_add [inv_intros]: "index_wf m \<Longrightarrow> index_wf (index_add k i m)"
  by (auto simp: index_wf_def index_add_def index_get_def split: option.split)

lemma index_wf_del [inv_intros]: "index_wf m \<Longrightarrow> index_wf (index_del k i m)"
  by (auto simp: index_wf_def index_del_def distinct_removeAll split: option.split)

section \<open>The indexes agree\<close>

text \<open>Every subscription is in exactly the indexes it should be and listens on exactly its host.\<close>

definition sub_inv :: "sub_world \<Rightarrow> bool" where
  "sub_inv w \<longleftrightarrow> (let subs = su_subs (sw_reg w) in
     map_wf subs \<and> map_wf (sw_hosts w) \<and> index_wf (su_byActor (sw_reg w)) \<and> index_wf (su_byConnection (sw_reg w))
   \<and> (\<forall>i s. map_get subs i = Some s \<longrightarrow> sb_id s = i \<and> map_has (sw_hosts w) (sb_host s))
   \<and> (\<forall>i s j s'. map_get subs i = Some s \<longrightarrow> map_get subs j = Some s' \<longrightarrow> sb_listener s = sb_listener s' \<longrightarrow> i = j)
   \<and> (\<forall>a i. i \<in> set (index_get (su_byActor (sw_reg w)) a) \<longleftrightarrow> (\<exists>s. map_get subs i = Some s \<and> sb_actor s = a))
   \<and> (\<forall>c i. i \<in> set (index_get (su_byConnection (sw_reg w)) c) \<longleftrightarrow> (\<exists>s. map_get subs i = Some s \<and> sb_conn s = c))
   \<and> (\<forall>k h. map_get (sw_hosts w) k = Some h \<longrightarrow> distinct (h_listeners h)
        \<and> (\<forall>l. l \<in> set (h_listeners h) \<longleftrightarrow> (\<exists>i s. map_get subs i = Some s \<and> sb_host s = k \<and> sb_listener s = l))))"

lemma sub_invD:
  assumes "sub_inv w"
  shows "map_wf (su_subs (sw_reg w))" "map_wf (sw_hosts w)"
    "index_wf (su_byActor (sw_reg w))" "index_wf (su_byConnection (sw_reg w))"
    "map_get (su_subs (sw_reg w)) i = Some s \<Longrightarrow> sb_id s = i \<and> map_has (sw_hosts w) (sb_host s)"
    "map_get (su_subs (sw_reg w)) i = Some s \<Longrightarrow> map_get (su_subs (sw_reg w)) j = Some s' \<Longrightarrow>
       sb_listener s = sb_listener s' \<Longrightarrow> i = j"
    "i \<in> set (index_get (su_byActor (sw_reg w)) a) \<longleftrightarrow> (\<exists>s. map_get (su_subs (sw_reg w)) i = Some s \<and> sb_actor s = a)"
    "i \<in> set (index_get (su_byConnection (sw_reg w)) c) \<longleftrightarrow> (\<exists>s. map_get (su_subs (sw_reg w)) i = Some s \<and> sb_conn s = c)"
    "map_get (sw_hosts w) k = Some h \<Longrightarrow> distinct (h_listeners h)"
    "map_get (sw_hosts w) k = Some h \<Longrightarrow> l \<in> set (h_listeners h) \<longleftrightarrow>
       (\<exists>i s. map_get (su_subs (sw_reg w)) i = Some s \<and> sb_host s = k \<and> sb_listener s = l)"
  using assms unfolding sub_inv_def Let_def by blast+

lemma sub_invI:
  assumes "map_wf (su_subs (sw_reg w))" "map_wf (sw_hosts w)"
    "index_wf (su_byActor (sw_reg w))" "index_wf (su_byConnection (sw_reg w))"
    "\<And>i s. map_get (su_subs (sw_reg w)) i = Some s \<Longrightarrow> sb_id s = i \<and> map_has (sw_hosts w) (sb_host s)"
    "\<And>i s j s'. map_get (su_subs (sw_reg w)) i = Some s \<Longrightarrow> map_get (su_subs (sw_reg w)) j = Some s' \<Longrightarrow>
       sb_listener s = sb_listener s' \<Longrightarrow> i = j"
    "\<And>i a. i \<in> set (index_get (su_byActor (sw_reg w)) a) \<longleftrightarrow> (\<exists>s. map_get (su_subs (sw_reg w)) i = Some s \<and> sb_actor s = a)"
    "\<And>i c. i \<in> set (index_get (su_byConnection (sw_reg w)) c) \<longleftrightarrow> (\<exists>s. map_get (su_subs (sw_reg w)) i = Some s \<and> sb_conn s = c)"
    "\<And>k h. map_get (sw_hosts w) k = Some h \<Longrightarrow> distinct (h_listeners h)"
    "\<And>k h l. map_get (sw_hosts w) k = Some h \<Longrightarrow> l \<in> set (h_listeners h) \<longleftrightarrow>
       (\<exists>i s. map_get (su_subs (sw_reg w)) i = Some s \<and> sb_host s = k \<and> sb_listener s = l)"
  shows "sub_inv w"
  unfolding sub_inv_def Let_def using assms by blast

lemma sub_inv_log:
  "sub_inv (w \<lparr> sw_sent := x \<rparr>) = sub_inv w"
  "sub_inv (w \<lparr> sw_reg := (sw_reg w) \<lparr> su_notifications := n \<rparr> \<rparr>) = sub_inv w"
  by (simp_all add: sub_inv_def)

lemma sub_inv_empty: "\<forall>k h. map_get hosts k = Some h \<longrightarrow> h_listeners h = [] \<Longrightarrow> map_wf hosts \<Longrightarrow>
    sub_inv \<lparr> sw_reg = new_registry m, sw_hosts = hosts, sw_sent = [] \<rparr>"
  by (simp add: sub_inv_def new_registry_def index_get_def)

lemma sub_inv_subscribe [inv_intros]:
  assumes "sub_inv w" and "map_get (su_subs (sw_reg w)) i = None"
    and "\<forall>j s. map_get (su_subs (sw_reg w)) j = Some s \<longrightarrow> sb_listener s \<noteq> l"
  shows "sub_inv (subscribe_finish conn a i l k w)"
proof (cases "map_get (sw_hosts w) k")
  case None
  with assms(1) show ?thesis by (simp add: subscribe_finish_def)
next
  case (Some h)
  note d = sub_invD [OF assms(1)]
  let ?subs = "su_subs (sw_reg w)" and ?w = "subscribe_finish conn a i l k w"
  let ?sub = "\<lparr> sb_id = i, sb_conn = conn, sb_actor = a, sb_host = k, sb_listener = l \<rparr>"
  have hosts: "sw_hosts ?w = map_set k (onCommit l h) (sw_hosts w)"
    and reg: "su_subs (sw_reg ?w) = map_set i ?sub ?subs" "su_byActor (sw_reg ?w) = index_add a i (su_byActor (sw_reg w))"
      "su_byConnection (sw_reg ?w) = index_add conn i (su_byConnection (sw_reg w))"
    by (simp_all add: subscribe_finish_def on_sub_host_def Some Let_def)
  have lk: "l \<notin> set (h_listeners h)" using d(10) [OF Some] assms(3) by blast
  show ?thesis
  proof (rule sub_invI)
    fix k' h' l'
    assume k': "map_get (sw_hosts ?w) k' = Some h'"
    have other: "(\<exists>j s. map_get (su_subs (sw_reg ?w)) j = Some s \<and> sb_host s = k' \<and> sb_listener s = l') \<longleftrightarrow>
        (k' = k \<and> l' = l) \<or> (\<exists>j s. map_get ?subs j = Some s \<and> sb_host s = k' \<and> sb_listener s = l')"
      using assms(2) by (auto simp: reg) (metis option.distinct(1))
    show "l' \<in> set (h_listeners h') \<longleftrightarrow>
        (\<exists>j s. map_get (su_subs (sw_reg ?w)) j = Some s \<and> sb_host s = k' \<and> sb_listener s = l')"
    proof (cases "k' = k")
      case True
      with k' have h': "h' = onCommit l h" by (simp add: hosts)
      have "set (h_listeners h') = insert l (set (h_listeners h))" using lk by (auto simp: h' onCommit_def)
      with d(10) [OF Some, of l'] True show ?thesis unfolding other by blast
    next
      case False
      with k' have "map_get (sw_hosts w) k' = Some h'" by (simp add: hosts)
      from d(10) [OF this] False show ?thesis unfolding other by blast
    qed
  next
    fix k' h'
    assume "map_get (sw_hosts ?w) k' = Some h'"
    then show "distinct (h_listeners h')"
      using lk d(9) [of k' h'] d(9) [OF Some] by (auto simp: hosts onCommit_def split: if_splits)
  next
    fix j s j' s'
    assume "map_get (su_subs (sw_reg ?w)) j = Some s" "map_get (su_subs (sw_reg ?w)) j' = Some s'" "sb_listener s = sb_listener s'"
    then show "j = j'" using d(6) assms(3) unfolding reg map_get_set by (metis option.inject subscription.select_convs(5))
  next
    fix j s
    assume "map_get (su_subs (sw_reg ?w)) j = Some s"
    then show "sb_id s = j \<and> map_has (sw_hosts ?w) (sb_host s)" using d(5) by (auto simp: reg hosts split: if_splits)
  next
    fix j a'
    show "j \<in> set (index_get (su_byActor (sw_reg ?w)) a') \<longleftrightarrow> (\<exists>s. map_get (su_subs (sw_reg ?w)) j = Some s \<and> sb_actor s = a')"
      using assms(2) d(7) [of j a'] by (auto simp: reg)
  next
    fix j c
    show "j \<in> set (index_get (su_byConnection (sw_reg ?w)) c) \<longleftrightarrow> (\<exists>s. map_get (su_subs (sw_reg ?w)) j = Some s \<and> sb_conn s = c)"
      using assms(2) d(8) [of j c] by (auto simp: reg)
  qed (use d(1-4) in \<open>simp_all add: reg hosts inv_intros\<close>)
qed

lemma sub_inv_detach [inv_intros]:
  assumes "sub_inv w" and "map_get (su_subs (sw_reg w)) i = Some sub"
  shows "sub_inv (detach sub w)"
proof -
  note d = sub_invD [OF assms(1)]
  let ?subs = "su_subs (sw_reg w)" and ?w = "detach sub w"
  obtain h where h: "map_get (sw_hosts w) (sb_host sub) = Some h" using d(5) [OF assms(2)] by auto
  have i: "sb_id sub = i" using d(5) [OF assms(2)] by simp
  have hosts: "sw_hosts ?w = map_set (sb_host sub) (offCommit (sb_listener sub) h) (sw_hosts w)"
    and reg: "su_subs (sw_reg ?w) = map_delete i ?subs"
      "su_byActor (sw_reg ?w) = index_del (sb_actor sub) i (su_byActor (sw_reg w))"
      "su_byConnection (sw_reg ?w) = index_del (sb_conn sub) i (su_byConnection (sw_reg w))"
    by (simp_all add: detach_def on_sub_host_def h Let_def i)
  have lis: "distinct (h_listeners h') \<and> (l \<in> set (h_listeners h') \<longleftrightarrow>
      (\<exists>j s. j \<noteq> i \<and> map_get ?subs j = Some s \<and> sb_host s = k \<and> sb_listener s = l))"
    if k: "map_get (sw_hosts ?w) k = Some h'" for k h' l
  proof (cases "k = sb_host sub")
    case True
    with k have h': "h' = offCommit (sb_listener sub) h" by (simp add: hosts)
    have "l \<noteq> sb_listener sub \<and> l \<in> set (h_listeners h) \<longleftrightarrow>
        (\<exists>j s. j \<noteq> i \<and> map_get ?subs j = Some s \<and> sb_host s = k \<and> sb_listener s = l)"
      unfolding True d(10) [OF h] using d(6) [OF _ assms(2)] assms(2) by (metis option.inject)
    with d(9) [OF h] show ?thesis by (auto simp: h' offCommit_def distinct_removeAll)
  next
    case False
    with k have k': "map_get (sw_hosts w) k = Some h'" by (simp add: hosts)
    have "l \<in> set (h_listeners h') \<longleftrightarrow> (\<exists>j s. j \<noteq> i \<and> map_get ?subs j = Some s \<and> sb_host s = k \<and> sb_listener s = l)"
      unfolding d(10) [OF k'] using False assms(2) by (metis option.inject)
    with d(9) [OF k'] show ?thesis by simp
  qed
  have ids: "\<forall>j s. map_get (su_subs (sw_reg ?w)) j = Some s \<longrightarrow> sb_id s = j \<and> map_has (sw_hosts ?w) (sb_host s)"
    using d(5) by (auto simp: reg hosts)
  have inj: "\<forall>j s j' s'. map_get (su_subs (sw_reg ?w)) j = Some s \<longrightarrow> map_get (su_subs (sw_reg ?w)) j' = Some s' \<longrightarrow>
      sb_listener s = sb_listener s' \<longrightarrow> j = j'"
    using d(6) by (auto simp: reg split: if_splits)
  have "j \<in> set (index_get (su_byActor (sw_reg ?w)) a) \<longleftrightarrow> (\<exists>s. map_get (su_subs (sw_reg ?w)) j = Some s \<and> sb_actor s = a)"
    "j \<in> set (index_get (su_byConnection (sw_reg ?w)) c) \<longleftrightarrow> (\<exists>s. map_get (su_subs (sw_reg ?w)) j = Some s \<and> sb_conn s = c)"
    for j a c
    using d(7) [of j a] d(8) [of j c] assms(2) by (auto simp: reg)
  note indexes = this
  show ?thesis
  proof (rule sub_invI)
    fix k h' l
    assume k: "map_get (sw_hosts ?w) k = Some h'"
    show "distinct (h_listeners h')" using lis [OF k] by blast
    have "(\<exists>j s. map_get (su_subs (sw_reg ?w)) j = Some s \<and> sb_host s = k \<and> sb_listener s = l) \<longleftrightarrow>
        (\<exists>j s. j \<noteq> i \<and> map_get ?subs j = Some s \<and> sb_host s = k \<and> sb_listener s = l)"
      by (simp add: reg) (metis option.distinct(1))
    with lis [OF k] show "l \<in> set (h_listeners h') \<longleftrightarrow>
        (\<exists>j s. map_get (su_subs (sw_reg ?w)) j = Some s \<and> sb_host s = k \<and> sb_listener s = l)"
      by simp
  next
    show "sb_id s = j \<and> map_has (sw_hosts ?w) (sb_host s)" if "map_get (su_subs (sw_reg ?w)) j = Some s" for j s
      using ids that by blast
    show "j = j'" if "map_get (su_subs (sw_reg ?w)) j = Some s" "map_get (su_subs (sw_reg ?w)) j' = Some s'"
      "sb_listener s = sb_listener s'" for j s j' s' using inj that by blast
    show "map_wf (su_subs (sw_reg ?w))" "map_wf (sw_hosts ?w)" "index_wf (su_byActor (sw_reg ?w))"
      "index_wf (su_byConnection (sw_reg ?w))"
      using d(1-4) by (simp_all add: reg hosts inv_intros)
  qed (rule indexes)+
qed

section \<open>Steps\<close>

lemma sub_inv_unsubscribe [inv_intros]: "sub_inv w \<Longrightarrow> sub_inv (snd (unsubscribe i w))"
  by (auto simp: unsubscribe_def intro: sub_inv_detach split: option.split)

lemma sub_inv_unsubscribe_all: "sub_inv w \<Longrightarrow> sub_inv (foldl (\<lambda>w i. snd (unsubscribe i w)) w ids)"
  by (induction ids arbitrary: w) (simp_all add: inv_intros)

lemma sub_inv_unsubscribeConnection [inv_intros]: "sub_inv w \<Longrightarrow> sub_inv (unsubscribeConnection c w)"
  by (simp add: unsubscribeConnection_def sub_inv_unsubscribe_all)

lemma detach_subs [simp]: "su_subs (sw_reg (detach s w)) = map_delete (sb_id s) (su_subs (sw_reg w))"
  by (simp add: detach_def on_sub_host_def Let_def split: option.split)

lemma detach_sent [simp]: "sw_sent (detach s w) = sw_sent w"
  by (simp add: detach_def on_sub_host_def Let_def split: option.split)

lemma unsubscribe_subs:
  "su_subs (sw_reg (snd (unsubscribe i w))) = (if map_has (su_subs (sw_reg w)) i
     then map_delete (sb_id (the (map_get (su_subs (sw_reg w)) i))) (su_subs (sw_reg w)) else su_subs (sw_reg w))"
  by (auto simp: unsubscribe_def split: option.split)

lemma deliver_simps [simp]:
  "sw_sent (deliver throws s info w) = sw_sent w @ [(sb_conn s, commit_notification (sb_id s) info)]"
  "su_subs (sw_reg (deliver throws s info w)) =
     (if info = CommitTombstone then map_delete (sb_id s) (su_subs (sw_reg w)) else su_subs (sw_reg w))"
  by (simp_all add: deliver_def Let_def)

lemma sub_inv_deliver [inv_intros]:
  assumes "sub_inv w" and "map_get (su_subs (sw_reg w)) i = Some s"
  shows "sub_inv (deliver throws s info w)"
  unfolding deliver_def Let_def sub_inv_log
  using assms sub_inv_detach [of "w \<lparr> sw_sent := x \<rparr>" for x] by (simp add: sub_inv_log)

lemma sub_of_listener_eq:
  assumes "sub_inv w" and "map_get (su_subs (sw_reg w)) i = Some s"
  shows "sub_of_listener (sb_listener s) w = Some s"
proof -
  have wf: "map_wf (su_subs (sw_reg w))" using sub_invD(1) [OF assms(1)] .
  have "s \<in> set (map snd (su_subs (sw_reg w)))" using map_get_in_set [OF assms(2)] by force
  moreover have "s' = s" if m: "s' \<in> set (map snd (su_subs (sw_reg w)))" and l: "sb_listener s' = sb_listener s" for s'
  proof -
    obtain j where "(j, s') \<in> set (su_subs (sw_reg w))" using m by auto
    then have "map_get (su_subs (sw_reg w)) j = Some s'" using map_wf_get_iff [OF wf] by simp
    with sub_invD(6) [OF assms(1) this assms(2) l] assms(2) show ?thesis by simp
  qed
  moreover have "P x \<and> x \<in> set xs" if "find P xs = Some x" for P x and xs :: "subscription list"
    using that by (auto simp: find_Some_iff)
  ultimately show ?thesis
    unfolding sub_of_listener_def by (metis (mono_tags, lifting) find_None_iff option.exhaust)
qed

lemma deliver_all:
  assumes "sub_inv w" and "distinct ls"
    and "\<forall>l\<in>set ls. \<exists>i s. map_get (su_subs (sw_reg w)) i = Some s \<and> sb_host s = k \<and> sb_listener s = l"
  shows "sub_inv (deliver_each throws info ls w) \<and> (\<exists>subs. map sb_listener subs = ls
     \<and> (\<forall>s\<in>set subs. map_get (su_subs (sw_reg w)) (sb_id s) = Some s \<and> sb_host s = k)
     \<and> sw_sent (deliver_each throws info ls w) = sw_sent w @ map (\<lambda>s. (sb_conn s, commit_notification (sb_id s) info)) subs
     \<and> (\<forall>i. map_get (su_subs (sw_reg (deliver_each throws info ls w))) i =
          (if info = CommitTombstone \<and> i \<in> sb_id ` set subs then None else map_get (su_subs (sw_reg w)) i)))"
  using assms
proof (induction ls arbitrary: w)
  case Nil
  then show ?case by simp
next
  case (Cons l ls)
  obtain i s where s: "map_get (su_subs (sw_reg w)) i = Some s" "sb_host s = k" "sb_listener s = l"
    using Cons.prems(3) by auto
  have id: "sb_id s = i" using sub_invD(5) [OF Cons.prems(1) s(1)] by simp
  let ?w = "deliver throws s info w"
  have sl: "sub_of_listener l w = Some s" using sub_of_listener_eq [OF Cons.prems(1) s(1)] s(3) by simp
  have rest: "\<forall>l'\<in>set ls. \<exists>j s'. map_get (su_subs (sw_reg ?w)) j = Some s' \<and> sb_host s' = k \<and> sb_listener s' = l'"
  proof
    fix l' assume l': "l' \<in> set ls"
    then obtain j s' where j: "map_get (su_subs (sw_reg w)) j = Some s'" "sb_host s' = k" "sb_listener s' = l'"
      using Cons.prems(3) by auto
    have "j \<noteq> i" using j s l' Cons.prems(2) by auto
    with j show "\<exists>j s'. map_get (su_subs (sw_reg ?w)) j = Some s' \<and> sb_host s' = k \<and> sb_listener s' = l'"
      by (auto simp: id)
  qed
  have "distinct ls" using Cons.prems(2) by simp
  from Cons.IH [OF sub_inv_deliver [OF Cons.prems(1) s(1)] this rest] obtain subs where
    IH: "sub_inv (deliver_each throws info ls ?w)"
      "map sb_listener subs = ls"
      "\<forall>s\<in>set subs. map_get (su_subs (sw_reg ?w)) (sb_id s) = Some s \<and> sb_host s = k"
      "sw_sent (deliver_each throws info ls ?w)
         = sw_sent ?w @ map (\<lambda>s. (sb_conn s, commit_notification (sb_id s) info)) subs"
      "\<forall>i. map_get (su_subs (sw_reg (deliver_each throws info ls ?w))) i
         = (if info = CommitTombstone \<and> i \<in> sb_id ` set subs then None else map_get (su_subs (sw_reg ?w)) i)"
    by blast
  have "map_get (su_subs (sw_reg w)) (sb_id s') = Some s' \<and> sb_host s' = k" if "s' \<in> set subs" for s'
    using IH(3) that by (auto split: if_splits)
  with IH s id sl show ?case
    by (intro conjI exI [of _ "s # subs"]) (auto split: if_splits)
qed

lemma sub_inv_commit [inv_intros]:
  assumes "sub_inv w"
  shows "sub_inv (commit_on_host throws k info w)"
proof (cases "map_get (sw_hosts w) k")
  case None
  with assms show ?thesis by (simp add: commit_on_host_def)
next
  case (Some h)
  from deliver_all [OF assms sub_invD(9) [OF assms Some], of k throws info] sub_invD(10) [OF assms Some] Some
  show ?thesis by (simp add: commit_on_host_def)
qed

text \<open>What happens to a registry: the second halves of subscriptions, endings, and commits of hosts.\<close>

datatype sub_op =
    SubscribeOp nat actor_id string nat nat
  | UnsubscribeOp string
  | CloseOp nat
  | CommitOp nat commit_info

fun sub_step :: "(string \<Rightarrow> bool) \<Rightarrow> sub_op \<Rightarrow> sub_world \<Rightarrow> sub_world" where
  "sub_step throws (SubscribeOp c a i l k) w = subscribe_finish c a i l k w"
| "sub_step throws (UnsubscribeOp i) w = snd (unsubscribe i w)"
| "sub_step throws (CloseOp c) w = unsubscribeConnection c w"
| "sub_step throws (CommitOp k info) w = commit_on_host throws k info w"

text \<open>Subscription ids are fresh UUIDs and closures are new objects.\<close>

fun op_fresh :: "sub_op \<Rightarrow> sub_world \<Rightarrow> bool" where
  "op_fresh (SubscribeOp c a i l k) w \<longleftrightarrow> map_get (su_subs (sw_reg w)) i = None
     \<and> list_all (\<lambda>p. sb_listener (snd p) \<noteq> l) (su_subs (sw_reg w))"
| "op_fresh _ w \<longleftrightarrow> True"

fun sub_run :: "(string \<Rightarrow> bool) \<Rightarrow> sub_op list \<Rightarrow> sub_world \<Rightarrow> sub_world" where
  "sub_run throws [] w = w"
| "sub_run throws (op # ops) w = sub_run throws ops (sub_step throws op w)"

fun run_fresh :: "(string \<Rightarrow> bool) \<Rightarrow> sub_op list \<Rightarrow> sub_world \<Rightarrow> bool" where
  "run_fresh throws [] w \<longleftrightarrow> True"
| "run_fresh throws (op # ops) w \<longleftrightarrow> op_fresh op w \<and> run_fresh throws ops (sub_step throws op w)"

lemma sub_inv_step: "sub_inv w \<Longrightarrow> op_fresh op w \<Longrightarrow> sub_inv (sub_step throws op w)"
proof (cases op)
  case (SubscribeOp c a i l k)
  assume "sub_inv w" "op_fresh op w"
  moreover have "sb_listener s \<noteq> l" if "op_fresh op w" "map_get (su_subs (sw_reg w)) j = Some s" for j s
    using that map_get_in_set [of "su_subs (sw_reg w)" j s] by (force simp: SubscribeOp list_all_iff)
  ultimately show ?thesis using SubscribeOp by (auto intro!: sub_inv_subscribe)
qed (simp_all add: inv_intros)

lemma sub_inv_run: "sub_inv w \<Longrightarrow> run_fresh throws ops w \<Longrightarrow> sub_inv (sub_run throws ops w)"
  by (induction throws ops w rule: sub_run.induct) (auto intro: sub_inv_step)

definition start_world :: "(nat, host) jsmap \<Rightarrow> nat option \<Rightarrow> sub_world" where
  "start_world hosts maxSubs = \<lparr> sw_reg = new_registry maxSubs, sw_hosts = hosts, sw_sent = [] \<rparr>"

definition no_listeners :: "(nat, host) jsmap \<Rightarrow> bool" where
  "no_listeners hosts \<longleftrightarrow> map_wf hosts \<and> list_all (\<lambda>p. h_listeners (snd p) = []) hosts"

lemma no_listenersD: "no_listeners hosts \<Longrightarrow> map_get hosts k = Some h \<Longrightarrow> h_listeners h = []"
  unfolding no_listeners_def list_all_iff by (metis map_get_in_set snd_conv)

lemma sub_inv_reached:
  "no_listeners hosts \<Longrightarrow> run_fresh throws ops (start_world hosts maxSubs) \<Longrightarrow> sub_inv (sub_run throws ops (start_world hosts maxSubs))"
  by (erule sub_inv_run [rotated], unfold start_world_def, rule sub_inv_empty)
     (use no_listenersD in blast, simp add: no_listeners_def)

lemma unsubscribe_all_subs:
  "sub_inv w \<Longrightarrow> map_get (su_subs (sw_reg (foldl (\<lambda>w i. snd (unsubscribe i w)) w ids))) j =
     (if j \<in> set ids then None else map_get (su_subs (sw_reg w)) j)"
proof (induction ids arbitrary: w)
  case Nil
  then show ?case by simp
next
  case (Cons i ids)
  have "map_get (su_subs (sw_reg (snd (unsubscribe i w)))) j = (if j = i then None else map_get (su_subs (sw_reg w)) j)"
    using sub_invD(5) [OF Cons.prems, of i] by (auto simp: unsubscribe_subs)
  with Cons.IH [OF sub_inv_unsubscribe [OF Cons.prems], of i] show ?case by (cases "j = i") simp_all
qed

lemma index_empty:
  assumes "index_wf m" and "\<And>k. index_get m k = []"
  shows "m = []"
proof (cases m)
  case (Cons p m')
  then obtain l where "map_get m (fst p) = Some l" by (cases p) simp
  with assms(1) assms(2) [of "fst p"] show ?thesis by (simp add: index_wf_def index_get_def)
qed

section \<open>Properties\<close>

text \<open>
  C29. However subscriptions, endings, closed connections and commits interleave, the three
  indexes and the listener sets of the hosts agree: an id is filed under an actor, under a
  connection and on a host exactly when its subscription exists and is for them. So a closed
  connection keeps nothing, and a registry without subscriptions has empty indexes and has left
  no listener behind on any host.
\<close>

theorem subscription_indexes_agree:
  assumes "no_listeners hosts" and "run_fresh throws ops (start_world hosts maxSubs)"
    and w: "w = sub_run throws ops (start_world hosts maxSubs)"
  shows "(i \<in> set (index_get (su_byActor (sw_reg w)) a) \<longleftrightarrow> (\<exists>s. map_get (su_subs (sw_reg w)) i = Some s \<and> sb_actor s = a))
    \<and> (i \<in> set (index_get (su_byConnection (sw_reg w)) c) \<longleftrightarrow> (\<exists>s. map_get (su_subs (sw_reg w)) i = Some s \<and> sb_conn s = c))
    \<and> (map_get (sw_hosts w) k = Some h \<longrightarrow> (l \<in> set (h_listeners h) \<longleftrightarrow>
         (\<exists>j s. map_get (su_subs (sw_reg w)) j = Some s \<and> sb_host s = k \<and> sb_listener s = l)))
    \<and> (map_get (su_subs (sw_reg (unsubscribeConnection c w))) i = Some s \<longrightarrow> sb_conn s \<noteq> c)
    \<and> (registry_size w = 0 \<longrightarrow> su_byActor (sw_reg w) = [] \<and> su_byConnection (sw_reg w) = []
         \<and> (map_get (sw_hosts w) k = Some h \<longrightarrow> h_listeners h = []))"
proof -
  have inv: "sub_inv w" unfolding w by (rule sub_inv_reached [OF assms(1,2)])
  note d = sub_invD [OF inv]
  have conn: "sb_conn s \<noteq> c" if g: "map_get (su_subs (sw_reg (unsubscribeConnection c w))) i = Some s"
    using g d(8) [of i c] unfolding unsubscribeConnection_def unsubscribe_all_subs [OF inv] by (auto split: if_splits)
  have empty: "su_byActor (sw_reg w) = [] \<and> su_byConnection (sw_reg w) = []
      \<and> (map_get (sw_hosts w) k = Some h \<longrightarrow> h_listeners h = [])" if "registry_size w = 0"
  proof -
    have none: "su_subs (sw_reg w) = []" using that by (simp add: registry_size_def)
    have "set (index_get (su_byActor (sw_reg w)) x) = {}" "set (index_get (su_byConnection (sw_reg w)) y) = {}" for x y
      using d(7) [of _ x] d(8) [of _ y] unfolding none by fastforce+
    moreover have "set (h_listeners h) = {}" if "map_get (sw_hosts w) k = Some h"
      using d(10) [OF that] unfolding none by fastforce
    ultimately show ?thesis using index_empty [OF d(3)] index_empty [OF d(4)] unfolding set_empty by blast
  qed
  show ?thesis
    by (rule conjI [OF d(7) conjI [OF d(8) conjI [OF impI [OF d(10)] conjI [OF impI [OF conn] impI [OF empty]]]]])
qed

definition demo_hosts :: "(nat, host) jsmap" where
  "demo_hosts = [(0, new_host (demo_reg visits_class) ''a'' False)]"

definition demo_subs :: "sub_op list" where
  "demo_subs = [SubscribeOp 1 ''a'' ''s1'' 10 0, SubscribeOp 2 ''a'' ''s2'' 11 0, SubscribeOp 1 ''a'' ''s3'' 12 0, CloseOp 1]"

lemmas sub_eval = demo_hosts_def demo_subs_def no_listeners_def map_wf_def start_world_def new_registry_def subscribe_finish_def
  on_sub_host_def snapshot_notification_def onCommit_def offCommit_def index_add_def index_del_def index_get_def Let_def
  unsubscribeConnection_def unsubscribe_def detach_def registry_size_def commit_on_host_def new_host_def
  sub_of_listener_def deliver_def commit_notification_def

lemma demo_subs_left:
  "su_subs (sw_reg (sub_run f demo_subs (start_world demo_hosts None))) =
     [(''s2'', \<lparr> sb_id = ''s2'', sb_conn = 2, sb_actor = ''a'', sb_host = 0, sb_listener = 11 \<rparr>)]"
  "map_option h_listeners (map_get (sw_hosts (sub_run f demo_subs (start_world demo_hosts None))) 0) = Some [11]"
  "run_fresh f demo_subs (start_world demo_hosts None)" "no_listeners demo_hosts"
  by (simp_all add: sub_eval)

theorem subscription_indexes_agree_witness:
  "let w = sub_run (\<lambda>_. False) (demo_subs @ [UnsubscribeOp ''s2'']) (start_world demo_hosts None) in
     su_byActor (sw_reg w) = [] \<and> su_byConnection (sw_reg w) = []"
proof -
  let ?ops = "demo_subs @ [UnsubscribeOp ''s2'']" and ?w = "start_world demo_hosts None"
  have "run_fresh (\<lambda>_. False) ?ops ?w" "registry_size (sub_run (\<lambda>_. False) ?ops ?w) = 0"
    by (simp_all add: sub_eval)
  with subscription_indexes_agree [OF demo_subs_left(4), of "\<lambda>_. False" ?ops None, OF _ refl] show ?thesis
    by (simp only: Let_def)
qed

text \<open>
  C30. A commit of a host reaches exactly the subscriptions attached to it, each once, in the
  order they were attached, with the notification of the commit; throwing sinks stop no other.
  After a tombstone none of them is left; any other commit leaves the subscriptions alone.
\<close>

theorem commit_reaches_subscribers:
  assumes "no_listeners hosts" and "run_fresh throws ops (start_world hosts maxSubs)"
    and "w = sub_run throws ops (start_world hosts maxSubs)" and "map_get (sw_hosts w) k = Some h"
  shows "\<exists>subs. map sb_listener subs = h_listeners h \<and> distinct subs
    \<and> (\<forall>s. s \<in> set subs \<longleftrightarrow> map_get (su_subs (sw_reg w)) (sb_id s) = Some s \<and> sb_host s = k)
    \<and> sw_sent (commit_on_host throws k info w) = sw_sent w @ map (\<lambda>s. (sb_conn s, commit_notification (sb_id s) info)) subs
    \<and> (\<forall>i. map_get (su_subs (sw_reg (commit_on_host throws k info w))) i =
         (if info = CommitTombstone \<and> i \<in> sb_id ` set subs then None else map_get (su_subs (sw_reg w)) i))"
proof -
  have inv: "sub_inv w" unfolding assms(3) by (rule sub_inv_reached [OF assms(1,2)])
  note lis = sub_invD(10) [OF inv assms(4)] and dist = sub_invD(9) [OF inv assms(4)]
  from deliver_all [OF inv dist, of k throws info] lis obtain subs where subs: "map sb_listener subs = h_listeners h"
    "\<forall>s\<in>set subs. map_get (su_subs (sw_reg w)) (sb_id s) = Some s \<and> sb_host s = k"
    "sw_sent (commit_on_host throws k info w) = sw_sent w @ map (\<lambda>s. (sb_conn s, commit_notification (sb_id s) info)) subs"
    "\<forall>i. map_get (su_subs (sw_reg (commit_on_host throws k info w))) i =
         (if info = CommitTombstone \<and> i \<in> sb_id ` set subs then None else map_get (su_subs (sw_reg w)) i)"
    by (auto simp: commit_on_host_def assms(4))
  have "s \<in> set subs" if s: "map_get (su_subs (sw_reg w)) (sb_id s) = Some s" "sb_host s = k" for s
  proof -
    have "sb_listener s \<in> set (h_listeners h)" using lis [of "sb_listener s"] s by blast
    then obtain s' where s': "s' \<in> set subs" "sb_listener s' = sb_listener s" unfolding subs(1) [symmetric] by auto
    then have g: "map_get (su_subs (sw_reg w)) (sb_id s') = Some s'" using subs(2) by blast
    have "sb_id s' = sb_id s" by (rule sub_invD(6) [OF inv g s(1) s'(2)])
    with g s(1) have "s' = s" by (metis option.inject)
    with s' show ?thesis by metis
  qed
  moreover have "distinct subs" using dist by (simp add: distinct_map flip: subs(1))
  ultimately have "\<forall>s. s \<in> set subs \<longleftrightarrow> map_get (su_subs (sw_reg w)) (sb_id s) = Some s \<and> sb_host s = k" "distinct subs"
    using subs(2) by blast+
  with subs(1,3,4) show ?thesis by (intro exI [of _ subs] conjI)
qed

theorem commit_reaches_subscribers_witness:
  "let w = sub_run (\<lambda>_. True) demo_subs (start_world demo_hosts None) in
     sw_sent (commit_on_host (\<lambda>_. True) 0 CommitTombstone w) = sw_sent w @ [(2, commit_notification ''s2'' CommitTombstone)]"
proof -
  let ?w = "sub_run (\<lambda>_. True) demo_subs (start_world demo_hosts None)"
  obtain h where h: "map_get (sw_hosts ?w) 0 = Some h" "h_listeners h = [11]"
    using demo_subs_left(2) by blast
  obtain subs where subs: "map sb_listener subs = [11]"
    "\<forall>s. s \<in> set subs \<longleftrightarrow> map_get (su_subs (sw_reg ?w)) (sb_id s) = Some s \<and> sb_host s = 0"
    "sw_sent (commit_on_host (\<lambda>_. True) 0 CommitTombstone ?w)
       = sw_sent ?w @ map (\<lambda>s. (sb_conn s, commit_notification (sb_id s) CommitTombstone)) subs"
    using commit_reaches_subscribers [OF demo_subs_left(4,3) refl h(1), of CommitTombstone]
    unfolding h(2) by (elim exE conjE) (rule that)
  obtain s where s: "subs = [s]" using subs(1) by auto
  then have "map_get (su_subs (sw_reg ?w)) (sb_id s) = Some s" using subs(2) by (metis list.set_intros(1))
  then have "sb_conn s = 2" "sb_id s = ''s2''" by (auto simp: demo_subs_left(1) split: if_splits)
  with subs(3) s show ?thesis by (simp add: Let_def)
qed

end
