(* ===== verification/ClientSubs.thy ===== *)
theory ClientSubs
  imports ClientRpc Subscriptions
begin

text \<open>
  The client's view of its subscriptions (\<open>src/client/subscriptions.ts\<close>): a local state per
  subscription, kept in step with the server's by the notifications, and a short buffer for those
  that arrive before the subscription is registered. The calls of listeners are logged. JSON patch
  is the parameter \<open>patch\<close>; a reducer or a patch that throws gives \<open>Inl\<close>.
\<close>

section \<open>State\<close>

type_synonym es_reducer = "jsval \<Rightarrow> jsval \<Rightarrow> error + jsval"

record sub_record =
  sr_state :: jsval
  sr_lastSeq :: int
  sr_reducer :: "es_reducer option"
  sr_listeners :: "nat list"
  sr_tombstoned :: bool

record sub_state =
  ss_subs :: "(string, sub_record) jsmap"
  ss_pending :: "(string, notification list \<times> ms) jsmap"
  ss_heard :: "(nat \<times> jsval) list"

definition PENDING_TTL_MS :: ms where
  "PENDING_TTL_MS = 5000"

definition new_sub_state :: sub_state where
  "new_sub_state = \<lparr> ss_subs = [], ss_pending = [], ss_heard = [] \<rparr>"

section \<open>Operations\<close>

definition new_sub_record :: "es_reducer option \<Rightarrow> sub_record" where
  "new_sub_record reducer =
     \<lparr> sr_state = JUndefined, sr_lastSeq = 0, sr_reducer = reducer, sr_listeners = [], sr_tombstoned = False \<rparr>"

definition preRegister :: "string \<Rightarrow> es_reducer option \<Rightarrow> sub_state \<Rightarrow> sub_state" where
  "preRegister i reducer ss = ss \<lparr> ss_subs := map_set i (new_sub_record reducer) (ss_subs ss) \<rparr>"

definition unregister :: "string \<Rightarrow> sub_state \<Rightarrow> sub_state" where
  "unregister i ss = ss \<lparr> ss_subs := map_delete i (ss_subs ss) \<rparr>"

definition sub_get :: "string \<Rightarrow> sub_state \<Rightarrow> sub_record option" where
  "sub_get i ss = map_get (ss_subs ss) i"

definition sub_size :: "sub_state \<Rightarrow> nat" where
  "sub_size ss = length (ss_subs ss)"

definition subs_clear :: "sub_state \<Rightarrow> sub_state" where
  "subs_clear ss = ss \<lparr> ss_subs := [], ss_pending := [] \<rparr>"

text \<open>\<open>BigInt(s)\<close> on the decimal numbers the server writes.\<close>

definition bigint_of :: "string \<Rightarrow> int option" where
  "bigint_of s = (case s of
      [] \<Rightarrow> Some 0
    | c # cs \<Rightarrow> if list_all is_digit s then Some (int (read_nat s))
        else if c = CHR ''-'' \<and> cs \<noteq> [] \<and> list_all is_digit cs then Some (- int (read_nat cs)) else None)"

definition note_seq :: "notification \<Rightarrow> sub_record \<Rightarrow> sub_record" where
  "note_seq n rec = (case nt_seq n of
      None \<Rightarrow> rec
    | Some s \<Rightarrow> (case bigint_of s of Some q \<Rightarrow> rec \<lparr> sr_lastSeq := q \<rparr> | None \<Rightarrow> rec))"

fun fold_events :: "es_reducer \<Rightarrow> jsval list \<Rightarrow> jsval \<Rightarrow> error + jsval" where
  "fold_events f [] s = Inr s"
| "fold_events f (e # es) s = (case f s e of Inl err \<Rightarrow> Inl err | Inr s' \<Rightarrow> fold_events f es s')"

definition list_or_empty :: "'a list option \<Rightarrow> 'a list" where
  "list_or_empty x = (case x of Some l \<Rightarrow> l | None \<Rightarrow> [])"

text \<open>The \<open>switch\<close> of \<open>apply\<close>.\<close>

definition next_record :: "(jsval \<Rightarrow> jsval list \<Rightarrow> error + jsval) \<Rightarrow> notification \<Rightarrow> sub_record \<Rightarrow> error + sub_record" where
  "next_record patch n rec = (case nt_kind n of
      SnapshotKind \<Rightarrow> Inr (note_seq n (rec \<lparr> sr_state := (case nt_data n of Some d \<Rightarrow> d | None \<Rightarrow> JUndefined) \<rparr>))
    | PatchKind \<Rightarrow> (case patch (sr_state rec) (list_or_empty (nt_patch n)) of
          Inl e \<Rightarrow> Inl e | Inr s \<Rightarrow> Inr (rec \<lparr> sr_state := s \<rparr>))
    | EventKind \<Rightarrow> (case sr_reducer rec of
          None \<Rightarrow> Inr (case nt_data n of Some d \<Rightarrow> rec \<lparr> sr_state := d \<rparr> | None \<Rightarrow> rec)
        | Some f \<Rightarrow> (case fold_events f (list_or_empty (nt_events n)) (sr_state rec) of
            Inl e \<Rightarrow> Inl e | Inr s \<Rightarrow> Inr (note_seq n (rec \<lparr> sr_state := s \<rparr>))))
    | TombstoneKind \<Rightarrow> Inr (rec \<lparr> sr_tombstoned := True \<rparr>))"

definition bufferEarly :: "ms \<Rightarrow> notification \<Rightarrow> sub_state \<Rightarrow> sub_state" where
  "bufferEarly t n ss = (
     let kept = filter (\<lambda>p. \<not> PENDING_TTL_MS < t - snd (snd p)) (ss_pending ss);
         (entries, since) = (case map_get kept (nt_sub n) of Some e \<Rightarrow> e | None \<Rightarrow> ([], t))
     in ss \<lparr> ss_pending := map_set (nt_sub n) (entries @ [n], since) kept \<rparr>)"

definition apply_notification ::
  "(jsval \<Rightarrow> jsval list \<Rightarrow> error + jsval) \<Rightarrow> ms \<Rightarrow> notification \<Rightarrow> sub_state \<Rightarrow> (error + unit) \<times> sub_state" where
  "apply_notification patch t n ss = (case map_get (ss_subs ss) (nt_sub n) of
      None \<Rightarrow> (Inr (), bufferEarly t n ss)
    | Some rec \<Rightarrow>
       if sr_tombstoned rec then (Inr (), ss)
       else (case next_record patch n rec of
           Inl e \<Rightarrow> (Inl e, ss)
         | Inr rec' \<Rightarrow> (Inr (), ss \<lparr> ss_subs := map_set (nt_sub n) rec' (ss_subs ss),
             ss_heard := ss_heard ss @ map (\<lambda>l. (l, sr_state rec')) (sr_listeners rec') \<rparr>)))"

fun apply_entries ::
  "(jsval \<Rightarrow> jsval list \<Rightarrow> error + jsval) \<Rightarrow> ms \<Rightarrow> notification list \<Rightarrow> sub_state \<Rightarrow> (error + unit) \<times> sub_state" where
  "apply_entries patch t [] ss = (Inr (), ss)"
| "apply_entries patch t (n # ns) ss = (case apply_notification patch t n ss of
      (Inl e, ss1) \<Rightarrow> (Inl e, ss1) | (Inr _, ss1) \<Rightarrow> apply_entries patch t ns ss1)"

definition flushBuffered ::
  "(jsval \<Rightarrow> jsval list \<Rightarrow> error + jsval) \<Rightarrow> ms \<Rightarrow> string \<Rightarrow> sub_state \<Rightarrow> (error + unit) \<times> sub_state" where
  "flushBuffered patch t i ss = (case map_get (ss_pending ss) i of
      None \<Rightarrow> (Inr (), ss)
    | Some (entries, since) \<Rightarrow> apply_entries patch t entries (ss \<lparr> ss_pending := map_delete i (ss_pending ss) \<rparr>))"

definition register_sub ::
  "(jsval \<Rightarrow> jsval list \<Rightarrow> error + jsval) \<Rightarrow> ms \<Rightarrow> string \<Rightarrow> es_reducer option \<Rightarrow> sub_state \<Rightarrow> (error + unit) \<times> sub_state" where
  "register_sub patch t i reducer ss = flushBuffered patch t i (preRegister i reducer ss)"

text \<open>\<open>rec.listeners.add\<close> and \<open>delete\<close>, done by the client on the record of a subscription.\<close>

definition on_record :: "string \<Rightarrow> (sub_record \<Rightarrow> sub_record) \<Rightarrow> sub_state \<Rightarrow> sub_state" where
  "on_record i f ss = (case map_get (ss_subs ss) i of
      None \<Rightarrow> ss | Some rec \<Rightarrow> ss \<lparr> ss_subs := map_set i (f rec) (ss_subs ss) \<rparr>)"

definition add_listener :: "nat \<Rightarrow> sub_record \<Rightarrow> sub_record" where
  "add_listener l rec = rec \<lparr> sr_listeners := (if l \<in> set (sr_listeners rec) then sr_listeners rec else sr_listeners rec @ [l]) \<rparr>"

definition del_listener :: "nat \<Rightarrow> sub_record \<Rightarrow> sub_record" where
  "del_listener l rec = rec \<lparr> sr_listeners := removeAll l (sr_listeners rec) \<rparr>"

definition open_sub :: "(jsval \<Rightarrow> jsval list \<Rightarrow> error + jsval) \<Rightarrow> ms \<Rightarrow> string \<Rightarrow> es_reducer option \<Rightarrow> nat \<Rightarrow> sub_state \<Rightarrow>
    (error + unit) \<times> sub_state" where
  "open_sub patch t i reducer l ss = flushBuffered patch t i (on_record i (add_listener l) (preRegister i reducer ss))"

section \<open>What a subscription sees\<close>

text \<open>The record after notifications: those after a tombstone are ignored.\<close>

fun mirror :: "(jsval \<Rightarrow> jsval list \<Rightarrow> error + jsval) \<Rightarrow> notification list \<Rightarrow> sub_record \<Rightarrow> error + sub_record" where
  "mirror patch [] rec = Inr rec"
| "mirror patch (n # ns) rec = (if sr_tombstoned rec then Inr rec
     else case next_record patch n rec of Inl e \<Rightarrow> Inl e | Inr rec' \<Rightarrow> mirror patch ns rec')"

text \<open>The states a listener is called with.\<close>

fun heard_states :: "(jsval \<Rightarrow> jsval list \<Rightarrow> error + jsval) \<Rightarrow> notification list \<Rightarrow> sub_record \<Rightarrow> jsval list" where
  "heard_states patch [] rec = []"
| "heard_states patch (n # ns) rec = (if sr_tombstoned rec then []
     else case next_record patch n rec of Inl e \<Rightarrow> [] | Inr rec' \<Rightarrow> sr_state rec' # heard_states patch ns rec')"

definition heard_by :: "nat \<Rightarrow> sub_state \<Rightarrow> jsval list" where
  "heard_by l ss = map snd (filter (\<lambda>p. fst p = l) (ss_heard ss))"

fun feed :: "(jsval \<Rightarrow> jsval list \<Rightarrow> error + jsval) \<Rightarrow> (ms \<times> notification) list \<Rightarrow> sub_state \<Rightarrow> sub_state" where
  "feed patch [] ss = ss"
| "feed patch ((t, n) # ns) ss = feed patch ns (snd (apply_notification patch t n ss))"

definition for_sub :: "string \<Rightarrow> (ms \<times> notification) list \<Rightarrow> notification list" where
  "for_sub i ns = filter (\<lambda>n. nt_sub n = i) (map snd ns)"

lemma note_seq_simps [simp]:
  "sr_state (note_seq n rec) = sr_state rec" "sr_listeners (note_seq n rec) = sr_listeners rec"
  "sr_tombstoned (note_seq n rec) = sr_tombstoned rec" "sr_reducer (note_seq n rec) = sr_reducer rec"
  by (simp_all add: note_seq_def split: option.split)

lemma next_record_fields:
  "next_record patch n rec = Inr rec' \<Longrightarrow> sr_listeners rec' = sr_listeners rec \<and> sr_reducer rec' = sr_reducer rec"
  by (auto simp: next_record_def split: subscriber_kind.splits sum.splits option.splits)

text \<open>No record but that of \<open>i\<close> has the listener.\<close>

definition only_on :: "string \<Rightarrow> nat \<Rightarrow> sub_state \<Rightarrow> bool" where
  "only_on i l ss \<longleftrightarrow> (\<forall>j rec. j \<noteq> i \<longrightarrow> map_get (ss_subs ss) j = Some rec \<longrightarrow> l \<notin> set (sr_listeners rec))"

lemma heard_by_calls:
  "heard_by l (ss \<lparr> ss_subs := x, ss_heard := ss_heard ss @ map (\<lambda>l'. (l', v)) ls \<rparr>)
     = heard_by l ss @ map (\<lambda>_. v) (filter (\<lambda>l'. l' = l) ls)"
  by (induction ls) (auto simp: heard_by_def)

lemma apply_other:
  assumes "nt_sub n \<noteq> i" and "only_on i l ss"
  shows "map_get (ss_subs (snd (apply_notification patch t n ss))) i = map_get (ss_subs ss) i"
    and "heard_by l (snd (apply_notification patch t n ss)) = heard_by l ss"
    and "only_on i l (snd (apply_notification patch t n ss))"
proof -
  have "filter (\<lambda>l'. l' = l) (sr_listeners rec') = []" if "map_get (ss_subs ss) (nt_sub n) = Some rec"
    "next_record patch n rec = Inr rec'" for rec rec'
    using assms that(1) next_record_fields [OF that(2)] by (auto simp: only_on_def filter_empty_conv)
  with assms next_record_fields [of patch n]
  show "map_get (ss_subs (snd (apply_notification patch t n ss))) i = map_get (ss_subs ss) i"
    "heard_by l (snd (apply_notification patch t n ss)) = heard_by l ss"
    "only_on i l (snd (apply_notification patch t n ss))"
    by (auto simp: apply_notification_def bufferEarly_def Let_def heard_by_calls only_on_def heard_by_def [of l "ss \<lparr> ss_pending := x \<rparr>" for x]
          heard_by_def [of l ss] split: option.split sum.split prod.split)
qed

lemma feed_registered:
  assumes "map_get (ss_subs ss) i = Some rec" and "sr_listeners rec = [l]" and "only_on i l ss"
    and "mirror patch (for_sub i ns) rec = Inr r"
  shows "map_get (ss_subs (feed patch ns ss)) i = Some r
    \<and> heard_by l (feed patch ns ss) = heard_by l ss @ heard_states patch (for_sub i ns) rec"
  using assms
proof (induction patch ns ss arbitrary: rec rule: feed.induct)
  case (1 patch ss)
  then show ?case by (simp add: for_sub_def)
next
  case (2 patch t n ns ss)
  let ?ss = "snd (apply_notification patch t n ss)"
  show ?case
  proof (cases "nt_sub n = i")
    case False
    note o = apply_other [OF this 2(4), of patch t]
    from 2(1) [OF _ 2(3) o(3)] 2(2,5) o(1,2) False show ?thesis by (simp add: for_sub_def)
  next
    case True
    show ?thesis
    proof (cases "sr_tombstoned rec")
      case dead: True
      then have "?ss = ss" using 2(2) True by (simp add: apply_notification_def)
      moreover have "mirror patch (for_sub i ns) rec = Inr r" "heard_states patch (for_sub i ns) rec = []" "r = rec"
        using dead 2(5) True by (cases "for_sub i ns"; simp add: for_sub_def)+
      moreover have "heard_states patch (for_sub i ((t, n) # ns)) rec = []"
        using dead True by (simp add: for_sub_def)
      ultimately show ?thesis using 2(1) [of rec] 2(2,3,4) by simp
    next
      case alive: False
      then obtain rec' where rec': "next_record patch n rec = Inr rec'" "mirror patch (for_sub i ns) rec' = Inr r"
        using 2(5) True by (auto simp: for_sub_def split: sum.splits)
      have ls: "sr_listeners rec' = [l]" using next_record_fields [OF rec'(1)] 2(3) by simp
      have ss: "?ss = ss \<lparr> ss_subs := map_set i rec' (ss_subs ss), ss_heard := ss_heard ss @ map (\<lambda>l. (l, sr_state rec')) (sr_listeners rec') \<rparr>"
        using 2(2) True alive rec'(1) by (simp add: apply_notification_def)
      have "map_get (ss_subs ?ss) i = Some rec'" "only_on i l ?ss" "heard_by l ?ss = heard_by l ss @ [sr_state rec']"
        using 2(4) ls by (simp_all add: ss only_on_def heard_by_def)
      with 2(1) [OF _ ls _ rec'(2)] alive rec'(1) True show ?thesis by (simp add: for_sub_def)
    qed
  qed
qed

text \<open>Before the registration: what is for \<open>i\<close> is buffered, as long as nothing is swept.\<close>

definition buffered :: "string \<Rightarrow> sub_state \<Rightarrow> notification list" where
  "buffered i ss = (case map_get (ss_pending ss) i of Some (ns, t) \<Rightarrow> ns | None \<Rightarrow> [])"

definition buffered_since :: "ms \<Rightarrow> string \<Rightarrow> sub_state \<Rightarrow> bool" where
  "buffered_since t0 i ss \<longleftrightarrow> map_wf (ss_pending ss) \<and> (\<forall>ns t. map_get (ss_pending ss) i = Some (ns, t) \<longrightarrow> t0 \<le> t)"

lemma map_get_filter_kept:
  assumes "map_wf m" and "\<And>v. map_get m k = Some v \<Longrightarrow> P (k, v)"
  shows "map_get (filter P m) k = map_get m k"
proof (cases "map_get m k")
  case None
  then have "k \<notin> fst ` set (filter P m)" by (auto simp: map_of_eq_None_iff)
  with None show ?thesis by (metis map_of_eq_None_iff)
next
  case (Some v)
  then have "(k, v) \<in> set (filter P m)" using assms(2) map_get_in_set by fastforce
  moreover have "map_wf (filter P m)" using assms(1) by (rule map_wf_filter)
  ultimately show ?thesis using Some map_wf_get_iff by metis
qed

lemma bufferEarly_effect:
  assumes "buffered_since t0 i ss" and "t0 \<le> t" and "t \<le> t0 + PENDING_TTL_MS"
  shows "buffered i (bufferEarly t n ss) = buffered i ss @ (if nt_sub n = i then [n] else [])"
    and "buffered_since t0 i (bufferEarly t n ss)"
proof -
  let ?kept = "filter (\<lambda>p. \<not> PENDING_TTL_MS < t - snd (snd p)) (ss_pending ss)"
  have wf: "map_wf (ss_pending ss)" "map_wf ?kept" using assms(1) by (simp_all add: buffered_since_def map_wf_filter)
  have kept: "map_get ?kept i = map_get (ss_pending ss) i"
    using assms by (intro map_get_filter_kept [OF wf(1)]) (auto simp: buffered_since_def)
  show "buffered i (bufferEarly t n ss) = buffered i ss @ (if nt_sub n = i then [n] else [])"
    using kept by (auto simp: buffered_def bufferEarly_def Let_def split: option.split prod.split)
  show "buffered_since t0 i (bufferEarly t n ss)"
    using assms(1,2) kept wf
    by (cases "map_get (ss_pending ss) i"; cases "map_get ?kept (nt_sub n)")
       (auto simp: buffered_since_def bufferEarly_def Let_def split: prod.splits if_splits)
qed

lemma feed_unregistered:
  assumes "map_get (ss_subs ss) i = None" and "only_on i l ss" and "buffered_since t0 i ss"
    and "\<forall>(t, n)\<in>set ns. t0 \<le> t \<and> t \<le> t0 + PENDING_TTL_MS"
  shows "map_get (ss_subs (feed patch ns ss)) i = None \<and> only_on i l (feed patch ns ss)
    \<and> buffered i (feed patch ns ss) = buffered i ss @ for_sub i ns \<and> heard_by l (feed patch ns ss) = heard_by l ss"
  using assms
proof (induction patch ns ss rule: feed.induct)
  case (1 patch ss)
  then show ?case by (simp add: for_sub_def)
next
  case (2 patch t n ns ss)
  let ?ss = "snd (apply_notification patch t n ss)"
  have t: "t0 \<le> t" "t \<le> t0 + PENDING_TTL_MS" using 2(5) by auto
  note b = bufferEarly_effect [OF 2(4) t, of n]
  have "map_get (ss_subs ?ss) i = None \<and> only_on i l ?ss \<and> heard_by l ?ss = heard_by l ss"
  proof (cases "nt_sub n = i")
    case True
    with 2(2,3) show ?thesis by (simp add: apply_notification_def bufferEarly_def Let_def heard_by_def only_on_def split: prod.split)
  next
    case False
    with apply_other [OF False 2(3), of patch t] 2(2) show ?thesis by simp
  qed
  moreover have "buffered_since t0 i ?ss \<and> buffered i ?ss = buffered i ss @ (if nt_sub n = i then [n] else [])"
    using b 2(2,4) by (auto simp: apply_notification_def buffered_def buffered_since_def split: option.split sum.split)
  ultimately show ?case using 2(1) 2(5) by (simp add: for_sub_def)
qed

lemma apply_entries_feed:
  assumes "\<forall>n\<in>set ns. nt_sub n = i" and "map_get (ss_subs ss) i = Some rec" and "mirror patch ns rec = Inr r"
  shows "apply_entries patch t ns ss = (Inr (), feed patch (map (Pair t) ns) ss)"
  using assms
proof (induction ns arbitrary: ss rec)
  case (Cons n ns)
  show ?case
  proof (cases "sr_tombstoned rec")
    case True
    then have r: "r = rec" using Cons.prems(3) by simp
    have "mirror patch ns rec = Inr r" using True by (cases ns) (simp_all add: r)
    moreover have "apply_notification patch t n ss = (Inr (), ss)"
      using Cons.prems(1,2) True by (simp add: apply_notification_def)
    ultimately show ?thesis using Cons.IH [OF _ Cons.prems(2)] Cons.prems(1) by simp
  next
    case False
    then obtain rec' where rec': "next_record patch n rec = Inr rec'" "mirror patch ns rec' = Inr r"
      using Cons.prems(3) by (auto split: sum.splits)
    with Cons.IH [OF _ _ rec'(2)] Cons.prems(1,2) False show ?thesis by (simp add: apply_notification_def)
  qed
qed simp

lemma for_sub_idem: "for_sub i (map (Pair t) (for_sub i ns)) = for_sub i ns"
  by (simp add: for_sub_def comp_def)

lemma opened_fields:
  "map_get (ss_subs (on_record i (add_listener l) (preRegister i f ss))) i = Some (add_listener l (new_sub_record f))"
  "sr_listeners (add_listener l (new_sub_record f)) = [l]"
  "ss_pending (on_record i (add_listener l) (preRegister i f ss)) = ss_pending ss"
  "heard_by l' (on_record i (add_listener l) (preRegister i f ss)) = heard_by l' ss"
  "only_on i l' (on_record i (add_listener l) (preRegister i f ss)) = only_on i l' ss"
  by (auto simp: on_record_def preRegister_def add_listener_def new_sub_record_def heard_by_def only_on_def)

section \<open>Properties\<close>

text \<open>
  C32. Notifications that arrive before their subscription is registered are not lost or
  reordered: when the subscription is opened within five seconds of the first of them, its record
  and what its listener has been called with are those of a subscription opened before they came,
  and both are the fold of the notifications in their order of arrival: the snapshot replaces the
  state, patches and events continue it, nothing follows a tombstone.
\<close>

theorem early_notifications_kept:
  assumes "map_get (ss_subs ss) i = None" and "map_get (ss_pending ss) i = None" and "map_wf (ss_pending ss)"
    and "\<forall>j rec. map_get (ss_subs ss) j = Some rec \<longrightarrow> l \<notin> set (sr_listeners rec)"
    and "\<forall>(t, n)\<in>set ns. t0 \<le> t \<and> t \<le> t0 + PENDING_TTL_MS"
    and rec: "rec = add_listener l (new_sub_record f)" and mir: "mirror patch (for_sub i ns) rec = Inr r"
    and late: "late = open_sub patch t i f l (feed patch ns ss)"
    and early: "early = feed patch ns (snd (open_sub patch t' i f l ss))"
  shows "fst late = Inr () \<and> sub_get i (snd late) = Some r \<and> sub_get i early = Some r
    \<and> heard_by l (snd late) = heard_by l ss @ heard_states patch (for_sub i ns) rec
    \<and> heard_by l early = heard_by l ss @ heard_states patch (for_sub i ns) rec"
proof -
  have only: "only_on i l ss" using assms(4) by (simp add: only_on_def)
  let ?opened = "\<lambda>ss. on_record i (add_listener l) (preRegister i f ss)"
  have ls: "sr_listeners rec = [l]" unfolding rec by (rule opened_fields(2))
  have o: "map_get (ss_subs (?opened ss)) i = Some rec" unfolding rec by (rule opened_fields(1))
  have "open_sub patch t' i f l ss = (Inr (), ?opened ss)"
    using assms(2) by (simp add: open_sub_def flushBuffered_def opened_fields)
  then have e: "sub_get i early = Some r \<and> heard_by l early = heard_by l ss @ heard_states patch (for_sub i ns) rec"
    using feed_registered [OF o ls _ mir] only opened_fields(4,5) by (simp add: early sub_get_def)
  let ?fed = "feed patch ns ss"
  have "buffered_since t0 i ss" "buffered i ss = []" using assms(2,3) by (simp_all add: buffered_since_def buffered_def)
  with feed_unregistered [OF assms(1) only _ assms(5)] have fed: "only_on i l ?fed" "buffered i ?fed = for_sub i ns"
    "heard_by l ?fed = heard_by l ss" by auto
  define q where "q = (?opened ?fed) \<lparr> ss_pending := map_delete i (ss_pending ?fed) \<rparr>"
  have q: "map_get (ss_subs q) i = Some rec" "only_on i l q" "heard_by l q = heard_by l ss"
    using opened_fields(1,4,5) fed by (simp_all add: q_def rec only_on_def heard_by_def)
  have all: "\<forall>n\<in>set (for_sub i ns). nt_sub n = i" by (simp add: for_sub_def)
  have flush: "late = (Inr (), feed patch (map (Pair t) (for_sub i ns)) q) \<or> for_sub i ns = [] \<and> late = (Inr (), ?opened ?fed)"
    using apply_entries_feed [OF all q(1) mir, of t] fed(2) unfolding late open_sub_def flushBuffered_def opened_fields(3)
    by (cases "map_get (ss_pending ?fed) i") (auto simp: buffered_def q_def)
  moreover have "fst late = Inr () \<and> sub_get i (snd late) = Some r
      \<and> heard_by l (snd late) = heard_by l ss @ heard_states patch (for_sub i ns) rec"
    if "late = (Inr (), feed patch (map (Pair t) (for_sub i ns)) q)"
    using feed_registered [OF q(1) ls q(2), of patch "map (Pair t) (for_sub i ns)" r] mir q(3) that
    by (simp add: for_sub_idem sub_get_def)
  moreover have "fst late = Inr () \<and> sub_get i (snd late) = Some r
      \<and> heard_by l (snd late) = heard_by l ss @ heard_states patch (for_sub i ns) rec"
    if "for_sub i ns = []" "late = (Inr (), ?opened ?fed)"
    using that mir opened_fields(1,4) fed(3) by (simp add: sub_get_def rec)
  ultimately show ?thesis using e by blast
qed

definition demo_snapshot :: notification where
  "demo_snapshot = \<lparr> nt_sub = ''s'', nt_kind = SnapshotKind, nt_data = Some (JNum 5), nt_patch = None, nt_events = None, nt_seq = Some ''2'' \<rparr>"

definition demo_early :: "(ms \<times> notification) list" where
  "demo_early = [(10, demo_snapshot), (20, commit_notification ''s'' CommitTombstone)]"

definition demo_record :: sub_record where
  "demo_record = \<lparr> sr_state = JNum 5, sr_lastSeq = 2, sr_reducer = None, sr_listeners = [7], sr_tombstoned = True \<rparr>"

theorem early_notifications_kept_witness:
  "sub_get ''s'' (snd (open_sub (\<lambda>s p. Inr s) 30 ''s'' None 7 (feed (\<lambda>s p. Inr s) demo_early new_sub_state))) = Some demo_record"
proof -
  have "bigint_of ''2'' = Some 2" by (simp add: bigint_of_def is_digit_def read_nat_def)
  then have "mirror (\<lambda>s p. Inr s) (for_sub ''s'' demo_early) (add_listener 7 (new_sub_record None)) = Inr demo_record"
    by (simp add: demo_early_def demo_snapshot_def demo_record_def for_sub_def add_listener_def new_sub_record_def next_record_def
      note_seq_def commit_notification_def)
  moreover have "\<forall>(t, n)\<in>set demo_early. 10 \<le> t \<and> t \<le> 10 + PENDING_TTL_MS"
    by (simp add: demo_early_def PENDING_TTL_MS_def)
  ultimately show ?thesis
    using early_notifications_kept [of new_sub_state "''s''" 7 demo_early 10 _ None "\<lambda>s p. Inr s" demo_record, OF _ _ _ _ _ refl _ refl refl]
    by (simp add: new_sub_state_def)
qed

text \<open>
  An event-sourced subscriber: after its snapshot and any commits its state is the reducer folded
  over their events, and \<open>lastSeq\<close> is the sequence number of the last.
\<close>

lemma bigint_of_show: "0 \<le> q \<Longrightarrow> bigint_of (show_int q) = Some q"
proof -
  assume q: "0 \<le> q"
  have d: "list_all is_digit (show_nat (nat q))" by (auto simp: list_all_iff intro: show_nat_digits)
  obtain c cs where s: "show_nat (nat q) = c # cs" using show_nat_nonempty list.exhaust by blast
  have "bigint_of (show_nat (nat q)) = Some (int (read_nat (show_nat (nat q))))"
    using d unfolding s bigint_of_def list.case by (simp only: if_True)
  with q show ?thesis by (simp add: show_int_def)
qed

lemma fold_events_append:
  "fold_events f (es @ es') s = (case fold_events f es s of Inl e \<Rightarrow> Inl e | Inr s' \<Rightarrow> fold_events f es' s')"
  by (induction es arbitrary: s) (auto split: sum.split)

lemma mirror_events:
  assumes "sr_reducer rec = Some f" and "\<not> sr_tombstoned rec"
    and "fold_events f (concat (map fst cs)) (sr_state rec) = Inr s" and "\<forall>c\<in>set cs. 0 \<le> snd c"
  shows "mirror patch (map (\<lambda>(es, q). commit_notification i (CommitEvents es q sv)) cs) rec =
     Inr (rec \<lparr> sr_state := s, sr_lastSeq := (if cs = [] then sr_lastSeq rec else snd (last cs)) \<rparr>)"
  using assms
proof (induction cs arbitrary: rec)
  case (Cons c cs)
  obtain es q where c: "c = (es, q)" by (cases c)
  obtain s1 where s1: "fold_events f es (sr_state rec) = Inr s1" "fold_events f (concat (map fst cs)) s1 = Inr s"
    using Cons.prems(3) by (auto simp: c fold_events_append split: sum.splits)
  let ?rec = "rec \<lparr> sr_state := s1, sr_lastSeq := q \<rparr>"
  have "next_record patch (commit_notification i (CommitEvents es q sv)) rec = Inr ?rec"
    using Cons.prems(1,4) s1(1) by (simp add: next_record_def commit_notification_def list_or_empty_def note_seq_def bigint_of_show c)
  with Cons.IH [of ?rec] Cons.prems s1(2) show ?case by (simp add: c)
qed simp

end
