(* ===== verification/OfflineQueue.thy ===== *)
theory OfflineQueue
  imports Errors "HOL-Library.List_Lexorder" "HOL-Library.Char_ord"
begin

text \<open>
  The client's queue of calls made while offline (\<open>src/client/offline-queue.ts\<close>): the memory, the
  disabled and the IndexedDB backend, the contract the client relies on as a locale, and its
  interpretations. An IndexedDB object store is a map from the key path to the value, whose
  \<open>getAll\<close> gives the values in the order of their keys.
\<close>

section \<open>Backends\<close>

record queued_call =
  qc_idempotencyKey :: string
  qc_className :: class_name
  qc_actorId :: actor_id
  qc_method :: string
  qc_args :: jsval
  qc_enqueuedAt :: ms

type_synonym memory_queue = "queued_call list"

definition mem_enqueue :: "queued_call \<Rightarrow> memory_queue \<Rightarrow> memory_queue" where
  "mem_enqueue c q = q @ [c]"

definition mem_list :: "memory_queue \<Rightarrow> queued_call list" where
  "mem_list q = q"

definition mem_remove :: "string \<Rightarrow> memory_queue \<Rightarrow> memory_queue" where
  "mem_remove k q = filter (\<lambda>e. qc_idempotencyKey e \<noteq> k) q"

text \<open>The rows of the object store \<open>offline-queue\<close>, keyed by \<open>idempotencyKey\<close>.\<close>

type_synonym idb_store = "(string, queued_call) jsmap"

definition idb_put :: "queued_call \<Rightarrow> idb_store \<Rightarrow> idb_store" where
  "idb_put c s = map_set (qc_idempotencyKey c) c s"

definition idb_getAll :: "idb_store \<Rightarrow> queued_call list" where
  "idb_getAll s = map snd (sort_key fst s)"

definition idb_list :: "idb_store \<Rightarrow> queued_call list" where
  "idb_list s = sort_key qc_enqueuedAt (idb_getAll s)"

definition idb_remove :: "string \<Rightarrow> idb_store \<Rightarrow> idb_store" where
  "idb_remove k s = map_delete k s"

datatype offline_queue = MemoryQueue memory_queue | NoopQueue | IdbQueue idb_store

definition queue_enqueue :: "queued_call \<Rightarrow> offline_queue \<Rightarrow> (error + unit) \<times> offline_queue" where
  "queue_enqueue c q = (case q of
      MemoryQueue m \<Rightarrow> (Inr (), MemoryQueue (mem_enqueue c m))
    | NoopQueue \<Rightarrow> (Inl (PlainError ''offline queue disabled''), NoopQueue)
    | IdbQueue s \<Rightarrow> (Inr (), IdbQueue (idb_put c s)))"

definition queue_list :: "offline_queue \<Rightarrow> queued_call list" where
  "queue_list q = (case q of MemoryQueue m \<Rightarrow> mem_list m | NoopQueue \<Rightarrow> [] | IdbQueue s \<Rightarrow> idb_list s)"

definition queue_remove :: "string \<Rightarrow> offline_queue \<Rightarrow> offline_queue" where
  "queue_remove k q = (case q of
      MemoryQueue m \<Rightarrow> MemoryQueue (mem_remove k m) | NoopQueue \<Rightarrow> NoopQueue | IdbQueue s \<Rightarrow> IdbQueue (idb_remove k s))"

definition queue_clear :: "offline_queue \<Rightarrow> offline_queue" where
  "queue_clear q = (case q of MemoryQueue m \<Rightarrow> MemoryQueue [] | NoopQueue \<Rightarrow> NoopQueue | IdbQueue s \<Rightarrow> IdbQueue [])"

datatype offline_queue_mode = MemoryMode | IndexedDbMode | NoneMode | BackendMode offline_queue

text \<open>\<open>idb\<close>: what the platform's store holds, when there is one.\<close>

definition makeOfflineQueue :: "idb_store option \<Rightarrow> offline_queue_mode \<Rightarrow> offline_queue" where
  "makeOfflineQueue idb mode = (case mode of
      BackendMode q \<Rightarrow> q
    | NoneMode \<Rightarrow> NoopQueue
    | IndexedDbMode \<Rightarrow> (case idb of Some s \<Rightarrow> IdbQueue s | None \<Rightarrow> MemoryQueue [])
    | MemoryMode \<Rightarrow> MemoryQueue [])"

section \<open>The contract\<close>

text \<open>
  A store of calls with a list in the order of their making: a call made later than all others,
  under a new key, goes to the end; removing a key takes just its call away.
\<close>

locale offline_backend =
  fixes put :: "queued_call \<Rightarrow> 'q \<Rightarrow> 'q"
    and items :: "'q \<Rightarrow> queued_call list"
    and remove :: "string \<Rightarrow> 'q \<Rightarrow> 'q"
    and empty_store :: 'q
    and valid :: "'q \<Rightarrow> bool"
  assumes valid_empty: "valid empty_store"
    and valid_put: "valid q \<Longrightarrow> valid (put c q)"
    and valid_remove: "valid q \<Longrightarrow> valid (remove k q)"
    and items_empty: "items empty_store = []"
    and items_put: "valid q \<Longrightarrow> \<forall>e\<in>set (items q). qc_idempotencyKey e \<noteq> qc_idempotencyKey c \<and> qc_enqueuedAt e < qc_enqueuedAt c
      \<Longrightarrow> items (put c q) = items q @ [c]"
    and items_remove: "valid q \<Longrightarrow> items (remove k q) = filter (\<lambda>e. qc_idempotencyKey e \<noteq> k) (items q)"
begin

text \<open>Calls made one after the other, under keys of their own.\<close>

definition made_in_order :: "queued_call list \<Rightarrow> bool" where
  "made_in_order cs \<longleftrightarrow> sorted_wrt (\<lambda>a b. qc_enqueuedAt a < qc_enqueuedAt b \<and> qc_idempotencyKey a \<noteq> qc_idempotencyKey b) cs"

lemma put_all:
  "made_in_order cs \<Longrightarrow> valid (fold put cs empty_store) \<and> items (fold put cs empty_store) = cs"
proof (induction cs rule: rev_induct)
  case Nil
  then show ?case by (simp add: valid_empty items_empty)
next
  case (snoc c cs)
  then show ?case by (simp add: made_in_order_def sorted_wrt_append valid_put items_put)
qed

lemma remove_all:
  "valid q \<Longrightarrow> valid (fold remove ks q) \<and> items (fold remove ks q) = filter (\<lambda>e. qc_idempotencyKey e \<notin> set ks) (items q)"
  by (induction ks arbitrary: q) (auto simp: valid_remove items_remove intro: filter_cong)

text \<open>The queue is a FIFO of the calls not yet settled.\<close>

lemma fifo:
  assumes "made_in_order cs"
  shows "items (fold remove ks (fold put cs empty_store)) = filter (\<lambda>e. qc_idempotencyKey e \<notin> set ks) cs"
  using put_all [OF assms] remove_all by simp

end

section \<open>The backends keep it\<close>

interpretation memory: offline_backend mem_enqueue mem_list mem_remove "[]" "\<lambda>_. True"
  by unfold_locales (simp_all add: mem_enqueue_def mem_list_def mem_remove_def)

definition idb_valid :: "idb_store \<Rightarrow> bool" where
  "idb_valid s \<longleftrightarrow> map_wf s \<and> list_all (\<lambda>p. qc_idempotencyKey (snd p) = fst p) s"

lemma map_set_absent: "k \<notin> fst ` set s \<Longrightarrow> map_set k v s = s @ [(k, v)]"
  by (induction s) auto

lemma idb_put_valid: "idb_valid s \<Longrightarrow> idb_valid (idb_put c s)"
proof -
  assume s: "idb_valid s"
  have "set (map_set k v s) \<subseteq> insert (k, v) (set s)" for k and v :: queued_call by (induction s) auto
  then have "set (idb_put c s) \<subseteq> insert (qc_idempotencyKey c, c) (set s)" unfolding idb_put_def .
  moreover have "map_wf (idb_put c s)" using s by (simp add: idb_valid_def idb_put_def)
  moreover have "\<forall>p\<in>insert (qc_idempotencyKey c, c) (set s). qc_idempotencyKey (snd p) = fst p"
    using s by (simp add: idb_valid_def list_all_iff)
  ultimately show ?thesis unfolding idb_valid_def list_all_iff by (meson subsetD)
qed

lemma idb_list_set: "set (idb_list s) = snd ` set s"
  by (simp add: idb_list_def idb_getAll_def)

lemma idb_list_filter:
  assumes "idb_valid s"
  shows "filter (\<lambda>e. P (qc_idempotencyKey e)) (idb_list s) = idb_list (filter (\<lambda>p. P (fst p)) s)"
proof -
  have "filter (\<lambda>p. P (qc_idempotencyKey (snd p))) s = filter (\<lambda>p. P (fst p)) s"
    using assms by (intro filter_cong) (auto simp: idb_valid_def list_all_iff)
  then show ?thesis by (simp add: idb_list_def idb_getAll_def filter_sort filter_map comp_def)
qed

lemma greatest_last:
  assumes "sorted (map f xs)" and "\<forall>x\<in>set xs. if P x then f x < m else f x = m"
  shows "xs = filter P xs @ filter (\<lambda>x. \<not> P x) xs"
  using assms
proof (induction xs)
  case (Cons x xs)
  show ?case
  proof (cases "P x")
    case False
    have "\<not> P y" if "y \<in> set xs" for y
      using Cons.prems that False by (cases "P y") fastforce+
    then have "\<forall>y\<in>set xs. \<not> P y" by blast
    with False show ?thesis by simp
  qed (use Cons in simp)
qed simp

lemma idb_list_put:
  assumes "idb_valid s"
    and new: "\<forall>e\<in>set (idb_list s). qc_idempotencyKey e \<noteq> qc_idempotencyKey c \<and> qc_enqueuedAt e < qc_enqueuedAt c"
  shows "idb_list (idb_put c s) = idb_list s @ [c]"
proof -
  let ?k = "qc_idempotencyKey c" and ?s = "idb_put c s"
  have key: "\<forall>p\<in>set s. qc_idempotencyKey (snd p) = fst p" using assms(1) by (simp add: idb_valid_def list_all_iff)
  with new have absent: "?k \<notin> fst ` set s" unfolding idb_list_set by force
  then have s: "?s = s @ [(?k, c)]" by (simp add: idb_put_def map_set_absent)
  have valid: "idb_valid ?s" by (rule idb_put_valid [OF assms(1)])
  have "filter (\<lambda>p. fst p \<noteq> ?k) s = s" using absent by (intro filter_True) force
  then have old: "filter (\<lambda>e. qc_idempotencyKey e \<noteq> ?k) (idb_list ?s) = idb_list s"
    unfolding idb_list_filter [OF valid, of "\<lambda>x. x \<noteq> ?k"] by (simp add: s)
  have "filter (\<lambda>p. fst p = ?k) s = []" using absent by (force simp: filter_empty_conv)
  then have c: "filter (\<lambda>e. \<not> qc_idempotencyKey e \<noteq> ?k) (idb_list ?s) = [c]"
    using idb_list_filter [OF valid, of "\<lambda>x. \<not> x \<noteq> ?k"] by (simp add: s) (simp add: idb_list_def idb_getAll_def)
  have "sorted (map qc_enqueuedAt (idb_list ?s))" by (simp add: idb_list_def)
  moreover have "\<forall>e\<in>set (idb_list ?s). if qc_idempotencyKey e \<noteq> ?k then qc_enqueuedAt e < qc_enqueuedAt c
      else qc_enqueuedAt e = qc_enqueuedAt c"
    using new by (auto simp: idb_list_set s)
  ultimately have "idb_list ?s = filter (\<lambda>e. qc_idempotencyKey e \<noteq> ?k) (idb_list ?s)
      @ filter (\<lambda>e. \<not> qc_idempotencyKey e \<noteq> ?k) (idb_list ?s)"
    by (rule greatest_last)
  then show ?thesis unfolding old c .
qed

lemma idb_list_remove: "idb_valid s \<Longrightarrow> idb_list (idb_remove k s) = filter (\<lambda>e. qc_idempotencyKey e \<noteq> k) (idb_list s)"
  by (simp add: idb_list_filter [where P = "\<lambda>x. x \<noteq> k"] idb_remove_def AList.delete_eq case_prod_unfold eq_commute [of k])

interpretation idb: offline_backend idb_put idb_list idb_remove "[]" idb_valid
proof
  show "idb_valid (idb_remove k s)" if "idb_valid s" for k s
    using that by (auto simp: idb_valid_def idb_remove_def list_all_iff AList.delete_eq map_wf_filter)
qed (simp_all add: idb_put_valid idb_list_put idb_list_remove, simp_all add: idb_valid_def idb_list_def idb_getAll_def)

section \<open>The database behind the IndexedDB backend\<close>

text \<open>
  The platform's database \<open>actjs-client\<close>, its version (0 before it is created) and its object stores, and the
  promise of \<open>getDb\<close>. \<open>failure\<close> is the error of an open that is attempted now, if it fails.
\<close>

record idb_connection =
  ic_version :: nat
  ic_stores :: "(string, idb_store) jsmap"
  ic_promise :: "(error + unit) option"

definition idb_upgrade :: "idb_connection \<Rightarrow> idb_connection" where
  "idb_upgrade ic = (
     if 1 \<le> ic_version ic then ic
     else ic \<lparr> ic_version := 1,
               ic_stores := (if map_has (ic_stores ic) ''offline-queue'' then ic_stores ic else map_set ''offline-queue'' [] (ic_stores ic)) \<rparr>)"

definition getDb :: "error option \<Rightarrow> idb_connection \<Rightarrow> (error + unit) \<times> idb_connection" where
  "getDb failure ic = (case ic_promise ic of
      Some r \<Rightarrow> (r, ic)
    | None \<Rightarrow> (case failure of
         Some e \<Rightarrow> (Inl e, ic \<lparr> ic_promise := Some (Inl e) \<rparr>)
       | None \<Rightarrow> (Inr (), (idb_upgrade ic) \<lparr> ic_promise := Some (Inr ()) \<rparr>)))"

text \<open>A transaction on the object store, which the platform refuses when there is none of that name.\<close>

definition idb_tx :: "error option \<Rightarrow> (idb_store \<Rightarrow> idb_store) \<Rightarrow> idb_connection \<Rightarrow> (error + idb_store) \<times> idb_connection" where
  "idb_tx failure f ic = (case getDb failure ic of
      (Inl e, ic1) \<Rightarrow> (Inl e, ic1)
    | (Inr _, ic1) \<Rightarrow> (case map_get (ic_stores ic1) ''offline-queue'' of
         None \<Rightarrow> (Inl (PlainError ''NotFoundError''), ic1)
       | Some s \<Rightarrow> (Inr (f s), ic1 \<lparr> ic_stores := map_set ''offline-queue'' (f s) (ic_stores ic1) \<rparr>)))"

definition new_connection_to :: "idb_connection \<Rightarrow> idb_connection" where
  "new_connection_to ic = ic \<lparr> ic_promise := None \<rparr>"

text \<open>
  On a new database the first transaction creates the store and runs on an empty one; what it leaves is what
  the next process finds, so that the queue survives a reload.
\<close>

theorem queue_survives_reload:
  "let ic = snd (idb_tx None (idb_put c) \<lparr> ic_version = 0, ic_stores = [], ic_promise = None \<rparr>)
   in fst (idb_tx None (\<lambda>s. s) (new_connection_to ic)) = Inr [(qc_idempotencyKey c, c)]"
  by (simp add: idb_tx_def getDb_def idb_upgrade_def new_connection_to_def idb_put_def)

text \<open>A failed open is kept: every later transaction of the process fails with it, whether the database has come back or not.\<close>

theorem failed_open_is_permanent:
  "ic_promise ic = None \<Longrightarrow>
   fst (idb_tx (Some e) g ic) = Inl e \<and> fst (idb_tx None f (snd (idb_tx (Some e) g ic))) = Inl e
   \<and> snd (idb_tx None f (snd (idb_tx (Some e) g ic))) = snd (idb_tx (Some e) g ic)"
  by (simp add: idb_tx_def getDb_def)

theorem failed_open_is_permanent_witness:
  "fst (idb_tx None (idb_remove ''k'') (snd (idb_tx (Some (PlainError ''blocked'')) (\<lambda>s. s)
     \<lparr> ic_version = 1, ic_stores = [(''offline-queue'', [])], ic_promise = None \<rparr>))) = Inl (PlainError ''blocked'')"
  using failed_open_is_permanent [of "\<lparr> ic_version = 1, ic_stores = [(''offline-queue'', [])], ic_promise = None \<rparr>"] by simp

end
