(* ===== verification/Client.thy ===== *)
theory Client
  imports ClientSubs OfflineQueue
begin

text \<open>
  The client (\<open>src/client/client.ts\<close>): calls, subscriptions and optimistic updates over one
  connection, with the queue of offline calls. What runs when a promise settles is a continuation
  kept under the request's id; continuations run one at a time, as microtasks, in the order of
  the settlements. Reducers, patches, immer and the text forms are parameters.
\<close>

section \<open>State\<close>

record active_sub =
  as_className :: class_name
  as_actorId :: actor_id
  as_subscriptionId :: string

text \<open>
  What waits for a request: a call (perhaps an optimistic one: the subscription and the inverse
  patches), a renewed subscription (its key, the old entry, the keys already done), a call of the
  offline queue and those behind it, a new subscription (class, actor, listener), nothing.
\<close>

datatype continuation =
    CallDone queued_call "(string \<times> jsval list) option"
  | ResubDone string active_sub "string list"
  | DrainDone queued_call "queued_call list"
  | SubscribeDone class_name actor_id nat
  | Ignored

record client =
  cl_net :: net
  cl_subs :: sub_state
  cl_queue :: offline_queue
  cl_reducers :: "(string, es_reducer) jsmap"
  cl_lastSeq :: "(string, int) jsmap"
  cl_activeSubs :: "(string, active_sub) jsmap"
  cl_inflight :: "(string, queued_call) jsmap"
  cl_destroyed :: bool
  cl_waiting :: "(jsval, continuation) jsmap"
  cl_handled :: nat
  cl_outcomes :: "(string \<times> (error + jsval)) list"
  cl_failedMutations :: "(queued_call \<times> error) list"

text \<open>The parameters: JSON text, sends that throw, JSON patch, \<open>applyPatches\<close> of immer.\<close>

record client_env =
  ce_ser :: "jsval \<Rightarrow> string"
  ce_parse :: "string \<Rightarrow> jsval option"
  ce_thr :: "nat \<Rightarrow> string \<Rightarrow> bool"
  ce_patch :: "jsval \<Rightarrow> jsval list \<Rightarrow> error + jsval"
  ce_immer :: "jsval \<Rightarrow> jsval list \<Rightarrow> jsval option"

definition new_client :: "transport \<Rightarrow> offline_queue \<Rightarrow> (string, es_reducer) jsmap \<Rightarrow> bool \<Rightarrow> client" where
  "new_client tr queue reducers autoConnect = (
     let n = rpc_on ''actor.event'' 0 (new_net tr) in
     \<lparr> cl_net = (if autoConnect then snd (connect n) else n), cl_subs = new_sub_state, cl_queue = queue,
       cl_reducers = reducers, cl_lastSeq = [], cl_activeSubs = [], cl_inflight = [], cl_destroyed = False,
       cl_waiting = [], cl_handled = 0, cl_outcomes = [], cl_failedMutations = [] \<rparr>)"

definition RETRYABLE_FRAMEWORK_CODES :: "string list" where
  "RETRYABLE_FRAMEWORK_CODES = [''MailboxFull'', ''SubscriberLimit'']"

text \<open>The \<open>frameworkCode\<close> of an \<open>RpcError\<close>.\<close>

definition frameworkCode :: "error \<Rightarrow> string option" where
  "frameworkCode err = (case err of
      RpcError _ _ (Some d) \<Rightarrow>
        if js_is_object d then (case js_prop d ''code'' of JStr c \<Rightarrow> Some c | _ \<Rightarrow> None) else None
    | _ \<Rightarrow> None)"

definition isPermanentFailure :: "error \<Rightarrow> bool" where
  "isPermanentFailure err = (case frameworkCode err of
      None \<Rightarrow> False
    | Some c \<Rightarrow> c \<noteq> [] \<and> c \<notin> set RETRYABLE_FRAMEWORK_CODES)"

section \<open>Requests with a continuation\<close>

definition client_request :: "client_env \<Rightarrow> string \<Rightarrow> jsval \<Rightarrow> continuation \<Rightarrow> client \<Rightarrow> client" where
  "client_request ce m params k c = (let (i, n) = request (ce_ser ce) (ce_thr ce) m params (cl_net c) in
     c \<lparr> cl_net := n, cl_waiting := map_set i k (cl_waiting c) \<rparr>)"

definition call_params :: "queued_call \<Rightarrow> jsval" where
  "call_params q = JObj [(''class'', JStr (qc_className q)), (''id'', JStr (qc_actorId q)),
     (''method'', JStr (qc_method q)), (''args'', qc_args q)]"

definition subscribe_params :: "class_name \<Rightarrow> actor_id \<Rightarrow> jsval" where
  "subscribe_params cn a = JObj [(''class'', JStr cn), (''id'', JStr a)]"

definition sub_key :: "class_name \<Rightarrow> actor_id \<Rightarrow> string" where
  "sub_key cn a = cn @ '':'' @ a"

section \<open>Calls\<close>

text \<open>
  \<open>enq\<close> is \<open>enqueueWhenOffline\<close>, \<open>opt\<close> what an optimistic call reverts. A queue that refuses the
  call rejects it at once.
\<close>

definition client_call :: "client_env \<Rightarrow> queued_call \<Rightarrow> bool \<Rightarrow> (string \<times> jsval list) option \<Rightarrow> client \<Rightarrow> client" where
  "client_call ce q enq opt c = (
     let (r, queue) = (if tr_state (ne_transport (cl_net c)) \<noteq> Open \<and> enq then queue_enqueue q (cl_queue c)
                       else (Inr (), cl_queue c)) in
     case r of
       Inl e \<Rightarrow> c \<lparr> cl_outcomes := cl_outcomes c @ [(qc_idempotencyKey q, Inl e)] \<rparr>
     | Inr _ \<Rightarrow> client_request ce ''actor.call'' (call_params q) (CallDone q opt)
         (c \<lparr> cl_queue := queue, cl_inflight := map_set (qc_idempotencyKey q) q (cl_inflight c) \<rparr>))"

text \<open>The inverse patches applied to the current state; when they do not apply nothing is done.\<close>

definition revert :: "client_env \<Rightarrow> (string \<times> jsval list) option \<Rightarrow> sub_state \<Rightarrow> sub_state" where
  "revert ce opt ss = (case opt of
      None \<Rightarrow> ss
    | Some (i, undo) \<Rightarrow> (case map_get (ss_subs ss) i of
        None \<Rightarrow> ss
      | Some rec \<Rightarrow> (case ce_immer ce (sr_state rec) undo of
          None \<Rightarrow> ss
        | Some s \<Rightarrow> ss \<lparr> ss_subs := map_set i (rec \<lparr> sr_state := s \<rparr>) (ss_subs ss),
            ss_heard := ss_heard ss @ map (\<lambda>l. (l, s)) (sr_listeners rec) \<rparr>)))"

definition report_failure :: "queued_call \<Rightarrow> error \<Rightarrow> client \<Rightarrow> client" where
  "report_failure q e c = c \<lparr> cl_queue := queue_remove (qc_idempotencyKey q) (cl_queue c),
     cl_failedMutations := cl_failedMutations c @ [(q, e)] \<rparr>"

text \<open>The \<open>catch\<close> and \<open>finally\<close> of a call, and the \<open>catch\<close> of an optimistic one.\<close>

definition call_settled :: "client_env \<Rightarrow> queued_call \<Rightarrow> (string \<times> jsval list) option \<Rightarrow> error + jsval \<Rightarrow> client \<Rightarrow> client" where
  "call_settled ce q opt r c = (
     let c1 = (case r of Inl e \<Rightarrow> if isPermanentFailure e then report_failure q e c else c | Inr _ \<Rightarrow> c);
         c2 = c1 \<lparr> cl_inflight := map_delete (qc_idempotencyKey q) (cl_inflight c1),
                   cl_queue := queue_remove (qc_idempotencyKey q) (cl_queue c1),
                   cl_outcomes := cl_outcomes c1 @ [(qc_idempotencyKey q,
                     case r of Inl e \<Rightarrow> Inl e | Inr v \<Rightarrow> Inr (js_prop v ''result''))] \<rparr>
     in (case r of Inl _ \<Rightarrow> c2 \<lparr> cl_subs := revert ce opt (cl_subs c2) \<rparr> | Inr _ \<Rightarrow> c2))"

section \<open>Reconnecting\<close>

definition drain_next :: "client_env \<Rightarrow> queued_call list \<Rightarrow> client \<Rightarrow> client" where
  "drain_next ce qs c = (case qs of
      [] \<Rightarrow> c
    | q # rest \<Rightarrow> client_request ce ''actor.call'' (call_params q) (DrainDone q rest) c)"

definition drainOfflineQueue :: "client_env \<Rightarrow> client \<Rightarrow> client" where
  "drainOfflineQueue ce c = drain_next ce (queue_list (cl_queue c)) c"

definition drain_settled :: "client_env \<Rightarrow> queued_call \<Rightarrow> queued_call list \<Rightarrow> error + jsval \<Rightarrow> client \<Rightarrow> client" where
  "drain_settled ce q rest r c = (case r of
      Inr _ \<Rightarrow> drain_next ce rest (c \<lparr> cl_queue := queue_remove (qc_idempotencyKey q) (cl_queue c) \<rparr>)
    | Inl e \<Rightarrow> if isPermanentFailure e then drain_next ce rest (report_failure q e c) else c)"

text \<open>The loop over \<open>activeSubs\<close>: the next entry not yet done, then the offline queue.\<close>

definition resub_next :: "client_env \<Rightarrow> string list \<Rightarrow> client \<Rightarrow> client" where
  "resub_next ce visited c = (case find (\<lambda>p. fst p \<notin> set visited) (cl_activeSubs c) of
      None \<Rightarrow> drainOfflineQueue ce c
    | Some (key, info) \<Rightarrow> client_request ce ''actor.subscribe'' (subscribe_params (as_className info) (as_actorId info))
        (ResubDone key info (key # visited)) c)"

definition resub_settled :: "client_env \<Rightarrow> string \<Rightarrow> active_sub \<Rightarrow> string list \<Rightarrow> error + jsval \<Rightarrow> client \<Rightarrow> client" where
  "resub_settled ce key info visited r c = resub_next ce visited (case r of
      Inr v \<Rightarrow> (case js_prop v ''subscriptionId'' of
          JStr i \<Rightarrow> c \<lparr> cl_activeSubs := map_set key (info \<lparr> as_subscriptionId := i \<rparr>) (cl_activeSubs c) \<rparr>
        | _ \<Rightarrow> c)
    | Inl _ \<Rightarrow> c)"

definition client_handleOpen :: "client_env \<Rightarrow> client \<Rightarrow> client" where
  "client_handleOpen ce c = resub_next ce [] (c \<lparr> cl_net := rpc_handleOpen (ce_thr ce) (cl_net c) \<rparr>)"

section \<open>Subscriptions\<close>

text \<open>The rejection of \<open>subscribe\<close> is its caller's.\<close>

definition subscribe_settled :: "client_env \<Rightarrow> ms \<Rightarrow> class_name \<Rightarrow> actor_id \<Rightarrow> nat \<Rightarrow> error + jsval \<Rightarrow> client \<Rightarrow> client" where
  "subscribe_settled ce t cn a l r c = (case r of
      Inl _ \<Rightarrow> c
    | Inr v \<Rightarrow> (case js_prop v ''subscriptionId'' of
        JStr i \<Rightarrow> (let (ok, ss) = open_sub (ce_patch ce) t i (map_get (cl_reducers c) cn) l (cl_subs c) in
          case ok of
            Inl _ \<Rightarrow> c \<lparr> cl_subs := ss \<rparr>
          | Inr _ \<Rightarrow> c \<lparr> cl_subs := ss, cl_activeSubs := map_set (sub_key cn a)
              \<lparr> as_className = cn, as_actorId = a, as_subscriptionId = i \<rparr> (cl_activeSubs c) \<rparr>)
      | _ \<Rightarrow> c))"

definition client_subscribe :: "client_env \<Rightarrow> class_name \<Rightarrow> actor_id \<Rightarrow> nat \<Rightarrow> client \<Rightarrow> client" where
  "client_subscribe ce cn a l = client_request ce ''actor.subscribe'' (subscribe_params cn a) (SubscribeDone cn a l)"

text \<open>The closure \<open>subscribe\<close> returned for subscription \<open>i\<close>; a record already gone has no listener.\<close>

definition client_unsubscribe :: "client_env \<Rightarrow> class_name \<Rightarrow> actor_id \<Rightarrow> string \<Rightarrow> nat \<Rightarrow> client \<Rightarrow> client" where
  "client_unsubscribe ce cn a i l c = (let c1 = c \<lparr> cl_subs := on_record i (del_listener l) (cl_subs c) \<rparr> in
     if (case map_get (ss_subs (cl_subs c1)) i of Some rec \<Rightarrow> sr_listeners rec = [] | None \<Rightarrow> True)
     then client_request ce ''actor.unsubscribe'' (JObj [(''subscriptionId'', JStr i)]) Ignored
       (c1 \<lparr> cl_subs := unregister i (cl_subs c1), cl_activeSubs := map_delete (sub_key cn a) (cl_activeSubs c1) \<rparr>)
     else c1)"

text \<open>\<open>next\<close> and the inverse patches: what \<open>produceWithPatches\<close> makes of the current state.\<close>

definition client_optimistic ::
  "client_env \<Rightarrow> queued_call \<Rightarrow> bool \<Rightarrow> (jsval \<Rightarrow> jsval \<times> jsval list) \<Rightarrow> client \<Rightarrow> (error + unit) \<times> client" where
  "client_optimistic ce q enq mutate c = (
     let q' = q \<lparr> qc_method := ''__optimistic_call__'', qc_args := JObj [] \<rparr> in
     case map_get (cl_activeSubs c) (sub_key (qc_className q) (qc_actorId q)) of
       None \<Rightarrow> (Inr (), client_call ce q' enq None c)
     | Some info \<Rightarrow> (case map_get (ss_subs (cl_subs c)) (as_subscriptionId info) of
         None \<Rightarrow> (Inl (PlainError ''no subscription record''), c)
       | Some rec \<Rightarrow>
          let (s, undo) = mutate (sr_state rec); i = as_subscriptionId info; ss = cl_subs c in
          (Inr (), client_call ce q' enq (Some (i, undo))
             (c \<lparr> cl_subs := ss \<lparr> ss_subs := map_set i (rec \<lparr> sr_state := s \<rparr>) (ss_subs ss),
                                  ss_heard := ss_heard ss @ map (\<lambda>l. (l, s)) (sr_listeners rec) \<rparr> \<rparr>))))"

section \<open>Incoming frames\<close>

definition kind_of :: "string \<Rightarrow> subscriber_kind option" where
  "kind_of s = map_get [(''snapshot'', SnapshotKind), (''patch'', PatchKind), (''event'', EventKind), (''tombstone'', TombstoneKind)] s"

definition elements :: "jsval \<Rightarrow> jsval list option" where
  "elements v = (case v of JArr vs \<Rightarrow> Some vs | _ \<Rightarrow> None)"

text \<open>The parameters of an \<open>actor.event\<close>, read as the wire type says; other values are none.\<close>

definition notification_of :: "jsval \<Rightarrow> notification option" where
  "notification_of p = (case (js_prop p ''subscriptionId'', js_prop p ''kind'') of
      (JStr i, JStr ks) \<Rightarrow> (case kind_of ks of
          None \<Rightarrow> None
        | Some k \<Rightarrow> Some \<lparr> nt_sub = i, nt_kind = k,
            nt_data = (case js_prop p ''data'' of JUndefined \<Rightarrow> None | d \<Rightarrow> Some d),
            nt_patch = elements (js_prop p ''patch''), nt_events = elements (js_prop p ''events''),
            nt_seq = (case js_prop p ''seq'' of JStr s \<Rightarrow> Some s | _ \<Rightarrow> None) \<rparr>)
    | _ \<Rightarrow> None)"

definition handleActorEvent :: "client_env \<Rightarrow> ms \<Rightarrow> notification \<Rightarrow> client \<Rightarrow> client" where
  "handleActorEvent ce t n c = (case apply_notification (ce_patch ce) t n (cl_subs c) of
      (Inl e, ss) \<Rightarrow> c \<lparr> cl_subs := ss \<rparr>
    | (Inr _, ss) \<Rightarrow> (let c1 = c \<lparr> cl_subs := ss \<rparr> in
        case Option.bind (nt_seq n) bigint_of of
          None \<Rightarrow> c1
        | Some q \<Rightarrow> (case find (\<lambda>p. as_subscriptionId (snd p) = nt_sub n) (cl_activeSubs c) of
            None \<Rightarrow> c1
          | Some (key, info) \<Rightarrow> c1 \<lparr> cl_lastSeq := map_set key q (cl_lastSeq c1) \<rparr>)))"

definition client_message :: "client_env \<Rightarrow> ms \<Rightarrow> string \<Rightarrow> client \<Rightarrow> client" where
  "client_message ce t text c = (let n = ingest (ce_parse ce) text (cl_net c);
       events = drop (length (ne_notified (cl_net c))) (ne_notified n) in
     foldl (\<lambda>c p. case notification_of (snd p) of Some nt \<Rightarrow> handleActorEvent ce t nt c | None \<Rightarrow> c) (c \<lparr> cl_net := n \<rparr>) events)"

section \<open>The event loop\<close>

definition continue_with :: "client_env \<Rightarrow> ms \<Rightarrow> continuation \<Rightarrow> error + jsval \<Rightarrow> client \<Rightarrow> client" where
  "continue_with ce t k r c = (case k of
      CallDone q opt \<Rightarrow> call_settled ce q opt r c
    | ResubDone key info visited \<Rightarrow> resub_settled ce key info visited r c
    | DrainDone q rest \<Rightarrow> drain_settled ce q rest r c
    | SubscribeDone cn a l \<Rightarrow> subscribe_settled ce t cn a l r c
    | Ignored \<Rightarrow> c)"

text \<open>The continuation of the first settled promise whose continuation has not run.\<close>

definition microtask :: "client_env \<Rightarrow> ms \<Rightarrow> client \<Rightarrow> client" where
  "microtask ce t c = (
     if cl_handled c < length (ne_settled (cl_net c)) then
       (let (i, r) = ne_settled (cl_net c) ! cl_handled c; c1 = c \<lparr> cl_handled := cl_handled c + 1 \<rparr> in
        case map_get (cl_waiting c) i of
          None \<Rightarrow> c1
        | Some k \<Rightarrow> continue_with ce t k r (c1 \<lparr> cl_waiting := map_delete i (cl_waiting c1) \<rparr>))
     else c)"

definition client_close :: "client \<Rightarrow> client" where
  "client_close c = (if cl_destroyed c then c
     else c \<lparr> cl_destroyed := True, cl_net := rejectAll (PlainError ''client closed'') (transport_destroy (cl_net c)),
              cl_subs := subs_clear (cl_subs c) \<rparr>)"

datatype client_op =
    Call queued_call bool
  | Subscribe class_name actor_id nat
  | Unsubscribe class_name actor_id string nat
  | Optimistic queued_call bool "jsval \<Rightarrow> jsval \<times> jsval list"
  | Frame ms string
  | Opened
  | Dropped nat rat
  | Timer
  | Microtask ms
  | CloseClient

definition client_step :: "client_env \<Rightarrow> client_op \<Rightarrow> client \<Rightarrow> client" where
  "client_step ce op c = (case op of
      Call q enq \<Rightarrow> client_call ce q enq None c
    | Subscribe cn a l \<Rightarrow> client_subscribe ce cn a l c
    | Unsubscribe cn a i l \<Rightarrow> client_unsubscribe ce cn a i l c
    | Optimistic q enq mutate \<Rightarrow> snd (client_optimistic ce q enq mutate c)
    | Frame t text \<Rightarrow> client_message ce t text c
    | Opened \<Rightarrow> if tr_state (ne_transport (cl_net c)) = Connecting
        then client_handleOpen ce (c \<lparr> cl_net := transport_open (ce_thr ce) (cl_net c) \<rparr>) else c
    | Dropped code rnd \<Rightarrow> if tr_socket (ne_transport (cl_net c)) = None then c
        else c \<lparr> cl_net := (let (wasOpen, n) = transport_close rnd code (cl_net c) in if wasOpen then rpc_handleClose n else n) \<rparr>
    | Timer \<Rightarrow> if tr_timer (ne_transport (cl_net c)) = None then c else c \<lparr> cl_net := timer_fires (cl_net c) \<rparr>
    | Microtask t \<Rightarrow> microtask ce t c
    | CloseClient \<Rightarrow> client_close c)"

fun client_run :: "client_env \<Rightarrow> client_op list \<Rightarrow> client \<Rightarrow> client" where
  "client_run ce [] c = c"
| "client_run ce (op # ops) c = client_run ce ops (client_step ce op c)"

section \<open>Calls and their outcomes\<close>

text \<open>The requests whose continuation has still to run: pending, or settled and not yet handled.\<close>

definition tracked :: "net \<Rightarrow> nat \<Rightarrow> jsval set" where
  "tracked n k = fst ` set (rp_pending (ne_rpc n)) \<union> fst ` set (drop k (ne_settled n))"

definition client_inv :: "client \<Rightarrow> bool" where
  "client_inv c \<longleftrightarrow> net_inv (cl_net c) \<and> map_wf (cl_waiting c) \<and> cl_handled c \<le> length (ne_settled (cl_net c))
     \<and> fst ` set (cl_waiting c) = tracked (cl_net c) (cl_handled c)"

definition cont_keys :: "continuation \<Rightarrow> string list" where
  "cont_keys k = (case k of CallDone q _ \<Rightarrow> [qc_idempotencyKey q] | _ \<Rightarrow> [])"

text \<open>The keys of the calls in progress, and of those reported or in progress.\<close>

definition calls_waiting :: "client \<Rightarrow> string multiset" where
  "calls_waiting c = (\<Sum>p \<leftarrow> cl_waiting c. mset (cont_keys (snd p)))"

definition calls_made :: "client \<Rightarrow> string multiset" where
  "calls_made c = mset (map fst (cl_outcomes c)) + calls_waiting c"

lemma request_effect:
  assumes "net_inv n" and "\<forall>k f. \<not> thr k f" and "request ser thr m ps n = (i, n')"
  shows "i \<notin> request_ids n" "net_inv n'" "ne_settled n' = ne_settled n"
    "fst ` set (rp_pending (ne_rpc n')) = insert i (fst ` set (rp_pending (ne_rpc n)))"
proof -
  let ?i = "JNum (int (rp_next (ne_rpc n)))"
  have i: "i = ?i" using assms(3) by (simp add: request_def Let_def)
  show "i \<notin> request_ids n" by (auto simp: i request_ids_def)
  show inv: "net_inv n'" using net_inv_request [OF assms(1,2)] assms(3) by (metis snd_conv)
  let ?r = "(ne_rpc n) \<lparr> rp_next := rp_next (ne_rpc n) + 1,
      rp_pending := map_set i \<lparr> pq_frame = ser (request_frame i m ps) \<rparr> (rp_pending (ne_rpc n)) \<rparr>"
  obtain x n1 where send: "transport_send thr (ser (request_frame i m ps)) (n \<lparr> ne_rpc := ?r \<rparr>) = (x, n1)"
    by (cases "transport_send thr (ser (request_frame i m ps)) (n \<lparr> ne_rpc := ?r \<rparr>)")
  have "on_wire (ne_transport (n \<lparr> ne_rpc := ?r \<rparr>)) (ne_rpc n) (ne_wire (n \<lparr> ne_rpc := ?r \<rparr>))"
    using assms(1) by (simp add: net_inv_split)
  from send_on_wire [OF this assms(2) send, of ?r i] have "x = Inr ()" by (simp add: set_map_set_sub)
  with send assms(3) i have "n1 = n'" by (simp add: request_def Let_def on_rpc_def)
  then have n': "ne_rpc n' = ?r" "ne_settled n' = ne_settled n" using transport_send_frame [OF send] by simp_all
  show "ne_settled n' = ne_settled n" by (rule n')
  show "fst ` set (rp_pending (ne_rpc n')) = insert i (fst ` set (rp_pending (ne_rpc n)))"
    by (auto simp: n' update_conv' simp flip: dom_map_of_conv_image_fst)
qed

text \<open>A step that neither makes nor forgets a request.\<close>

definition quiet :: "net \<Rightarrow> net \<Rightarrow> bool" where
  "quiet n n' \<longleftrightarrow> net_inv n' \<and> length (ne_settled n) \<le> length (ne_settled n')
     \<and> (\<forall>k \<le> length (ne_settled n). tracked n' k = tracked n k)"

lemma quiet_same:
  assumes "net_inv n'" and "rp_pending (ne_rpc n') = rp_pending (ne_rpc n)" and "ne_settled n' = ne_settled n"
  shows "quiet n n'"
  using assms by (simp add: quiet_def tracked_def)

lemma quiet_ingest:
  assumes "net_inv n"
  shows "quiet n (ingest parse text n)"
proof -
  have set: "fst ` set (map_delete i m) = fst ` set m - {i}" for i and m :: "(jsval, pending_request) jsmap"
    by (simp add: delete_keys)
  show ?thesis
  proof (cases "ne_settled (ingest parse text n) = ne_settled n")
    case True
    moreover from this have "rp_pending (ne_rpc (ingest parse text n)) = rp_pending (ne_rpc n)"
      by (auto simp: ingest_def Let_def settle_promise_def on_rpc_def split: option.splits if_splits jsval.splits)
    ultimately show ?thesis using net_inv_ingest [OF assms] by (simp add: quiet_same)
  next
    case False
    then obtain i r where i: "map_has (rp_pending (ne_rpc n)) i"
      "rp_pending (ne_rpc (ingest parse text n)) = map_delete i (rp_pending (ne_rpc n))"
      "ne_settled (ingest parse text n) = ne_settled n @ [(i, r)]"
      by (auto simp: ingest_def Let_def settle_promise_def on_rpc_def split: option.splits if_splits jsval.splits)
    then have "i \<in> fst ` set (rp_pending (ne_rpc n))" by (simp add: map_of_eq_None_iff)
    with i(2,3) net_inv_ingest [OF assms] show ?thesis by (auto simp: quiet_def tracked_def set)
  qed
qed

lemma client_inv_quiet:
  assumes "client_inv c" and "quiet (cl_net c) n'"
  shows "client_inv (c \<lparr> cl_net := n' \<rparr>)"
  using assms by (auto simp: client_inv_def quiet_def)

lemma client_inv_request:
  assumes "client_inv c" and "\<forall>k f. \<not> ce_thr ce k f"
  shows "client_inv (client_request ce m ps k c)" "calls_made (client_request ce m ps k c) = calls_made c + mset (cont_keys k)"
proof -
  obtain i n' where r: "request (ce_ser ce) (ce_thr ce) m ps (cl_net c) = (i, n')"
    by (cases "request (ce_ser ce) (ce_thr ce) m ps (cl_net c)")
  have inv: "net_inv (cl_net c)" using assms(1) by (simp add: client_inv_def)
  note e = request_effect [OF inv assms(2) r]
  have "tracked (cl_net c) (cl_handled c) \<subseteq> request_ids (cl_net c)"
    using net_invD(4) [OF inv] set_drop_subset [of "cl_handled c" "ne_settled (cl_net c)"] unfolding tracked_def by blast
  with e(1) assms(1) have new: "i \<notin> fst ` set (cl_waiting c)" by (auto simp: client_inv_def)
  then have w: "map_set i k (cl_waiting c) = cl_waiting c @ [(i, k)]" by (rule map_set_absent)
  show "client_inv (client_request ce m ps k c)"
    using assms(1) e new by (auto simp: client_request_def r client_inv_def w tracked_def map_wf_def)
  show "calls_made (client_request ce m ps k c) = calls_made c + mset (cont_keys k)"
    by (simp add: client_request_def r calls_made_def calls_waiting_def w)
qed

text \<open>The fields a continuation changes besides the ones above.\<close>

definition same_calls :: "client \<Rightarrow> client \<Rightarrow> bool" where
  "same_calls c c' \<longleftrightarrow> cl_net c' = cl_net c \<and> cl_waiting c' = cl_waiting c \<and> cl_handled c' = cl_handled c
     \<and> cl_outcomes c' = cl_outcomes c"

lemma same_calls_inv: "same_calls c c' \<Longrightarrow> client_inv c' = client_inv c \<and> calls_made c' = calls_made c"
  by (simp add: same_calls_def client_inv_def calls_made_def calls_waiting_def)

lemma sum_map_delete:
  fixes f :: "'k \<times> 'v \<Rightarrow> 'b::comm_monoid_add"
  assumes "map_wf w" and "map_get w i = Some k"
  shows "(\<Sum>p\<leftarrow>w. f p) = f (i, k) + (\<Sum>p\<leftarrow>map_delete i w. f p)"
  using assms
proof (induction w)
  case (Cons p w)
  obtain j v where p: "p = (j, v)" by (cases p)
  show ?case
  proof (cases "j = i")
    case True
    then have "map_delete i w = w" using Cons.prems(1) unfolding AList.delete_eq
      by (intro filter_True) (force simp: p map_wf_def)
    with True Cons.prems(2) show ?thesis by (simp add: p)
  next
    case False
    with Cons.IH Cons.prems show ?thesis by (simp add: p map_wf_def add.left_commute)
  qed
qed simp

lemma same_calls_refl [simp]: "same_calls c c"
  by (simp add: same_calls_def)

text \<open>What all continuations but that of a call keep.\<close>

definition keeps :: "client \<Rightarrow> client \<Rightarrow> bool" where
  "keeps c c' \<longleftrightarrow> (client_inv c \<longrightarrow> client_inv c' \<and> calls_made c' = calls_made c)"

lemma keeps_same: "same_calls c c' \<Longrightarrow> keeps c c'"
  by (simp add: keeps_def same_calls_inv)

lemma keeps_request: "\<forall>k f. \<not> ce_thr ce k f \<Longrightarrow> same_calls c0 c \<Longrightarrow> cont_keys k = [] \<Longrightarrow> keeps c0 (client_request ce m ps k c)"
  by (simp add: keeps_def client_inv_request same_calls_inv)

lemma keeps_drain: "\<forall>k f. \<not> ce_thr ce k f \<Longrightarrow> same_calls c0 c \<Longrightarrow> keeps c0 (drain_next ce qs c)"
  by (auto simp: drain_next_def keeps_same cont_keys_def intro: keeps_request split: list.split)

lemma keeps_resub: "\<forall>k f. \<not> ce_thr ce k f \<Longrightarrow> same_calls c0 c \<Longrightarrow> keeps c0 (resub_next ce vs c)"
  by (auto simp: resub_next_def drainOfflineQueue_def keeps_drain cont_keys_def intro: keeps_request split: option.split)

lemma keeps_continue:
  assumes "\<forall>k f. \<not> ce_thr ce k f" and "cont_keys k = []"
  shows "keeps c (continue_with ce t k r c)"
proof (cases k)
  case (ResubDone key info vs)
  have "keeps c (resub_settled ce key info vs r c)"
    unfolding resub_settled_def
    by (rule keeps_resub [OF assms(1)]) (simp add: same_calls_def split: sum.split jsval.split)
  then show ?thesis by (simp add: continue_with_def ResubDone)
next
  case (DrainDone q rest)
  have "keeps c (drain_settled ce q rest r c)"
    by (auto simp: drain_settled_def report_failure_def keeps_same same_calls_def intro!: keeps_drain assms(1) split: sum.split)
  then show ?thesis by (simp add: continue_with_def DrainDone)
next
  case (SubscribeDone cn a l)
  then show ?thesis
    by (intro keeps_same) (simp add: continue_with_def subscribe_settled_def same_calls_def Let_def split: sum.split jsval.split prod.split)
qed (use assms(2) in \<open>simp_all add: continue_with_def keeps_same cont_keys_def\<close>)

lemma call_settled_keeps:
  assumes "client_inv c"
  shows "client_inv (call_settled ce q opt r c)"
    "calls_made (call_settled ce q opt r c) = calls_made c + {#qc_idempotencyKey q#}"
  using assms
  by (auto simp: call_settled_def report_failure_def client_inv_def calls_made_def calls_waiting_def Let_def split: sum.split)

lemma client_inv_microtask:
  assumes "client_inv c" and "\<forall>k f. \<not> ce_thr ce k f"
  shows "client_inv (microtask ce t c) \<and> calls_made (microtask ce t c) = calls_made c"
proof (cases "cl_handled c < length (ne_settled (cl_net c))")
  case False
  with assms(1) show ?thesis by (simp add: microtask_def)
next
  case True
  obtain i r where ir: "ne_settled (cl_net c) ! cl_handled c = (i, r)" by (cases "ne_settled (cl_net c) ! cl_handled c")
  let ?s = "ne_settled (cl_net c)" and ?h = "cl_handled c"
  have inv: "net_inv (cl_net c)" "map_wf (cl_waiting c)" "fst ` set (cl_waiting c) = tracked (cl_net c) ?h"
    using assms(1) by (simp_all add: client_inv_def)
  have d: "drop ?h ?s = (i, r) # drop (Suc ?h) ?s" using True by (simp add: Cons_nth_drop_Suc ir [symmetric])
  have "distinct (map fst (drop ?h ?s))" using distinct_drop [OF net_invD(2) [OF inv(1)]] by (simp add: drop_map)
  moreover have "i \<in> fst ` set ?s" using True ir by (metis fst_conv image_eqI nth_mem)
  ultimately have t: "tracked (cl_net c) (Suc ?h) = tracked (cl_net c) ?h - {i}"
    using net_invD(5) [OF inv(1)] unfolding tracked_def d by auto
  have "i \<in> fst ` set (cl_waiting c)" unfolding inv(3) tracked_def d by simp
  then obtain k where k: "map_get (cl_waiting c) i = Some k"
    by (metis map_of_eq_None_iff not_None_eq)
  let ?c = "c \<lparr> cl_handled := Suc ?h, cl_waiting := map_delete i (cl_waiting c) \<rparr>"
  have m: "microtask ce t c = continue_with ce t k r ?c" using True by (simp add: microtask_def ir k)
  have c: "client_inv ?c" using inv t True by (simp add: client_inv_def delete_keys)
  have made: "calls_made c = calls_made ?c + mset (cont_keys k)"
    by (simp add: calls_made_def calls_waiting_def sum_map_delete [OF inv(2) k])
  show ?thesis
  proof (cases k)
    case (CallDone q opt)
    then show ?thesis using call_settled_keeps [OF c, of ce q opt r] made by (simp add: m continue_with_def cont_keys_def)
  qed (use keeps_continue [OF assms(2), of k ?c t r] c made in \<open>simp_all add: m keeps_def cont_keys_def\<close>)
qed

text \<open>The calls an operation makes: those the queue refuses are reported too.\<close>

definition made_by :: "client_env \<Rightarrow> client_op \<Rightarrow> client \<Rightarrow> string multiset" where
  "made_by ce op c = (case op of
      Call q _ \<Rightarrow> {#qc_idempotencyKey q#}
    | Optimistic q enq mutate \<Rightarrow> (case fst (client_optimistic ce q enq mutate c) of Inr _ \<Rightarrow> {#qc_idempotencyKey q#} | Inl _ \<Rightarrow> {#})
    | _ \<Rightarrow> {#})"

fun made_in :: "client_env \<Rightarrow> client_op list \<Rightarrow> client \<Rightarrow> string multiset" where
  "made_in ce [] c = {#}"
| "made_in ce (op # ops) c = made_by ce op c + made_in ce ops (client_step ce op c)"

lemma client_call_keeps:
  assumes "client_inv c" and "\<forall>k f. \<not> ce_thr ce k f"
  shows "client_inv (client_call ce q enq opt c)
    \<and> calls_made (client_call ce q enq opt c) = calls_made c + {#qc_idempotencyKey q#}"
proof -
  have req: "client_inv (client_request ce m ps (CallDone q opt) c') \<and>
      calls_made (client_request ce m ps (CallDone q opt) c') = calls_made c + {#qc_idempotencyKey q#}"
    if "same_calls c c'" for m ps c'
    using client_inv_request [OF _ assms(2), of c'] same_calls_inv [OF that] assms(1) by (simp add: cont_keys_def)
  obtain r queue where rq: "(if tr_state (ne_transport (cl_net c)) \<noteq> Open \<and> enq then queue_enqueue q (cl_queue c)
      else (Inr (), cl_queue c)) = (r, queue)"
    by (cases "if tr_state (ne_transport (cl_net c)) \<noteq> Open \<and> enq then queue_enqueue q (cl_queue c) else (Inr (), cl_queue c)")
  show ?thesis
  proof (cases r)
    case (Inl e)
    with assms(1) show ?thesis
      unfolding client_call_def rq by (simp add: client_inv_def calls_made_def calls_waiting_def)
  next
    case (Inr u)
    then show ?thesis unfolding client_call_def rq by (simp add: req same_calls_def)
  qed
qed

lemma client_inv_subs:
  "client_inv (c \<lparr> cl_subs := ss \<rparr>) = client_inv c" "calls_made (c \<lparr> cl_subs := ss \<rparr>) = calls_made c"
  by (rule same_calls_inv [THEN conjunct1] same_calls_inv [THEN conjunct2], simp add: same_calls_def)+

lemma keeps_net:
  assumes "client_inv c" and "quiet (cl_net c) n'"
  shows "client_inv (c \<lparr> cl_net := n' \<rparr>) \<and> calls_made (c \<lparr> cl_net := n' \<rparr>) = calls_made c"
  using client_inv_quiet [OF assms] by (simp add: calls_made_def calls_waiting_def)

lemma same_calls_trans: "same_calls a b \<Longrightarrow> same_calls b c \<Longrightarrow> same_calls a c"
  by (simp add: same_calls_def)

lemma same_calls_event: "same_calls c (handleActorEvent ce t n c)"
  by (auto simp: handleActorEvent_def same_calls_def Let_def split: prod.split sum.split option.split)

lemma same_calls_events:
  "same_calls c (foldl (\<lambda>c p. case notification_of (snd p) of Some nt \<Rightarrow> handleActorEvent ce t nt c | None \<Rightarrow> c) c es)"
  by (induction es arbitrary: c) (auto intro: same_calls_trans [OF same_calls_event] split: option.split)

lemma client_message_keeps:
  assumes "client_inv c"
  shows "client_inv (client_message ce t text c) \<and> calls_made (client_message ce t text c) = calls_made c"
proof -
  have "net_inv (cl_net c)" using assms by (simp add: client_inv_def)
  from keeps_net [OF assms quiet_ingest [OF this]] show ?thesis
    unfolding client_message_def Let_def
    by (simp only: same_calls_inv [OF same_calls_events, THEN conjunct1] same_calls_inv [OF same_calls_events, THEN conjunct2])
qed

lemma client_unsubscribe_keeps:
  assumes "client_inv c" and "\<forall>k f. \<not> ce_thr ce k f"
  shows "client_inv (client_unsubscribe ce cn a i l c) \<and> calls_made (client_unsubscribe ce cn a i l c) = calls_made c"
proof -
  have "same_calls c (c \<lparr> cl_subs := x \<rparr>)" "same_calls c (c \<lparr> cl_subs := x, cl_activeSubs := y \<rparr>)" for x y
    by (simp_all add: same_calls_def)
  then have "keeps c (client_unsubscribe ce cn a i l c)"
    by (simp add: client_unsubscribe_def Let_def cont_keys_def keeps_request [OF assms(2)] keeps_same)
  with assms(1) show ?thesis by (simp add: keeps_def)
qed

lemma client_optimistic_keeps:
  assumes "client_inv c" and "\<forall>k f. \<not> ce_thr ce k f"
  shows "client_inv (snd (client_optimistic ce q enq mutate c))
    \<and> calls_made (snd (client_optimistic ce q enq mutate c)) = calls_made c + made_by ce (Optimistic q enq mutate) c"
proof -
  have "client_inv (client_call ce (q \<lparr> qc_method := m, qc_args := ps \<rparr>) enq opt c')
      \<and> calls_made (client_call ce (q \<lparr> qc_method := m, qc_args := ps \<rparr>) enq opt c') = calls_made c + {#qc_idempotencyKey q#}"
    if "same_calls c c'" for m ps opt c'
    using client_call_keeps [OF _ assms(2), of c'] same_calls_inv [OF that] assms(1) by simp
  then show ?thesis
    using assms(1)
    by (auto simp: client_optimistic_def made_by_def Let_def same_calls_def split: option.split prod.split)
qed

lemma opened_net:
  assumes "\<forall>k f. \<not> thr k f" and "tr_socket (ne_transport n) = Some k"
  shows "ne_rpc (rpc_handleOpen thr (transport_open thr n)) = (ne_rpc n) \<lparr> rp_open := True \<rparr>"
    "ne_settled (rpc_handleOpen thr (transport_open thr n)) = ne_settled n"
  using assms unfolding rpc_handleOpen_def
  by (subst send_all_open [OF assms(1), of _ k]; simp add: transport_open_def Let_def drain_all on_rpc_def)+

lemma client_step_keeps:
  assumes "client_inv c" and "\<forall>k f. \<not> ce_thr ce k f" and "op \<noteq> CloseClient"
  shows "client_inv (client_step ce op c) \<and> calls_made (client_step ce op c) = calls_made c + made_by ce op c"
proof -
  have net: "net_inv (cl_net c)" using assms(1) by (simp add: client_inv_def)
  show ?thesis
  proof (cases op)
    case (Subscribe cn a l)
    with keeps_request [OF assms(2) same_calls_refl, of "SubscribeDone cn a l" c] assms(1) show ?thesis
      by (simp add: client_step_def client_subscribe_def made_by_def keeps_def cont_keys_def)
  next
    case Opened
    show ?thesis
    proof (cases "tr_state (ne_transport (cl_net c)) = Connecting")
      case True
      let ?n = "rpc_handleOpen (ce_thr ce) (transport_open (ce_thr ce) (cl_net c))"
      obtain k where k: "tr_socket (ne_transport (cl_net c)) = Some k" using net_invD(6) [OF net True] by blast
      have "rp_pending (ne_rpc ?n) = rp_pending (ne_rpc (cl_net c))" "ne_settled ?n = ne_settled (cl_net c)"
        by (simp_all add: opened_net [OF assms(2) k])
      with net_inv_opens [OF net assms(2) True] have "quiet (cl_net c) ?n" by (intro quiet_same)
      from keeps_net [OF assms(1) this] keeps_resub [OF assms(2) same_calls_refl, of "c \<lparr> cl_net := ?n \<rparr>" "[]"] show ?thesis
        by (simp add: client_step_def Opened True client_handleOpen_def made_by_def keeps_def)
    qed (use assms(1) in \<open>simp add: client_step_def Opened made_by_def\<close>)
  next
    case (Dropped code rnd)
    let ?n = "let (wasOpen, n) = transport_close rnd code (cl_net c) in if wasOpen then rpc_handleClose n else n"
    have "quiet (cl_net c) ?n"
      using net_inv_closes [OF net, of rnd code]
      by (intro quiet_same)
         (auto simp: transport_close_def Let_def rpc_handleClose_def on_rpc_def on_tr_def scheduleReconnect_def)
    from keeps_net [OF assms(1) this] assms(1) show ?thesis by (simp add: client_step_def Dropped made_by_def)
  next
    case Timer
    have "quiet (cl_net c) (timer_fires (cl_net c))"
      using net_inv_timer [OF net] by (intro quiet_same) (auto simp: timer_fires_def Let_def on_tr_def connect_def)
    from keeps_net [OF assms(1) this] assms(1) show ?thesis by (simp add: client_step_def Timer made_by_def)
  qed (use assms client_call_keeps [OF assms(1,2)] client_unsubscribe_keeps [OF assms(1,2)] client_message_keeps [OF assms(1)]
        client_optimistic_keeps [OF assms(1,2)] client_inv_microtask [OF assms(1,2)]
        in \<open>simp_all add: client_step_def made_by_def\<close>)
qed

lemma client_run_keeps:
  "client_inv c \<Longrightarrow> \<forall>k f. \<not> ce_thr ce k f \<Longrightarrow> CloseClient \<notin> set ops \<Longrightarrow>
     client_inv (client_run ce ops c) \<and> calls_made (client_run ce ops c) = calls_made c + made_in ce ops c"
proof (induction ops arbitrary: c)
  case (Cons op ops)
  then have "op \<noteq> CloseClient" by auto
  with Cons client_step_keeps [OF Cons.prems(1,2) this] show ?case by (simp add: add.assoc)
qed simp

lemma client_inv_new: "client_inv (new_client (new_transport ar b m) queue reducers auto)"
  and calls_made_new: "calls_made (new_client tr queue reducers auto) = {#}"
proof -
  have "net_inv (rpc_on e l (new_net (new_transport ar b m)))" for e l
    using net_inv_new [of ar b m] by (simp add: net_inv_split promises_inv_def on_wire_def rpc_on_def on_rpc_def Let_def)
  then show "client_inv (new_client (new_transport ar b m) queue reducers auto)"
    by (auto simp: new_client_def client_inv_def tracked_def Let_def connect_def rpc_on_def on_rpc_def new_net_def new_rpc_def
          new_transport_def net_inv_split promises_inv_def on_wire_def)
  show "calls_made (new_client tr queue reducers auto) = {#}"
    by (simp add: new_client_def calls_made_def calls_waiting_def Let_def)
qed

section \<open>Properties\<close>

text \<open>
  C33. While sends do not throw, every call made is reported exactly once or is still in progress,
  whatever connections, drops, frames and microtasks come in between; a call in progress waits for
  a pending request or for its microtask, so that when neither is left all calls have been
  reported. Closing the client settles all that is pending.
\<close>

theorem calls_reported_once:
  assumes thr: "\<forall>k f. \<not> ce_thr ce k f" and "CloseClient \<notin> set ops"
    and c: "c = client_run ce ops (new_client (new_transport ar b m) queue reducers auto)"
  shows "mset (map fst (cl_outcomes c)) + calls_waiting c
      = made_in ce ops (new_client (new_transport ar b m) queue reducers auto)
    \<and> (\<forall>i k. map_get (cl_waiting c) i = Some k \<longrightarrow>
         map_has (rp_pending (ne_rpc (cl_net c))) i \<or> i \<in> fst ` set (drop (cl_handled c) (ne_settled (cl_net c))))
    \<and> (rp_pending (ne_rpc (cl_net c)) = [] \<and> cl_handled c = length (ne_settled (cl_net c)) \<longrightarrow>
         mset (map fst (cl_outcomes c)) = made_in ce ops (new_client (new_transport ar b m) queue reducers auto))
    \<and> (\<not> cl_destroyed c \<longrightarrow> rp_pending (ne_rpc (cl_net (client_close c))) = [] \<and> cl_waiting (client_close c) = cl_waiting c
         \<and> fst ` set (cl_waiting c) = fst ` set (drop (cl_handled c) (ne_settled (cl_net (client_close c)))))"
proof -
  let ?new = "new_client (new_transport ar b m) queue reducers auto"
  have run: "client_inv c" "calls_made c = made_in ce ops ?new"
    using client_run_keeps [OF client_inv_new thr assms(2)] by (simp_all add: c calls_made_new)
  have w: "fst ` set (cl_waiting c) = tracked (cl_net c) (cl_handled c)" "cl_handled c \<le> length (ne_settled (cl_net c))"
    using run(1) by (simp_all add: client_inv_def)
  have made: "mset (map fst (cl_outcomes c)) + calls_waiting c = made_in ce ops ?new"
    using run(2) by (simp only: calls_made_def)
  have "map_has (rp_pending (ne_rpc (cl_net c))) i \<or> i \<in> fst ` set (drop (cl_handled c) (ne_settled (cl_net c)))"
    if "map_get (cl_waiting c) i = Some k" for i k
  proof -
    have "i \<in> fst ` set (cl_waiting c)" using map_get_in_set [OF that] by force
    then show ?thesis unfolding w(1) tracked_def by (auto simp: map_of_eq_None_iff)
  qed
  moreover have "calls_waiting c = {#}"
    if "rp_pending (ne_rpc (cl_net c)) = []" "cl_handled c = length (ne_settled (cl_net c))"
    using w(1) that by (simp add: tracked_def calls_waiting_def)
  moreover have "rp_pending (ne_rpc (cl_net (client_close c))) = [] \<and> cl_waiting (client_close c) = cl_waiting c
      \<and> fst ` set (cl_waiting c) = fst ` set (drop (cl_handled c) (ne_settled (cl_net (client_close c))))"
    if "\<not> cl_destroyed c"
    using that w by (simp add: client_close_def rejectAll_def transport_destroy_def on_tr_def tracked_def image_Un image_image Un_commute)
  ultimately show ?thesis using made by (metis add_cancel_left_right)
qed

definition demo_env :: client_env where
  "demo_env = \<lparr> ce_ser = (\<lambda>v. ''q''), ce_parse = demo_parse, ce_thr = (\<lambda>_ _. False), ce_patch = (\<lambda>s p. Inr s),
     ce_immer = (\<lambda>s p. None) \<rparr>"

definition demo_call :: queued_call where
  "demo_call = \<lparr> qc_idempotencyKey = ''k'', qc_className = ''Room'', qc_actorId = ''r1'', qc_method = ''enter'',
     qc_args = JObj [], qc_enqueuedAt = 0 \<rparr>"

lemmas client_eval = client_step_def client_call_def client_request_def new_client_def rpc_on_def on_rpc_def new_net_def
  new_rpc_def new_transport_def connect_def request_def transport_send_def on_tr_def Let_def client_handleOpen_def
  transport_open_def rpc_handleOpen_def resub_next_def drainOfflineQueue_def drain_next_def

theorem calls_reported_once_witness:
  "mset (map fst (cl_outcomes (client_run demo_env [Call demo_call False, Opened, Frame 0 ''r'', Microtask 0]
     (new_client (new_transport None None None) (MemoryQueue []) [] True)))) = {#''k''#}"
proof -
  let ?ops = "[Call demo_call False, Opened, Frame 0 ''r'', Microtask 0]"
  let ?new = "new_client (new_transport None None None) (MemoryQueue []) [] True"
  let ?c = "client_run demo_env ?ops ?new"
  have "\<forall>k f. \<not> ce_thr demo_env k f" "CloseClient \<notin> set ?ops" by (simp_all add: demo_env_def)
  note r = calls_reported_once [OF this refl, of None None None "MemoryQueue []" "[]" True]
  have "rp_pending (ne_rpc (cl_net ?c)) = [] \<and> cl_handled ?c = length (ne_settled (cl_net ?c))"
    by (simp add: client_eval demo_env_def client_message_def ingest_def demo_parse_def isResponse_def js_is_object_def
      js_truthy_def js_typeof_def js_has_def js_prop_def settle_promise_def response_result_def queue_list_def mem_list_def
      microtask_def continue_with_def call_settled_def)
  with r have "mset (map fst (cl_outcomes ?c)) = made_in demo_env ?ops ?new" by blast
  then show ?thesis by (simp add: made_by_def demo_call_def)
qed

text \<open>
  A call made offline and put into the offline queue is sent three times when the connection
  opens: out of the transport's queue, as a pending request, and out of the offline queue as a new
  request. No frame carries the idempotency key.
\<close>

theorem offline_call_sent_thrice:
  assumes "\<forall>k f. \<not> ce_thr ce k f"
  shows "ne_wire (cl_net (client_run ce [Call q True, Opened] (new_client (new_transport None None None) (MemoryQueue []) [] True)))
    = [(0, ce_ser ce (request_frame (JNum 1) ''actor.call'' (call_params q))),
       (0, ce_ser ce (request_frame (JNum 1) ''actor.call'' (call_params q))),
       (0, ce_ser ce (request_frame (JNum 2) ''actor.call'' (call_params q)))]"
  using assms by (simp add: client_eval queue_enqueue_def queue_list_def mem_enqueue_def mem_list_def)

text \<open>A call that fails in a retryable way is taken out of the offline queue without a report.\<close>

theorem transient_failure_forgotten:
  assumes "\<not> isPermanentFailure e"
  shows "cl_queue (call_settled ce q None (Inl e) c) = queue_remove (qc_idempotencyKey q) (cl_queue c)
    \<and> cl_failedMutations (call_settled ce q None (Inl e) c) = cl_failedMutations c"
  using assms by (simp add: call_settled_def Let_def revert_def)

text \<open>
  After a reconnect a subscription is renewed under the id the server gives it, for which there is
  no record: its notifications are buffered, and no listener is called again.
\<close>

theorem renewed_subscription_is_deaf:
  assumes "js_prop v ''subscriptionId'' = JStr j" and "map_get (ss_subs (cl_subs c)) j = None" and "nt_sub nt = j"
  shows "ss_heard (cl_subs (handleActorEvent ce t nt (resub_settled ce key info vs (Inr v) c))) = ss_heard (cl_subs c)"
proof -
  have req: "cl_subs (client_request ce m ps k c') = cl_subs c'" for m ps k c'
    by (simp add: client_request_def Let_def split: prod.split)
  have "cl_subs (resub_settled ce key info vs (Inr v) c) = cl_subs c"
    using assms(1)
    by (simp add: resub_settled_def resub_next_def drainOfflineQueue_def drain_next_def req split: option.split prod.split list.split)
  with assms(2,3) show ?thesis
    by (simp add: handleActorEvent_def apply_notification_def bufferEarly_def Let_def split: option.split prod.split)
qed

end
