(* ===== verification/Resolver.thy ===== *)
theory Resolver
  imports MemoryRegistry
begin

text \<open>
  The class-version resolver (\<open>src/registry/resolver.ts\<close>). Its work list is the state of a loop
  that terminates because every iteration either shortens the queue or counts a node, and
  nodes are capped. \<open>sat\<close> and \<open>cmp\<close> are \<open>semver.satisfies\<close> and \<open>semver.compare\<close>; \<open>catalog\<close> is
  the injected lookup, which may throw.
\<close>

section \<open>State\<close>

record accumulated_range =
  ac_range :: string
  ac_path :: "string list"

record resolve_root =
  rr_name :: class_name
  rr_range :: string

record queue_entry =
  qe_name :: class_name
  qe_range :: string
  qe_path :: "string list"

record resolver =
  rs_constraints :: "(class_name, accumulated_range list) jsmap"
  rs_picked :: "(class_name, version) jsmap"
  rs_cache :: "(class_name, class_version_record list) jsmap"
  rs_nodes :: nat

type_synonym catalog = "class_name \<Rightarrow> error + class_version_record list"

section \<open>Operations\<close>

definition fetch :: "catalog \<Rightarrow> class_name \<Rightarrow> resolver \<Rightarrow> (error + class_version_record list) \<times> resolver" where
  "fetch catalog n rs = (case map_get (rs_cache rs) n of
      Some vs \<Rightarrow> (Inr vs, rs)
    | None \<Rightarrow> (case catalog n of
         Inl e \<Rightarrow> (Inl e, rs)
       | Inr vs \<Rightarrow> (Inr vs, rs \<lparr> rs_cache := map_set n vs (rs_cache rs) \<rparr>)))"

text \<open>The head of the list sorted by descending version; the sort is stable.\<close>

fun highest :: "(version \<Rightarrow> version \<Rightarrow> int) \<Rightarrow> class_version_record \<Rightarrow> class_version_record list
    \<Rightarrow> class_version_record" where
  "highest cmp b [] = b"
| "highest cmp b (v # vs) = highest cmp (if 0 < cmp (cv_version v) (cv_version b) then v else b) vs"

definition eligible :: "(version \<Rightarrow> string \<Rightarrow> bool) \<Rightarrow> accumulated_range list \<Rightarrow> class_version_record \<Rightarrow> bool" where
  "eligible sat cs v \<longleftrightarrow> cv_deprecatedAt v = None \<and> list_all (\<lambda>c. sat (cv_version v) (ac_range c)) cs"

definition pickHighest :: "(version \<Rightarrow> string \<Rightarrow> bool) \<Rightarrow> (version \<Rightarrow> version \<Rightarrow> int) \<Rightarrow>
    class_version_record list \<Rightarrow> accumulated_range list \<Rightarrow> class_version_record option" where
  "pickHighest sat cmp versions cs = (case filter (eligible sat cs) versions of
      [] \<Rightarrow> None
    | v # vs \<Rightarrow> Some (highest cmp v vs))"

text \<open>The ranges a conflict reports, each with the path it came by.\<close>

definition reported_range :: "accumulated_range \<Rightarrow> string \<times> string list" where
  "reported_range c = (ac_range c, ac_path c)"

text \<open>\<open>Object.entries\<close>: the own properties, array indices first.\<close>

definition object_entries :: "(string, 'v) jsmap \<Rightarrow> (string \<times> 'v) list" where
  "object_entries m = map (\<lambda>k. (k, the (map_get m k))) (own_keys m)"

lemma set_object_entries: "(k, v) \<in> set (object_entries m) \<longleftrightarrow> map_get m k = Some v"
proof -
  have "(k, v) \<in> set (object_entries m) \<longleftrightarrow> k \<in> fst ` set m \<and> v = the (map_get m k)"
    by (auto simp: object_entries_def set_own_keys)
  moreover have "k \<in> fst ` set m \<longleftrightarrow> map_has m k" by (simp only: map_of_eq_None_iff not_not)
  ultimately show ?thesis by auto
qed

definition dep_entries :: "queue_entry \<Rightarrow> class_version_record \<Rightarrow> queue_entry list" where
  "dep_entries node v = map (\<lambda>(n, r). \<lparr> qe_name = n, qe_range = r,
     qe_path = qe_path node @ [qe_name node @ ''@'' @ cv_version v, n @ ''@'' @ r] \<rparr>) (object_entries (cv_deps v))"

text \<open>The body of the loop for one queue entry: what to enqueue, and the state after it.\<close>

definition resolve_node :: "(version \<Rightarrow> string \<Rightarrow> bool) \<Rightarrow> (version \<Rightarrow> version \<Rightarrow> int) \<Rightarrow> catalog \<Rightarrow> nat \<Rightarrow> nat \<Rightarrow>
    queue_entry \<Rightarrow> resolver \<Rightarrow> error + queue_entry list \<times> resolver" where
  "resolve_node sat cmp catalog maxDepth maxNodes node rs = (
     if maxDepth * 2 < length (qe_path node)
     then Inl (LimitExceeded ''resolver exceeded maxDepth'' maxDepth)
     else
       let cs = (case map_get (rs_constraints rs) (qe_name node) of Some l \<Rightarrow> l | None \<Rightarrow> [])
                @ [\<lparr> ac_range = qe_range node, ac_path = qe_path node \<rparr>];
           rs1 = rs \<lparr> rs_constraints := map_set (qe_name node) cs (rs_constraints rs) \<rparr>
       in (case fetch catalog (qe_name node) rs1 of
             (Inl e, _) \<Rightarrow> Inl e
           | (Inr versions, rs2) \<Rightarrow>
              (case pickHighest sat cmp versions cs of
                 None \<Rightarrow> Inl (DepConflict (qe_name node) (map reported_range cs))
               | Some v \<Rightarrow>
                  if map_get (rs_picked rs2) (qe_name node) = Some (cv_version v) then Inr ([], rs2)
                  else if maxNodes < rs_nodes rs2 + 1
                  then Inl (LimitExceeded ''resolver exceeded maxNodes'' maxNodes)
                  else Inr (dep_entries node v,
                    rs2 \<lparr> rs_picked := map_set (qe_name node) (cv_version v) (rs_picked rs2),
                          rs_nodes := rs_nodes rs2 + 1 \<rparr>))))"

lemma resolve_node_nodes:
  assumes "resolve_node sat cmp catalog maxDepth maxNodes node rs = Inr (deps, rs')"
  shows "(deps = [] \<and> rs_nodes rs' = rs_nodes rs) \<or> (rs_nodes rs' = Suc (rs_nodes rs) \<and> rs_nodes rs' \<le> maxNodes)"
  using assms by (auto simp: resolve_node_def fetch_def Let_def split: if_splits option.splits sum.splits)

function resolve_loop :: "(version \<Rightarrow> string \<Rightarrow> bool) \<Rightarrow> (version \<Rightarrow> version \<Rightarrow> int) \<Rightarrow> catalog \<Rightarrow> nat \<Rightarrow> nat \<Rightarrow>
    queue_entry list \<Rightarrow> resolver \<Rightarrow> error + resolver" where
  "resolve_loop sat cmp catalog maxDepth maxNodes [] rs = Inr rs"
| "resolve_loop sat cmp catalog maxDepth maxNodes (node # queue) rs =
     (case resolve_node sat cmp catalog maxDepth maxNodes node rs of
        Inl e \<Rightarrow> Inl e
      | Inr (deps, rs') \<Rightarrow> resolve_loop sat cmp catalog maxDepth maxNodes (queue @ deps) rs')"
  by pat_completeness auto
termination
  by (relation "measures [\<lambda>(sat, cmp, catalog, maxDepth, maxNodes, queue, rs). maxNodes - rs_nodes rs,
        \<lambda>(sat, cmp, catalog, maxDepth, maxNodes, queue, rs). length queue]")
     (auto dest!: resolve_node_nodes)

definition empty_resolver :: resolver where
  "empty_resolver = \<lparr> rs_constraints = [], rs_picked = [], rs_cache = [], rs_nodes = 0 \<rparr>"

definition root_entry :: "resolve_root \<Rightarrow> queue_entry" where
  "root_entry r = \<lparr> qe_name = rr_name r, qe_range = rr_range r, qe_path = [rr_name r @ ''@'' @ rr_range r] \<rparr>"

definition resolve_manifest :: "(version \<Rightarrow> string \<Rightarrow> bool) \<Rightarrow> (version \<Rightarrow> version \<Rightarrow> int) \<Rightarrow> catalog \<Rightarrow>
    nat option \<Rightarrow> nat option \<Rightarrow> resolve_root list
    \<Rightarrow> error + resolved_manifest \<times> (class_name, accumulated_range list) jsmap" where
  "resolve_manifest sat cmp catalog depth nodes roots =
     (case resolve_loop sat cmp catalog (case depth of Some n \<Rightarrow> n | None \<Rightarrow> 16)
             (case nodes of Some n \<Rightarrow> n | None \<Rightarrow> 256) (map root_entry roots) empty_resolver of
        Inl e \<Rightarrow> Inl e
      | Inr rs \<Rightarrow> Inr (foldl (\<lambda>m (k, v). map_set k v m) [] (rs_picked rs), rs_constraints rs))"

definition catalogFromDriver :: "driver \<Rightarrow> catalog" where
  "catalogFromDriver d n = (case listClassVersions n d of
      [] \<Rightarrow> Inl (ClassNotFound n) | vs \<Rightarrow> Inr vs)"

section \<open>Picking\<close>

lemma highest_in: "highest cmp b vs \<in> set (b # vs)"
  by (induction cmp b vs rule: highest.induct) auto

lemma pickHighest_Some:
  assumes "pickHighest sat cmp vs cs = Some v"
  shows "v \<in> set vs" "eligible sat cs v"
proof -
  from assms obtain x xs where f: "filter (eligible sat cs) vs = x # xs" "v = highest cmp x xs"
    by (auto simp: pickHighest_def split: list.splits)
  then have "v \<in> set (filter (eligible sat cs) vs)" using highest_in [of cmp x xs] by simp
  then show "v \<in> set vs" "eligible sat cs v" by simp_all
qed

lemma pickHighest_None: "pickHighest sat cmp vs cs = None \<longleftrightarrow> (\<forall>v\<in>set vs. \<not> eligible sat cs v)"
  by (metis (no_types, lifting) filter_empty_conv list.case(2) list.exhaust list.simps(4) option.distinct(1) pickHighest_def)

text \<open>A comparison that orders versions: what \<open>semver.compare\<close> is.\<close>

definition orders :: "(version \<Rightarrow> version \<Rightarrow> int) \<Rightarrow> bool" where
  "orders cmp \<longleftrightarrow> (\<forall>a. cmp a a = 0) \<and> (\<forall>a b c. cmp a b \<le> 0 \<longrightarrow> cmp b c \<le> 0 \<longrightarrow> cmp a c \<le> 0)
     \<and> (\<forall>a b. 0 < cmp a b \<longleftrightarrow> cmp b a < 0)"

lemma ordersD:
  assumes "orders cmp"
  shows "cmp a a = 0" "cmp a b \<le> 0 \<Longrightarrow> cmp b c \<le> 0 \<Longrightarrow> cmp a c \<le> 0" "0 < cmp a b \<Longrightarrow> cmp b a \<le> 0"
  using assms unfolding orders_def by (blast, blast, metis less_imp_le)

lemma highest_max:
  assumes "orders cmp"
  shows "\<forall>x\<in>set (b # vs). cmp (cv_version x) (cv_version (highest cmp b vs)) \<le> 0"
proof (induction vs arbitrary: b)
  case Nil
  then show ?case by (simp add: ordersD(1) [OF assms])
next
  case (Cons v vs)
  let ?b = "if 0 < cmp (cv_version v) (cv_version b) then v else b"
  have b: "cmp (cv_version ?b) (cv_version (highest cmp ?b vs)) \<le> 0"
    and rest: "\<forall>x\<in>set vs. cmp (cv_version x) (cv_version (highest cmp ?b vs)) \<le> 0"
    using Cons.IH [of ?b] by simp_all
  have v: "cmp (cv_version v) (cv_version ?b) \<le> 0" using ordersD(1) [OF assms] by simp
  have w: "cmp (cv_version b) (cv_version ?b) \<le> 0" using ordersD(1,3) [OF assms] by simp
  have "highest cmp b (v # vs) = highest cmp ?b vs" by simp
  with ordersD(2) [OF assms v b] ordersD(2) [OF assms w b] rest show ?case
    by (simp only: list.set ball_simps simp_thms)
qed

lemma pickHighest_max:
  assumes "orders cmp" and "pickHighest sat cmp vs cs = Some v" and "x \<in> set vs" and "eligible sat cs x"
  shows "cmp (cv_version x) (cv_version v) \<le> 0"
proof -
  from assms(2) obtain y ys where f: "filter (eligible sat cs) vs = y # ys" "v = highest cmp y ys"
    by (auto simp: pickHighest_def split: list.splits)
  have "x \<in> set (filter (eligible sat cs) vs)" using assms(3,4) by simp
  then show ?thesis using highest_max [OF assms(1), of y ys] unfolding f by blast
qed

section \<open>The invariant of the loop\<close>

definition asked_for :: "class_name \<Rightarrow> string \<Rightarrow> queue_entry list \<Rightarrow> resolver \<Rightarrow> bool" where
  "asked_for m g queue rs \<longleftrightarrow> (\<exists>q\<in>set queue. qe_name q = m \<and> qe_range q = g)
     \<or> (\<exists>cs. map_get (rs_constraints rs) m = Some cs \<and> g \<in> ac_range ` set cs)"

definition deps_asked :: "class_version_record \<Rightarrow> queue_entry list \<Rightarrow> resolver \<Rightarrow> bool" where
  "deps_asked r queue rs \<longleftrightarrow> (\<forall>m g. map_get (cv_deps r) m = Some g \<longrightarrow> asked_for m g queue rs)"

definition res_inv :: "(version \<Rightarrow> string \<Rightarrow> bool) \<Rightarrow> (version \<Rightarrow> version \<Rightarrow> int) \<Rightarrow> catalog \<Rightarrow> nat \<Rightarrow>
    resolve_root list \<Rightarrow> queue_entry list \<Rightarrow> resolver \<Rightarrow> bool" where
  "res_inv sat cmp catalog maxNodes roots queue rs \<longleftrightarrow>
     (\<forall>n vs. map_get (rs_cache rs) n = Some vs \<longrightarrow> catalog n = Inr vs)
   \<and> (\<forall>n cs. map_get (rs_constraints rs) n = Some cs \<longrightarrow> (\<exists>vs r. catalog n = Inr vs
        \<and> pickHighest sat cmp vs cs = Some r \<and> map_get (rs_picked rs) n = Some (cv_version r)))
   \<and> (\<forall>n v. map_get (rs_picked rs) n = Some v \<longrightarrow> map_has (rs_constraints rs) n
        \<and> (\<exists>vs r. catalog n = Inr vs \<and> r \<in> set vs \<and> cv_version r = v \<and> deps_asked r queue rs))
   \<and> (\<forall>r\<in>set roots. asked_for (rr_name r) (rr_range r) queue rs)
   \<and> map_wf (rs_picked rs) \<and> length (rs_picked rs) \<le> rs_nodes rs \<and> rs_nodes rs \<le> maxNodes"

lemma res_invD:
  assumes "res_inv sat cmp catalog maxNodes roots queue rs"
  shows "map_get (rs_cache rs) n = Some vs \<Longrightarrow> catalog n = Inr vs"
    "map_get (rs_constraints rs) n = Some cs \<Longrightarrow> \<exists>vs r. catalog n = Inr vs
        \<and> pickHighest sat cmp vs cs = Some r \<and> map_get (rs_picked rs) n = Some (cv_version r)"
    "map_get (rs_picked rs) n = Some v \<Longrightarrow> map_has (rs_constraints rs) n
        \<and> (\<exists>vs r. catalog n = Inr vs \<and> r \<in> set vs \<and> cv_version r = v \<and> deps_asked r queue rs)"
    "r \<in> set roots \<Longrightarrow> asked_for (rr_name r) (rr_range r) queue rs"
    "map_wf (rs_picked rs)" "length (rs_picked rs) \<le> rs_nodes rs" "rs_nodes rs \<le> maxNodes"
  using assms unfolding res_inv_def by blast+

text \<open>What a processed node leaves: one constraint more, and the pick for all of them.\<close>

lemma resolve_node_effect:
  assumes "resolve_node sat cmp catalog maxDepth maxNodes node rs = Inr (deps, rs')"
    and cache: "\<And>n vs. map_get (rs_cache rs) n = Some vs \<Longrightarrow> catalog n = Inr vs"
  obtains cs0 vs v where
    "cs0 = (case map_get (rs_constraints rs) (qe_name node) of Some l \<Rightarrow> l | None \<Rightarrow> [])"
    "catalog (qe_name node) = Inr vs"
    "pickHighest sat cmp vs (cs0 @ [\<lparr> ac_range = qe_range node, ac_path = qe_path node \<rparr>]) = Some v"
    "rs_constraints rs' = map_set (qe_name node) (cs0 @ [\<lparr> ac_range = qe_range node, ac_path = qe_path node \<rparr>]) (rs_constraints rs)"
    "\<And>n vs. map_get (rs_cache rs') n = Some vs \<Longrightarrow> catalog n = Inr vs"
    "(deps = [] \<and> map_get (rs_picked rs) (qe_name node) = Some (cv_version v)
        \<and> rs_picked rs' = rs_picked rs \<and> rs_nodes rs' = rs_nodes rs)
     \<or> (deps = dep_entries node v \<and> rs_picked rs' = map_set (qe_name node) (cv_version v) (rs_picked rs)
        \<and> rs_nodes rs' = Suc (rs_nodes rs) \<and> rs_nodes rs' \<le> maxNodes)"
proof -
  let ?n = "qe_name node"
  define cs0 where "cs0 = (case map_get (rs_constraints rs) ?n of Some l \<Rightarrow> l | None \<Rightarrow> [])"
  let ?cs = "cs0 @ [\<lparr> ac_range = qe_range node, ac_path = qe_path node \<rparr>]"
  let ?rs1 = "rs \<lparr> rs_constraints := map_set ?n ?cs (rs_constraints rs) \<rparr>"
  obtain y rs2 where f: "fetch catalog ?n ?rs1 = (y, rs2)" by (cases "fetch catalog ?n ?rs1")
  have run: "(case y of Inl e \<Rightarrow> Inl e | Inr versions \<Rightarrow> (case pickHighest sat cmp versions ?cs of
                 None \<Rightarrow> Inl (DepConflict ?n (map reported_range ?cs))
               | Some v \<Rightarrow>
                  if map_get (rs_picked rs2) ?n = Some (cv_version v) then Inr ([], rs2)
                  else if maxNodes < rs_nodes rs2 + 1
                  then Inl (LimitExceeded ''resolver exceeded maxNodes'' maxNodes)
                  else Inr (dep_entries node v,
                    rs2 \<lparr> rs_picked := map_set ?n (cv_version v) (rs_picked rs2),
                          rs_nodes := rs_nodes rs2 + 1 \<rparr>))) = Inr (deps, rs')"
    using assms(1) [unfolded resolve_node_def Let_def, folded cs0_def] f by (simp split: if_splits)
  then obtain vs where y: "y = Inr vs" by (cases y) simp_all
  then obtain v where v: "pickHighest sat cmp vs ?cs = Some v"
    using run by (cases "pickHighest sat cmp vs ?cs") simp_all
  have rs2: "rs_constraints rs2 = map_set ?n ?cs (rs_constraints rs)" "rs_picked rs2 = rs_picked rs"
    "rs_nodes rs2 = rs_nodes rs" "catalog ?n = Inr vs"
    "\<And>n vs. map_get (rs_cache rs2) n = Some vs \<Longrightarrow> catalog n = Inr vs"
    using f y cache by (auto simp: fetch_def split: option.splits sum.splits if_splits)
  have case_v: "(map_get (rs_picked rs) ?n = Some (cv_version v) \<and> deps = [] \<and> rs' = rs2)
      \<or> (deps = dep_entries node v \<and> rs_nodes rs2 + 1 \<le> maxNodes \<and> rs' = rs2 \<lparr> rs_picked := map_set ?n (cv_version v) (rs_picked rs2),
                          rs_nodes := rs_nodes rs2 + 1 \<rparr>)"
    using run y v rs2(2) by (auto split: if_splits)
  show ?thesis
  proof (rule that [of cs0 vs v])
    show "rs_constraints rs' = map_set ?n ?cs (rs_constraints rs)" using case_v rs2 by auto
    show "\<And>n vs. map_get (rs_cache rs') n = Some vs \<Longrightarrow> catalog n = Inr vs" using case_v rs2(5) by auto
    show "(deps = [] \<and> map_get (rs_picked rs) ?n = Some (cv_version v)
        \<and> rs_picked rs' = rs_picked rs \<and> rs_nodes rs' = rs_nodes rs)
     \<or> (deps = dep_entries node v \<and> rs_picked rs' = map_set ?n (cv_version v) (rs_picked rs)
        \<and> rs_nodes rs' = Suc (rs_nodes rs) \<and> rs_nodes rs' \<le> maxNodes)"
      using case_v rs2 by auto
  qed (use cs0_def rs2(4) v in auto)
qed

lemma asked_for_step:
  assumes "asked_for m g (node # queue) rs"
    and "rs_constraints rs' = map_set (qe_name node) (cs0 @ [c]) (rs_constraints rs)"
    and "cs0 = (case map_get (rs_constraints rs) (qe_name node) of Some l \<Rightarrow> l | None \<Rightarrow> [])"
    and "ac_range c = qe_range node"
  shows "asked_for m g (queue @ deps) rs'"
proof (cases "qe_name node = m \<and> qe_range node = g")
  case True
  with assms(2,4) show ?thesis by (auto simp: asked_for_def)
next
  case False
  with assms show ?thesis by (auto simp: asked_for_def split: option.splits)
qed

lemma deps_asked_new: "deps_asked v (queue @ dep_entries node v) rs"
  unfolding deps_asked_def
proof (intro allI impI)
  fix m g assume "map_get (cv_deps v) m = Some g"
  then have "(m, g) \<in> set (object_entries (cv_deps v))" by (simp add: set_object_entries)
  then show "asked_for m g (queue @ dep_entries node v) rs"
    by (force simp: asked_for_def dep_entries_def)
qed

lemma res_inv_node:
  assumes "res_inv sat cmp catalog maxNodes roots (node # queue) rs"
    and "resolve_node sat cmp catalog maxDepth maxNodes node rs = Inr (deps, rs')"
  shows "res_inv sat cmp catalog maxNodes roots (queue @ deps) rs'"
proof -
  note v = res_invD [OF assms(1)]
  let ?n = "qe_name node"
  obtain cs0 vs w where e:
    "cs0 = (case map_get (rs_constraints rs) ?n of Some l \<Rightarrow> l | None \<Rightarrow> [])"
    "catalog ?n = Inr vs"
    "pickHighest sat cmp vs (cs0 @ [\<lparr> ac_range = qe_range node, ac_path = qe_path node \<rparr>]) = Some w"
    "rs_constraints rs' = map_set ?n (cs0 @ [\<lparr> ac_range = qe_range node, ac_path = qe_path node \<rparr>]) (rs_constraints rs)"
    "\<And>n vs. map_get (rs_cache rs') n = Some vs \<Longrightarrow> catalog n = Inr vs"
    "(deps = [] \<and> map_get (rs_picked rs) ?n = Some (cv_version w)
        \<and> rs_picked rs' = rs_picked rs \<and> rs_nodes rs' = rs_nodes rs)
     \<or> (deps = dep_entries node w \<and> rs_picked rs' = map_set ?n (cv_version w) (rs_picked rs)
        \<and> rs_nodes rs' = Suc (rs_nodes rs) \<and> rs_nodes rs' \<le> maxNodes)"
    by (rule resolve_node_effect [OF assms(2) v(1)]) (assumption, rule that)
  have asked: "asked_for m g (queue @ deps) rs'" if "asked_for m g (node # queue) rs" for m g
    using asked_for_step [OF that e(4) e(1)] by simp
  then have deps: "deps_asked r (queue @ deps) rs'" if "deps_asked r (node # queue) rs" for r
    using that by (simp add: deps_asked_def)
  have picked: "map_get (rs_picked rs') n = (if n = ?n then Some (cv_version w) else map_get (rs_picked rs) n)" for n
    using e(6) by auto
  show ?thesis
    unfolding res_inv_def
  proof (intro conjI allI impI ballI)
    fix n x assume "map_get (rs_cache rs') n = Some x"
    then show "catalog n = Inr x" by (rule e(5))
  next
    fix n cs assume c: "map_get (rs_constraints rs') n = Some cs"
    show "\<exists>vs r. catalog n = Inr vs \<and> pickHighest sat cmp vs cs = Some r \<and> map_get (rs_picked rs') n = Some (cv_version r)"
    proof (cases "n = ?n")
      case True
      with c e(2,3,4) picked show ?thesis by auto
    next
      case False
      with c e(4) have "map_get (rs_constraints rs) n = Some cs" by simp
      from v(2) [OF this] False picked show ?thesis by simp
    qed
  next
    fix n x assume p: "map_get (rs_picked rs') n = Some x"
    show "map_has (rs_constraints rs') n" using v(3) [of n x] p picked e(4) by (cases "n = ?n") auto
    show "\<exists>vs r. catalog n = Inr vs \<and> r \<in> set vs \<and> cv_version r = x \<and> deps_asked r (queue @ deps) rs'"
    proof (cases "map_get (rs_picked rs) n = Some x")
      case True
      with v(3) [OF this] deps show ?thesis by blast
    next
      case False
      with p picked have n: "n = ?n" "x = cv_version w" by (auto split: if_splits)
      with False e(6) have "deps = dep_entries node w" by auto
      then have "deps_asked w (queue @ deps) rs'" using deps_asked_new by simp
      with n e(2) pickHighest_Some(1) [OF e(3)] show ?thesis by blast
    qed
  next
    fix r assume "r \<in> set roots"
    then show "asked_for (rr_name r) (rr_range r) (queue @ deps) rs'" using v(4) asked by blast
  next
    show "map_wf (rs_picked rs')" using e(6) v(5) by auto
    show "length (rs_picked rs') \<le> rs_nodes rs'" using e(6) v(6) by (elim disjE) (simp_all add: map_length_set)
    show "rs_nodes rs' \<le> maxNodes" using e(6) v(7) by auto
  qed
qed

lemma res_inv_loop:
  "res_inv sat cmp catalog maxNodes roots queue rs \<Longrightarrow>
   resolve_loop sat cmp catalog maxDepth maxNodes queue rs = Inr rs' \<Longrightarrow>
   res_inv sat cmp catalog maxNodes roots [] rs'"
proof (induction sat cmp catalog maxDepth maxNodes queue rs rule: resolve_loop.induct)
  case (2 sat cmp catalog maxDepth maxNodes node queue rs)
  obtain deps rs1 where n: "resolve_node sat cmp catalog maxDepth maxNodes node rs = Inr (deps, rs1)"
    and l: "resolve_loop sat cmp catalog maxDepth maxNodes (queue @ deps) rs1 = Inr rs'"
    using "2.prems"(2) by (auto split: sum.splits)
  from "2.IH" [OF n refl res_inv_node [OF "2.prems"(1) n] l] show ?case .
qed simp

lemma res_inv_start: "res_inv sat cmp catalog maxNodes roots (map root_entry roots) empty_resolver"
  by (auto simp: res_inv_def empty_resolver_def asked_for_def root_entry_def)

lemma foldl_map_set: "map_wf m \<Longrightarrow> map_get (foldl (\<lambda>m (k, v). map_set k v m) acc m) k =
    (case map_get m k of Some v \<Rightarrow> Some v | None \<Rightarrow> map_get acc k)"
proof (induction m arbitrary: acc)
  case (Cons p m)
  obtain a b where p: "p = (a, b)" by (cases p)
  have "map_wf m" "map_get m a = None" using Cons.prems p by (auto simp: map_wf_def map_of_eq_None_iff)
  with Cons.IH p show ?case by (auto split: option.split)
qed simp

lemma asked_empty: "asked_for m g [] rs \<longleftrightarrow> (\<exists>cs. map_get (rs_constraints rs) m = Some cs \<and> g \<in> ac_range ` set cs)"
  by (simp add: asked_for_def)

section \<open>Properties\<close>

lemma resolve_manifest_sound:
  assumes "resolve_manifest sat cmp catalog depth nodes roots = Inr (m, cons)" and "orders cmp"
  shows "list_all (\<lambda>r. \<exists>v. map_get m (rr_name r) = Some v \<and> sat v (rr_range r)) roots
    \<and> (\<forall>n v. map_get m n = Some v \<longrightarrow>
         (\<exists>vs r cs. catalog n = Inr vs \<and> r \<in> set vs \<and> cv_version r = v \<and> map_get cons n = Some cs
            \<and> eligible sat cs r \<and> (\<forall>x\<in>set vs. eligible sat cs x \<longrightarrow> cmp (cv_version x) v \<le> 0))
       \<and> (\<exists>vs r. catalog n = Inr vs \<and> r \<in> set vs \<and> cv_version r = v
            \<and> (\<forall>k g. map_get (cv_deps r) k = Some g \<longrightarrow> (\<exists>u. map_get m k = Some u \<and> sat u g))))
    \<and> card (dom (map_get m)) \<le> (case nodes of Some n \<Rightarrow> n | None \<Rightarrow> 256)"
proof -
  let ?max = "case nodes of Some n \<Rightarrow> n | None \<Rightarrow> 256"
  obtain rs where l: "resolve_loop sat cmp catalog (case depth of Some n \<Rightarrow> n | None \<Rightarrow> 16) ?max
      (map root_entry roots) empty_resolver = Inr rs"
    and m: "m = foldl (\<lambda>m (k, v). map_set k v m) [] (rs_picked rs)" and cons: "cons = rs_constraints rs"
    using assms(1) by (auto simp: resolve_manifest_def split: sum.splits)
  note v = res_invD [OF res_inv_loop [OF res_inv_start l]]
  have get: "map_get m n = map_get (rs_picked rs) n" for n
    using foldl_map_set [OF v(5), of "[]" n] m by (simp split: option.splits)
  have pinned: "\<exists>u. map_get m k = Some u \<and> sat u g" if "asked_for k g [] rs" for k g
  proof -
    from that obtain cs c where cs: "map_get (rs_constraints rs) k = Some cs" "c \<in> set cs" "ac_range c = g"
      by (auto simp: asked_empty)
    from v(2) [OF cs(1)] obtain vs r where "pickHighest sat cmp vs cs = Some r"
      "map_get (rs_picked rs) k = Some (cv_version r)" by blast
    with pickHighest_Some(2) [of sat cmp vs cs r] cs(2,3) get show ?thesis
      by (auto simp: eligible_def list_all_iff)
  qed
  have "\<exists>vs r cs. catalog n = Inr vs \<and> r \<in> set vs \<and> cv_version r = x \<and> map_get cons n = Some cs
            \<and> eligible sat cs r \<and> (\<forall>y\<in>set vs. eligible sat cs y \<longrightarrow> cmp (cv_version y) x \<le> 0)"
    if p: "map_get m n = Some x" for n x
  proof -
    from v(3) [of n x] p get obtain cs where cs: "map_get (rs_constraints rs) n = Some cs" by auto
    from v(2) [OF cs] obtain vs r where r: "catalog n = Inr vs" "pickHighest sat cmp vs cs = Some r"
      "map_get (rs_picked rs) n = Some (cv_version r)" by blast
    with p get have "cv_version r = x" by simp
    with r cs cons pickHighest_Some [OF r(2)] pickHighest_max [OF assms(2) r(2)] show ?thesis by blast
  qed
  moreover have "\<exists>vs r. catalog n = Inr vs \<and> r \<in> set vs \<and> cv_version r = x
            \<and> (\<forall>k g. map_get (cv_deps r) k = Some g \<longrightarrow> (\<exists>u. map_get m k = Some u \<and> sat u g))"
    if "map_get m n = Some x" for n x
    using v(3) [of n x] that get pinned unfolding deps_asked_def by metis
  moreover have "list_all (\<lambda>r. \<exists>v. map_get m (rr_name r) = Some v \<and> sat v (rr_range r)) roots"
    using v(4) pinned by (simp add: list_all_iff)
  moreover have "card (dom (map_get m)) \<le> ?max"
  proof -
    have "dom (map_get m) = set (map fst (rs_picked rs))" using get by (auto simp: dom_map_of_conv_image_fst)
    then have "card (dom (map_get m)) \<le> length (rs_picked rs)" using card_length [of "map fst (rs_picked rs)"] by simp
    then show ?thesis using v(6,7) by linarith
  qed
  ultimately show ?thesis by blast
qed

text \<open>
  C19. A resolved manifest is sound: every root's class is pinned to a version in the root's range;
  every pinned version is an undeprecated version of the catalog that satisfies every range
  collected for its class and is the highest that does; every dependency of a pinned version
  is pinned inside the range it asks for; and no more than \<open>maxNodes\<close> classes are pinned.
\<close>

theorem resolver_sound:
  assumes "resolve_manifest sat cmp catalog depth nodes roots = Inr (m, cons)" and "orders cmp"
  shows "list_all (\<lambda>r. \<exists>v. map_get m (rr_name r) = Some v \<and> sat v (rr_range r)) roots
    \<and> (\<forall>n v. map_get m n = Some v \<longrightarrow>
         (\<exists>vs r cs. catalog n = Inr vs \<and> r \<in> set vs \<and> cv_version r = v \<and> map_get cons n = Some cs
            \<and> eligible sat cs r \<and> (\<forall>x\<in>set vs. eligible sat cs x \<longrightarrow> cmp (cv_version x) v \<le> 0))
       \<and> (\<exists>vs r. catalog n = Inr vs \<and> r \<in> set vs \<and> cv_version r = v
            \<and> (\<forall>k g. map_get (cv_deps r) k = Some g \<longrightarrow> (\<exists>u. map_get m k = Some u \<and> sat u g))))
    \<and> card (dom (map_get m)) \<le> (case nodes of Some n \<Rightarrow> n | None \<Rightarrow> 256)"
  using assms by (rule resolve_manifest_sound)

text \<open>A small catalog whose versions are one digit; a range \<open>n\<close> means at least \<open>n\<close>.\<close>

definition demo_record :: "class_name \<Rightarrow> version \<Rightarrow> deps_map \<Rightarrow> class_version_record" where
  "demo_record n v ds = \<lparr> cv_name = n, cv_version = v, cv_sha = v, cv_deps = ds, cv_engines = [],
     cv_publishedAt = 0, cv_deprecatedAt = None, cv_graceUntil = None, cv_signedBy = None,
     cv_floating = False, cv_eventSourced = False \<rparr>"

definition demo_catalog :: catalog where
  "demo_catalog n = (
     if n = ''A'' then Inr [demo_record ''A'' ''1'' [(''B'', ''1'')], demo_record ''A'' ''2'' [(''B'', ''2'')]]
     else if n = ''B'' then Inr [demo_record ''B'' ''1'' [], demo_record ''B'' ''3'' [], (demo_record ''B'' ''9'' []) \<lparr> cv_deprecatedAt := Some 0 \<rparr>]
     else Inl (ClassNotFound n))"

definition demo_cmp :: "version \<Rightarrow> version \<Rightarrow> int" where
  "demo_cmp a b = int (read_nat a) - int (read_nat b)"

theorem resolver_sound_witness:
  "resolve_manifest (\<lambda>v r. demo_cmp r v \<le> 0) demo_cmp demo_catalog None None [\<lparr> rr_name = ''A'', rr_range = ''1'' \<rparr>]
     = Inr ([(''A'', ''2''), (''B'', ''3'')],
            [(''A'', [\<lparr> ac_range = ''1'', ac_path = [''A@1''] \<rparr>]),
             (''B'', [\<lparr> ac_range = ''2'', ac_path = [''A@1'', ''A@2'', ''B@2''] \<rparr>])])
   \<and> card (dom (map_get [(''A'', ''2''), (''B'', ''3'')])) \<le> 256"
proof -
  let ?r = "resolve_manifest (\<lambda>v r. demo_cmp r v \<le> 0) demo_cmp demo_catalog None None [\<lparr> rr_name = ''A'', rr_range = ''1'' \<rparr>]"
  have run: "?r = Inr ([(''A'', ''2''), (''B'', ''3'')],
            [(''A'', [\<lparr> ac_range = ''1'', ac_path = [''A@1''] \<rparr>]),
             (''B'', [\<lparr> ac_range = ''2'', ac_path = [''A@1'', ''A@2'', ''B@2''] \<rparr>])])"
    by code_simp
  have "orders demo_cmp" by (simp add: orders_def demo_cmp_def)
  from resolver_sound [OF run this] run show ?thesis by simp
qed

text \<open>The same loop, cut off after \<open>k\<close> iterations.\<close>

fun resolve_fuel :: "nat \<Rightarrow> (version \<Rightarrow> string \<Rightarrow> bool) \<Rightarrow> (version \<Rightarrow> version \<Rightarrow> int) \<Rightarrow> catalog \<Rightarrow> nat \<Rightarrow> nat \<Rightarrow>
    queue_entry list \<Rightarrow> resolver \<Rightarrow> (error + resolver) option" where
  "resolve_fuel k sat cmp catalog maxDepth maxNodes [] rs = Some (Inr rs)"
| "resolve_fuel 0 sat cmp catalog maxDepth maxNodes (node # queue) rs = None"
| "resolve_fuel (Suc k) sat cmp catalog maxDepth maxNodes (node # queue) rs =
     (case resolve_node sat cmp catalog maxDepth maxNodes node rs of
        Inl e \<Rightarrow> Some (Inl e)
      | Inr (deps, rs') \<Rightarrow> resolve_fuel k sat cmp catalog maxDepth maxNodes (queue @ deps) rs')"

definition deps_bounded :: "nat \<Rightarrow> catalog \<Rightarrow> bool" where
  "deps_bounded D catalog \<longleftrightarrow> (\<forall>n vs v. catalog n = Inr vs \<longrightarrow> v \<in> set vs \<longrightarrow> length (cv_deps v) \<le> D)"

lemma length_dep_entries: "length (dep_entries node v) = length (cv_deps v)"
  using mset_own_keys [of "cv_deps v"]
  by (simp add: dep_entries_def object_entries_def flip: size_mset)

text \<open>
  C20. Resolution ends within a number of steps the limits fix, however the ranges conflict or the
  dependency graph cycles: with at most \<open>D\<close> dependencies per version the loop stops after at most
  \<open>roots + maxNodes * D\<close> iterations, with the result the loop has.
\<close>

theorem resolver_terminates_in:
  assumes "deps_bounded D catalog" and "length queue + (maxNodes - rs_nodes rs) * D \<le> k"
    and "\<forall>n vs. map_get (rs_cache rs) n = Some vs \<longrightarrow> catalog n = Inr vs"
  shows "resolve_fuel k sat cmp catalog maxDepth maxNodes queue rs
    = Some (resolve_loop sat cmp catalog maxDepth maxNodes queue rs)"
  using assms(2,3)
proof (induction k arbitrary: queue rs)
  case 0
  then show ?case by simp
next
  case (Suc k)
  show ?case
  proof (cases queue)
    case (Cons node rest)
    show ?thesis
    proof (cases "resolve_node sat cmp catalog maxDepth maxNodes node rs")
      case (Inl e)
      with Cons show ?thesis by simp
    next
      case (Inr p)
      obtain deps rs' where p: "p = (deps, rs')" by (cases p)
      have cache: "\<And>n vs. map_get (rs_cache rs) n = Some vs \<Longrightarrow> catalog n = Inr vs" using Suc.prems(2) by blast
      obtain cs0 vs w where e: "catalog (qe_name node) = Inr vs"
        "pickHighest sat cmp vs (cs0 @ [\<lparr> ac_range = qe_range node, ac_path = qe_path node \<rparr>]) = Some w"
        "\<And>n vs. map_get (rs_cache rs') n = Some vs \<Longrightarrow> catalog n = Inr vs"
        "(deps = [] \<and> rs_nodes rs' = rs_nodes rs)
         \<or> (deps = dep_entries node w \<and> rs_nodes rs' = Suc (rs_nodes rs) \<and> rs_nodes rs' \<le> maxNodes)"
        by (rule resolve_node_effect [OF Inr [unfolded p] cache]) (assumption, rule that, auto)
      have "length (cv_deps w) \<le> D"
        using assms(1) e(1) pickHighest_Some(1) [OF e(2)] by (auto simp: deps_bounded_def)
      then have "length (rest @ deps) + (maxNodes - rs_nodes rs') * D \<le> k"
        using e(4)
      proof (elim disjE conjE)
        assume "deps = dep_entries node w" "rs_nodes rs' = Suc (rs_nodes rs)" "rs_nodes rs' \<le> maxNodes"
        moreover from this obtain j where "maxNodes - rs_nodes rs = Suc j" "maxNodes - rs_nodes rs' = j"
          by (metis Suc_diff_le diff_Suc_Suc)
        ultimately show ?thesis
          using Suc.prems(1) Cons \<open>length (cv_deps w) \<le> D\<close> by (simp add: length_dep_entries)
      qed (use Suc.prems(1) Cons in simp)
      from Suc.IH [OF this] e(3) show ?thesis using Cons Inr p by simp
    qed
  qed simp
qed

theorem resolver_terminates_in_witness:
  "resolve_fuel 257 (\<lambda>v r. demo_cmp r v \<le> 0) demo_cmp demo_catalog 16 256
     [root_entry \<lparr> rr_name = ''A'', rr_range = ''1'' \<rparr>] empty_resolver
   = Some (resolve_loop (\<lambda>v r. demo_cmp r v \<le> 0) demo_cmp demo_catalog 16 256
     [root_entry \<lparr> rr_name = ''A'', rr_range = ''1'' \<rparr>] empty_resolver)"
proof -
  have "deps_bounded 1 demo_catalog"
    by (auto simp: deps_bounded_def demo_catalog_def demo_record_def split: if_splits)
  from resolver_terminates_in [OF this, of "[root_entry \<lparr> rr_name = ''A'', rr_range = ''1'' \<rparr>]" 256 empty_resolver 257]
  show ?thesis by (simp add: empty_resolver_def)
qed

end
