(* ===== verification/Publisher.thy ===== *)
theory Publisher
  imports Resolver Policy
begin

text \<open>
  The publish path: the signing-key registry (\<open>src/registry/signing.ts\<close>) and the validation,
  signature check, storage write and audit of \<open>src/registry/publisher.ts\<close>. The semver package,
  the TypeScript parser and the cryptography of \<open>node:crypto\<close> are parameters; the scan for
  forbidden imports is the source's own regular expressions written out.
\<close>

section \<open>Signing keys\<close>

text \<open>\<open>'k\<close> is a \<open>KeyObject\<close>.\<close>

record 'k key_row =
  kr_publicKey :: 'k
  kr_pem :: string
  kr_addedAt :: ms
  kr_revokedAt :: "ms option"

type_synonym 'k key_rows = "(string, 'k key_row) jsmap"

record signing_key_record =
  sk_kid :: string
  sk_pem :: string
  sk_addedAt :: ms
  sk_revokedAt :: "ms option"

definition toRecord :: "string \<Rightarrow> 'k key_row \<Rightarrow> signing_key_record" where
  "toRecord kid row = \<lparr> sk_kid = kid, sk_pem = kr_pem row, sk_addedAt = kr_addedAt row,
     sk_revokedAt = kr_revokedAt row \<rparr>"

text \<open>An audit entry when the registry has an auditor; a strict one may reject.\<close>

definition audit_if ::
  "(error \<Rightarrow> string) \<Rightarrow> (audit_entry \<Rightarrow> 'd \<Rightarrow> (error + unit) \<times> 'd) \<Rightarrow> auditor option \<Rightarrow> record_input \<Rightarrow> 'd
   \<Rightarrow> (error + unit) \<times> 'd" where
  "audit_if msg writer au i d = (case au of
      None \<Rightarrow> (Inr (), d)
    | Some a \<Rightarrow> (case audit_record msg writer a i d of (r, _, d') \<Rightarrow> (r, d')))"

definition key_add ::
  "(string \<Rightarrow> error + 'k) \<Rightarrow> ('k \<Rightarrow> string) \<Rightarrow> (error \<Rightarrow> string) \<Rightarrow> (audit_entry \<Rightarrow> 'd \<Rightarrow> (error + unit) \<times> 'd) \<Rightarrow>
   auditor option \<Rightarrow> ms \<Rightarrow> string \<Rightarrow> string \<Rightarrow> string \<Rightarrow> 'k key_rows \<Rightarrow> 'd
   \<Rightarrow> (error + unit) \<times> 'k key_rows \<times> 'd" where
  "key_add createPublicKey keyType msg writer au t kid pem addedBy rows d = (
     if map_has rows kid then (Inl (SigningKeyExists kid), rows, d)
     else (case createPublicKey pem of
        Inl e \<Rightarrow> (Inl e, rows, d)
      | Inr k \<Rightarrow>
         if keyType k \<noteq> ''ed25519'' then (Inl (UnsupportedKeyType (keyType k)), rows, d)
         else
           let row = \<lparr> kr_publicKey = k, kr_pem = pem, kr_addedAt = t, kr_revokedAt = None \<rparr>;
               i = \<lparr> ri_action = audit_action_name SIGNING_KEY_ADDED, ri_target = kid,
                     ri_meta = [(''algorithm'', JStr ''EdDSA'')], ri_principal = PrincipalName addedBy \<rparr>
           in (case audit_if msg writer au i d of (r, d') \<Rightarrow> (r, map_set kid row rows, d'))))"

definition key_revoke ::
  "(error \<Rightarrow> string) \<Rightarrow> (audit_entry \<Rightarrow> 'd \<Rightarrow> (error + unit) \<times> 'd) \<Rightarrow> auditor option \<Rightarrow> ms \<Rightarrow> string \<Rightarrow> string \<Rightarrow>
   'k key_rows \<Rightarrow> 'd \<Rightarrow> (error + unit) \<times> 'k key_rows \<times> 'd" where
  "key_revoke msg writer au t kid revokedBy rows d = (case map_get rows kid of
      None \<Rightarrow> (Inl (SigningKeyNotFound kid), rows, d)
    | Some row \<Rightarrow>
       if kr_revokedAt row \<noteq> None then (Inr (), rows, d)
       else
         let i = \<lparr> ri_action = audit_action_name SIGNING_KEY_REVOKED, ri_target = kid,
                   ri_meta = [(''revokedAt'', JNum t)], ri_principal = PrincipalName revokedBy \<rparr>
         in (case audit_if msg writer au i d of
               (r, d') \<Rightarrow> (r, map_set kid (row \<lparr> kr_revokedAt := Some t \<rparr>) rows, d')))"

definition key_get :: "string \<Rightarrow> 'k key_rows \<Rightarrow> signing_key_record option" where
  "key_get kid rows = map_option (toRecord kid) (map_get rows kid)"

definition key_list :: "'k key_rows \<Rightarrow> signing_key_record list" where
  "key_list rows = map (\<lambda>(kid, row). toRecord kid row) rows"

text \<open>\<open>Inl\<close> is \<open>ok: false\<close> with its reason. \<open>nodeVerify\<close> may throw.\<close>

definition key_verify ::
  "('k \<Rightarrow> bytes \<Rightarrow> bytes \<Rightarrow> error + bool) \<Rightarrow> (error \<Rightarrow> string) \<Rightarrow> 'k key_rows \<Rightarrow> string \<Rightarrow> bytes \<Rightarrow> bytes
   \<Rightarrow> string + unit" where
  "key_verify nodeVerify msg rows kid signature message = (case map_get rows kid of
      None \<Rightarrow> Inl (''signing key '' @ kid @ '' not found'')
    | Some row \<Rightarrow>
       if kr_revokedAt row \<noteq> None then Inl (''signing key '' @ kid @ '' is revoked'')
       else (case nodeVerify (kr_publicKey row) message signature of
          Inl e \<Rightarrow> Inl (msg e)
        | Inr ok \<Rightarrow> if ok then Inr () else Inl ''signature does not verify''))"

section \<open>The scan for forbidden imports\<close>

definition newline :: char where "newline = CHR 0x0A"

text \<open>\<open>replace(/\/\/[^\n]*/g, '')\<close>\<close>

lemma dropWhile_termination [termination_simp]: "length (dropWhile P xs) < Suc (length xs)"
  using length_dropWhile_le [of P xs] by linarith

fun strip_line :: "string \<Rightarrow> string" where
  "strip_line [] = []"
| "strip_line (c # s) =
     (if c = CHR ''/'' \<and> take 1 s = ''/'' then strip_line (dropWhile (\<lambda>x. x \<noteq> newline) s)
      else c # strip_line s)"

text \<open>What follows the first end of a block comment.\<close>

fun after_close :: "string \<Rightarrow> string option" where
  "after_close [] = None"
| "after_close (c # s) = (if c = CHR ''*'' \<and> take 1 s = ''/'' then Some (tl s) else after_close s)"

lemma after_close_length: "after_close s = Some r \<Longrightarrow> length r < length s"
  by (induction s) (auto split: if_splits)

lemma after_close_termination [termination_simp]: "after_close (tl s) = Some r \<Longrightarrow> length r < Suc (length s)"
  using after_close_length [of "tl s" r] by simp

text \<open>\<open>replace(/\/\*[\s\S]*?\*\//g, '')\<close>: an unclosed block comment is not a match.\<close>

fun strip_block :: "string \<Rightarrow> string" where
  "strip_block [] = []"
| "strip_block (c # s) =
     (if c = CHR ''/'' \<and> take 1 s = ''*''
      then (case after_close (tl s) of Some r \<Rightarrow> strip_block r | None \<Rightarrow> c # strip_block s)
      else c # strip_block s)"

definition is_word_char :: "char \<Rightarrow> bool" where
  "is_word_char c \<longleftrightarrow> is_digit c \<or> c = CHR ''_''
     \<or> (65 \<le> (of_char c :: nat) \<and> (of_char c :: nat) \<le> 90) \<or> (97 \<le> (of_char c :: nat) \<and> (of_char c :: nat) \<le> 122)"

definition is_blank :: "char \<Rightarrow> bool" where
  "is_blank c \<longleftrightarrow> c = CHR '' '' \<or> c = CHR 0x09"

text \<open>A match of \<open>/^[ \t]*(import|export)\b[^\n]*/\<close> at the start of a line.\<close>

definition import_at :: "string \<Rightarrow> string option" where
  "import_at s = (let r = dropWhile is_blank s in
     if (starts_with ''import'' r \<or> starts_with ''export'' r)
        \<and> (case drop 6 r of [] \<Rightarrow> True | c # _ \<Rightarrow> \<not> is_word_char c)
     then Some (takeWhile (\<lambda>x. x \<noteq> newline) s) else None)"

text \<open>\<open>pattern.exec\<close>: the first line start that matches; the anchor also matches after a carriage return.\<close>

fun scan_lines :: "bool \<Rightarrow> string \<Rightarrow> string option" where
  "scan_lines b [] = None"
| "scan_lines b (c # s) = (case (if b then import_at (c # s) else None) of
      Some m \<Rightarrow> Some m
    | None \<Rightarrow> scan_lines (c = newline \<or> c = CHR 0x0D) s)"

definition js_space :: "char \<Rightarrow> bool" where
  "js_space c \<longleftrightarrow> of_char c \<in> {9, 10, 11, 12, 13, 32, 160 :: nat}"

definition js_trim :: "string \<Rightarrow> string" where
  "js_trim s = rev (dropWhile js_space (rev (dropWhile js_space s)))"

definition findForbiddenImport :: "string \<Rightarrow> string option" where
  "findForbiddenImport source = map_option js_trim (scan_lines True (strip_block (strip_line source)))"

section \<open>Validation\<close>

text \<open>The UTF-8 bytes of a character below 256.\<close>

definition utf8_char :: "char \<Rightarrow> bytes" where
  "utf8_char c = (let n = of_char c :: nat in
     if n < 128 then [of_nat n] else [of_nat (192 + n div 64), of_nat (128 + n mod 64)])"

definition utf8 :: "string \<Rightarrow> bytes" where
  "utf8 s = concat (map utf8_char s)"

text \<open>
  The parameters of the publisher: the semver package, \<open>parseDiagnostics\<close> of the TypeScript
  parser (file name, source), \<open>Buffer.toString('utf8')\<close> and the hex SHA-256 of a buffer.
\<close>

record publisher =
  pu_valid :: "string \<Rightarrow> bool"
  pu_validRange :: "string \<Rightarrow> bool"
  pu_satisfies :: "string \<Rightarrow> string \<Rightarrow> bool"
  pu_diagnostics :: "string \<Rightarrow> string \<Rightarrow> string list"
  pu_toString :: "bytes \<Rightarrow> string"
  pu_sha256 :: "bytes \<Rightarrow> string"

datatype publish_source = SourceText string | SourceBuffer bytes

record publish_input =
  pi_name :: class_name
  pi_version :: version
  pi_source :: publish_source
  pi_deps :: "deps_map option"
  pi_engines :: "(string, string) jsmap option"
  pi_floating :: "bool option"
  pi_eventSourced :: "bool option"
  pi_principal :: "string option"
  pi_signature :: "(string \<times> bytes) option"

definition SERVER_ACTJS_VERSION :: string where
  "SERVER_ACTJS_VERSION = ''0.3.0''"

definition checkDeps :: "publisher \<Rightarrow> deps_map \<Rightarrow> error + unit" where
  "checkDeps pu deps = foldr (\<lambda>(n, r) k.
     if n = [] then Inl (InvalidDepRange n r)
     else if \<not> pu_validRange pu r then Inl (InvalidDepRange n r) else k) (object_entries deps) (Inr ())"

definition checkEngine :: "publisher \<Rightarrow> (string, string) jsmap option \<Rightarrow> error + unit" where
  "checkEngine pu engines = (case Option.bind engines (\<lambda>m. map_get m ''actjs'') of
      None \<Rightarrow> Inr ()
    | Some r \<Rightarrow>
       if \<not> pu_validRange pu r then Inl (IncompatibleEngine r SERVER_ACTJS_VERSION)
       else if \<not> pu_satisfies pu SERVER_ACTJS_VERSION r then Inl (IncompatibleEngine r SERVER_ACTJS_VERSION)
       else Inr ())"

definition sourceStr :: "publisher \<Rightarrow> publish_source \<Rightarrow> string" where
  "sourceStr pu src = (case src of SourceText s \<Rightarrow> s | SourceBuffer b \<Rightarrow> pu_toString pu b)"

definition sourceBuf :: "publish_source \<Rightarrow> bytes" where
  "sourceBuf src = (case src of SourceText s \<Rightarrow> utf8 s | SourceBuffer b \<Rightarrow> b)"

definition parseTypeScript :: "publisher \<Rightarrow> string \<Rightarrow> class_name \<Rightarrow> string list" where
  "parseTypeScript pu source name = pu_diagnostics pu (name @ ''.ts'') source"

definition validatePublish :: "publisher \<Rightarrow> publish_input \<Rightarrow> error + unit" where
  "validatePublish pu i = (
     if \<not> pu_valid pu (pi_version i) then Inl (InvalidVersion (pi_version i))
     else (case checkDeps pu (case pi_deps i of Some m \<Rightarrow> m | None \<Rightarrow> []) of
        Inl e \<Rightarrow> Inl e
      | Inr _ \<Rightarrow> (case checkEngine pu (pi_engines i) of
          Inl e \<Rightarrow> Inl e
        | Inr _ \<Rightarrow>
           let src = sourceStr pu (pi_source i) in
           (case findForbiddenImport src of
              Some stmt \<Rightarrow> Inl (ForbiddenImport stmt)
            | None \<Rightarrow>
               let diags = parseTypeScript pu src (pi_name i) in
               if diags \<noteq> [] then Inl (SyntaxInvalid diags) else Inr ()))))"

section \<open>Publishing\<close>

definition signingMessage :: "string \<Rightarrow> class_name \<Rightarrow> version \<Rightarrow> bytes" where
  "signingMessage sha name v = utf8 (''sha256:'' @ sha @ ''|'' @ name @ ''@'' @ v)"

text \<open>\<open>po_verify\<close> is the registry's \<open>verify\<close>: kid, signature, message.\<close>

record publish_options =
  po_auditor :: "auditor option"
  po_signingKeys :: "(string \<Rightarrow> bytes \<Rightarrow> bytes \<Rightarrow> string + unit) option"
  po_requireSigned :: bool

text \<open>The verified kid, none without a signature.\<close>

definition checkSignature :: "publish_options \<Rightarrow> publish_input \<Rightarrow> string \<Rightarrow> error + string option" where
  "checkSignature opts i sha = (case pi_signature i of
      Some (kid, sig) \<Rightarrow> (case po_signingKeys opts of
         None \<Rightarrow> Inl (SignatureInvalid ''no signing-key registry configured on the server'')
       | Some verify \<Rightarrow> (case verify kid sig (signingMessage sha (pi_name i) (pi_version i)) of
           Inl reason \<Rightarrow> Inl (SignatureInvalid reason)
         | Inr _ \<Rightarrow> Inr (Some kid)))
    | None \<Rightarrow> if po_requireSigned opts then Inl SignatureRequired else Inr None)"

text \<open>A kid counts as a signer only when it is truthy.\<close>

definition signer :: "string option \<Rightarrow> string option" where
  "signer v = (case v of Some kid \<Rightarrow> if kid = [] then None else Some kid | None \<Rightarrow> None)"

definition storageInput :: "publish_input \<Rightarrow> string option \<Rightarrow> publish_class_input" where
  "storageInput i signedBy = \<lparr> pc_name = pi_name i, pc_version = pi_version i, pc_source = sourceBuf (pi_source i),
     pc_deps = (case pi_deps i of Some m \<Rightarrow> m | None \<Rightarrow> []),
     pc_engines = (case pi_engines i of Some m \<Rightarrow> m | None \<Rightarrow> []),
     pc_floating = pi_floating i, pc_eventSourced = pi_eventSourced i,
     pc_signature = (case (pi_signature i, signer signedBy) of
        (Some (_, sig), Some kid) \<Rightarrow> Some \<lparr> sg_signedBy = kid, sg_signature = sig \<rparr> | _ \<Rightarrow> None) \<rparr>"

definition publishedEntry :: "publish_input \<Rightarrow> string \<Rightarrow> string option \<Rightarrow> record_input" where
  "publishedEntry i sha signedBy = \<lparr> ri_action = audit_action_name CLASS_PUBLISHED,
     ri_target = pi_name i @ ''@'' @ pi_version i,
     ri_meta = [(''sha256'', JStr sha),
       (''floating'', JBool (case pi_floating i of Some b \<Rightarrow> b | None \<Rightarrow> False)),
       (''eventSourced'', JBool (case pi_eventSourced i of Some b \<Rightarrow> b | None \<Rightarrow> False))]
       @ (case signer signedBy of Some kid \<Rightarrow> [(''signedBy'', JStr kid)] | None \<Rightarrow> []),
     ri_principal = PrincipalName (case pi_principal i of Some p \<Rightarrow> p | None \<Rightarrow> ''system'') \<rparr>"

definition signedEntry :: "publish_input \<Rightarrow> string \<Rightarrow> string \<Rightarrow> record_input" where
  "signedEntry i sha kid = \<lparr> ri_action = audit_action_name CLASS_SIGNED,
     ri_target = pi_name i @ ''@'' @ pi_version i, ri_meta = [(''sha256'', JStr sha), (''kid'', JStr kid)],
     ri_principal = PrincipalName (case pi_principal i of Some p \<Rightarrow> p | None \<Rightarrow> ''system'') \<rparr>"

text \<open>
  The two audit entries draw the ids \<open>id1\<close> and \<open>id2\<close>. Without an auditor the entries go through a
  strict one of their own; a rejection then leaves the version published.
\<close>

definition auditPublish ::
  "(error \<Rightarrow> string) \<Rightarrow> (audit_entry \<Rightarrow> driver \<Rightarrow> (error + unit) \<times> driver) \<Rightarrow> string \<Rightarrow> string \<Rightarrow> auditor \<Rightarrow>
   publish_input \<Rightarrow> string \<Rightarrow> string option \<Rightarrow> driver \<Rightarrow> (error + unit) \<times> driver" where
  "auditPublish msg writer id1 id2 au i sha signedBy d =
     (case audit_record msg writer (au \<lparr> au_id := id1 \<rparr>) (publishedEntry i sha signedBy) d of
        (Inl e, _, d1) \<Rightarrow> (Inl e, d1)
      | (Inr _, _, d1) \<Rightarrow> (case signer signedBy of
           None \<Rightarrow> (Inr (), d1)
         | Some kid \<Rightarrow> (case audit_record msg writer (au \<lparr> au_id := id2 \<rparr>) (signedEntry i sha kid) d1 of
              (r, _, d2) \<Rightarrow> (r, d2))))"

definition publish ::
  "publisher \<Rightarrow> (error \<Rightarrow> string) \<Rightarrow> (audit_entry \<Rightarrow> driver \<Rightarrow> (error + unit) \<times> driver) \<Rightarrow> string \<Rightarrow> string \<Rightarrow>
   publish_options \<Rightarrow> publish_input \<Rightarrow> driver \<Rightarrow> (error + string \<times> string option) \<times> driver" where
  "publish pu msg writer id1 id2 opts i d = (case validatePublish pu i of
      Inl e \<Rightarrow> (Inl e, d)
    | Inr _ \<Rightarrow>
       let sha = pu_sha256 pu (sourceBuf (pi_source i)) in
       (case checkSignature opts i sha of
          Inl e \<Rightarrow> (Inl e, d)
        | Inr signedBy \<Rightarrow> (case publishClass (storageInput i signedBy) d of
            (Inl e, d1) \<Rightarrow> (Inl e, d1)
          | (Inr _, d1) \<Rightarrow>
             let au = (case po_auditor opts of Some a \<Rightarrow> a
                       | None \<Rightarrow> \<lparr> au_mode = Strict, au_id = [], au_now = d_now d, au_noop = False \<rparr>)
             in (case auditPublish msg writer id1 id2 au i sha signedBy d1 of
                   (Inl e, d2) \<Rightarrow> (Inl e, d2)
                 | (Inr _, d2) \<Rightarrow> (Inr (sha, signer signedBy), d2)))))"

section \<open>What validation accepts\<close>

lemma foldr_checks:
  "foldr (\<lambda>x k. if bad x then Inl (e x) else k) xs (Inr ()) = Inr () \<longleftrightarrow> (\<forall>x\<in>set xs. \<not> bad x)"
  by (induction xs) auto

lemma checkDeps_ok:
  "checkDeps pu deps = Inr u \<longleftrightarrow> (\<forall>n r. map_get deps n = Some r \<longrightarrow> n \<noteq> [] \<and> pu_validRange pu r)"
proof -
  have f: "(\<lambda>(n, r) k. if n = [] then Inl (InvalidDepRange n r)
      else if \<not> pu_validRange pu r then Inl (InvalidDepRange n r) else k)
    = (\<lambda>p k. if fst p = [] \<or> \<not> pu_validRange pu (snd p) then Inl (InvalidDepRange (fst p) (snd p)) else k)"
    by (intro ext) (auto split: prod.split)
  have "checkDeps pu deps = Inr u \<longleftrightarrow> (\<forall>p\<in>set (object_entries deps). \<not> (fst p = [] \<or> \<not> pu_validRange pu (snd p)))"
    unfolding checkDeps_def f by (cases u) (simp add: foldr_checks)
  also have "\<dots> \<longleftrightarrow> (\<forall>n r. (n, r) \<in> set (object_entries deps) \<longrightarrow> n \<noteq> [] \<and> pu_validRange pu r)"
    by auto
  finally show ?thesis by (simp only: set_object_entries)
qed

lemma checkEngine_ok:
  "checkEngine pu engines = Inr u \<longleftrightarrow> (\<forall>m r. engines = Some m \<longrightarrow> map_get m ''actjs'' = Some r \<longrightarrow>
     pu_validRange pu r \<and> pu_satisfies pu SERVER_ACTJS_VERSION r)"
  by (cases u; cases engines) (auto simp: checkEngine_def split: option.split)

lemma validatePublish_ok:
  "validatePublish pu i = Inr u \<Longrightarrow> pu_valid pu (pi_version i)
     \<and> checkDeps pu (case pi_deps i of Some m \<Rightarrow> m | None \<Rightarrow> []) = Inr ()
     \<and> checkEngine pu (pi_engines i) = Inr ()
     \<and> findForbiddenImport (sourceStr pu (pi_source i)) = None
     \<and> parseTypeScript pu (sourceStr pu (pi_source i)) (pi_name i) = []"
  by (auto simp: validatePublish_def Let_def split: if_splits sum.splits option.splits)

text \<open>The gate: a source passes when, comments aside, no line starts with the keywords.\<close>

lemma scan_lines_None:
  "scan_lines b s = None \<longleftrightarrow> (b \<longrightarrow> s = [] \<or> import_at s = None)
     \<and> (\<forall>p c q. s = p @ c # q \<longrightarrow> c \<in> {newline, CHR 0x0D} \<longrightarrow> q = [] \<or> import_at q = None)"
proof (induction b s rule: scan_lines.induct)
  case (1 b)
  then show ?case by simp
next
  case (2 b c s)
  have split: "(\<forall>p d q. c # s = p @ d # q \<longrightarrow> P d q) \<longleftrightarrow> P c s \<and> (\<forall>p d q. s = p @ d # q \<longrightarrow> P d q)" for P
    by (auto simp: Cons_eq_append_conv)
  show ?case
  proof (cases "if b then import_at (c # s) else None")
    case None
    then show ?thesis
      unfolding split using 2 [OF None] by (auto split: if_splits)
  next
    case (Some m)
    then show ?thesis by (auto split: if_splits)
  qed
qed

lemma import_at_keyword:
  assumes "list_all is_blank i" and "k = ''import'' \<or> k = ''export''" and "r = [] \<or> \<not> is_word_char (hd r)"
  shows "import_at (i @ k @ r) \<noteq> None"
proof -
  have "\<not> is_blank (hd k)" and k: "k \<noteq> []" "length k = 6" using assms(2) by (auto simp: is_blank_def)
  moreover have "dropWhile P (xs @ ys) = ys" if "list_all P xs" "ys \<noteq> []" "\<not> P (hd ys)" for P and xs ys :: string
    using that by (induction xs) (auto simp: neq_Nil_conv)
  ultimately have d: "dropWhile is_blank (i @ k @ r) = k @ r" using assms(1) by (simp add: hd_append)
  have "(case drop 6 (k @ r) of [] \<Rightarrow> True | c # _ \<Rightarrow> \<not> is_word_char c)"
    using assms(3) k by (cases r) auto
  moreover have "starts_with ''import'' (k @ r) \<or> starts_with ''export'' (k @ r)"
    using assms(2) starts_with_append [of k r] by metis
  ultimately show ?thesis by (simp add: import_at_def d Let_def)
qed

section \<open>Publishing, step by step\<close>

definition registry_of :: "driver \<Rightarrow> (string, class_version_record) jsmap \<times> (string, bytes) jsmap" where
  "registry_of d = (d_classVersions d, d_classSource d)"

lemma audit_record_registry:
  assumes "\<forall>e x. registry_of (snd (writer e x)) = registry_of x"
  shows "registry_of (snd (snd (audit_record msg writer au i d))) = registry_of d"
  using assms [rule_format, of "audit_entry_of au i" d]
  by (cases "writer (audit_entry_of au i) d") (auto simp: audit_record_def split: sum.split)

lemma audit_record_fails:
  "audit_record msg writer au i d = (Inl e, b, d') \<Longrightarrow> \<exists>m. e = AuditWriteError m"
  by (auto simp: audit_record_def split: if_splits prod.splits sum.splits audit_mode.splits)

lemma auditPublish_registry:
  assumes "\<forall>e x. registry_of (snd (writer e x)) = registry_of x"
    and "auditPublish msg writer id1 id2 au i sha k d = (r, d')"
  shows "registry_of d' = registry_of d \<and> (\<forall>e. r = Inl e \<longrightarrow> (\<exists>m. e = AuditWriteError m))"
proof -
  obtain r1 b1 d1 where a1: "audit_record msg writer (au \<lparr> au_id := id1 \<rparr>) (publishedEntry i sha k) d = (r1, b1, d1)"
    by (cases "audit_record msg writer (au \<lparr> au_id := id1 \<rparr>) (publishedEntry i sha k) d")
  have d1: "registry_of d1 = registry_of d"
    using audit_record_registry [OF assms(1), of msg "au \<lparr> au_id := id1 \<rparr>" "publishedEntry i sha k" d] a1 by simp
  show ?thesis
  proof (cases r1)
    case (Inl e)
    with assms(2) a1 d1 audit_record_fails show ?thesis by (fastforce simp: auditPublish_def)
  next
    case (Inr u)
    show ?thesis
    proof (cases "signer k")
      case None
      with assms(2) a1 d1 Inr show ?thesis by (auto simp: auditPublish_def)
    next
      case (Some kid)
      obtain r2 b2 d2 where a2: "audit_record msg writer (au \<lparr> au_id := id2 \<rparr>) (signedEntry i sha kid) d1 = (r2, b2, d2)"
        by (cases "audit_record msg writer (au \<lparr> au_id := id2 \<rparr>) (signedEntry i sha kid) d1")
      have "registry_of d2 = registry_of d1"
        using audit_record_registry [OF assms(1), of msg "au \<lparr> au_id := id2 \<rparr>" "signedEntry i sha kid" d1] a2 by simp
      with assms(2) a1 a2 d1 Inr Some audit_record_fails show ?thesis
        by (fastforce simp: auditPublish_def)
    qed
  qed
qed

lemma publishClass_source:
  assumes "publishClass input d = (Inr u, d')" and "registry_of x = registry_of d'"
  shows "getClassSource (pc_name input) (pc_version input) x = Some (pc_source input)
    \<and> (\<exists>rec. map_get (d_classVersions x) (mkClassRef (pc_name input) (pc_version input)) = Some rec
         \<and> cv_signedBy rec = map_option sg_signedBy (pc_signature input))"
  using assms by (auto simp: publishClass_def getClassSource_def registry_of_def Let_def split: if_splits)

lemma storageInput_simps [simp]:
  "pc_name (storageInput i k) = pi_name i" "pc_version (storageInput i k) = pi_version i"
  "pc_source (storageInput i k) = sourceBuf (pi_source i)"
  by (simp_all add: storageInput_def)

lemma checkSignature_ok:
  assumes "checkSignature opts i sha = Inr k"
  shows "map_option sg_signedBy (pc_signature (storageInput i k)) = signer k"
    and "k = Some kid \<Longrightarrow> \<exists>sig verify. pi_signature i = Some (kid, sig) \<and> po_signingKeys opts = Some verify
       \<and> verify kid sig (signingMessage sha (pi_name i) (pi_version i)) = Inr ()"
    and "k = None \<Longrightarrow> \<not> po_requireSigned opts"
  using assms
  by (auto simp: checkSignature_def storageInput_def signer_def split: option.splits prod.splits sum.splits if_splits)

lemma key_verify_ok:
  "key_verify nodeVerify msg rows kid sig m = Inr u \<Longrightarrow> \<exists>row. map_get rows kid = Some row
     \<and> kr_revokedAt row = None \<and> nodeVerify (kr_publicKey row) m sig = Inr True"
  by (auto simp: key_verify_def split: option.splits if_splits sum.splits)

text \<open>The steps of a publish that got past each stage.\<close>

lemma publish_cases:
  assumes "publish pu msg writer id1 id2 opts i d = (r, d')"
  obtains (rejected) e where "r = Inl e" "d' = d"
  | (written) sha k d1 au ra where "validatePublish pu i = Inr ()" "sha = pu_sha256 pu (sourceBuf (pi_source i))"
      "checkSignature opts i sha = Inr k" "publishClass (storageInput i k) d = (Inr (), d1)"
      "auditPublish msg writer id1 id2 au i sha k d1 = (ra, d')"
      "r = (case ra of Inl e \<Rightarrow> Inl e | Inr _ \<Rightarrow> Inr (sha, signer k))"
proof -
  let ?sha = "pu_sha256 pu (sourceBuf (pi_source i))"
  let ?au = "case po_auditor opts of Some a \<Rightarrow> a
    | None \<Rightarrow> \<lparr> au_mode = Strict, au_id = [], au_now = d_now d, au_noop = False \<rparr>"
  show thesis
  proof (cases "validatePublish pu i")
    case (Inl e)
    with assms have "r = Inl e" "d' = d" by (auto simp: publish_def)
    then show thesis by (rule rejected)
  next
    case v: (Inr u)
    show thesis
    proof (cases "checkSignature opts i ?sha")
      case (Inl e)
      with v assms have "r = Inl e" "d' = d" by (auto simp: publish_def Let_def)
      then show thesis by (rule rejected)
    next
      case c: (Inr k)
      obtain rp d1 where p: "publishClass (storageInput i k) d = (rp, d1)" by (cases "publishClass (storageInput i k) d")
      show thesis
      proof (cases rp)
        case (Inl e)
        with p have "d1 = d" by (auto dest: publishClass_err)
        with Inl v c p assms have "r = Inl e" "d' = d" by (auto simp: publish_def Let_def)
        then show thesis by (rule rejected)
      next
        case (Inr u')
        obtain ra d2 where a: "auditPublish msg writer id1 id2 ?au i ?sha k d1 = (ra, d2)"
          by (cases "auditPublish msg writer id1 id2 ?au i ?sha k d1")
        from assms v c p Inr a have "d' = d2" "r = (case ra of Inl e \<Rightarrow> Inl e | Inr _ \<Rightarrow> Inr (?sha, signer k))"
          by (auto simp: publish_def Let_def split: sum.splits)
        with v c p Inr a show thesis by (intro written) auto
      qed
    qed
  qed
qed

section \<open>The signed message\<close>

lemma of_char_less: "(of_char c :: nat) < 256"
  by (metis of_char_mod_256 mod_less_divisor zero_less_numeral)

lemma utf8_char_unat:
  "map unat (utf8_char c) = (let n = of_char c in if n < 128 then [n] else [192 + n div 64, 128 + n mod 64])"
proof -
  have u: "unat (of_nat m :: 8 word) = m" if "m < 256" for m
    using that by (simp add: unat_of_nat take_bit_eq_mod)
  have "of_char c div 64 < (4 :: nat)" using of_char_less [of c] by (simp add: div_less_iff_less_mult)
  then have h: "192 + of_char c div 64 < (256 :: nat)" by linarith
  have "of_char c mod 64 < (64 :: nat)" by simp
  then have l: "128 + of_char c mod 64 < (256 :: nat)" by linarith
  show ?thesis
  proof (cases "(of_char c :: nat) < 128")
    case True
    then show ?thesis by (simp only: utf8_char_def Let_def if_True list.map u [OF of_char_less])
  next
    case False
    then show ?thesis by (simp only: utf8_char_def Let_def if_False list.map u [OF h] u [OF l])
  qed
qed

lemma utf8_char_prefix:
  assumes "utf8_char c @ x = utf8_char d @ y"
  shows "c = d \<and> x = y"
proof -
  let ?m = "of_char c :: nat" and ?n = "of_char d :: nat"
  have m: "map unat (utf8_char c) @ map unat x = map unat (utf8_char d) @ map unat y"
    using assms by (metis map_append)
  have "?m = ?n"
  proof (cases "?m < 128"; cases "?n < 128")
    assume "\<not> ?m < 128" "\<not> ?n < 128"
    with m have "?m div 64 = ?n div 64" "?m mod 64 = ?n mod 64" by (auto simp: utf8_char_unat Let_def)
    then show ?thesis by (metis div_mult_mod_eq)
  qed (use m in \<open>auto simp: utf8_char_unat Let_def\<close>)
  then have "c = d" by simp
  with assms show ?thesis by simp
qed

lemma utf8_char_nonempty [simp]: "utf8_char c \<noteq> []"
  by (simp add: utf8_char_def Let_def)

lemma utf8_inject [simp]: "utf8 s = utf8 t \<longleftrightarrow> s = t"
proof
  show "utf8 s = utf8 t \<Longrightarrow> s = t"
  proof (induction s arbitrary: t)
    case Nil
    then show ?case by (cases t) (auto simp: utf8_def)
  next
    case (Cons c s)
    then obtain d t' where "t = d # t'" by (cases t) (auto simp: utf8_def)
    with Cons show ?case using utf8_char_prefix [of c "utf8 s" d "utf8 t'"] by (auto simp: utf8_def)
  qed
qed simp

text \<open>Hex digests hold no bar and versions no at sign: the message determines what was signed.\<close>

lemma signingMessage_inject:
  assumes "CHR ''|'' \<notin> set sha" "CHR ''|'' \<notin> set sha'" "CHR ''@'' \<notin> set v" "CHR ''@'' \<notin> set v'"
  shows "signingMessage sha n v = signingMessage sha' n' v' \<longleftrightarrow> sha = sha' \<and> n = n' \<and> v = v'"
proof
  assume "signingMessage sha n v = signingMessage sha' n' v'"
  then have e: "sha @ CHR ''|'' # mkClassRef n v = sha' @ CHR ''|'' # mkClassRef n' v'"
    by (simp add: signingMessage_def mkClassRef_def)
  then have "sha = sha' \<and> mkClassRef n v = mkClassRef n' v'" using assms(1,2) by (rule sep_prefix_inject)
  with mkClassRef_inject [OF assms(3,4)] show "sha = sha' \<and> n = n' \<and> v = v'" by simp
qed simp

section \<open>Properties\<close>

text \<open>
  C21. The publish gate. A publish answers with the hash of its source only when the version,
  every dependency range and the engine range are valid, no line of the comment-free source
  starts an import or export, the source parses, and the version was free; the source is then
  retrievable. A recorded signer is a registered, unrevoked key whose signature over exactly
  this hash, name and version verified, and a server that requires signatures publishes
  nothing else. A failed publish leaves the store as it was, unless only its audit failed.
\<close>

theorem publish_gate:
  assumes "publish pu msg writer id1 id2 opts i d = (r, d')"
    and "\<forall>e x. registry_of (snd (writer e x)) = registry_of x"
    and "po_signingKeys opts = map_option (key_verify nodeVerify msg) keys"
  shows "(case r of
      Inr (sha, signedBy) \<Rightarrow> validatePublish pu i = Inr () \<and> pu_valid pu (pi_version i)
       \<and> findForbiddenImport (sourceStr pu (pi_source i)) = None
       \<and> parseTypeScript pu (sourceStr pu (pi_source i)) (pi_name i) = []
       \<and> map_get (d_classVersions d) (mkClassRef (pi_name i) (pi_version i)) = None
       \<and> sha = pu_sha256 pu (sourceBuf (pi_source i))
       \<and> getClassSource (pi_name i) (pi_version i) d' = Some (sourceBuf (pi_source i))
       \<and> (\<exists>rec. map_get (d_classVersions d') (mkClassRef (pi_name i) (pi_version i)) = Some rec \<and> cv_signedBy rec = signedBy)
       \<and> (signedBy \<noteq> None \<or> po_requireSigned opts \<longrightarrow> (\<exists>kid sig rows row. pi_signature i = Some (kid, sig)
            \<and> keys = Some rows \<and> map_get rows kid = Some row \<and> kr_revokedAt row = None
            \<and> nodeVerify (kr_publicKey row) (signingMessage sha (pi_name i) (pi_version i)) sig = Inr True
            \<and> signedBy = signer (Some kid)))
    | Inl e \<Rightarrow> d' = d \<or> (\<exists>m. e = AuditWriteError m)
       \<and> getClassSource (pi_name i) (pi_version i) d' = Some (sourceBuf (pi_source i)))"
  using assms(1)
proof (cases rule: publish_cases)
  case (rejected e)
  then show ?thesis by simp
next
  case (written sha k d1 au ra)
  note reg = auditPublish_registry [OF assms(2) written(5)]
  note src = publishClass_source [OF written(4) conjunct1 [OF reg]]
  show ?thesis
  proof (cases ra)
    case (Inl e)
    with written(6) reg src show ?thesis by simp
  next
    case (Inr u)
    have "signer k \<noteq> None \<or> po_requireSigned opts \<Longrightarrow> \<exists>kid. k = Some kid"
      using checkSignature_ok(3) [OF written(3)] by (cases k) (auto simp: signer_def)
    then have sig: "signer k \<noteq> None \<or> po_requireSigned opts \<longrightarrow> (\<exists>kid sig rows row. pi_signature i = Some (kid, sig)
        \<and> keys = Some rows \<and> map_get rows kid = Some row \<and> kr_revokedAt row = None
        \<and> nodeVerify (kr_publicKey row) (signingMessage sha (pi_name i) (pi_version i)) sig = Inr True
        \<and> signer k = signer (Some kid))"
      using checkSignature_ok(2) [OF written(3)] assms(3) key_verify_ok by fastforce
    have free: "map_get (d_classVersions d) (mkClassRef (pi_name i) (pi_version i)) = None"
      using publishClass_ok [OF written(4)] by simp
    show ?thesis
      using written(1,2,6) Inr src sig free checkSignature_ok(1) [OF written(3)] validatePublish_ok [OF written(1)]
      by simp
  qed
qed

definition demo_publisher :: publisher where
  "demo_publisher = \<lparr> pu_valid = (\<lambda>v. v = ''1.0.0''), pu_validRange = (\<lambda>r. r = ''^1''), pu_satisfies = (\<lambda>v r. True),
     pu_diagnostics = (\<lambda>f s. []), pu_toString = (\<lambda>b. []), pu_sha256 = (\<lambda>b. ''ab12'') \<rparr>"

definition demo_keys :: "nat key_rows" where
  "demo_keys = [(''k1'', \<lparr> kr_publicKey = 7, kr_pem = ''pem'', kr_addedAt = 1, kr_revokedAt = None \<rparr>)]"

definition demo_verify :: "nat \<Rightarrow> bytes \<Rightarrow> bytes \<Rightarrow> error + bool" where
  "demo_verify k m s = Inr (s = of_nat k # m)"

definition demo_input :: publish_input where
  "demo_input = \<lparr> pi_name = ''Note'', pi_version = ''1.0.0'', pi_source = SourceText ''return class {}'',
     pi_deps = Some [(''Tag'', ''^1'')], pi_engines = None, pi_floating = None, pi_eventSourced = None,
     pi_principal = None, pi_signature = Some (''k1'', 7 # signingMessage ''ab12'' ''Note'' ''1.0.0'') \<rparr>"

definition demo_options :: publish_options where
  "demo_options = \<lparr> po_auditor = None, po_signingKeys = Some (key_verify demo_verify (\<lambda>e. []) demo_keys),
     po_requireSigned = True \<rparr>"

lemma demo_valid: "validatePublish demo_publisher demo_input = Inr ()"
proof -
  have "findForbiddenImport ''return class {}'' = None" by code_simp
  moreover have "object_entries [(''Tag'', ''^1'')] = [(''Tag'', ''^1'')]" by code_simp
  ultimately show ?thesis
    by (simp add: validatePublish_def demo_publisher_def demo_input_def checkDeps_def checkEngine_def sourceStr_def
        parseTypeScript_def)
qed

lemma demo_signed: "checkSignature demo_options demo_input ''ab12'' = Inr (Some ''k1'')"
  by (simp add: checkSignature_def demo_options_def demo_input_def key_verify_def demo_keys_def demo_verify_def)

theorem publish_gate_witness:
  "fst (publish demo_publisher (\<lambda>e. []) (\<lambda>e d. (Inr (), appendAudit e d)) ''a1'' ''a2'' demo_options demo_input empty_driver)
     = Inr (''ab12'', Some ''k1'')
   \<and> getClassSource ''Note'' ''1.0.0'' (snd (publish demo_publisher (\<lambda>e. []) (\<lambda>e d. (Inr (), appendAudit e d))
       ''a1'' ''a2'' demo_options demo_input empty_driver)) = Some (utf8 ''return class {}'')"
  (is "fst ?p = _ \<and> _")
proof -
  obtain r d' where p: "?p = (r, d')" by (cases ?p)
  have "fst ?p = Inr (''ab12'', Some ''k1'')"
    using demo_valid demo_signed
    by (simp add: publish_def demo_publisher_def [THEN arg_cong [of _ _ pu_sha256]] publishClass_def empty_driver_def
        auditPublish_def audit_record_def signer_def Let_def demo_options_def)
  with p have r: "r = Inr (''ab12'', Some ''k1'')" by simp
  have "po_signingKeys demo_options = map_option (key_verify demo_verify (\<lambda>e. [])) (Some demo_keys)"
    by (simp add: demo_options_def)
  from publish_gate [OF p _ this] r p show ?thesis
    by (simp add: registry_of_def appendAudit_def demo_input_def sourceBuf_def)
qed

text \<open>A comment opener inside a string literal hides everything up to the next closer.\<close>

theorem literal_hides_export:
  "findForbiddenImport (''const a = '' @ [CHR 0x22] @ ''/*'' @ [CHR 0x22, newline] @ ''export const b = 1;'' @ [newline]
     @ ''const c = '' @ [CHR 0x22] @ ''*/'' @ [CHR 0x22]) = None"
  by code_simp

end
