(* ===== verification/Capability.thy ===== *)
theory Capability
  imports Publisher
begin

text \<open>
  Capability tokens (\<open>src/policy/capability.ts\<close>): base64url, the JSON text of the claims, minting,
  verification, and the checks a policy can make. Ed25519 signing and \<open>JSON.parse\<close> of a decoded
  segment are parameters; what a round trip needs of them is stated where it is used.
\<close>

section \<open>Base64url\<close>

fun sextets :: "nat list \<Rightarrow> nat list" where
  "sextets (a # b # c # r) = a div 4 # ((a mod 4) * 16 + b div 16) # ((b mod 16) * 4 + c div 64) # c mod 64 # sextets r"
| "sextets [a, b] = [a div 4, (a mod 4) * 16 + b div 16, (b mod 16) * 4]"
| "sextets [a] = [a div 4, (a mod 4) * 16]"
| "sextets [] = []"

fun octets :: "nat list \<Rightarrow> nat list" where
  "octets (w # x # y # z # r) =
     (w * 4 + x div 16) # ((x mod 16) * 16 + y div 4) # ((y mod 4) * 64 + z) # octets r"
| "octets [w, x, y] = [w * 4 + x div 16, (x mod 16) * 16 + y div 4]"
| "octets [w, x] = [w * 4 + x div 16]"
| "octets [w] = []"
| "octets [] = []"

definition b64_char :: "nat \<Rightarrow> char" where
  "b64_char n = (if n < 26 then char_of (65 + n) else if n < 52 then char_of (71 + n)
     else if n < 62 then char_of (n - 4) else if n = 62 then CHR ''+'' else CHR ''/'')"

text \<open>The decoder reads both alphabets.\<close>

definition b64_value :: "char \<Rightarrow> nat option" where
  "b64_value c = (let n = of_char c :: nat in
     if 65 \<le> n \<and> n \<le> 90 then Some (n - 65) else if 97 \<le> n \<and> n \<le> 122 then Some (n - 71)
     else if 48 \<le> n \<and> n \<le> 57 then Some (n + 4) else if n = 43 \<or> n = 45 then Some 62
     else if n = 47 \<or> n = 95 then Some 63 else None)"

text \<open>\<open>toString('base64')\<close> and \<open>Buffer.from(s, 'base64')\<close>, which skips what is not in the alphabet.\<close>

definition base64 :: "bytes \<Rightarrow> string" where
  "base64 buf = (let s = map b64_char (sextets (map unat buf)) in s @ replicate ((4 - length s mod 4) mod 4) CHR ''='')"

definition from_base64 :: "string \<Rightarrow> bytes" where
  "from_base64 s = map of_nat (octets (List.map_filter b64_value (takeWhile (\<lambda>c. c \<noteq> CHR ''='') s)))"

definition b64uEncode :: "bytes \<Rightarrow> string" where
  "b64uEncode buf = map (\<lambda>c. if c = CHR ''+'' then CHR ''-'' else if c = CHR ''/'' then CHR ''_'' else c)
     (rev (dropWhile (\<lambda>c. c = CHR ''='') (rev (base64 buf))))"

definition b64uDecode :: "string \<Rightarrow> bytes" where
  "b64uDecode s = (let padded = map (\<lambda>c. if c = CHR ''-'' then CHR ''+'' else if c = CHR ''_'' then CHR ''/'' else c) s
     in from_base64 (padded @ replicate ((4 - length padded mod 4) mod 4) CHR ''=''))"

lemma octets_sextets: "list_all (\<lambda>n. n < 256) bs \<Longrightarrow> octets (sextets bs) = bs"
proof (induction bs rule: sextets.induct)
  case (1 a b c r)
  have "(a mod 4) * 16 + b div 16 < 64" "(b mod 16) * 4 + c div 64 < 64" using 1 by auto
  with 1 show ?case by auto
qed auto

lemma sextets_less: "list_all (\<lambda>n. n < 256) bs \<Longrightarrow> list_all (\<lambda>n. n < 64) (sextets bs)"
  by (induction bs rule: sextets.induct) auto

lemma sextets_length: "length (sextets bs) mod 4 \<noteq> 1"
  by (induction bs rule: sextets.induct) auto

lemma unat_bytes: "list_all (\<lambda>n. n < 256) (map unat (bs :: bytes))"
  by (auto simp: list_all_iff intro: order.strict_trans2 [OF unsigned_less])

lemma b64_value_char: "n < 64 \<Longrightarrow> b64_value (b64_char n) = Some n"
proof -
  have "of_char (char_of m :: char) = (m :: nat)" if "m < 256" for m
    using that by (simp add: take_bit_eq_mod)
  moreover assume "n < 64"
  ultimately show ?thesis by (auto simp: b64_value_def b64_char_def Let_def)
qed

lemma b64_char_not:
  assumes "n < 64"
  shows "b64_char n \<noteq> CHR ''=''" "b64_char n \<noteq> CHR ''-''" "b64_char n \<noteq> CHR ''_''" "b64_char n \<noteq> CHR ''.''"
proof -
  have c: "of_char (char_of m :: char) = (m :: nat)" if "m < 256" for m
    using that by (simp add: take_bit_eq_mod)
  have "(of_char (b64_char n) :: nat) \<in> {65..90} \<union> {97..122} \<union> {48..57} \<union> {43, 47}"
    using assms by (auto simp: b64_char_def c)
  then show "b64_char n \<noteq> CHR ''=''" "b64_char n \<noteq> CHR ''-''" "b64_char n \<noteq> CHR ''_''" "b64_char n \<noteq> CHR ''.''"
    by auto
qed

lemma strip_padding:
  assumes "\<forall>c\<in>set s. c \<noteq> x"
  shows "rev (dropWhile (\<lambda>c. c = x) (rev (s @ replicate k x))) = s"
proof -
  have "dropWhile (\<lambda>c. c = x) (replicate k x @ rev s) = dropWhile (\<lambda>c. c = x) (rev s)" by (induction k) auto
  moreover have "dropWhile (\<lambda>c. c = x) (rev s) = rev s"
  proof (cases s rule: rev_cases)
    case (snoc ys y)
    with assms show ?thesis by simp
  qed simp
  ultimately show ?thesis by simp
qed

definition url_char :: "char \<Rightarrow> char" where
  "url_char c = (if c = CHR ''+'' then CHR ''-'' else if c = CHR ''/'' then CHR ''_'' else c)"

lemma b64uEncode_eq: "b64uEncode buf = map (\<lambda>n. url_char (b64_char n)) (sextets (map unat buf))"
proof -
  have "\<forall>c\<in>set (map b64_char (sextets (map unat buf))). c \<noteq> CHR ''=''"
    using sextets_less [OF unat_bytes] b64_char_not(1) by (auto simp: list_all_iff)
  note strip = strip_padding [OF this]
  show ?thesis unfolding b64uEncode_def base64_def Let_def strip by (simp add: url_char_def)
qed

lemma b64u_no_dot: "CHR ''.'' \<notin> set (b64uEncode buf)"
proof -
  have "url_char (b64_char n) \<noteq> CHR ''.''" if "n < 64" for n
    using b64_char_not(4) [OF that] by (simp add: url_char_def)
  moreover have "\<forall>n\<in>set (sextets (map unat buf)). n < 64"
    using sextets_less [OF unat_bytes [of buf]] by (simp add: list_all_iff)
  ultimately show ?thesis unfolding b64uEncode_eq by (metis (no_types, lifting) image_iff set_map)
qed

lemma map_filter_Some: "(\<forall>x\<in>set xs. f (g x) = Some x) \<Longrightarrow> List.map_filter f (map g xs) = xs"
  by (induction xs) (auto simp: List.map_filter_simps)

lemma takeWhile_padding: "(\<forall>c\<in>set s. P c) \<Longrightarrow> \<not> P x \<Longrightarrow> takeWhile P (s @ replicate k x) = s"
  by (induction s) (cases k, auto)

lemma b64u_roundtrip: "b64uDecode (b64uEncode buf) = buf"
proof -
  let ?s = "sextets (map unat buf)"
  let ?undo = "\<lambda>c. if c = CHR ''-'' then CHR ''+'' else if c = CHR ''_'' then CHR ''/'' else c"
  have less: "\<forall>n\<in>set ?s. n < 64" using sextets_less [OF unat_bytes [of buf]] by (simp add: list_all_iff)
  then have undo: "map ?undo (b64uEncode buf) = map b64_char ?s"
    using b64_char_not(2,3) by (auto simp: b64uEncode_eq url_char_def)
  have "takeWhile (\<lambda>c. c \<noteq> CHR ''='') (map b64_char ?s @ replicate k CHR ''='') = map b64_char ?s" for k
    using less b64_char_not(1) by (intro takeWhile_padding) auto
  then have "from_base64 (map b64_char ?s @ replicate k CHR ''='') = map of_nat (octets ?s)" for k
    using less b64_value_char by (simp add: from_base64_def map_filter_Some)
  then show ?thesis
    unfolding b64uDecode_def Let_def undo
    by (simp add: octets_sextets [OF unat_bytes] comp_def)
qed

section \<open>JSON text\<close>

lemma size_snd_in [termination_simp]:
  "p \<in> set ps \<Longrightarrow> size (snd p) < Suc (size_list (size_prod (\<lambda>x. 0) size) ps)"
  by (induction ps) auto

lemma size_in_list [termination_simp]: "v \<in> set vs \<Longrightarrow> size v < Suc (size_list size vs)"
  by (induction vs) auto

text \<open>\<open>JSON.stringify\<close>: an undefined property is left out, an undefined element is null.\<close>

fun stringify :: "jsval \<Rightarrow> string" where
  "stringify JUndefined = ''null''"
| "stringify JNull = ''null''"
| "stringify (JBool b) = (if b then ''true'' else ''false'')"
| "stringify (JNum n) = show_int n"
| "stringify (JStr s) = json_quote s"
| "stringify (JArr vs) = CHR ''['' # join '','' (map stringify vs) @ '']''"
| "stringify (JObj ps) = (
     let shown = map (\<lambda>p. (fst p, snd p = JUndefined, stringify (snd p))) ps
     in CHR 0x7B # join '','' (map (\<lambda>k. json_quote k @ CHR '':'' # snd (the (map_get shown k)))
          (filter (\<lambda>k. \<not> fst (the (map_get shown k))) (own_keys shown))) @ [CHR 0x7D])"

definition b64uJson :: "jsval \<Rightarrow> string" where
  "b64uJson v = b64uEncode (utf8 (stringify v))"

section \<open>Minting\<close>

record capability_mint_input =
  mi_class :: string
  mi_id :: string
  mi_methods :: "string list"
  mi_ttlMs :: ms
  mi_audience :: "string option"
  mi_nowMs :: "ms option"

record 'p capability_issuer =
  is_issuer :: string
  is_publicKey :: 'p
  is_privateKey :: 'p
  is_maxTtlMs :: ms

definition DEFAULT_MAX_TTL_MS :: ms where
  "DEFAULT_MAX_TTL_MS = 24 * 60 * 60 * 1000"

text \<open>\<open>fresh\<close> is the generated key pair, public key first.\<close>

definition new_issuer :: "string \<Rightarrow> 'p option \<Rightarrow> 'p option \<Rightarrow> 'p \<times> 'p \<Rightarrow> ms option \<Rightarrow> error + 'p capability_issuer" where
  "new_issuer name privateKey publicKey fresh maxTtlMs = (
     let mk = (\<lambda>pub priv. \<lparr> is_issuer = name, is_publicKey = pub, is_privateKey = priv,
           is_maxTtlMs = (case maxTtlMs of Some m \<Rightarrow> m | None \<Rightarrow> DEFAULT_MAX_TTL_MS) \<rparr>)
     in (case privateKey of
           Some priv \<Rightarrow> (case publicKey of
              None \<Rightarrow> Inl (PlainError ''CapabilityIssuer: publicKey is required when privateKey is supplied'')
            | Some pub \<Rightarrow> Inr (mk pub priv))
         | None \<Rightarrow> Inr (mk (fst fresh) (snd fresh))))"

definition capability_header :: jsval where
  "capability_header = JObj [(''alg'', JStr ''EdDSA''), (''typ'', JStr ''JWT'')]"

definition truthy_string :: "string option \<Rightarrow> string option" where
  "truthy_string a = (case a of Some s \<Rightarrow> if s = [] then None else Some s | None \<Rightarrow> None)"

definition capability_claims :: "'p capability_issuer \<Rightarrow> capability_mint_input \<Rightarrow> ms \<Rightarrow> string \<Rightarrow> jsval" where
  "capability_claims iss i t jti = JObj (
     [(''iss'', JStr (is_issuer iss)), (''sub'', JStr (mi_class i @ '':'' @ mi_id i))]
     @ (case truthy_string (mi_audience i) of Some a \<Rightarrow> [(''aud'', JStr a)] | None \<Rightarrow> [])
     @ [(''mth'', JArr (map JStr (mi_methods i))), (''exp'', JNum ((t + mi_ttlMs i) div 1000)), (''jti'', JStr jti)])"

text \<open>\<open>sign\<close> is \<open>crypto.sign\<close>, \<open>jti\<close> what \<open>nextJti\<close> gives, \<open>clock\<close> what the issuer's clock reads.\<close>

definition mint :: "('p \<Rightarrow> bytes \<Rightarrow> bytes) \<Rightarrow> ms \<Rightarrow> string \<Rightarrow> 'p capability_issuer \<Rightarrow> capability_mint_input \<Rightarrow> error + string" where
  "mint sign clock jti iss i = (
     if mi_ttlMs i \<le> 0 then Inl (CapabilityError ''ttlMs must be positive'' ''InvalidCapability'')
     else if is_maxTtlMs iss < mi_ttlMs i
     then Inl (CapabilityError (''ttlMs '' @ show_int (mi_ttlMs i) @ '' exceeds maximum '' @ show_int (is_maxTtlMs iss))
            ''InvalidCapability'')
     else if mi_methods i = [] then Inl (CapabilityError ''methods must be non-empty'' ''InvalidCapability'')
     else
       let t = (case mi_nowMs i of Some n \<Rightarrow> n | None \<Rightarrow> clock);
           signingInput = b64uJson capability_header @ ''.'' @ b64uJson (capability_claims iss i t jti)
       in Inr (signingInput @ ''.'' @ b64uEncode (sign (is_privateKey iss) (utf8 signingInput))))"

section \<open>Verification\<close>

text \<open>\<open>String(v)\<close>, and \<open>Number(v)\<close> of what a JSON segment holds, none being NaN.\<close>

fun js_String :: "jsval \<Rightarrow> string" where
  "js_String JUndefined = ''undefined''"
| "js_String JNull = ''null''"
| "js_String (JBool b) = (if b then ''true'' else ''false'')"
| "js_String (JNum n) = show_int n"
| "js_String (JStr s) = s"
| "js_String (JArr vs) = join '','' (map (\<lambda>v. if v = JUndefined \<or> v = JNull then [] else js_String v) vs)"
| "js_String (JObj ps) = ''[object Object]''"

definition string_number :: "string \<Rightarrow> int option" where
  "string_number s = (let t = js_trim s in
     if t = [] then Some 0
     else if list_all is_digit t then Some (int (read_nat t))
     else if hd t = CHR ''-'' \<and> tl t \<noteq> [] \<and> list_all is_digit (tl t) then Some (- int (read_nat (tl t)))
     else None)"

definition js_Number :: "jsval \<Rightarrow> int option" where
  "js_Number v = (case v of
      JUndefined \<Rightarrow> None | JNull \<Rightarrow> Some 0 | JBool b \<Rightarrow> Some (if b then 1 else 0) | JNum n \<Rightarrow> Some n
    | _ \<Rightarrow> string_number (js_String v))"

text \<open>\<open>v.k\<close>: reading a property of null or undefined throws.\<close>

definition js_member :: "jsval \<Rightarrow> string \<Rightarrow> error + jsval" where
  "js_member v k = (if v = JNull \<or> v = JUndefined
     then Inl (TypeError (''Cannot read properties of '' @ js_String v)) else Inr (js_prop v k))"

record verified_capability =
  vc_claims :: jsval
  vc_token :: string

text \<open>The checks after the signature, in the order of the code.\<close>

definition checkClaims :: "ms \<Rightarrow> (jsval \<Rightarrow> bool) option \<Rightarrow> jsval \<Rightarrow> error + unit" where
  "checkClaims t revocation payload = (case js_member payload ''exp'' of
      Inl e \<Rightarrow> Inl e
    | Inr exp \<Rightarrow>
       if (case js_Number exp of Some e \<Rightarrow> e * 1000 \<le> t | None \<Rightarrow> False)
       then Inl (CapabilityError ''capability expired'' ''CapabilityExpired'')
       else if js_prop payload ''nbf'' \<noteq> JUndefined
            \<and> (case js_Number (js_prop payload ''nbf'') of Some n \<Rightarrow> t < n * 1000 | None \<Rightarrow> False)
       then Inl (CapabilityError ''capability not yet valid'' ''CapabilityNotYetValid'')
       else if (case revocation of Some f \<Rightarrow> f (js_prop payload ''jti'') | None \<Rightarrow> False)
       then Inl (CapabilityError ''capability revoked'' ''CapabilityRevoked'')
       else Inr ())"

text \<open>\<open>parse\<close> is \<open>JSON.parse\<close> of the UTF-8 text of a buffer, \<open>verify\<close> is \<open>crypto.verify\<close>.\<close>

definition verifyCapability ::
  "(bytes \<Rightarrow> jsval option) \<Rightarrow> ('p \<Rightarrow> bytes \<Rightarrow> bytes \<Rightarrow> error + bool) \<Rightarrow> string \<Rightarrow> 'p \<Rightarrow> ms \<Rightarrow> (jsval \<Rightarrow> bool) option
   \<Rightarrow> error + verified_capability" where
  "verifyCapability parse verify token publicKey t revocation = (case split_on CHR ''.'' token of
      [h, p, s] \<Rightarrow>
       (case (parse (b64uDecode h), parse (b64uDecode p)) of
          (Some header, Some payload) \<Rightarrow>
           (case js_member header ''alg'' of
              Inl e \<Rightarrow> Inl e
            | Inr alg \<Rightarrow>
               if alg \<noteq> JStr ''EdDSA''
               then Inl (CapabilityError (''unsupported capability alg: '' @ js_String alg) ''InvalidCapability'')
               else (case verify publicKey (utf8 (h @ ''.'' @ p)) (b64uDecode s) of
                  Inl e \<Rightarrow> Inl e
                | Inr ok \<Rightarrow>
                   if \<not> ok then Inl (CapabilityError ''capability signature invalid'' ''InvalidCapability'')
                   else (case checkClaims t revocation payload of
                      Inl e \<Rightarrow> Inl e
                    | Inr _ \<Rightarrow> Inr \<lparr> vc_claims = payload, vc_token = token \<rparr>)))
        | _ \<Rightarrow> Inl (CapabilityError ''capability token JSON malformed'' ''InvalidCapability''))
    | _ \<Rightarrow> Inl (CapabilityError ''malformed capability token'' ''InvalidCapability''))"

text \<open>
  \<open>/^<scheme>\s+(.+)$/i\<close>: the white space is greedy and gives its last character back when nothing
  else is left for the group, which a line terminator cannot match.
\<close>

definition ascii_lower :: "char \<Rightarrow> char" where
  "ascii_lower c = (if 65 \<le> (of_char c :: nat) \<and> (of_char c :: nat) \<le> 90 then char_of (of_char c + 32 :: nat) else c)"

definition is_terminator :: "char \<Rightarrow> bool" where
  "is_terminator c \<longleftrightarrow> c = newline \<or> c = CHR 0x0D"

definition scheme_token :: "string \<Rightarrow> string \<Rightarrow> string option" where
  "scheme_token scheme v = (
     let n = length scheme; ws = takeWhile js_space (drop n v); r = dropWhile js_space (drop n v) in
     if map ascii_lower (take n v) \<noteq> map ascii_lower scheme \<or> ws = [] then None
     else if r \<noteq> [] then (if list_ex is_terminator r then None else Some r)
     else if 2 \<le> length ws \<and> \<not> is_terminator (last ws) then Some [last ws] else None)"

definition parseCapabilityHeader :: "jsval \<Rightarrow> string option" where
  "parseCapabilityHeader v = (case v of
      JStr s \<Rightarrow> if s = [] then None else scheme_token ''Capability'' s
    | _ \<Rightarrow> None)"

definition claimed_methods :: "jsval \<Rightarrow> jsval list" where
  "claimed_methods claims = (case js_prop claims ''mth'' of JArr ms \<Rightarrow> ms | _ \<Rightarrow> [])"

text \<open>For the typed claims, whose \<open>mth\<close> is an array.\<close>

definition methodAllowed :: "jsval \<Rightarrow> string \<Rightarrow> bool" where
  "methodAllowed claims m \<longleftrightarrow> JStr m \<in> set (claimed_methods claims) \<or> JStr (''call:'' @ m) \<in> set (claimed_methods claims)"

definition subjectMatches :: "jsval \<Rightarrow> string \<Rightarrow> string \<Rightarrow> bool" where
  "subjectMatches claims c i \<longleftrightarrow> js_prop claims ''sub'' = JStr (c @ '':'' @ i)"

section \<open>Properties\<close>

text \<open>What the round trip needs of the platform: \<open>JSON.parse\<close> undoes \<open>JSON.stringify\<close> on \<open>v\<close>.\<close>

definition parses_back :: "(bytes \<Rightarrow> jsval option) \<Rightarrow> jsval \<Rightarrow> bool" where
  "parses_back parse v \<longleftrightarrow> parse (utf8 (stringify v)) = Some v"

lemma split_token:
  assumes "CHR ''.'' \<notin> set a" "CHR ''.'' \<notin> set b" "CHR ''.'' \<notin> set c"
  shows "split_on CHR ''.'' (a @ ''.'' @ b @ ''.'' @ c) = [a, b, c]"
  using assms by (simp add: split_on_append_sep split_on_no_sep)

lemma claims_props:
  "js_prop (capability_claims iss i t jti) ''sub'' = JStr (mi_class i @ '':'' @ mi_id i)"
  "js_prop (capability_claims iss i t jti) ''mth'' = JArr (map JStr (mi_methods i))"
  "js_prop (capability_claims iss i t jti) ''exp'' = JNum ((t + mi_ttlMs i) div 1000)"
  "js_prop (capability_claims iss i t jti) ''nbf'' = JUndefined"
  "js_prop (capability_claims iss i t jti) ''jti'' = JStr jti"
  by (auto simp: capability_claims_def split: option.split)

lemma checkClaims_minted:
  "checkClaims t revocation (capability_claims iss i t0 jti) = (
     if (t0 + mi_ttlMs i) div 1000 * 1000 \<le> t then Inl (CapabilityError ''capability expired'' ''CapabilityExpired'')
     else if (case revocation of Some f \<Rightarrow> f (JStr jti) | None \<Rightarrow> False)
     then Inl (CapabilityError ''capability revoked'' ''CapabilityRevoked'') else Inr ())"
proof -
  have "js_member (capability_claims iss i t0 jti) k = Inr (js_prop (capability_claims iss i t0 jti) k)" for k
    by (simp add: js_member_def capability_claims_def)
  then show ?thesis by (cases revocation) (simp_all add: checkClaims_def js_Number_def claims_props)
qed

lemma verify_minted:
  assumes "parses_back parse capability_header" and "parses_back parse claims"
    and "verify pub (utf8 (b64uJson capability_header @ ''.'' @ b64uJson claims)) sig = Inr True"
  shows "verifyCapability parse verify (b64uJson capability_header @ ''.'' @ b64uJson claims @ ''.'' @ b64uEncode sig)
      pub t revocation = (case checkClaims t revocation claims of Inl e \<Rightarrow> Inl e
       | Inr _ \<Rightarrow> Inr \<lparr> vc_claims = claims,
           vc_token = b64uJson capability_header @ ''.'' @ b64uJson claims @ ''.'' @ b64uEncode sig \<rparr>)"
  using assms split_token [OF b64u_no_dot b64u_no_dot b64u_no_dot]
  by (simp add: verifyCapability_def b64uJson_def b64u_roundtrip parses_back_def js_member_def
      capability_header_def split: sum.split)

text \<open>
  C22. Minting then verifying gives the claims back: a token is accepted until the whole second
  its lifetime reaches, unless its id is revoked, and never at or after the end of its ttl. The
  verified claims bind the actor and exactly the methods that were asked for, written bare or
  with the \<open>call:\<close> prefix.
\<close>

theorem capability_roundtrip:
  assumes "mint sign clock jti iss i = Inr token"
    and "parses_back parse capability_header" and "parses_back parse (capability_claims iss i t0 jti)"
    and "\<And>m. verify (is_publicKey iss) m (sign (is_privateKey iss) m) = Inr True"
    and "t0 = (case mi_nowMs i of Some n \<Rightarrow> n | None \<Rightarrow> clock)"
  shows "(t < (t0 + mi_ttlMs i) div 1000 * 1000 \<and> \<not> (case revocation of Some f \<Rightarrow> f (JStr jti) | None \<Rightarrow> False) \<longrightarrow>
       verifyCapability parse verify token (is_publicKey iss) t revocation
         = Inr \<lparr> vc_claims = capability_claims iss i t0 jti, vc_token = token \<rparr>)
    \<and> (t0 + mi_ttlMs i \<le> t \<longrightarrow> verifyCapability parse verify token (is_publicKey iss) t revocation
         = Inl (CapabilityError ''capability expired'' ''CapabilityExpired''))
    \<and> (subjectMatches (capability_claims iss i t0 jti) c a \<longleftrightarrow> c @ '':'' @ a = mi_class i @ '':'' @ mi_id i)
    \<and> (methodAllowed (capability_claims iss i t0 jti) m \<longleftrightarrow> m \<in> set (mi_methods i) \<or> ''call:'' @ m \<in> set (mi_methods i))
    \<and> 0 < mi_ttlMs i \<and> mi_ttlMs i \<le> is_maxTtlMs iss"
proof -
  let ?c = "capability_claims iss i t0 jti"
  let ?si = "b64uJson capability_header @ ''.'' @ b64uJson ?c"
  have tok: "token = b64uJson capability_header @ ''.'' @ b64uJson ?c @ ''.'' @ b64uEncode (sign (is_privateKey iss) (utf8 ?si))"
    and ttl: "0 < mi_ttlMs i" "mi_ttlMs i \<le> is_maxTtlMs iss"
    using assms(1,5) by (auto simp: mint_def Let_def split: if_splits)
  have v: "verifyCapability parse verify token (is_publicKey iss) t revocation
      = (case checkClaims t revocation ?c of Inl e \<Rightarrow> Inl e | Inr _ \<Rightarrow> Inr \<lparr> vc_claims = ?c, vc_token = token \<rparr>)"
    unfolding tok
    by (rule verify_minted [where verify = verify and pub = "is_publicKey iss" and claims = ?c and t = t
      and sig = "sign (is_privateKey iss) (utf8 ?si)" and parse = parse and revocation = revocation, OF assms(2,3) assms(4)])
  have "(t0 + mi_ttlMs i) div 1000 * 1000 \<le> t0 + mi_ttlMs i"
    by (simp add: minus_mod_eq_div_mult [symmetric])
  then have "t0 + mi_ttlMs i \<le> t \<longrightarrow> (t0 + mi_ttlMs i) div 1000 * 1000 \<le> t" by linarith
  moreover have "(JStr x \<in> set (claimed_methods ?c)) = (x \<in> set (mi_methods i))" for x
    by (auto simp: claimed_methods_def claims_props)
  ultimately show ?thesis
    using ttl by (auto simp: v checkClaims_minted subjectMatches_def claims_props methodAllowed_def)
qed

text \<open>A positive ttl shorter than what is left of the current second is expired when minted.\<close>

lemma expired_at_birth:
  assumes "0 < ttl" and "t0 mod 1000 + ttl < 1000"
  shows "(t0 + ttl) div 1000 * 1000 \<le> (t0 :: ms)"
proof -
  have "(t0 + ttl) mod 1000 = (t0 mod 1000 + ttl) mod 1000" by (simp add: mod_add_left_eq)
  also have "\<dots> = t0 mod 1000 + ttl" using assms by simp
  finally have "(t0 + ttl) div 1000 * 1000 = t0 + ttl - (t0 mod 1000 + ttl)" by (simp add: minus_mod_eq_div_mult [symmetric])
  then show ?thesis by simp
qed


definition demo_issuer :: "nat capability_issuer" where
  "demo_issuer = \<lparr> is_issuer = ''srv'', is_publicKey = 7, is_privateKey = 7, is_maxTtlMs = DEFAULT_MAX_TTL_MS \<rparr>"

definition demo_mint :: capability_mint_input where
  "demo_mint = \<lparr> mi_class = ''Cart'', mi_id = ''a'', mi_methods = [''total''], mi_ttlMs = 60000, mi_audience = None,
     mi_nowMs = Some 1500 \<rparr>"

definition demo_claims :: jsval where
  "demo_claims = capability_claims demo_issuer demo_mint 1500 ''t1''"

definition demo_parse :: "bytes \<Rightarrow> jsval option" where
  "demo_parse b = (if b = utf8 (stringify capability_header) then Some capability_header
     else if b = utf8 (stringify demo_claims) then Some demo_claims else None)"

lemma demo_texts_differ: "stringify capability_header \<noteq> stringify demo_claims"
proof -
  have "stringify capability_header ! 2 = CHR ''a''" by code_simp
  moreover have "stringify demo_claims ! 2 = CHR ''i''" by code_simp
  ultimately show ?thesis by auto
qed

definition demo_token :: string where
  "demo_token = (let s = b64uJson capability_header @ ''.'' @ b64uJson demo_claims in s @ ''.'' @ b64uEncode (utf8 s))"

theorem capability_roundtrip_witness:
  "verifyCapability demo_parse (\<lambda>k m s. Inr (s = m)) demo_token (7 :: nat) 60999 (Some (\<lambda>j. j = JStr ''other''))
     = Inr \<lparr> vc_claims = demo_claims, vc_token = demo_token \<rparr>
   \<and> verifyCapability demo_parse (\<lambda>k m s. Inr (s = m)) demo_token (7 :: nat) 61500 None
     = Inl (CapabilityError ''capability expired'' ''CapabilityExpired'')"
proof -
  have m: "mint (\<lambda>k m. m) 0 ''t1'' demo_issuer demo_mint = Inr demo_token"
    by (simp add: mint_def demo_issuer_def demo_mint_def DEFAULT_MAX_TTL_MS_def demo_token_def demo_claims_def Let_def)
  have p: "parses_back demo_parse capability_header" "parses_back demo_parse (capability_claims demo_issuer demo_mint 1500 ''t1'')"
    using demo_texts_differ by (simp_all add: parses_back_def demo_parse_def demo_claims_def)
  have t0: "1500 = (case mi_nowMs demo_mint of Some n \<Rightarrow> n | None \<Rightarrow> 0)" by (simp add: demo_mint_def)
  have v: "\<And>m :: bytes. Inr (m = m) = (Inr True :: error + bool)" by simp
  note rt = capability_roundtrip [where sign = "\<lambda>k m. m" and verify = "\<lambda>k m s. Inr (s = m)" and c = "''Cart''" and a = "''a''" and m = "''total''", OF m p v t0]
  show ?thesis
    using rt [of 60999 "Some (\<lambda>j. j = JStr ''other'')"] rt [of 61500 None]
    by (simp add: demo_issuer_def demo_mint_def demo_claims_def)
qed


end
