(* ===== verification/Auth.thy ===== *)
theory Auth
  imports Capability
begin

text \<open>
  Authentication of a request (\<open>src/server/auth.ts\<close>, \<open>src/server/admin.ts\<close>): the hook that turns a
  request into a principal, capability principals, the static-token, HMAC and JWT verifiers with
  the key choice, the claim checks and the DER form of an ECDSA signature, and the admin gate.
  HMAC, RSA and ECDSA verification are parameters, as is the \<open>fetch\<close> of a key set.
\<close>

section \<open>Requests\<close>

text \<open>A header is a string, or an array of strings when it is repeated.\<close>

record http_request =
  rq_method :: string
  rq_headers :: "(string, jsval) jsmap"
  rq_query :: jsval

definition header_of :: "http_request \<Rightarrow> string \<Rightarrow> jsval" where
  "header_of req name = (case map_get (rq_headers req) name of Some v \<Rightarrow> v | None \<Rightarrow> JUndefined)"

definition headerString :: "http_request \<Rightarrow> string \<Rightarrow> string option" where
  "headerString req name = (case header_of req name of
      JStr v \<Rightarrow> Some v | JArr (JStr v # _) \<Rightarrow> Some v | _ \<Rightarrow> None)"

definition bearerToken :: "http_request \<Rightarrow> string option" where
  "bearerToken req = (case headerString req ''authorization'' of
      None \<Rightarrow> None | Some a \<Rightarrow> if a = [] then None else scheme_token ''Bearer'' a)"

definition AuthError :: "string \<Rightarrow> error" where
  "AuthError m = StatusError ''Unauthorized'' m 401"

definition ForbiddenError :: "string \<Rightarrow> error" where
  "ForbiddenError m = StatusError ''Forbidden'' m 403"

definition is_StatusError :: "error \<Rightarrow> bool" where
  "is_StatusError e = (case e of StatusError _ _ _ \<Rightarrow> True | _ \<Rightarrow> False)"

section \<open>The hook\<close>

fun string_values :: "jsval list \<Rightarrow> string list option" where
  "string_values [] = Some []"
| "string_values (JStr s # vs) = map_option (Cons s) (string_values vs)"
| "string_values _ = None"

text \<open>\<open>mth.map(m => m.startsWith ...)\<close> throws unless the claim is an array of strings.\<close>

definition capabilityPrincipal :: "verified_capability \<Rightarrow> error + principal" where
  "capabilityPrincipal vc = (let claims = vc_claims vc in
     case (case js_prop claims ''mth'' of JArr ms \<Rightarrow> string_values ms | _ \<Rightarrow> None) of
       None \<Rightarrow> Inl (TypeError ''claims.mth.map'')
     | Some ms \<Rightarrow> Inr \<lparr> p_sub = ''cap:'' @ js_String (js_prop claims ''sub''), p_roles = Some [], p_tenant = None,
         p_capabilities = Some (map (\<lambda>m. if starts_with ''call:'' m then m else ''call:'' @ m) ms),
         p_claims = Some ([(''iss'', js_prop claims ''iss''), (''jti'', js_prop claims ''jti''), (''exp'', js_prop claims ''exp'')]
           @ (if js_truthy (js_prop claims ''aud'') then [(''aud'', js_prop claims ''aud'')] else [])) \<rparr>)"

type_synonym auth_hook = "http_request \<Rightarrow> error + principal option"

text \<open>
  The principal a request gets, with the capability it presented. \<open>auth\<close> is the operator's hook
  for this request; \<open>capability\<close> the issuer's public key and the revocation predicate.
\<close>

definition authHook ::
  "(error \<Rightarrow> string) \<Rightarrow> (bytes \<Rightarrow> jsval option) \<Rightarrow> ('p \<Rightarrow> bytes \<Rightarrow> bytes \<Rightarrow> error + bool) \<Rightarrow> ms \<Rightarrow> auth_hook option \<Rightarrow> bool \<Rightarrow>
   ('p \<times> (jsval \<Rightarrow> bool) option) option \<Rightarrow> http_request \<Rightarrow> error + principal \<times> verified_capability option" where
  "authHook msg parse verify t auth requireAuth capability req =
     (case Option.bind capability (\<lambda>c. map_option (Pair c) (parseCapabilityHeader (header_of req ''authorization''))) of
        Some ((publicKey, revocation), token) \<Rightarrow>
         (case verifyCapability parse verify token publicKey t revocation of
            Inl e \<Rightarrow> Inl e
          | Inr verified \<Rightarrow> map_sum id (\<lambda>p. (p, Some verified)) (capabilityPrincipal verified))
      | None \<Rightarrow> (case auth of
          None \<Rightarrow> Inr (anonymousPrincipal, None)
        | Some hook \<Rightarrow> (case hook req of
            Inl e \<Rightarrow> Inl (if is_StatusError e then e else AuthError (''auth hook threw: '' @ msg e))
          | Inr None \<Rightarrow> if requireAuth then Inl (AuthError ''authentication required'')
                        else Inr (anonymousPrincipal, None)
          | Inr (Some p) \<Rightarrow> Inr (p, None))))"

text \<open>\<open>devHeader\<close>: the environment allows the development admin header.\<close>

definition adminOnly :: "bool \<Rightarrow> principal \<Rightarrow> http_request \<Rightarrow> error + unit" where
  "adminOnly devHeader p req = (
     if hasRole (Some p) ''admin'' then Inr ()
     else if devHeader \<and> header_of req ''x-actjs-admin'' = JStr ''1'' then Inr ()
     else Inl (ForbiddenError ''admin role required''))"

definition devAdminHeaderAllowed :: "string option \<Rightarrow> string option \<Rightarrow> bool" where
  "devAdminHeaderAllowed nodeEnv devVar \<longleftrightarrow> nodeEnv = Some ''development'' \<or> devVar = Some ''1''"

section \<open>Built-in verifiers\<close>

text \<open>
  A bare property lookup on the token table: a name of \<open>Object.prototype\<close> finds a value that has
  none of a principal's fields, its subject printing as \<open>undefined\<close>.
\<close>

definition inherited_principal :: principal where
  "inherited_principal = \<lparr> p_sub = ''undefined'', p_roles = None, p_tenant = None, p_capabilities = None, p_claims = None \<rparr>"

definition staticToken :: "(string, principal) jsmap \<Rightarrow> auth_hook" where
  "staticToken tokens req = Inr (case bearerToken req of
      None \<Rightarrow> None
    | Some token \<Rightarrow> if token = [] then None
       else (case obj_lookup tokens token of
               Own p \<Rightarrow> Some p | Inherited _ \<Rightarrow> Some inherited_principal | Absent \<Rightarrow> None))"

definition object_fields :: "jsval \<Rightarrow> (string, jsval) jsmap option" where
  "object_fields v = (case v of
      JObj ps \<Rightarrow> Some ps | JArr xs \<Rightarrow> Some (zip (map show_nat [0..<length xs]) xs) | _ \<Rightarrow> None)"

definition string_array :: "jsval \<Rightarrow> string list option" where
  "string_array v = (case v of JArr vs \<Rightarrow> Some (map js_String vs) | _ \<Rightarrow> None)"

definition string_prop :: "jsval \<Rightarrow> string \<Rightarrow> string option" where
  "string_prop v k = (case js_prop v k of JStr s \<Rightarrow> Some s | _ \<Rightarrow> None)"

definition materializePrincipal :: "jsval \<Rightarrow> error + principal option" where
  "materializePrincipal raw = (case js_member raw ''sub'' of
      Inl e \<Rightarrow> Inl e
    | Inr (JStr sub) \<Rightarrow> Inr (if sub = [] then None
        else Some \<lparr> p_sub = sub, p_roles = string_array (js_prop raw ''roles''), p_tenant = string_prop raw ''tenant'',
          p_capabilities = string_array (js_prop raw ''capabilities''), p_claims = object_fields (js_prop raw ''claims'') \<rparr>)
    | Inr _ \<Rightarrow> Inr None)"

text \<open>\<open>hmacHex\<close> is the hex HMAC of a string; equality of lengths and \<open>timingSafeEqual\<close> is equality.\<close>

definition verifyHmac ::
  "(string \<Rightarrow> string \<Rightarrow> string) \<Rightarrow> (bytes \<Rightarrow> jsval option) \<Rightarrow> string \<Rightarrow> string \<Rightarrow> string \<Rightarrow> auth_hook" where
  "verifyHmac hmacHex parse secret header payloadHeader req = Inr (
     case (headerString req header, headerString req payloadHeader) of
       (Some sig, Some payload) \<Rightarrow>
        if sig = [] \<or> payload = [] then None
        else if utf8 sig \<noteq> utf8 (hmacHex secret payload) then None
        else (case parse (from_base64 payload) of
                None \<Rightarrow> None
              | Some raw \<Rightarrow> (case materializePrincipal raw of Inl _ \<Rightarrow> None | Inr p \<Rightarrow> p))
     | _ \<Rightarrow> None)"

section \<open>JSON web tokens\<close>

record jwk =
  jk_kid :: "string option"
  jk_kty :: string
  jk_alg :: "string option"
  jk_k :: "string option"

type_synonym jwks = "jwk list"

definition pickJwk :: "jwks \<Rightarrow> string option \<Rightarrow> string \<Rightarrow> jwk option" where
  "pickJwk keys kid alg =
     (case (case truthy_string kid of Some i \<Rightarrow> find (\<lambda>k. jk_kid k = Some i) keys | None \<Rightarrow> None) of
        Some k \<Rightarrow> Some k
      | None \<Rightarrow> (case find (\<lambda>k. jk_alg k = Some alg) keys of
          Some k \<Rightarrow> Some k | None \<Rightarrow> (case keys of [] \<Rightarrow> None | k # _ \<Rightarrow> Some k)))"

text \<open>ASN.1: an integer without leading zeros, padded when its high bit is set, in a sequence.\<close>

fun trimLeadingZeros :: "bytes \<Rightarrow> bytes" where
  "trimLeadingZeros (b # c # bs) = (if b = 0 then trimLeadingZeros (c # bs) else b # c # bs)"
| "trimLeadingZeros bs = bs"

definition encodeAsn1Integer :: "bytes \<Rightarrow> bytes" where
  "encodeAsn1Integer buf = (
     let needsPad = (case buf of [] \<Rightarrow> False | b # _ \<Rightarrow> 128 \<le> unat b);
         body = (if needsPad then 0 # buf else buf)
     in 2 # of_nat (length body) # body)"

definition joseEcdsaToDer :: "bytes \<Rightarrow> bytes" where
  "joseEcdsaToDer sig = (if length sig \<noteq> 64 then sig
     else
       let body = encodeAsn1Integer (trimLeadingZeros (take 32 sig))
                  @ encodeAsn1Integer (trimLeadingZeros (drop 32 sig))
       in 0x30 # of_nat (length body) # body)"

text \<open>\<open>hmac\<close> is HMAC-SHA256, \<open>rsa\<close> and \<open>ec\<close> the platform's verification with a JWK; both may throw.\<close>

record jwt_crypto =
  jc_hmac :: "bytes \<Rightarrow> bytes \<Rightarrow> bytes"
  jc_rsa :: "jwk \<Rightarrow> bytes \<Rightarrow> bytes \<Rightarrow> error + bool"
  jc_ec :: "jwk \<Rightarrow> bytes \<Rightarrow> bytes \<Rightarrow> error + bool"

definition verifyWithJwk :: "jwt_crypto \<Rightarrow> string \<Rightarrow> jwk \<Rightarrow> bytes \<Rightarrow> bytes \<Rightarrow> bool" where
  "verifyWithJwk jc alg key data sig = (
     if alg = ''HS256'' then (case truthy_string (jk_k key) of
        None \<Rightarrow> False | Some k \<Rightarrow> jc_hmac jc (b64uDecode k) data = sig)
     else if alg = ''RS256'' then jc_rsa jc key data sig = Inr True
     else if alg = ''ES256'' then jc_ec jc key data (joseEcdsaToDer sig) = Inr True
     else False)"

text \<open>None: rejected. A header that is null throws outside the \<open>try\<close>.\<close>

definition verifyJwtSignature ::
  "(bytes \<Rightarrow> jsval option) \<Rightarrow> jwt_crypto \<Rightarrow> string \<Rightarrow> jwks \<Rightarrow> error + (jsval \<times> jsval) option" where
  "verifyJwtSignature parse jc token keys = (case split_on CHR ''.'' token of
      [h, p, s] \<Rightarrow>
       (case (parse (b64uDecode h), parse (b64uDecode p)) of
          (Some header, Some payload) \<Rightarrow>
           (case js_member header ''alg'' of
              Inl e \<Rightarrow> Inl e
            | Inr (JStr alg) \<Rightarrow>
               if alg = ''none'' then Inr None
               else (case pickJwk keys (string_prop header ''kid'') alg of
                  None \<Rightarrow> Inr None
                | Some key \<Rightarrow>
                   if verifyWithJwk jc alg key (utf8 (h @ ''.'' @ p)) (b64uDecode s)
                   then Inr (Some (header, payload)) else Inr None)
            | Inr _ \<Rightarrow> Inr None)
        | _ \<Rightarrow> Inr None)
    | _ \<Rightarrow> Inr None)"

text \<open>\<open>scope.split(/\s+/).filter(Boolean)\<close>\<close>

fun words_of :: "string \<Rightarrow> string \<Rightarrow> string list" where
  "words_of w [] = (if w = [] then [] else [w])"
| "words_of w (c # s) = (if js_space c then (if w = [] then [] else [w]) @ words_of [] s else words_of (w @ [c]) s)"

definition extractScopes :: "jsval \<Rightarrow> jsval" where
  "extractScopes scope = (case scope of JStr s \<Rightarrow> JArr (map JStr (words_of [] s)) | _ \<Rightarrow> JUndefined)"

definition defaultPrincipalFromClaims :: "jsval \<Rightarrow> principal option" where
  "defaultPrincipalFromClaims claims = (case js_prop claims ''sub'' of
      JStr sub \<Rightarrow>
       if sub = [] then None
       else
         let roles = js_prop claims ''roles'';
             rolesRaw = (if roles = JUndefined \<or> roles = JNull then extractScopes (js_prop claims ''scope'') else roles)
         in Some \<lparr> p_sub = sub, p_roles = string_array rolesRaw, p_tenant = string_prop claims ''tenant'',
              p_capabilities = string_array (js_prop claims ''capabilities''), p_claims = object_fields claims \<rparr>
    | _ \<Rightarrow> None)"

record jwt_options =
  jo_issuer :: "string option"
  jo_audience :: "string option"

definition audience_ok :: "string option \<Rightarrow> jsval \<Rightarrow> bool" where
  "audience_ok audience aud = (case truthy_string audience of
      None \<Rightarrow> True
    | Some a \<Rightarrow> aud = JStr a \<or> (case aud of JArr vs \<Rightarrow> JStr a \<in> set vs | _ \<Rightarrow> False))"

definition claims_ok :: "jwt_options \<Rightarrow> ms \<Rightarrow> jsval \<Rightarrow> bool" where
  "claims_ok jo t claims \<longleftrightarrow>
     (case truthy_string (jo_issuer jo) of None \<Rightarrow> True | Some i \<Rightarrow> js_prop claims ''iss'' = JStr i)
   \<and> audience_ok (jo_audience jo) (js_prop claims ''aud'')
   \<and> \<not> (case js_prop claims ''exp'' of JNum e \<Rightarrow> e * 1000 < t | _ \<Rightarrow> False)
   \<and> \<not> (case js_prop claims ''nbf'' of JNum n \<Rightarrow> t < n * 1000 | _ \<Rightarrow> False)"

text \<open>The key set and when it was fetched; \<open>fetched\<close> is what a fetch gives now.\<close>

type_synonym jwks_cache = "(jwks \<times> ms) option"

definition CACHE_TTL_MS :: ms where
  "CACHE_TTL_MS = 5 * 60000"

definition verifyJWT ::
  "(bytes \<Rightarrow> jsval option) \<Rightarrow> jwt_crypto \<Rightarrow> jwt_options \<Rightarrow> ms \<Rightarrow> error + jwks \<Rightarrow> jwks_cache \<Rightarrow> http_request
   \<Rightarrow> (error + principal option) \<times> jwks_cache" where
  "verifyJWT parse jc jo t fetched cache req = (case bearerToken req of
      None \<Rightarrow> (Inr None, cache)
    | Some token \<Rightarrow> if token = [] then (Inr None, cache) else
       (case (case cache of
                Some (keys, at) \<Rightarrow> if CACHE_TTL_MS < t - at then map_sum id (\<lambda>k. (k, t)) fetched else Inr (keys, at)
              | None \<Rightarrow> map_sum id (\<lambda>k. (k, t)) fetched) of
          Inl e \<Rightarrow> (Inl e, cache)
        | Inr (keys, at) \<Rightarrow>
           (case verifyJwtSignature parse jc token keys of
              Inl e \<Rightarrow> Inl e
            | Inr None \<Rightarrow> Inr None
            | Inr (Some (header, claims)) \<Rightarrow>
               if claims = JNull then Inl (TypeError ''Cannot read properties of null'')
               else if claims_ok jo t claims then Inr (defaultPrincipalFromClaims claims) else Inr None,
            Some (keys, at))))"

section \<open>Principals from capabilities\<close>

lemma string_values_Some: "string_values vs = Some ms \<longleftrightarrow> vs = map JStr ms"
proof (induction vs arbitrary: ms rule: string_values.induct)
  case (2 s vs)
  then show ?case by (cases ms) auto
qed auto

lemma capabilityPrincipal_ok:
  assumes "capabilityPrincipal vc = Inr p"
  shows "\<exists>ms. js_prop (vc_claims vc) ''mth'' = JArr (map JStr ms) \<and> p_sub p = ''cap:'' @ js_String (js_prop (vc_claims vc) ''sub'')
     \<and> p_roles p = Some [] \<and> p_capabilities p = Some (map (\<lambda>m. if starts_with ''call:'' m then m else ''call:'' @ m) ms)"
  using assms
  by (auto simp: capabilityPrincipal_def Let_def string_values_Some split: option.splits jsval.splits)

text \<open>
  The capability names of a principal come from the methods alone: the actor the token was
  minted for is not among them, so a policy that tests \<open>capabilities\<close> grants on every actor.
\<close>

theorem capability_principal_ignores_actor:
  assumes "capabilityPrincipal vc = Inr p" and "methodAllowed (vc_claims vc) m" and "\<not> starts_with ''call:'' m"
  shows "hasCapability (Some p) (''call:'' @ m)"
proof -
  obtain ms where ms: "js_prop (vc_claims vc) ''mth'' = JArr (map JStr ms)"
    "p_capabilities p = Some (map (\<lambda>m. if starts_with ''call:'' m then m else ''call:'' @ m) ms)"
    using capabilityPrincipal_ok [OF assms(1)] by blast
  have "m \<in> set ms \<or> ''call:'' @ m \<in> set ms"
    using assms(2) ms(1) by (auto simp: methodAllowed_def claimed_methods_def)
  then show ?thesis
  proof
    assume "m \<in> set ms"
    with assms(3) ms(2) show ?thesis by (auto simp: hasCapability_def image_iff intro!: bexI [of _ m])
  next
    assume "''call:'' @ m \<in> set ms"
    with ms(2) starts_with_append [of "''call:''" m] show ?thesis
      by (auto simp: hasCapability_def image_iff intro!: bexI [of _ "''call:'' @ m"])
  qed
qed

lemma cap_sub_not_reserved: "p_sub p = ''cap:'' @ s \<Longrightarrow> \<not> isSystem p \<and> \<not> isAnonymous p"
  by (simp add: isSystem_def isAnonymous_def)

section \<open>Token lookups that escape the table\<close>

text \<open>A bearer token named after a method of \<open>Object.prototype\<close> authenticates.\<close>

theorem static_token_prototype:
  "authHook msg parse verify t (Some (staticToken [])) True None
     \<lparr> rq_method = ''GET'', rq_headers = [(''authorization'', JStr ''Bearer constructor'')], rq_query = JObj [] \<rparr>
   = Inr (inherited_principal, None)"
proof -
  have "scheme_token ''Bearer'' ''Bearer constructor'' = Some ''constructor''" by code_simp
  then show ?thesis
    by (simp add: authHook_def staticToken_def bearerToken_def headerString_def header_of_def obj_lookup_def proto_names_def)
qed

text \<open>The subject of a verified token is taken as it is, the reserved system name included.\<close>

theorem external_system_subject:
  assumes "js_prop claims ''sub'' = JStr ''system''"
  shows "\<exists>p. defaultPrincipalFromClaims claims = Some p \<and> isSystem p"
  using assms by (simp add: defaultPrincipalFromClaims_def isSystem_def Let_def)

section \<open>DER\<close>

definition be_value :: "bytes \<Rightarrow> nat" where
  "be_value bs = foldl (\<lambda>a b. 256 * a + unat b) 0 bs"

lemma be_value_zero: "be_value (0 # bs) = be_value bs"
  by (simp add: be_value_def)

lemma trim_value: "be_value (trimLeadingZeros bs) = be_value bs"
  by (induction bs rule: trimLeadingZeros.induct) (auto simp: be_value_zero)

lemma trim_shape:
  "bs \<noteq> [] \<Longrightarrow> trimLeadingZeros bs \<noteq> [] \<and> length (trimLeadingZeros bs) \<le> length bs
     \<and> (hd (trimLeadingZeros bs) = 0 \<longrightarrow> length (trimLeadingZeros bs) = 1)"
  by (induction bs rule: trimLeadingZeros.induct) auto

text \<open>The contents of a minimal non-negative DER integer.\<close>

definition der_contents :: "bytes \<Rightarrow> bool" where
  "der_contents body \<longleftrightarrow> body \<noteq> [] \<and> unat (hd body) < 128
     \<and> (\<forall>b c r. body = b # c # r \<longrightarrow> b = 0 \<longrightarrow> 128 \<le> unat c)"

lemma encode_shape:
  assumes "bs \<noteq> []" and "length bs \<le> 32"
  shows "\<exists>body. encodeAsn1Integer (trimLeadingZeros bs) = 2 # of_nat (length body) # body \<and> length body \<le> 33
     \<and> be_value body = be_value bs \<and> der_contents body"
proof -
  let ?t = "trimLeadingZeros bs"
  obtain b r where t: "?t = b # r" using trim_shape [OF assms(1)] by (cases ?t) auto
  have len: "length ?t \<le> 32" using trim_shape [OF assms(1)] assms(2) by linarith
  have zero: "b = 0 \<Longrightarrow> r = []" using trim_shape [OF assms(1)] t by auto
  show ?thesis
  proof (cases "128 \<le> unat b")
    case True
    with t len trim_value [of bs] show ?thesis
      by (intro exI [of _ "0 # ?t"]) (simp add: encodeAsn1Integer_def der_contents_def be_value_zero)
  next
    case False
    with t len zero trim_value [of bs] show ?thesis
      by (intro exI [of _ ?t]) (auto simp: encodeAsn1Integer_def der_contents_def)
  qed
qed

lemma is_StatusError_iff: "is_StatusError e \<longleftrightarrow> (\<exists>n m s. e = StatusError n m s)"
  by (cases e) (simp_all add: is_StatusError_def)

section \<open>Properties\<close>




definition demo_jwt :: jsval where
  "demo_jwt = JObj [(''alg'', JStr ''HS256''), (''sub'', JStr ''u1''), (''exp'', JNum 100)]"

definition demo_jwk :: jwk where
  "demo_jwk = \<lparr> jk_kid = None, jk_kty = ''oct'', jk_alg = None, jk_k = Some ''QQ'' \<rparr>"

definition demo_jwt_crypto :: jwt_crypto where
  "demo_jwt_crypto = \<lparr> jc_hmac = (\<lambda>k d. b64uDecode ''QQ''), jc_rsa = (\<lambda>k d s. Inr False), jc_ec = (\<lambda>k d s. Inr False) \<rparr>"

definition demo_bearer :: http_request where
  "demo_bearer = \<lparr> rq_method = ''GET'', rq_headers = [(''authorization'', JStr ''Bearer aA.cA.QQ'')], rq_query = JObj [] \<rparr>"


text \<open>
  The DER form of a raw ECDSA signature is a sequence of two minimal non-negative integers
  with the values of its halves, each length in its one byte.
\<close>

theorem ecdsa_der_exact:
  assumes "length sig = 64"
  shows "\<exists>r s. joseEcdsaToDer sig = 0x30 # of_nat (length r + length s + 4) # 2 # of_nat (length r) # r @ 2 # of_nat (length s) # s
     \<and> length r + length s + 4 \<le> 70 \<and> be_value r = be_value (take 32 sig) \<and> be_value s = be_value (drop 32 sig)
     \<and> der_contents r \<and> der_contents s"
proof -
  obtain r where r: "encodeAsn1Integer (trimLeadingZeros (take 32 sig)) = 2 # of_nat (length r) # r"
    "length r \<le> 33" "be_value r = be_value (take 32 sig)" "der_contents r"
    using encode_shape [of "take 32 sig"] assms by (cases sig) auto
  obtain s where s: "encodeAsn1Integer (trimLeadingZeros (drop 32 sig)) = 2 # of_nat (length s) # s"
    "length s \<le> 33" "be_value s = be_value (drop 32 sig)" "der_contents s"
    using encode_shape [of "drop 32 sig"] assms by auto
  have "joseEcdsaToDer sig = 0x30 # of_nat (length r + length s + 4) # 2 # of_nat (length r) # r @ 2 # of_nat (length s) # s"
    using assms by (simp add: joseEcdsaToDer_def r(1) s(1) Let_def algebra_simps)
  with r s show ?thesis by (intro exI [of _ r] exI [of _ s]) simp
qed

lemma be_value_zeros: "be_value (replicate n 0) = 0"
  by (induction n) (simp_all add: be_value_zero, simp add: be_value_def)

theorem ecdsa_der_exact_witness:
  "\<exists>r s. joseEcdsaToDer (replicate 64 0) =
     0x30 # of_nat (length r + length s + 4) # 2 # of_nat (length r) # r @ 2 # of_nat (length s) # s
   \<and> be_value r = 0 \<and> be_value s = 0"
proof -
  have "length (replicate 64 (0 :: 8 word)) = 64" by simp
  from ecdsa_der_exact [OF this] show ?thesis
    unfolding take_replicate drop_replicate be_value_zeros by blast
qed

end
