(* ===== verification/Server.thy ===== *)
theory Server
  imports Auth Loader
begin

text \<open>
  The HTTP layer around the runtime: the problem details of \<open>src/server/errors.ts\<close>, the manifest
  pin hook (\<open>hooks/pin.ts\<close>), the idempotency hooks (\<open>hooks/idempotency.ts\<close>) and the usage tracker
  (\<open>manifest-tracker.ts\<close>). Requests and replies are records; Fastify's life cycle (preHandler,
  handler, onSend) is written out where the idempotency hooks need it.
\<close>

section \<open>Problem details\<close>

record problem =
  pb_type :: string
  pb_title :: string
  pb_status :: nat
  pb_detail :: string
  pb_code :: string
  pb_extra :: "(string, jsval) jsmap"

definition error_url :: "string \<Rightarrow> string" where
  "error_url c = ''https://actjs.dev/errors/'' @ c"

definition wrap :: "string \<Rightarrow> string \<Rightarrow> nat \<Rightarrow> string \<Rightarrow> (string, jsval) jsmap \<Rightarrow> problem" where
  "wrap name detail status code extra = \<lparr> pb_type = error_url code, pb_title = name, pb_status = status,
     pb_detail = detail, pb_code = code, pb_extra = extra \<rparr>"

definition json_strings :: "string list \<Rightarrow> jsval" where
  "json_strings ss = JArr (map JStr ss)"

text \<open>Infinite seconds are null in JSON.\<close>

definition json_seconds :: "int option \<Rightarrow> jsval" where
  "json_seconds s = (case s of Some n \<Rightarrow> JNum n | None \<Rightarrow> JNull)"

definition problemDetailFor :: "(error \<Rightarrow> string) \<Rightarrow> error \<Rightarrow> problem" where
  "problemDetailFor msg err = (case err of
      ZodError issues \<Rightarrow> \<lparr> pb_type = error_url ''SchemaInvalid'', pb_title = ''Schema Invalid'', pb_status = 400,
        pb_detail = ''one or more request fields failed validation'', pb_code = ''SchemaInvalid'', pb_extra = [(''issues'', issues)] \<rparr>
    | StatusError n m s \<Rightarrow> wrap n m s n []
    | VersionAlreadyPublishedError _ _ \<Rightarrow> wrap ''StorageError'' (msg err) 409 ''VersionAlreadyPublished'' []
    | SyntaxInvalid ds \<Rightarrow> wrap ''PublishError'' (msg err) 400 ''SyntaxInvalid'' [(''diagnostics'', json_strings ds)]
    | ForbiddenImport _ \<Rightarrow> wrap ''PublishError'' (msg err) 400 ''ForbiddenImport'' []
    | InvalidVersion _ \<Rightarrow> wrap ''PublishError'' (msg err) 400 ''InvalidVersion'' []
    | InvalidDepRange _ _ \<Rightarrow> wrap ''PublishError'' (msg err) 400 ''InvalidDepRange'' []
    | IncompatibleEngine _ _ \<Rightarrow> wrap ''PublishError'' (msg err) 400 ''IncompatibleEngine'' []
    | SignatureRequired \<Rightarrow> wrap ''PublishError'' (msg err) 400 ''SignatureRequired'' []
    | SignatureInvalid _ \<Rightarrow> wrap ''PublishError'' (msg err) 400 ''SignatureInvalid'' []
    | PublishError _ c \<Rightarrow> wrap ''PublishError'' (msg err) 400 c []
    | DepConflict c rs \<Rightarrow> wrap ''ResolverError'' (msg err) 409 ''DepConflict'' [(''class'', JStr c),
        (''ranges'', JArr (map (\<lambda>(r, p). JObj [(''range'', JStr r), (''path'', json_strings p)]) rs))]
    | ClassNotFound _ \<Rightarrow> wrap ''ResolverError'' (msg err) 400 ''ClassNotFound'' []
    | LimitExceeded _ _ \<Rightarrow> wrap ''ResolverError'' (msg err) 400 ''LimitExceeded'' []
    | MailboxFullError \<Rightarrow> wrap ''MailboxFullError'' (msg err) 429 ''MailboxFull'' []
    | RateLimitedError subject operation secs \<Rightarrow> wrap ''RateLimitedError'' (msg err) 429 ''RateLimited''
        [(''retryAfter'', json_seconds secs), (''subject'', JStr subject), (''operation'', JStr operation)]
    | CapacityExhaustedError c cap \<Rightarrow> wrap ''CapacityExhaustedError'' (msg err) 503 ''CapacityExhausted''
        [(''class'', JStr c), (''cap'', JNum cap)]
    | PolicyDeniedError _ reason \<Rightarrow> wrap ''PolicyDenied'' (msg err) 403 ''PolicyDenied'' [(''reason'', JStr reason)]
    | ManifestRegression _ _ persisted registered \<Rightarrow> wrap ''ManifestRegression'' (msg err) 409 ''ManifestRegression''
        [(''persistedVersion'', JStr persisted), (''registeredVersion'', JStr registered)]
    | ClassVersionExpired _ _ \<Rightarrow> wrap ''LoaderError'' (msg err) 410 ''Gone'' []
    | CompileError _ ds \<Rightarrow> wrap ''LoaderError'' (msg err) 500 ''CompileError'' [(''diagnostics'', json_strings ds)]
    | ClassSourceNotFound _ _ \<Rightarrow> wrap ''LoaderError'' (msg err) 500 ''ClassSourceNotFound'' []
    | FastifyValidation s m issues \<Rightarrow> \<lparr> pb_type = error_url ''SchemaInvalid'', pb_title = ''Schema Invalid'',
        pb_status = (case s of Some n \<Rightarrow> n | None \<Rightarrow> 400), pb_detail = m, pb_code = ''SchemaInvalid'',
        pb_extra = [(''issues'', issues)] \<rparr>
    | _ \<Rightarrow> \<lparr> pb_type = error_url ''InternalError'', pb_title = ''Internal Error'', pb_status = 500, pb_detail = msg err,
        pb_code = ''InternalError'', pb_extra = [] \<rparr>)"

text \<open>The reply of the error handler: status, the \<open>Retry-After\<close> header when there is one, the body.\<close>

definition handleError :: "(error \<Rightarrow> string) \<Rightarrow> error \<Rightarrow> nat \<times> string option \<times> problem" where
  "handleError msg err = (let p = problemDetailFor msg err in
     (pb_status p,
      (case err of RateLimitedError _ _ secs \<Rightarrow> Some (case secs of Some n \<Rightarrow> show_int n | None \<Rightarrow> ''Infinity'') | _ \<Rightarrow> None),
      p))"

section \<open>The usage tracker\<close>

record usage_entry =
  ue_count :: nat
  ue_lastSeen :: ms
  ue_resolved :: "resolved_manifest option"

record usage_tracker =
  ut_entries :: "(string, usage_entry) jsmap"
  ut_maxShas :: nat
  ut_otherCount :: nat
  ut_otherLastSeen :: ms

definition new_tracker :: "nat option \<Rightarrow> usage_tracker" where
  "new_tracker maxShas = \<lparr> ut_entries = [], ut_maxShas = (case maxShas of Some n \<Rightarrow> n | None \<Rightarrow> 128),
     ut_otherCount = 0, ut_otherLastSeen = 0 \<rparr>"

definition tracker_record :: "ms \<Rightarrow> string \<Rightarrow> resolved_manifest option \<Rightarrow> usage_tracker \<Rightarrow> usage_tracker" where
  "tracker_record t sha resolved ut = (case map_get (ut_entries ut) sha of
      Some e \<Rightarrow> ut \<lparr> ut_entries := map_set sha (e \<lparr> ue_count := ue_count e + 1, ue_lastSeen := t \<rparr>) (ut_entries ut) \<rparr>
    | None \<Rightarrow>
       if ut_maxShas ut \<le> length (ut_entries ut)
       then ut \<lparr> ut_otherCount := ut_otherCount ut + 1, ut_otherLastSeen := t \<rparr>
       else ut \<lparr> ut_entries := map_set sha \<lparr> ue_count = 1, ue_lastSeen = t, ue_resolved = resolved \<rparr> (ut_entries ut) \<rparr>)"

text \<open>The stable sort by descending count, then by descending last sight.\<close>

definition tracker_report :: "usage_tracker \<Rightarrow> (string \<times> usage_entry) list \<times> nat \<times> ms" where
  "tracker_report ut = (sort_key (\<lambda>(s, e). - int (ue_count e)) (sort_key (\<lambda>(s, e). - ue_lastSeen e) (ut_entries ut)),
     ut_otherCount ut, ut_otherLastSeen ut)"

definition tracker_size :: "usage_tracker \<Rightarrow> nat" where
  "tracker_size ut = length (ut_entries ut)"

definition tracker_total :: "usage_tracker \<Rightarrow> nat" where
  "tracker_total ut = sum_list (map (\<lambda>p. ue_count (snd p)) (ut_entries ut)) + ut_otherCount ut"

section \<open>The manifest pin\<close>

definition query_of :: "http_request \<Rightarrow> string \<Rightarrow> jsval" where
  "query_of req k = js_prop (rq_query req) k"

definition nonempty_string :: "jsval \<Rightarrow> string option" where
  "nonempty_string v = (case v of JStr s \<Rightarrow> if s = [] then None else Some s | _ \<Rightarrow> None)"

definition pinShaFor :: "http_request \<Rightarrow> string option" where
  "pinShaFor req = (case nonempty_string (header_of req ''x-actjs-manifest'') of
      Some s \<Rightarrow> Some s | None \<Rightarrow> nonempty_string (query_of req ''manifest''))"

datatype deprecation = Healthy | Deprecated | Expired

definition deprecationStatus :: "class_version_record \<Rightarrow> ms \<Rightarrow> deprecation" where
  "deprecationStatus rec t = (
     if cv_deprecatedAt rec = None then Healthy
     else if (case cv_graceUntil rec of Some g \<Rightarrow> g \<le> t | None \<Rightarrow> False) then Expired else Deprecated)"

text \<open>The pinned versions with a status, unknown ones skipped.\<close>

definition pinned_with :: "deprecation \<Rightarrow> driver \<Rightarrow> ms \<Rightarrow> resolved_manifest \<Rightarrow> (class_name \<times> version) list" where
  "pinned_with st d t resolved = filter (\<lambda>(n, v). case lookupRecord n v d of
      None \<Rightarrow> False | Some rec \<Rightarrow> deprecationStatus rec t = st) (object_entries resolved)"

definition classifyPin :: "driver \<Rightarrow> ms \<Rightarrow> resolved_manifest \<Rightarrow> (class_name \<times> version) list \<times> (class_name \<times> version) list" where
  "classifyPin d t resolved = (pinned_with Deprecated d t resolved, pinned_with Expired d t resolved)"

datatype pin_result =
    NoPin
  | PinError error
  | PinGone "(class_name \<times> version) list"
  | Pinned string resolved_manifest "(class_name \<times> version) list" "string option"

text \<open>\<open>sampled\<close>: the random draw picked this request for a \<open>lastSeen\<close> write.\<close>

definition pinHook :: "bool \<Rightarrow> ms \<Rightarrow> http_request \<Rightarrow> driver \<Rightarrow> usage_tracker \<Rightarrow> pin_result \<times> driver \<times> usage_tracker" where
  "pinHook sampled t req d ut = (case pinShaFor req of
      None \<Rightarrow> (NoPin, d, ut)
    | Some sha \<Rightarrow> (case loadManifest sha d of
        None \<Rightarrow> (PinError (StatusError ''StatusError'' (''no manifest stored at sha '' @ sha) 400), d, ut)
      | Some resolved \<Rightarrow>
         let ut' = tracker_record t sha (Some resolved) ut;
             d' = (if sampled then saveManifest sha resolved d else d);
             (deprecated, expired) = classifyPin d' t resolved
         in if expired \<noteq> [] then (PinGone expired, d', ut')
            else (Pinned sha resolved deprecated
                    (if deprecated = [] then None
                     else Some (''299 - '' @ [CHR 0x22] @ ''VersionDeprecated ''
                            @ join '', '' (map (\<lambda>(n, v). mkClassRef n v) deprecated) @ [CHR 0x22])),
                  d', ut')))"

section \<open>Idempotency keys\<close>

record http_response =
  hr_status :: nat
  hr_body :: string
  hr_contentType :: "string option"
  hr_headers :: "(string, string) jsmap"

definition MUTATING_METHODS :: "string list" where
  "MUTATING_METHODS = [''POST'', ''PATCH'', ''DELETE'', ''PUT'']"

definition DEFAULT_TTL_MS :: ms where
  "DEFAULT_TTL_MS = 24 * 60 * 60 * 1000"

definition stored_response :: "http_response \<Rightarrow> jsval" where
  "stored_response r = JObj [(''status'', JNum (int (hr_status r))), (''body'', JStr (hr_body r)),
     (''contentType'', JStr (case hr_contentType r of Some c \<Rightarrow> c | None \<Rightarrow> ''application/json''))]"

definition replayed_response :: "string \<Rightarrow> jsval \<Rightarrow> http_response" where
  "replayed_response key v = \<lparr> hr_status = (case js_prop v ''status'' of JNum n \<Rightarrow> nat n | _ \<Rightarrow> 200),
     hr_body = js_String (js_prop v ''body''), hr_contentType = string_prop v ''contentType'',
     hr_headers = [(''Idempotency-Key'', key), (''Idempotency-Replayed'', ''true'')] \<rparr>"

text \<open>The key of a request that takes part.\<close>

definition idempotency_key :: "http_request \<Rightarrow> string option" where
  "idempotency_key req = (if rq_method req \<in> set MUTATING_METHODS
     then nonempty_string (header_of req ''idempotency-key'') else None)"

text \<open>\<open>Inl\<close>: the stored reply; \<open>Inr\<close>: go on, remembering the key.\<close>

definition idem_preHandler :: "http_request \<Rightarrow> driver \<Rightarrow> (http_response + string option) \<times> driver" where
  "idem_preHandler req d = (case idempotency_key req of
      None \<Rightarrow> (Inr None, d)
    | Some key \<Rightarrow> (case loadIdempotency key d of
        (None, d') \<Rightarrow> (Inr (Some key), d')
      | (Some stored, d') \<Rightarrow> (Inl (replayed_response key (im_response stored)), d')))"

definition idem_onSend :: "ms \<Rightarrow> string option \<Rightarrow> http_response \<Rightarrow> driver \<Rightarrow> http_response \<times> driver" where
  "idem_onSend ttlMs key r d = (case key of
      None \<Rightarrow> (r, d)
    | Some k \<Rightarrow>
       if hr_status r < 200 \<or> 300 \<le> hr_status r then (r, d)
       else (r \<lparr> hr_headers := hr_headers r @ [(''Idempotency-Key'', k)] \<rparr>, saveIdempotency k (stored_response r) ttlMs d))"

text \<open>A request through the hooks around a route handler with its own state.\<close>

definition serve ::
  "ms \<Rightarrow> http_request \<Rightarrow> ('s \<times> driver \<Rightarrow> http_response \<times> 's \<times> driver) \<Rightarrow> 's \<times> driver \<Rightarrow> http_response \<times> 's \<times> driver" where
  "serve ttlMs req handler sd = (case idem_preHandler req (snd sd) of
      (Inl stored, d') \<Rightarrow> (stored, fst sd, d')
    | (Inr key, d') \<Rightarrow> (case handler (fst sd, d') of
        (r, s1, d1) \<Rightarrow> (case idem_onSend ttlMs key r d1 of (r', d2) \<Rightarrow> (r', s1, d2))))"

lemma idem_preHandler_replays:
  assumes "idempotency_key req = Some k" and "map_get (d_idempotency d) k = Some row" and "d_now d < id_expiresAt row"
  shows "idem_preHandler req d = (Inl (replayed_response k (id_response row)), d)"
  using assms by (simp add: idem_preHandler_def loadIdempotency_def)

lemma loadIdempotency_absent:
  "map_get (d_idempotency d) k = None \<Longrightarrow> loadIdempotency k d = (None, d)"
  by (simp add: loadIdempotency_def)

lemma saveIdempotency_row:
  "map_get (d_idempotency (saveIdempotency k v ttl d)) k
     = Some \<lparr> id_response = v, id_storedAt = d_now d, id_expiresAt = d_now d + ttl \<rparr>"
  by (simp add: saveIdempotency_def)

lemma replayed_stored:
  "hr_status (replayed_response k (stored_response r)) = hr_status r"
  "hr_body (replayed_response k (stored_response r)) = hr_body r"
  "hr_contentType (replayed_response k (stored_response r)) = Some (case hr_contentType r of Some c \<Rightarrow> c | None \<Rightarrow> ''application/json'')"
  by (simp_all add: replayed_response_def stored_response_def string_prop_def)

section \<open>Properties\<close>

text \<open>In the registry, only deprecated versions have a grace deadline.\<close>

definition grace_inv :: "driver \<Rightarrow> bool" where
  "grace_inv d \<longleftrightarrow> (\<forall>p\<in>set (d_classVersions d). cv_deprecatedAt (snd p) = None \<longrightarrow> cv_graceUntil (snd p) = None)"

lemma grace_inv_get: "grace_inv d \<Longrightarrow> map_get (d_classVersions d) k = Some rec \<Longrightarrow> cv_deprecatedAt rec = None \<Longrightarrow> cv_graceUntil rec = None"
  by (force simp: grace_inv_def dest: map_get_in_set)

lemma set_map_set: "p \<in> set (map_set k v m) \<Longrightarrow> p = (k, v) \<or> p \<in> set m"
  by (induction m) (auto split: if_splits)

lemma grace_inv_empty [simp, inv_intros]: "grace_inv empty_driver"
  by (simp add: grace_inv_def empty_driver_def)

lemma grace_inv_publish [inv_intros]: "grace_inv d \<Longrightarrow> grace_inv (snd (publishClass i d))"
  by (auto simp: grace_inv_def publishClass_def Let_def dest!: set_map_set)

lemma grace_inv_deprecate [inv_intros]: "grace_inv d \<Longrightarrow> grace_inv (snd (deprecateClassVersion n v g d))"
  by (auto simp: grace_inv_def deprecateClassVersion_def Let_def dest!: set_map_set split: option.split)

lemma lookupRecord_listed: "lookupRecord n v d = Some rec \<Longrightarrow> \<exists>k. (k, rec) \<in> set (d_classVersions d)"
proof -
  assume "lookupRecord n v d = Some rec"
  then have "rec \<in> set (listClassVersions n d)"
    unfolding lookupRecord_def find_Some_iff by (metis nth_mem)
  then show ?thesis by (auto simp: listClassVersions_def)
qed

lemma deprecationStatus_Expired:
  "grace_inv d \<Longrightarrow> lookupRecord n v d = Some rec \<Longrightarrow>
   deprecationStatus rec t = Expired \<longleftrightarrow> (case cv_graceUntil rec of Some g \<Rightarrow> g \<le> t | None \<Rightarrow> False)"
  by (force simp: deprecationStatus_def grace_inv_def dest: lookupRecord_listed split: option.split)

lemma load_class_expired:
  assumes "\<And>n v s e. compile n v s = Inl e \<Longrightarrow> \<exists>x ds. e = CompileError x ds"
  shows "fst (load_class compile n v d ld) = Inl (ClassVersionExpired n v) \<longleftrightarrow>
    (\<exists>rec. lookupRecord n v d = Some rec \<and> (case cv_graceUntil rec of Some g \<Rightarrow> g \<le> d_now d | None \<Rightarrow> False))"
proof -
  have "compile n v s \<noteq> Inl (ClassVersionExpired n v)" for s using assms [of n v s] by auto
  then show ?thesis by (auto simp: load_class_def Let_def split: option.split sum.split)
qed

lemma pinned_with_in:
  "(n, v) \<in> set (pinned_with st d t m) \<longleftrightarrow> map_get m n = Some v
     \<and> (\<exists>rec. lookupRecord n v d = Some rec \<and> deprecationStatus rec t = st)"
  by (auto simp: pinned_with_def set_object_entries split: option.splits)

lemma saveManifest_registry [simp]:
  "lookupRecord n v (saveManifest s m d) = lookupRecord n v d" "pinned_with st (saveManifest s m d) t m' = pinned_with st d t m'"
  by (simp_all add: lookupRecord_def listClassVersions_def saveManifest_def pinned_with_def)

text \<open>
  C27. The pin gate and the class loader agree. A pinned request is answered Gone, naming exactly
  the versions the loader would refuse as expired, when there are any; otherwise it runs with
  the stored manifest, the loader refuses no pinned version as expired, and the warning is there
  exactly when a pinned version is deprecated. Only an unknown pin is an error.
\<close>

theorem pin_gate_is_loader_gate:
  assumes "pinHook sampled (d_now d) req d ut = (res, d', ut')" and "pinShaFor req = Some sha" and "grace_inv d"
    and "\<And>n v s e. compile n v s = Inl e \<Longrightarrow> \<exists>x ds. e = CompileError x ds"
  shows "case loadManifest sha d of
      None \<Rightarrow> (\<exists>m. res = PinError (StatusError ''StatusError'' m 400)) \<and> d' = d \<and> ut' = ut
    | Some m \<Rightarrow>
       (let expired = (\<lambda>n v. map_get m n = Some v \<and> fst (load_class compile n v d ld) = Inl (ClassVersionExpired n v)) in
        if \<exists>n v. expired n v then (\<exists>refs. res = PinGone refs \<and> (\<forall>n v. (n, v) \<in> set refs \<longleftrightarrow> expired n v))
        else (\<exists>refs w. res = Pinned sha m refs w \<and> (w = None \<longleftrightarrow> refs = [])
               \<and> (\<forall>n v. (n, v) \<in> set refs \<longleftrightarrow> map_get m n = Some v
                    \<and> (\<exists>rec. lookupRecord n v d = Some rec \<and> cv_deprecatedAt rec \<noteq> None))))"
proof (cases "loadManifest sha d")
  case None
  with assms(1,2) show ?thesis by (auto simp: pinHook_def)
next
  case (Some m)
  let ?expired = "\<lambda>n v. map_get m n = Some v \<and> fst (load_class compile n v d ld) = Inl (ClassVersionExpired n v)"
  have ex: "(n, v) \<in> set (pinned_with Expired d (d_now d) m) \<longleftrightarrow> ?expired n v" for n v
    using deprecationStatus_Expired [OF assms(3)] by (auto simp: pinned_with_in load_class_expired [OF assms(4)])
  have res: "res = (if pinned_with Expired d (d_now d) m \<noteq> [] then PinGone (pinned_with Expired d (d_now d) m)
      else Pinned sha m (pinned_with Deprecated d (d_now d) m)
        (if pinned_with Deprecated d (d_now d) m = [] then None
         else Some (''299 - '' @ [CHR 0x22] @ ''VersionDeprecated ''
            @ join '', '' (map (\<lambda>(n, v). mkClassRef n v) (pinned_with Deprecated d (d_now d) m)) @ [CHR 0x22])))"
    using assms(1,2) Some by (auto simp: pinHook_def classifyPin_def Let_def split: if_splits)
  show ?thesis
  proof (cases "pinned_with Expired d (d_now d) m = []")
    case True
    then have none: "\<not> (\<exists>n v. ?expired n v)" using ex by auto
    have "(n, v) \<in> set (pinned_with Deprecated d (d_now d) m) \<longleftrightarrow> map_get m n = Some v
        \<and> (\<exists>rec. lookupRecord n v d = Some rec \<and> cv_deprecatedAt rec \<noteq> None)" for n v
      using True ex [of n v] pinned_with_in [of n v Expired d "d_now d" m]
      by (auto simp: pinned_with_in deprecationStatus_def split: if_splits)
    then show ?thesis unfolding Some res using True none by (simp add: Let_def)
  next
    case False
    then have "\<exists>n v. ?expired n v" using ex by (cases "pinned_with Expired d (d_now d) m") auto
    then show ?thesis unfolding Some res using False ex by (simp add: Let_def)
  qed
qed

text \<open>
  C26. A mutating request that succeeded is not run again for its key: until the ttl ends, every
  request with the key, whatever its path, caller or handler, gets the first status, body and
  content type and leaves the handler's state alone. A reply outside 2xx is not stored, and the
  next request with the key runs its handler.
\<close>

theorem idempotent_replay:
  assumes "serve ttlMs req1 h1 (s, d) = (r1, s1, d1)" and "idempotency_key req1 = Some k"
    and "map_get (d_idempotency d) k = None"
    and "\<And>s d. d_idempotency (snd (snd (h1 (s, d)))) = d_idempotency d"
    and "idempotency_key req2 = Some k"
    and "map_get (d_idempotency d2) k = map_get (d_idempotency d1) k"
    and "d_now d2 < d_now (snd (snd (h1 (s, d)))) + ttlMs"
  shows "if 200 \<le> hr_status r1 \<and> hr_status r1 < 300
    then (\<exists>r2. serve ttlMs req2 h2 (s2, d2) = (r2, s2, d2) \<and> hr_status r2 = hr_status r1 \<and> hr_body r2 = hr_body r1
            \<and> hr_contentType r2 = Some (case hr_contentType r1 of Some c \<Rightarrow> c | None \<Rightarrow> ''application/json''))
    else fst (snd (serve ttlMs req2 h2 (s2, d2))) = fst (snd (h2 (s2, d2)))"
proof -
  obtain r s1' d' where h: "h1 (s, d) = (r, s1', d')" by (cases "h1 (s, d)")
  have pre: "idem_preHandler req1 d = (Inr (Some k), d)"
    using assms(2,3) by (simp add: idem_preHandler_def loadIdempotency_absent)
  have d1: "(r1, s1, d1) = (case idem_onSend ttlMs (Some k) r d' of (r', d2) \<Rightarrow> (r', s1', d2))"
    using assms(1) by (simp add: serve_def pre h)
  have clean: "map_get (d_idempotency d') k = None" using assms(4) [of s d] assms(3) by (simp add: h)
  show ?thesis
  proof (cases "200 \<le> hr_status r1 \<and> hr_status r1 < 300")
    case True
    with d1 have ok: "r1 = r \<lparr> hr_headers := hr_headers r @ [(''Idempotency-Key'', k)] \<rparr>"
      "d1 = saveIdempotency k (stored_response r) ttlMs d'"
      by (auto simp: idem_onSend_def split: if_splits)
    have "idem_preHandler req2 d2 = (Inl (replayed_response k (stored_response r)), d2)"
      using idem_preHandler_replays [OF assms(5)] assms(6,7) by (simp add: ok saveIdempotency_row h)
    then have "serve ttlMs req2 h2 (s2, d2) = (replayed_response k (stored_response r), s2, d2)" by (simp add: serve_def)
    with True ok(1) show ?thesis by (simp add: replayed_stored)
  next
    case False
    with d1 have "d1 = d'" by (auto simp: idem_onSend_def split: if_splits)
    with clean assms(5,6) have "idem_preHandler req2 d2 = (Inr (Some k), d2)"
      by (simp add: idem_preHandler_def loadIdempotency_absent)
    with False show ?thesis
      by (cases "h2 (s2, d2)") (auto simp: serve_def idem_onSend_def)
  qed
qed

lemma tracker_record_total: "tracker_total (tracker_record t sha r ut) = Suc (tracker_total ut)"
proof -
  have "map_get es sha = Some e \<Longrightarrow> sum_list (map (\<lambda>p. ue_count (snd p)) (map_set sha (e \<lparr> ue_count := Suc (ue_count e), ue_lastSeen := t \<rparr>) es))
      = Suc (sum_list (map (\<lambda>p. ue_count (snd p)) es))" for es e
    by (induction es) auto
  then show ?thesis
    by (auto simp: tracker_record_def tracker_total_def map_set_fresh split: option.split)
qed

lemma tracker_record_bound:
  "length (ut_entries ut) \<le> ut_maxShas ut \<Longrightarrow>
   length (ut_entries (tracker_record t sha r ut)) \<le> ut_maxShas (tracker_record t sha r ut)"
  by (auto simp: tracker_record_def map_length_set split: option.split)

definition demo_post :: http_request where
  "demo_post = \<lparr> rq_method = ''POST'', rq_headers = [(''idempotency-key'', JStr ''k1'')], rq_query = JObj [] \<rparr>"

definition demo_handler :: "nat \<times> driver \<Rightarrow> http_response \<times> nat \<times> driver" where
  "demo_handler sd = (\<lparr> hr_status = 201, hr_body = show_nat (fst sd), hr_contentType = None, hr_headers = [] \<rparr>, fst sd + 1, snd sd)"

theorem idempotent_replay_witness:
  "\<exists>r2. serve 1000 demo_post demo_handler (9, snd (snd (serve 1000 demo_post demo_handler (5, empty_driver))))
      = (r2, 9, snd (snd (serve 1000 demo_post demo_handler (5, empty_driver)))) \<and> hr_body r2 = ''5''"
proof -
  obtain r1 s1 d1 where s: "serve 1000 demo_post demo_handler (5, empty_driver) = (r1, s1, d1)"
    by (cases "serve 1000 demo_post demo_handler (5, empty_driver)")
  have k: "idempotency_key demo_post = Some ''k1''"
    by (simp add: idempotency_key_def demo_post_def MUTATING_METHODS_def header_of_def nonempty_string_def)
  have none: "map_get (d_idempotency empty_driver) ''k1'' = None" by (simp add: empty_driver_def)
  have keep: "d_idempotency (snd (snd (demo_handler (s, d)))) = d_idempotency d" for s d
    by (simp add: demo_handler_def)
  have five: "show_nat 5 = ''5''" by code_simp
  have r1: "hr_status r1 = 201 \<and> hr_body r1 = ''5'' \<and> d_now d1 = d_now empty_driver"
    using s k none five
    by (auto simp: serve_def idem_preHandler_def loadIdempotency_absent idem_onSend_def demo_handler_def saveIdempotency_def)
  have "d_now d1 < d_now (snd (snd (demo_handler (5, empty_driver)))) + 1000" using r1 by (simp add: demo_handler_def)
  from idempotent_replay [OF s k none keep k refl this, of demo_handler 9] r1 show ?thesis
    by (auto simp: s)
qed

definition demo_registry :: driver where
  "demo_registry = snd (deprecateClassVersion ''Note'' ''1.0.0'' (Some 0)
     (snd (publishClass \<lparr> pc_name = ''Note'', pc_version = ''1.0.0'', pc_source = [], pc_deps = [], pc_engines = [],
        pc_floating = None, pc_eventSourced = None, pc_signature = None \<rparr>
        (saveManifest ''m1'' [(''Note'', ''1.0.0'')] empty_driver))))"

definition demo_pinned :: http_request where
  "demo_pinned = \<lparr> rq_method = ''GET'', rq_headers = [(''x-actjs-manifest'', JStr ''m1'')], rq_query = JObj [] \<rparr>"

theorem pin_gate_is_loader_gate_witness:
  "\<exists>refs. fst (pinHook False (d_now demo_registry) demo_pinned demo_registry (new_tracker None)) = PinGone refs
     \<and> (''Note'', ''1.0.0'') \<in> set refs"
proof -
  obtain res d' ut' where p: "pinHook False (d_now demo_registry) demo_pinned demo_registry (new_tracker None) = (res, d', ut')"
    by (cases "pinHook False (d_now demo_registry) demo_pinned demo_registry (new_tracker None)")
  have sha: "pinShaFor demo_pinned = Some ''m1''"
    by (simp add: pinShaFor_def demo_pinned_def header_of_def nonempty_string_def)
  have inv: "grace_inv demo_registry"
    unfolding demo_registry_def by (intro inv_intros) (simp add: grace_inv_def saveManifest_def empty_driver_def)
  have m: "loadManifest ''m1'' demo_registry = Some [(''Note'', ''1.0.0'')]"
    by (simp add: demo_registry_def loadManifest_def deprecateClassVersion_def publishClass_def saveManifest_def empty_driver_def Let_def)
  have l: "\<exists>rec. lookupRecord ''Note'' ''1.0.0'' demo_registry = Some rec \<and> cv_graceUntil rec = Some 0 \<and> d_now demo_registry = 0"
    by (simp add: demo_registry_def lookupRecord_def listClassVersions_def deprecateClassVersion_def publishClass_def saveManifest_def
        empty_driver_def Let_def mkClassRef_def starts_with_def)
  let ?c = "\<lambda>n v s. Inr () :: error + unit"
  have c: "\<And>n v s e. ?c n v s = Inl e \<Longrightarrow> \<exists>x ds. e = CompileError x ds" by simp
  have e: "fst (load_class ?c ''Note'' ''1.0.0'' demo_registry ld) = Inl (ClassVersionExpired ''Note'' ''1.0.0'')" for ld
    using l load_class_expired [where compile = ?c and n = "''Note''" and v = "''1.0.0''" and d = demo_registry and ld = ld, OF c]
    by auto
  note gate = pin_gate_is_loader_gate [where compile = ?c, OF p sha inv c, unfolded m]
  have "map_get [(''Note'', ''1.0.0'')] ''Note'' = Some ''1.0.0''" by simp
  with gate e obtain refs where "res = PinGone refs" "(''Note'', ''1.0.0'') \<in> set refs"
    unfolding option.case Let_def by (metis (no_types, lifting))
  with p show ?thesis by simp
qed

end
