(* ===== verification/Wire.thy ===== *)
theory Wire
  imports Client Server
begin

text \<open>
  The WebSocket endpoint (\<open>src/server/routes/ws.ts\<close>) with the envelopes of \<open>src/wire\<close>: what a
  text frame asks for, what is answered, and how a reply is read by the client. A frame is handled
  in two parts, split at the await of the runtime: \<open>ws_message\<close> up to the call, \<open>finish_call\<close> and
  \<open>finish_subscribe\<close> after it. \<open>msg\<close> is the text of an error.
\<close>

section \<open>Envelopes\<close>

definition PARSE_ERROR :: int where "PARSE_ERROR = - 32700"
definition INVALID_REQUEST :: int where "INVALID_REQUEST = - 32600"
definition METHOD_NOT_FOUND :: int where "METHOD_NOT_FOUND = - 32601"
definition INVALID_PARAMS :: int where "INVALID_PARAMS = - 32602"
definition INTERNAL_ERROR :: int where "INTERNAL_ERROR = - 32603"
definition FRAMEWORK_ERROR :: int where "FRAMEWORK_ERROR = - 32000"

definition rpc_success :: "jsval \<Rightarrow> jsval \<Rightarrow> jsval" where
  "rpc_success i result = JObj [(''jsonrpc'', JStr ''2.0''), (''id'', i), (''result'', result)]"

definition rpc_failure :: "jsval \<Rightarrow> int \<Rightarrow> string \<Rightarrow> jsval option \<Rightarrow> jsval" where
  "rpc_failure i code message data = JObj [(''jsonrpc'', JStr ''2.0''), (''id'', i), (''error'', JObj
     ([(''code'', JNum code), (''message'', JStr message)] @ (case data of Some d \<Rightarrow> [(''data'', d)] | None \<Rightarrow> [])))]"

definition kind_name :: "subscriber_kind \<Rightarrow> string" where
  "kind_name k = (case k of SnapshotKind \<Rightarrow> ''snapshot'' | PatchKind \<Rightarrow> ''patch'' | EventKind \<Rightarrow> ''event'' | TombstoneKind \<Rightarrow> ''tombstone'')"

definition notification_json :: "notification \<Rightarrow> jsval" where
  "notification_json n = JObj ([(''subscriptionId'', JStr (nt_sub n)), (''kind'', JStr (kind_name (nt_kind n)))]
     @ (case nt_data n of Some d \<Rightarrow> [(''data'', d)] | None \<Rightarrow> [])
     @ (case nt_patch n of Some p \<Rightarrow> [(''patch'', JArr p)] | None \<Rightarrow> [])
     @ (case nt_events n of Some es \<Rightarrow> [(''events'', JArr es)] | None \<Rightarrow> [])
     @ (case nt_seq n of Some s \<Rightarrow> [(''seq'', JStr s)] | None \<Rightarrow> []))"

definition subscriber_frame :: "notification \<Rightarrow> jsval" where
  "subscriber_frame n = JObj [(''jsonrpc'', JStr ''2.0''), (''method'', JStr ''actor.event''), (''params'', notification_json n)]"

section \<open>Parameters of the methods\<close>

definition isObject :: "jsval \<Rightarrow> bool" where
  "isObject v \<longleftrightarrow> js_typeof v = ''object'' \<and> v \<noteq> JNull"

definition string_field :: "jsval \<Rightarrow> string \<Rightarrow> string + string" where
  "string_field p k = (case js_prop p k of JStr s \<Rightarrow> Inr s | _ \<Rightarrow> Inl (''missing string `'' @ k @ ''`''))"

definition validateActorCallParams :: "jsval \<Rightarrow> string + (class_name \<times> actor_id \<times> string \<times> jsval)" where
  "validateActorCallParams p = (
     if \<not> isObject p then Inl ''expected object params''
     else case string_field p ''class'' of Inl e \<Rightarrow> Inl e | Inr cn \<Rightarrow>
       (case string_field p ''id'' of Inl e \<Rightarrow> Inl e | Inr i \<Rightarrow>
         (case string_field p ''method'' of Inl e \<Rightarrow> Inl e | Inr m \<Rightarrow>
           Inr (cn, i, m, (let a = js_prop p ''args'' in if a = JUndefined \<or> a = JNull then JObj [] else a)))))"

definition validateActorSubscribeParams :: "jsval \<Rightarrow> string + (class_name \<times> actor_id)" where
  "validateActorSubscribeParams p = (
     if \<not> isObject p then Inl ''expected object params''
     else case string_field p ''class'' of Inl e \<Rightarrow> Inl e | Inr cn \<Rightarrow>
       (case string_field p ''id'' of Inl e \<Rightarrow> Inl e | Inr i \<Rightarrow> Inr (cn, i)))"

definition validateActorUnsubscribeParams :: "jsval \<Rightarrow> string + string" where
  "validateActorUnsubscribeParams p = (
     if \<not> isObject p then Inl ''expected object params'' else string_field p ''subscriptionId'')"

section \<open>Frames\<close>

text \<open>What a frame makes the server do: an answer at once, or a call of the runtime or the registry.\<close>

datatype ws_plan =
    NoReply
  | Reply jsval
  | DoCall class_name actor_id string jsval
  | DoSubscribe class_name actor_id
  | DoUnsubscribe string

text \<open>A request without an id gets no answer.\<close>

definition reply_unless_silent :: "jsval \<Rightarrow> jsval \<Rightarrow> ws_plan" where
  "reply_unless_silent i f = (if i = JUndefined then NoReply else Reply f)"

definition ws_dispatch :: "jsval \<Rightarrow> string \<Rightarrow> jsval \<Rightarrow> ws_plan" where
  "ws_dispatch i m params = (
     if m = ''actor.call'' then (case validateActorCallParams params of
         Inl e \<Rightarrow> reply_unless_silent i (rpc_failure i INVALID_PARAMS e None)
       | Inr (cn, a, h, args) \<Rightarrow> DoCall cn a h args)
     else if m = ''actor.subscribe'' then (case validateActorSubscribeParams params of
         Inl e \<Rightarrow> reply_unless_silent i (rpc_failure i INVALID_PARAMS e None)
       | Inr (cn, a) \<Rightarrow> DoSubscribe cn a)
     else if m = ''actor.unsubscribe'' then (case validateActorUnsubscribeParams params of
         Inl e \<Rightarrow> reply_unless_silent i (rpc_failure i INVALID_PARAMS e None)
       | Inr s \<Rightarrow> DoUnsubscribe s)
     else reply_unless_silent i (rpc_failure i METHOD_NOT_FOUND (''unknown method: '' @ m) None))"

definition id_or_null :: "jsval \<Rightarrow> jsval" where
  "id_or_null i = (if i = JUndefined \<or> i = JNull then JNull else i)"

text \<open>The plan and the id of the request. The text \<open>null\<close> has no properties: reading one throws.\<close>

definition ws_message :: "(string \<Rightarrow> jsval option) \<Rightarrow> string \<Rightarrow> error + (ws_plan \<times> jsval)" where
  "ws_message parse text = (case parse text of
      None \<Rightarrow> Inr (Reply (rpc_failure JNull PARSE_ERROR ''parse error'' None), JNull)
    | Some req \<Rightarrow>
       if req = JNull then Inl (TypeError ''Cannot read properties of null'')
       else (case (js_prop req ''jsonrpc'', js_prop req ''method'') of
           (JStr v, JStr m) \<Rightarrow>
             if v = ''2.0'' then Inr (ws_dispatch (js_prop req ''id'') m (js_prop req ''params''), js_prop req ''id'')
             else Inr (Reply (rpc_failure (id_or_null (js_prop req ''id'')) INVALID_REQUEST ''invalid jsonrpc envelope'' None),
                    id_or_null (js_prop req ''id''))
         | _ \<Rightarrow> Inr (Reply (rpc_failure (id_or_null (js_prop req ''id'')) INVALID_REQUEST ''invalid jsonrpc envelope'' None),
                    id_or_null (js_prop req ''id''))))"

section \<open>Errors\<close>

text \<open>The string \<open>code\<close> of an error class, if it has one.\<close>

definition error_code :: "error \<Rightarrow> string option" where
  "error_code e = (case e of
      VersionAlreadyPublishedError _ _ \<Rightarrow> Some ''VersionAlreadyPublished''
    | StaleFenceTokenError _ _ _ \<Rightarrow> Some ''StaleFenceToken''
    | ClassSourceNotFound _ _ \<Rightarrow> Some ''ClassSourceNotFound''
    | ClassVersionExpired _ _ \<Rightarrow> Some ''ClassVersionExpired''
    | CompileError _ _ \<Rightarrow> Some ''CompileError''
    | RateLimitedError _ _ _ \<Rightarrow> Some ''RateLimited''
    | CapacityExhaustedError _ _ \<Rightarrow> Some ''CapacityExhausted''
    | PolicyDeniedError _ _ \<Rightarrow> Some ''PolicyDenied''
    | CapabilityError _ c \<Rightarrow> Some c
    | PublishError _ c \<Rightarrow> Some c
    | InvalidVersion _ \<Rightarrow> Some ''InvalidVersion''
    | InvalidDepRange _ _ \<Rightarrow> Some ''InvalidDepRange''
    | IncompatibleEngine _ _ \<Rightarrow> Some ''IncompatibleEngine''
    | SyntaxInvalid _ \<Rightarrow> Some ''SyntaxInvalid''
    | ForbiddenImport _ \<Rightarrow> Some ''ForbiddenImport''
    | SignatureRequired \<Rightarrow> Some ''SignatureRequired''
    | SignatureInvalid _ \<Rightarrow> Some ''SignatureInvalid''
    | DepConflict _ _ \<Rightarrow> Some ''DepConflict''
    | ClassNotFound _ \<Rightarrow> Some ''ClassNotFound''
    | LimitExceeded _ _ \<Rightarrow> Some ''LimitExceeded''
    | SigningKeyExists _ \<Rightarrow> Some ''SigningKeyExists''
    | SigningKeyNotFound _ \<Rightarrow> Some ''SigningKeyNotFound''
    | UnsupportedKeyType _ \<Rightarrow> Some ''UnsupportedKeyType''
    | SubscriberLimitError _ _ \<Rightarrow> Some ''SubscriberLimit''
    | AuditWriteError _ \<Rightarrow> Some ''AuditWriteFailed''
    | _ \<Rightarrow> None)"

text \<open>
  \<open>err.code ?? err.constructor.name\<close>, for an error that a call of the runtime rejects with: the
  classes without a code, and what a handler throws that is no \<open>Error\<close>.
\<close>

definition error_name :: "error \<Rightarrow> jsval" where
  "error_name e = (case error_code e of Some c \<Rightarrow> JStr c | None \<Rightarrow> (case e of
      UserError v \<Rightarrow> (if js_prop v ''code'' \<noteq> JUndefined \<and> js_prop v ''code'' \<noteq> JNull then js_prop v ''code''
        else JStr (case v of JBool _ \<Rightarrow> ''Boolean'' | JNum _ \<Rightarrow> ''Number'' | JStr _ \<Rightarrow> ''String'' | JArr _ \<Rightarrow> ''Array'' | _ \<Rightarrow> ''Object''))
    | RpcError _ c _ \<Rightarrow> JNum c
    | TypeError _ \<Rightarrow> JStr ''TypeError''
    | MailboxClosedError \<Rightarrow> JStr ''MailboxClosedError''
    | MailboxFullError \<Rightarrow> JStr ''MailboxFullError''
    | ManifestRegression _ _ _ _ \<Rightarrow> JStr ''ManifestRegression''
    | ActorAbort _ \<Rightarrow> JStr ''ActorAbort''
    | StatusError _ _ _ \<Rightarrow> JStr ''StatusError''
    | ZodError _ \<Rightarrow> JStr ''ZodError''
    | _ \<Rightarrow> JStr ''Error''))"

text \<open>A thrown null or undefined has no \<open>code\<close> to read: the outer handler answers.\<close>

definition finish_call :: "(error \<Rightarrow> string) \<Rightarrow> jsval \<Rightarrow> error + jsval \<Rightarrow> jsval option" where
  "finish_call msg i r = (if i = JUndefined then None else Some (case r of
      Inr v \<Rightarrow> rpc_success i (JObj [(''result'', v)])
    | Inl e \<Rightarrow>
       if e = UserError JNull \<or> e = UserError JUndefined
       then rpc_failure (id_or_null i) INTERNAL_ERROR (msg (TypeError ''Cannot read properties'')) None
       else rpc_failure i (if error_code e \<noteq> None then FRAMEWORK_ERROR else INTERNAL_ERROR) (msg e)
              (Some (JObj [(''code'', error_name e)]))))"

definition finish_subscribe :: "(error \<Rightarrow> string) \<Rightarrow> jsval \<Rightarrow> error + string \<Rightarrow> jsval option" where
  "finish_subscribe msg i r = (if i = JUndefined then None else Some (case r of
      Inr s \<Rightarrow> rpc_success i (JObj [(''subscriptionId'', JStr s)])
    | Inl e \<Rightarrow> (case e of
        SubscriberLimitError _ _ \<Rightarrow> rpc_failure i FRAMEWORK_ERROR (msg e) (Some (JObj [(''code'', JStr ''SubscriberLimit'')]))
      | _ \<Rightarrow> rpc_failure i INTERNAL_ERROR (msg e) None)))"

definition finish_unsubscribe :: "jsval \<Rightarrow> bool \<Rightarrow> jsval option" where
  "finish_unsubscribe i ok = (if i = JUndefined then None else Some (rpc_success i (JObj [(''ok'', JBool ok)])))"

section \<open>Heartbeat\<close>

record heartbeat =
  hb_lastPongAt :: ms
  hb_pingIntervalMs :: ms
  hb_pingTimeoutMs :: ms

definition new_heartbeat :: "ms \<Rightarrow> ms option \<Rightarrow> ms option \<Rightarrow> heartbeat" where
  "new_heartbeat t interval timeout = \<lparr> hb_lastPongAt = t,
     hb_pingIntervalMs = (case interval of Some n \<Rightarrow> n | None \<Rightarrow> 30000),
     hb_pingTimeoutMs = (case timeout of Some n \<Rightarrow> n | None \<Rightarrow> 90000) \<rparr>"

definition pong :: "ms \<Rightarrow> heartbeat \<Rightarrow> heartbeat" where
  "pong t hb = hb \<lparr> hb_lastPongAt := t \<rparr>"

text \<open>A tick pings; it closes the socket when the last pong is too old.\<close>

definition heartbeat_closes :: "ms \<Rightarrow> heartbeat \<Rightarrow> bool" where
  "heartbeat_closes t hb \<longleftrightarrow> hb_pingTimeoutMs hb < t - hb_lastPongAt hb"

text \<open>The ticks from a start: the first that closes a connection that answers no more.\<close>

lemma heartbeat_bounded:
  assumes "0 < hb_pingIntervalMs hb" and "0 \<le> hb_pingTimeoutMs hb" and "hb_lastPongAt hb \<le> start"
  shows "\<exists>k. heartbeat_closes (start + int k * hb_pingIntervalMs hb) hb
    \<and> start + int k * hb_pingIntervalMs hb \<le> max start (hb_lastPongAt hb + hb_pingTimeoutMs hb + hb_pingIntervalMs hb)"
proof (cases "hb_pingTimeoutMs hb < start - hb_lastPongAt hb")
  case True
  then show ?thesis by (intro exI [of _ 0]) (simp add: heartbeat_closes_def)
next
  case False
  define d where "d = hb_lastPongAt hb + hb_pingTimeoutMs hb - start"
  define q where "q = d div hb_pingIntervalMs hb"
  have "0 \<le> d" using False by (simp add: d_def)
  then have "0 \<le> q" using assms(1) by (simp add: q_def pos_imp_zdiv_nonneg_iff)
  then have k: "int (nat (q + 1)) = q + 1" by simp
  have "d - hb_pingIntervalMs hb < q * hb_pingIntervalMs hb" "q * hb_pingIntervalMs hb \<le> d"
    using pos_mod_bound [OF assms(1), of d] pos_mod_sign [OF assms(1), of d]
    by (simp_all add: q_def minus_mod_eq_div_mult [symmetric])
  with \<open>0 \<le> q\<close> show ?thesis
    by (intro exI [of _ "nat (q + 1)"]) (simp add: heartbeat_closes_def k d_def distrib_right)
qed

text \<open>A connection that answers each ping within \<open>timeout - interval\<close> is never closed.\<close>

lemma heartbeat_alive:
  assumes "t \<le> hb_lastPongAt hb + hb_pingTimeoutMs hb"
  shows "\<not> heartbeat_closes t hb"
  using assms by (simp add: heartbeat_closes_def)

section \<open>Properties\<close>

definition is_error_object :: "jsval \<Rightarrow> bool" where
  "is_error_object v \<longleftrightarrow> (case (js_prop v ''code'', js_prop v ''message'') of (JNum _, JStr _) \<Rightarrow> True | _ \<Rightarrow> False)"

text \<open>A JSON-RPC 2.0 response: a result or an error object, never both.\<close>

definition is_response_to :: "jsval \<Rightarrow> jsval \<Rightarrow> bool" where
  "is_response_to i f \<longleftrightarrow> js_prop f ''jsonrpc'' = JStr ''2.0'' \<and> js_has f ''id'' \<and> js_prop f ''id'' = i
     \<and> js_has f ''result'' \<noteq> js_has f ''error'' \<and> (js_has f ''error'' \<longrightarrow> is_error_object (js_prop f ''error''))"

lemma rpc_success_response [simp]: "is_response_to i (rpc_success i v)"
  by (simp add: is_response_to_def rpc_success_def js_prop_def js_has_def)

lemma rpc_failure_response [simp]: "is_response_to i (rpc_failure i c m d)"
  by (simp add: is_response_to_def rpc_failure_def js_prop_def js_has_def is_error_object_def)

lemma ws_message_Some:
  assumes "parse text = Some req" and "req \<noteq> JNull"
  shows "(\<exists>m. ws_message parse text = Inr (ws_dispatch (js_prop req ''id'') m (js_prop req ''params''), js_prop req ''id''))
    \<or> ws_message parse text = Inr (Reply (rpc_failure (id_or_null (js_prop req ''id'')) INVALID_REQUEST ''invalid jsonrpc envelope'' None),
        id_or_null (js_prop req ''id''))"
  using assms by (cases "js_prop req ''jsonrpc''"; cases "js_prop req ''method''") (auto simp: ws_message_def)

lemma ws_message_plan:
  assumes "ws_message parse text = Inr (p, i)"
  shows "(\<exists>m ps. p = ws_dispatch i m ps) \<or> (\<exists>c e. p = Reply (rpc_failure i c e None)) \<and> i \<noteq> JUndefined"
proof (cases "parse text")
  case None
  with assms show ?thesis by (auto simp: ws_message_def)
next
  case (Some req)
  have "req \<noteq> JNull" using assms Some by (auto simp: ws_message_def)
  moreover have "id_or_null x \<noteq> JUndefined" for x by (simp add: id_or_null_def)
  ultimately show ?thesis using ws_message_Some [of parse "text" req, OF Some] assms by force
qed

lemma ws_message_throws: "(\<exists>e. ws_message parse text = Inl e) \<longleftrightarrow> parse text = Some JNull"
proof (cases "parse text")
  case None
  then show ?thesis by (simp add: ws_message_def)
next
  case (Some req)
  show ?thesis
  proof (cases "req = JNull")
    case True
    with Some show ?thesis by (simp add: ws_message_def)
  next
    case False
    with ws_message_Some [of parse "text" req, OF Some this] Some show ?thesis by auto
  qed
qed

text \<open>
  C34. Whatever text arrives, an answer of the endpoint is a well-formed JSON-RPC response: with the
  version, the id of the request (null where there is none to read), and either a result or an
  error with a numeric code and a message. A request without an id in a valid envelope is never
  answered, one with an id is answered exactly once: at once, or when its call is done. Only a
  frame \<open>null\<close> makes the handler throw.
\<close>

theorem ws_answers_wellformed:
  "((\<exists>e. ws_message parse text = Inl e) \<longleftrightarrow> parse text = Some JNull)
    \<and> (ws_message parse text = Inr (Reply f, i) \<longrightarrow> is_response_to i f \<and> i \<noteq> JUndefined)
    \<and> (ws_message parse text = Inr (NoReply, i) \<longrightarrow> i = JUndefined)
    \<and> (case finish_call msg i r of None \<Rightarrow> i = JUndefined | Some f \<Rightarrow> is_response_to i f \<and> i \<noteq> JUndefined)
    \<and> (case finish_subscribe msg i s of None \<Rightarrow> i = JUndefined | Some f \<Rightarrow> is_response_to i f \<and> i \<noteq> JUndefined)
    \<and> (case finish_unsubscribe i ok of None \<Rightarrow> i = JUndefined | Some f \<Rightarrow> is_response_to i f \<and> i \<noteq> JUndefined)"
proof -
  have invalid: "reply_unless_silent i (rpc_failure i c e d) = Reply f \<Longrightarrow> is_response_to i f \<and> i \<noteq> JUndefined"
    "reply_unless_silent i f = NoReply \<Longrightarrow> i = JUndefined" for i c e d f
    by (auto simp: reply_unless_silent_def split: if_splits)
  have plans: "(ws_dispatch i m ps = Reply f \<longrightarrow> is_response_to i f \<and> i \<noteq> JUndefined) \<and> (ws_dispatch i m ps = NoReply \<longrightarrow> i = JUndefined)"
    for i m ps f
    using invalid unfolding ws_dispatch_def by (auto split: sum.splits if_splits)
  have "is_response_to i f \<and> i \<noteq> JUndefined" if m: "ws_message parse text = Inr (Reply f, i)"
    using ws_message_plan [OF m]
  proof (elim disjE exE conjE)
    fix m ps
    assume "Reply f = ws_dispatch i m ps"
    with plans [of i m ps f] show ?thesis by simp
  qed auto
  moreover have "i = JUndefined" if m: "ws_message parse text = Inr (NoReply, i)"
    using ws_message_plan [OF m]
  proof (elim disjE exE conjE)
    fix m ps
    assume "NoReply = ws_dispatch i m ps"
    with plans [of i m ps f] show ?thesis by simp
  qed auto
  moreover have "case finish_subscribe msg i s of None \<Rightarrow> i = JUndefined | Some f \<Rightarrow> is_response_to i f \<and> i \<noteq> JUndefined"
    by (cases s) (auto simp: finish_subscribe_def split: error.split)
  moreover have "case finish_call msg i r of None \<Rightarrow> i = JUndefined | Some f \<Rightarrow> is_response_to i f \<and> i \<noteq> JUndefined"
    by (cases r) (auto simp: finish_call_def id_or_null_def)
  ultimately show ?thesis using ws_message_throws by (simp add: finish_unsubscribe_def)
qed

theorem ws_answers_wellformed_witness:
  "is_response_to JNull (rpc_failure JNull PARSE_ERROR ''parse error'' None)"
proof -
  have "ws_message (\<lambda>_. None) ''x'' = Inr (Reply (rpc_failure JNull PARSE_ERROR ''parse error'' None), JNull)"
    by (simp add: ws_message_def)
  with ws_answers_wellformed [of "\<lambda>_. None" "''x''" "rpc_failure JNull PARSE_ERROR ''parse error'' None" JNull]
  show ?thesis by blast
qed

text \<open>
  C35. A call crosses the wire unchanged: the frame of a client's call makes the server call just
  the class, actor, handler and arguments it was made with (no arguments become an empty object),
  and the answer settles the client's call with the handler's result, or with an error that has
  the message of the server's and its code, or else the name of its class; the client takes a
  failure for permanent exactly when that is neither \<open>MailboxFull\<close> nor \<open>SubscriberLimit\<close>.
\<close>

theorem call_over_the_wire:
  assumes frame: "parse req = Some (request_frame (JNum k) ''actor.call'' (call_params q))"
    and answer: "finish_call msg (JNum k) r = Some f"
    and thrown: "\<forall>v. r \<noteq> Inl (UserError v)" and coded: "\<forall>m c d. r \<noteq> Inl (RpcError m c d)"
      "\<forall>m. r \<noteq> Inl (CapabilityError m []) \<and> r \<noteq> Inl (PublishError m [])"
  shows "ws_message parse req = Inr (DoCall (qc_className q) (qc_actorId q) (qc_method q)
        (if qc_args q = JUndefined \<or> qc_args q = JNull then JObj [] else qc_args q), JNum k)
    \<and> js_prop f ''id'' = JNum k
    \<and> (case r of
         Inr v \<Rightarrow> response_result f = Inr (JObj [(''result'', v)])
       | Inl e \<Rightarrow> (\<exists>c n. response_result f = Inl (RpcError (msg e) c (Some (JObj [(''code'', JStr n)])))
           \<and> error_name e = JStr n
           \<and> isPermanentFailure (RpcError (msg e) c (Some (JObj [(''code'', JStr n)]))) = (n \<notin> {''MailboxFull'', ''SubscriberLimit''})))"
proof -
  have "ws_message parse req = Inr (DoCall (qc_className q) (qc_actorId q) (qc_method q)
      (if qc_args q = JUndefined \<or> qc_args q = JNull then JObj [] else qc_args q), JNum k)"
    by (simp add: ws_message_def frame request_frame_def ws_dispatch_def validateActorCallParams_def call_params_def isObject_def
      js_typeof_def js_prop_def string_field_def)
  moreover have "js_prop f ''id'' = JNum k"
    using answer by (auto simp: finish_call_def rpc_success_def rpc_failure_def js_prop_def id_or_null_def split: sum.splits if_splits)
  moreover have "response_result f = Inr (JObj [(''result'', v)])" if "r = Inr v" for v
    using answer that by (auto simp: finish_call_def rpc_success_def response_result_def js_has_def js_prop_def)
  moreover have "\<exists>c n. response_result f = Inl (RpcError (msg e) c (Some (JObj [(''code'', JStr n)]))) \<and> error_name e = JStr n
      \<and> isPermanentFailure (RpcError (msg e) c (Some (JObj [(''code'', JStr n)]))) = (n \<notin> {''MailboxFull'', ''SubscriberLimit''})"
    if r: "r = Inl e" for e
  proof -
    obtain n where n: "error_name e = JStr n" "n \<noteq> []"
      using thrown coded r by (cases e) (auto simp: error_name_def error_code_def)
    have user: "e \<noteq> UserError v" for v using thrown r by blast
    have "isPermanentFailure (RpcError m c (Some (JObj [(''code'', JStr n)]))) = (n \<notin> {''MailboxFull'', ''SubscriberLimit''})" for m c
      using n(2) by (simp add: isPermanentFailure_def frameworkCode_def js_is_object_def js_truthy_def js_typeof_def js_prop_def
        RETRYABLE_FRAMEWORK_CODES_def)
    moreover have "\<exists>c. response_result f = Inl (RpcError (msg e) c (Some (JObj [(''code'', JStr n)])))"
      using answer user n(1)
      by (auto simp: r finish_call_def rpc_failure_def response_result_def js_has_def js_prop_def rpc_error_def)
    ultimately show ?thesis using n(1) by blast
  qed
  ultimately show ?thesis by (auto split: sum.split)
qed

theorem call_over_the_wire_witness:
  "ws_message (\<lambda>_. Some (request_frame (JNum 1) ''actor.call'' (call_params demo_call))) ''x''
     = Inr (DoCall ''Room'' ''r1'' ''enter'' (JObj []), JNum 1)
   \<and> isPermanentFailure (RpcError ''full'' INTERNAL_ERROR (Some (JObj [(''code'', JStr ''MailboxFullError'')])))"
proof -
  let ?f = "rpc_failure (JNum 1) INTERNAL_ERROR ''full'' (Some (JObj [(''code'', JStr ''MailboxFullError'')]))"
  have "finish_call (\<lambda>_. ''full'') (JNum 1) (Inl MailboxFullError) = Some ?f"
    by (simp add: finish_call_def error_name_def error_code_def)
  from call_over_the_wire [OF _ this, of "\<lambda>_. Some (request_frame (JNum 1) ''actor.call'' (call_params demo_call))" "''x''" demo_call]
  have 1: "ws_message (\<lambda>_. Some (request_frame (JNum 1) ''actor.call'' (call_params demo_call))) ''x''
      = Inr (DoCall ''Room'' ''r1'' ''enter'' (JObj []), JNum 1)"
    and 2: "\<exists>c n. response_result ?f = Inl (RpcError ''full'' c (Some (JObj [(''code'', JStr n)])))
      \<and> error_name MailboxFullError = JStr n
      \<and> isPermanentFailure (RpcError ''full'' c (Some (JObj [(''code'', JStr n)]))) = (n \<notin> {''MailboxFull'', ''SubscriberLimit''})"
    by (simp_all add: demo_call_def)
  have "response_result ?f = Inl (RpcError ''full'' INTERNAL_ERROR (Some (JObj [(''code'', JStr ''MailboxFullError'')])))"
    by (simp add: response_result_def rpc_failure_def rpc_error_def js_has_def js_prop_def)
  with 2 have "isPermanentFailure (RpcError ''full'' INTERNAL_ERROR (Some (JObj [(''code'', JStr ''MailboxFullError'')])))"
    by auto
  with 1 show ?thesis by blast
qed

text \<open>A notification crosses the wire unchanged, when its data is not undefined.\<close>

lemma subscriber_frame_read:
  assumes "nt_data n \<noteq> Some JUndefined"
  shows "isNotification (subscriber_frame n) \<and> js_prop (subscriber_frame n) ''method'' = JStr ''actor.event''
    \<and> notification_of (js_prop (subscriber_frame n) ''params'') = Some n"
proof -
  have "kind_of (kind_name k) = Some k" for k by (cases k) (simp_all add: kind_of_def kind_name_def)
  with assms show ?thesis
    by (cases n; cases "nt_data n"; cases "nt_patch n"; cases "nt_events n"; cases "nt_seq n")
       (auto simp: isNotification_def subscriber_frame_def notification_json_def js_prop_def js_has_def js_is_object_def
          js_truthy_def js_typeof_def notification_of_def elements_def split: jsval.split)
qed

text \<open>
  A full mailbox is refused with an error class that has no code: its name is not the one the
  client retries, so the call counts as failed for good.
\<close>

theorem mailbox_full_is_permanent:
  "error_name MailboxFullError = JStr ''MailboxFullError''
    \<and> isPermanentFailure (RpcError m c (Some (JObj [(''code'', JStr ''MailboxFullError'')])))"
  by (simp add: error_name_def error_code_def isPermanentFailure_def frameworkCode_def js_is_object_def js_truthy_def js_typeof_def
    js_prop_def RETRYABLE_FRAMEWORK_CODES_def)

text \<open>The text \<open>null\<close> throws out of the message handler of the socket.\<close>

theorem null_frame_throws:
  "parse ''null'' = Some JNull \<Longrightarrow> \<exists>e. ws_message parse ''null'' = Inl e"
  by (simp add: ws_message_def)

end
