(* ===== verification/Routes.thy ===== *)
theory Routes
  imports Wire
begin

text \<open>
  The REST routes (\<open>src/server/routes/actors.ts\<close>, \<open>manifest.ts\<close>, \<open>classes.ts\<close>, \<open>admin.ts\<close>) and
  the event stream (\<open>sse.ts\<close>): the checks each handler makes, the calls of the runtime, the
  resolver, the publisher and the store, and its reply. Request schemas are the checks on the
  path; a handler that awaits the runtime has a part after it.
\<close>

section \<open>Path parameters\<close>

definition ident_start :: "char \<Rightarrow> bool" where
  "ident_start c \<longleftrightarrow> (let n = of_char c :: nat in (65 \<le> n \<and> n \<le> 90) \<or> (97 \<le> n \<and> n \<le> 122) \<or> n = 95)"

text \<open>\<open>/^[A-Za-z_][A-Za-z0-9_]*$/\<close>, for class and method names.\<close>

definition valid_ident :: "string \<Rightarrow> bool" where
  "valid_ident s \<longleftrightarrow> (case s of [] \<Rightarrow> False | c # cs \<Rightarrow> ident_start c \<and> list_all (\<lambda>c. ident_start c \<or> is_digit c) cs)"

section \<open>Actors\<close>

text \<open>A new id is minted; \<open>pin\<close> is the manifest the request is pinned to.\<close>

definition post_create ::
  "(error \<Rightarrow> string) \<Rightarrow> class_name \<Rightarrow> jsval \<Rightarrow> principal option \<Rightarrow> actor_id \<Rightarrow> string option \<Rightarrow> runtime
   \<Rightarrow> error + (class_name \<times> actor_id \<times> string option)" where
  "post_create msg cn body p fresh pin rt =
     (case checkCreate msg cn (if body = JUndefined \<or> body = JNull then JObj [] else body) p rt of
        Inl e \<Rightarrow> Inl e | Inr _ \<Rightarrow> Inr (cn, fresh, pin))"

definition get_actor ::
  "env \<Rightarrow> (error \<Rightarrow> string) \<Rightarrow> class_name \<Rightarrow> actor_id \<Rightarrow> principal option \<Rightarrow> rw \<Rightarrow> (error + snapshot_read) \<times> rw" where
  "get_actor en msg cn i p = (\<lambda>(rt, w). case loadSnapshot i (w_driver w) of
      None \<Rightarrow> (Inl (StatusError ''ActorNotFound'' (''no snapshot for actor '' @ i) 404), rt, w)
    | Some snap \<Rightarrow>
       if sr_class snap \<noteq> cn
       then (Inl (StatusError ''StatusError'' (''class mismatch: actor '' @ i @ '' is '' @ sr_class snap) 409), rt, w)
       else (case checkRead en msg (sr_class snap) i p (rt, w) of
           (Inl e, rw) \<Rightarrow> (Inl e, rw)
         | (Inr _, rw) \<Rightarrow> (Inr snap, rw)))"

definition post_call ::
  "env \<Rightarrow> (error \<Rightarrow> string) \<Rightarrow> class_name \<Rightarrow> actor_id \<Rightarrow> string \<Rightarrow> jsval \<Rightarrow> principal option \<Rightarrow> nat \<Rightarrow> rw \<Rightarrow> (error + unit) \<times> rw" where
  "post_call en msg cn i m body p c =
     runtime_call en msg cn i m (if body = JUndefined \<or> body = JNull then JObj [] else body) p c"

definition delete_actor :: "(error \<Rightarrow> string) \<Rightarrow> actor_id \<Rightarrow> principal option \<Rightarrow> rw \<Rightarrow> (error + unit) \<times> rw" where
  "delete_actor msg i p = tombstone msg i p"

section \<open>Manifests\<close>

definition asArray :: "jsval \<Rightarrow> string list" where
  "asArray v = (case v of JStr s \<Rightarrow> [s] | JArr vs \<Rightarrow> map (\<lambda>v. case v of JStr s \<Rightarrow> s | _ \<Rightarrow> []) vs | _ \<Rightarrow> [])"

text \<open>\<open>/^([A-Za-z_][A-Za-z0-9_]*)@(.+)$/\<close>: a dot matches no line terminator.\<close>

definition parseRootSpec :: "string \<Rightarrow> error + resolve_root" where
  "parseRootSpec spec = (
     let name = takeWhile (\<lambda>c. c \<noteq> CHR ''@'') spec; rest = dropWhile (\<lambda>c. c \<noteq> CHR ''@'') spec in
     if valid_ident name \<and> rest \<noteq> [] \<and> tl rest \<noteq> [] \<and> CHR 0x0A \<notin> set (tl rest) \<and> CHR 0x0D \<notin> set (tl rest)
     then Inr \<lparr> rr_name = name, rr_range = tl rest \<rparr>
     else Inl (StatusError ''StatusError'' (''malformed root/dep spec: '' @ spec) 400))"

fun parse_specs :: "string list \<Rightarrow> error + resolve_root list" where
  "parse_specs [] = Inr []"
| "parse_specs (s # ss) = (case parseRootSpec s of
      Inl e \<Rightarrow> Inl e
    | Inr r \<Rightarrow> (case parse_specs ss of Inl e \<Rightarrow> Inl e | Inr rs \<Rightarrow> Inr (r # rs)))"

definition get_manifest ::
  "(version \<Rightarrow> string \<Rightarrow> bool) \<Rightarrow> (version \<Rightarrow> version \<Rightarrow> int) \<Rightarrow> (string \<Rightarrow> string) \<Rightarrow> http_request \<Rightarrow> driver
   \<Rightarrow> (error + string \<times> resolved_manifest \<times> (class_name, accumulated_range list) jsmap) \<times> driver" where
  "get_manifest sat cmp sha256 req d = (
     let roots = asArray (query_of req ''root''); deps = asArray (query_of req ''dep'') in
     if roots = [] \<and> deps = [] then (Inl (StatusError ''StatusError'' ''at least one ?root= or ?dep= is required'' 400), d)
     else case parse_specs (roots @ deps) of
       Inl e \<Rightarrow> (Inl e, d)
     | Inr specs \<Rightarrow> (case resolve_manifest sat cmp (catalogFromDriver d) None None specs of
         Inl e \<Rightarrow> (Inl e, d)
       | Inr (m, cons) \<Rightarrow> (let sha = manifestSha256 sha256 m in (Inr (sha, m, cons), saveManifest sha m d))))"

definition get_manifest_sha :: "string \<Rightarrow> driver \<Rightarrow> error + (string \<times> resolved_manifest)" where
  "get_manifest_sha sha d = (case loadManifest sha d of
      None \<Rightarrow> Inl (StatusError ''ManifestUnknown'' (''no manifest stored at sha '' @ sha) 404)
    | Some m \<Rightarrow> Inr (sha, m))"

section \<open>Classes\<close>

text \<open>The name the audit entries get: a header of the request.\<close>

definition admin_id :: "http_request \<Rightarrow> string" where
  "admin_id req = (case header_of req ''x-actjs-admin-id'' of JStr s \<Rightarrow> s | _ \<Rightarrow> ''admin'')"

record publish_body =
  pv_version :: version
  pv_source :: string
  pv_deps :: deps_map
  pv_engines :: "(string, string) jsmap"
  pv_floating :: "bool option"
  pv_eventSourced :: "bool option"
  pv_signature :: "string option"
  pv_kid :: "string option"

definition publish_input_of :: "class_name \<Rightarrow> publish_body \<Rightarrow> string \<Rightarrow> publish_input" where
  "publish_input_of cn b by_admin = \<lparr> pi_name = cn, pi_version = pv_version b, pi_source = SourceText (pv_source b),
     pi_deps = Some (pv_deps b), pi_engines = Some (pv_engines b), pi_floating = pv_floating b,
     pi_eventSourced = pv_eventSourced b, pi_principal = Some by_admin,
     pi_signature = (case (pv_signature b, pv_kid b) of
         (Some s, Some k) \<Rightarrow> if s \<noteq> [] \<and> k \<noteq> [] then Some (k, from_base64 s) else None | _ \<Rightarrow> None) \<rparr>"

definition post_version ::
  "bool \<Rightarrow> principal \<Rightarrow> publisher \<Rightarrow> (error \<Rightarrow> string) \<Rightarrow> (audit_entry \<Rightarrow> driver \<Rightarrow> (error + unit) \<times> driver) \<Rightarrow> string \<Rightarrow> string \<Rightarrow>
   publish_options \<Rightarrow> http_request \<Rightarrow> class_name \<Rightarrow> publish_body \<Rightarrow> driver \<Rightarrow> (error + string \<times> string option) \<times> driver" where
  "post_version devHeader p pu msg writer id1 id2 opts req cn b d = (case adminOnly devHeader p req of
      Inl e \<Rightarrow> (Inl e, d)
    | Inr _ \<Rightarrow>
       if (pv_signature b \<noteq> None) \<noteq> (pv_kid b \<noteq> None)
       then (Inl (StatusError ''StatusError'' ''signature and kid must be provided together'' 400), d)
       else publish pu msg writer id1 id2 opts (publish_input_of cn b (admin_id req)) d)"

text \<open>A version in the listing: an absent field is left out of the object.\<close>

definition version_json :: "class_version_record \<Rightarrow> jsval" where
  "version_json v = JObj ([(''name'', JStr (cv_name v)), (''version'', JStr (cv_version v)), (''sourceSha256'', JStr (cv_sha v)),
       (''deps'', JObj (map (\<lambda>(k, r). (k, JStr r)) (cv_deps v))),
       (''engines'', JObj (map (\<lambda>(k, r). (k, JStr r)) (cv_engines v))), (''publishedAt'', JNum (cv_publishedAt v))]
     @ (case cv_deprecatedAt v of Some t \<Rightarrow> [(''deprecatedAt'', JNum t)] | None \<Rightarrow> [])
     @ (case cv_graceUntil v of Some t \<Rightarrow> [(''graceUntil'', JNum t)] | None \<Rightarrow> [])
     @ (case cv_signedBy v of Some k \<Rightarrow> [(''signedBy'', JStr k)] | None \<Rightarrow> [])
     @ [(''floating'', JBool (cv_floating v)), (''eventSourced'', JBool (cv_eventSourced v))])"

definition get_versions :: "class_name \<Rightarrow> driver \<Rightarrow> jsval" where
  "get_versions cn d = JObj [(''name'', JStr cn), (''versions'', JArr (map version_json (listClassVersions cn d)))]"

text \<open>The index of the classes is not implemented: the status and the code of the reply.\<close>

definition get_classes :: "nat \<times> string" where
  "get_classes = (501, ''NotImplemented'')"

text \<open>\<open>/^\d+\.\d+\.\d+/\<close>, not anchored at the end.\<close>

definition digits_dot :: "string \<Rightarrow> string option" where
  "digits_dot s = (let rest = dropWhile is_digit s in
     if takeWhile is_digit s \<noteq> [] \<and> rest \<noteq> [] \<and> hd rest = CHR ''.'' then Some (tl rest) else None)"

definition semver_prefix :: "string \<Rightarrow> bool" where
  "semver_prefix s = (case Option.bind (digits_dot s) digits_dot of Some r \<Rightarrow> takeWhile is_digit r \<noteq> [] | None \<Rightarrow> False)"

definition patch_version ::
  "bool \<Rightarrow> principal \<Rightarrow> (error \<Rightarrow> string) \<Rightarrow> (audit_entry \<Rightarrow> driver \<Rightarrow> (error + unit) \<times> driver) \<Rightarrow> auditor \<Rightarrow>
   http_request \<Rightarrow> class_name \<Rightarrow> version \<Rightarrow> ms option \<Rightarrow> driver \<Rightarrow> (error + unit) \<times> driver" where
  "patch_version devHeader p msg writer au req cn v grace d = (case adminOnly devHeader p req of
      Inl e \<Rightarrow> (Inl e, d)
    | Inr _ \<Rightarrow>
       if \<not> semver_prefix v then (Inl (StatusError ''StatusError'' (''invalid semver version in path: '' @ v) 400), d)
       else (case deprecateClassVersion cn v grace d of
           (Inl e, d1) \<Rightarrow> (Inl e, d1)
         | (Inr _, d1) \<Rightarrow> (case audit_record msg writer au
               \<lparr> ri_action = audit_action_name CLASS_DEPRECATED, ri_target = cn @ ''@'' @ v,
                 ri_meta = (case grace of Some g \<Rightarrow> [(''graceUntilMs'', JNum g)] | None \<Rightarrow> []),
                 ri_principal = PrincipalName (admin_id req) \<rparr> d1 of
             (r, _, d2) \<Rightarrow> (r, d2))))"

section \<open>Signing keys\<close>

definition post_key ::
  "(string \<Rightarrow> error + 'k) \<Rightarrow> ('k \<Rightarrow> string) \<Rightarrow> (error \<Rightarrow> string) \<Rightarrow> (audit_entry \<Rightarrow> 'd \<Rightarrow> (error + unit) \<times> 'd) \<Rightarrow>
   auditor option \<Rightarrow> ms \<Rightarrow> bool \<Rightarrow> principal \<Rightarrow> http_request \<Rightarrow> string \<Rightarrow> string \<Rightarrow> 'k key_rows \<Rightarrow> 'd
   \<Rightarrow> (error + signing_key_record) \<times> 'k key_rows \<times> 'd" where
  "post_key mk kt msg writer au t devHeader p req kid pem rows d = (case adminOnly devHeader p req of
      Inl e \<Rightarrow> (Inl e, rows, d)
    | Inr _ \<Rightarrow> (case key_add mk kt msg writer au t kid pem (admin_id req) rows d of
        (Inl e, rows1, d1) \<Rightarrow> (Inl e, rows1, d1)
      | (Inr _, rows1, d1) \<Rightarrow> (case key_get kid rows1 of
          None \<Rightarrow> (Inl (StatusError ''StatusError'' ''signing key disappeared after add'' 500), rows1, d1)
        | Some r \<Rightarrow> (Inr r, rows1, d1))))"

definition delete_key ::
  "(error \<Rightarrow> string) \<Rightarrow> (audit_entry \<Rightarrow> 'd \<Rightarrow> (error + unit) \<times> 'd) \<Rightarrow> auditor option \<Rightarrow> ms \<Rightarrow> bool \<Rightarrow> principal \<Rightarrow>
   http_request \<Rightarrow> string \<Rightarrow> 'k key_rows \<Rightarrow> 'd \<Rightarrow> (error + signing_key_record) \<times> 'k key_rows \<times> 'd" where
  "delete_key msg writer au t devHeader p req kid rows d = (case adminOnly devHeader p req of
      Inl e \<Rightarrow> (Inl e, rows, d)
    | Inr _ \<Rightarrow> (case key_revoke msg writer au t kid (admin_id req) rows d of
        (Inl e, rows1, d1) \<Rightarrow> (Inl e, rows1, d1)
      | (Inr _, rows1, d1) \<Rightarrow> (case key_get kid rows1 of
          None \<Rightarrow> (Inl (StatusError ''StatusError'' ''signing key not found'' 404), rows1, d1)
        | Some r \<Rightarrow> (Inr r, rows1, d1))))"

text \<open>The reply shows the record without its PEM.\<close>

definition key_json :: "signing_key_record \<Rightarrow> jsval" where
  "key_json r = JObj ([(''kid'', JStr (sk_kid r)), (''algorithm'', JStr ''EdDSA''), (''addedAt'', JNum (sk_addedAt r))]
     @ (case sk_revokedAt r of Some t \<Rightarrow> [(''revokedAt'', JNum t)] | None \<Rightarrow> []))"

definition get_in_use :: "bool \<Rightarrow> principal \<Rightarrow> http_request \<Rightarrow> usage_tracker \<Rightarrow> error + (string \<times> usage_entry) list \<times> nat \<times> ms" where
  "get_in_use devHeader p req ut = (case adminOnly devHeader p req of Inl e \<Rightarrow> Inl e | Inr _ \<Rightarrow> Inr (tracker_report ut))"

section \<open>The event stream\<close>

definition composeEventId :: "notification \<Rightarrow> nat \<Rightarrow> string" where
  "composeEventId n counter = (case nt_seq n of
      Some s \<Rightarrow> if s \<noteq> ''0'' then s else CHR ''c'' # show_nat counter
    | None \<Rightarrow> CHR ''c'' # show_nat counter)"

definition stripSubscriptionId :: "notification \<Rightarrow> jsval" where
  "stripSubscriptionId n = js_rest (notification_json n) ''subscriptionId''"

text \<open>The three writes of the sink; \<open>ser\<close> is \<open>JSON.stringify\<close>. The counter counts notifications.\<close>

definition sse_frame :: "(jsval \<Rightarrow> string) \<Rightarrow> notification \<Rightarrow> nat \<Rightarrow> string list" where
  "sse_frame ser n counter = [''id: '' @ composeEventId n counter @ [CHR 0x0A], ''event: actor.event'' @ [CHR 0x0A],
     ''data: '' @ ser (stripSubscriptionId n) @ [CHR 0x0A, CHR 0x0A]]"

definition sse_sink :: "(jsval \<Rightarrow> string) \<Rightarrow> notification \<Rightarrow> nat \<times> string list \<Rightarrow> nat \<times> string list" where
  "sse_sink ser n st = (fst st + 1, snd st @ sse_frame ser n (fst st + 1))"

text \<open>\<open>/^\d+$/\<close> on the header, on its first value when it is repeated.\<close>

definition readLastEventId :: "http_request \<Rightarrow> int option" where
  "readLastEventId req = (case headerString req ''last-event-id'' of
      Some v \<Rightarrow> if v \<noteq> [] \<and> list_all is_digit v then bigint_of v else None
    | None \<Rightarrow> None)"

text \<open>The notification sent and the last seq in it, none when there is nothing after \<open>fromSeq\<close>.\<close>

definition replayFromSeq :: "host \<Rightarrow> actor_id \<Rightarrow> int \<Rightarrow> driver \<Rightarrow> (notification \<times> int) option" where
  "replayFromSeq h i fromSeq d = (
     if currentEventSeq h \<le> fromSeq then None
     else (let records = readEvents i (fromSeq + 1) d in
       if records = [] then None
       else (let lastSeq = er_seq (last records) in
         Some (\<lparr> nt_sub = ''replay'', nt_kind = EventKind, nt_data = None, nt_patch = None,
                 nt_events = Some (map er_payload records), nt_seq = Some (show_int lastSeq) \<rparr>, lastSeq))))"

text \<open>What the wrapped sink passes on of the notifications of the live subscription.\<close>

fun resume_filter :: "int \<Rightarrow> bool \<Rightarrow> notification list \<Rightarrow> notification list" where
  "resume_filter replayed dropped [] = []"
| "resume_filter replayed dropped (n # ns) = (
     if \<not> dropped \<and> nt_kind n = SnapshotKind then resume_filter replayed True ns
     else if nt_kind n = EventKind \<and> (case Option.bind (nt_seq n) bigint_of of Some q \<Rightarrow> q \<le> replayed | None \<Rightarrow> False)
     then resume_filter replayed True ns
     else n # resume_filter replayed True ns)"

text \<open>The notifications a connection gets: \<open>ns\<close> are those of its subscription, snapshot first.\<close>

definition sse_stream :: "http_request \<Rightarrow> host \<Rightarrow> actor_id \<Rightarrow> driver \<Rightarrow> notification list \<Rightarrow> notification list" where
  "sse_stream req h i d ns = (case readLastEventId req of
      None \<Rightarrow> ns
    | Some from \<Rightarrow> (case replayFromSeq h i from d of
        None \<Rightarrow> ns
      | Some (n, lastSeq) \<Rightarrow> n # resume_filter lastSeq False ns))"

section \<open>Resuming\<close>

text \<open>The events in notifications, and the live commits of a subscription as notifications.\<close>

definition events_in :: "notification list \<Rightarrow> jsval list" where
  "events_in ns = concat (map (\<lambda>n. list_or_empty (nt_events n)) ns)"

definition live_commits :: "string \<Rightarrow> (jsval list \<times> int) list \<Rightarrow> notification list" where
  "live_commits sid cs = map (\<lambda>(es, q). commit_notification sid (CommitEvents es q JUndefined)) cs"

lemma live_commits_simps [simp]:
  "live_commits sid [] = []"
  "live_commits sid ((es, q) # cs) = commit_notification sid (CommitEvents es q JUndefined) # live_commits sid cs"
  by (simp_all add: live_commits_def)

lemma resume_live:
  assumes "\<forall>c\<in>set cs. replayed < snd c" and "0 \<le> replayed"
  shows "resume_filter replayed b (live_commits sid cs) = live_commits sid cs"
  using assms
proof (induction cs arbitrary: b)
  case (Cons c cs)
  obtain es q where c: "c = (es, q)" by (cases c)
  have "bigint_of (show_int q) = Some q" using Cons.prems by (intro bigint_of_show) (simp add: c)
  with Cons show ?case by (simp add: c commit_notification_def)
qed simp

lemma events_in_live: "events_in (live_commits sid cs) = concat (map fst cs)"
  by (induction cs) (auto simp: events_in_def commit_notification_def list_or_empty_def)

text \<open>The stream of a client that saw event \<open>N\<close>: one replay, then the commits.\<close>

lemma sse_stream_resumed:
  assumes inv: "log_inv d" and head: "currentEventSeq h = headEventSeq i d"
    and last: "readLastEventId req = Some N" "0 \<le> N" "N < headEventSeq i d"
    and snap: "nt_kind snap = SnapshotKind" and new: "\<forall>c\<in>set cs. headEventSeq i d < snd c"
  shows "map er_seq (readEvents i (N + 1) d) = [N + 1..headEventSeq i d]"
    and "sse_stream req h i d (snap # live_commits sid cs) =
      \<lparr> nt_sub = ''replay'', nt_kind = EventKind, nt_data = None, nt_patch = None,
        nt_events = Some (map er_payload (readEvents i (N + 1) d)), nt_seq = Some (show_int (headEventSeq i d)) \<rparr>
      # live_commits sid cs"
    and "events_in (sse_stream req h i d (snap # live_commits sid cs)) = map er_payload (readEvents i (N + 1) d) @ concat (map fst cs)"
proof -
  let ?r = "readEvents i (N + 1) d" and ?h = "headEventSeq i d"
  show seqs: "map er_seq ?r = [N + 1..?h]" using mem_log.read_contiguous [OF inv, of "N + 1" i] last(2) by simp
  have "[N + 1..?h] = [N + 1..?h - 1] @ [?h]" using last(3) upto_rec2 [of "N + 1" ?h] by simp
  then have q: "er_seq (List.last ?r) = ?h" and ne: "?r \<noteq> []"
    using seqs by (metis last_map last_snoc append_is_Nil_conv list.simps(8) not_Cons_self2, fastforce)
  have "replayFromSeq h i N d = Some (\<lparr> nt_sub = ''replay'', nt_kind = EventKind, nt_data = None, nt_patch = None,
      nt_events = Some (map er_payload ?r), nt_seq = Some (show_int ?h) \<rparr>, ?h)"
    using last(3) ne q by (simp add: replayFromSeq_def head Let_def)
  then show s: "sse_stream req h i d (snap # live_commits sid cs) =
      \<lparr> nt_sub = ''replay'', nt_kind = EventKind, nt_data = None, nt_patch = None,
        nt_events = Some (map er_payload ?r), nt_seq = Some (show_int ?h) \<rparr> # live_commits sid cs"
    using last snap resume_live [OF new, of True sid] by (simp add: sse_stream_def)
  show "events_in (sse_stream req h i d (snap # live_commits sid cs)) = map er_payload ?r @ concat (map fst cs)"
    unfolding s using events_in_live [of sid cs] by (simp add: events_in_def list_or_empty_def)
qed

section \<open>Properties\<close>


definition demo_log :: driver where
  "demo_log = snd (appendEvents ''a'' [demo_write 1, demo_write 2] (Some 0) demo_registered)"

definition demo_resume :: http_request where
  "demo_resume = \<lparr> rq_method = ''GET'', rq_headers = [(''last-event-id'', JStr ''1'')], rq_query = JObj [] \<rparr>"


text \<open>
  The route replays the log and then awaits the subscription: events appended in between are in
  neither part, and the snapshot that holds them is dropped.
\<close>

theorem sse_gap_is_lost:
  assumes inv: "log_inv d" and head: "currentEventSeq h = headEventSeq i d"
    and last: "readLastEventId req = Some N" "0 \<le> N" "N < headEventSeq i d"
    and snap: "nt_kind snap = SnapshotKind" and gap: "appendEvents i es fence d = (Inr q, d')" "es \<noteq> []"
    and new: "\<forall>c\<in>set cs. q < snd c"
  shows "\<exists>missed. map er_payload (readEvents i (N + 1) d') = map er_payload (readEvents i (N + 1) d) @ missed
    \<and> length missed = length es
    \<and> events_in (sse_stream req h i d (snap # live_commits sid cs))
        = map er_payload (readEvents i (N + 1) d) @ concat (map fst cs)"
proof -
  let ?h = "headEventSeq i d"
  have inv': "log_inv d'" using log_inv_appendEvents [OF inv, of i es fence] gap(1) by simp
  note rb = mem_log.append_read_back [OF inv gap(1)]
  have q: "q = ?h + int (length es)" by (rule rb(1))
  have len: "int (length (event_log_of i d)) = ?h" using mem_log.head_length [OF inv] by simp
  have "readEvents i (N + 1) d' = drop (nat N) (event_log_of i d @ readEvents i (?h + 1) d')"
    using mem_log.read_drop [OF inv' last(2), of i] rb(2) by simp
  also have "\<dots> = drop (nat N) (event_log_of i d) @ readEvents i (?h + 1) d'"
    using last(3) len by simp
  also have "drop (nat N) (event_log_of i d) = readEvents i (N + 1) d"
    using mem_log.read_drop [OF inv last(2), of i] by simp
  finally have new_part: "readEvents i (N + 1) d' = readEvents i (N + 1) d @ readEvents i (?h + 1) d'" .
  have "headEventSeq i d' = q" using appendEvents_log [OF inv gap(1)] by simp
  moreover have "0 < ?h + 1" using last by simp
  ultimately have "map er_seq (readEvents i (?h + 1) d') = [?h + 1..q]"
    using mem_log.read_contiguous [OF inv', of "?h + 1" i] by simp
  then have "length (map er_seq (readEvents i (?h + 1) d')) = length [?h + 1..q]" by (rule arg_cong)
  then have es: "length (readEvents i (?h + 1) d') = length es" using q by simp
  have new': "\<forall>c\<in>set cs. ?h < snd c" using new q by force
  show ?thesis
    by (rule exI [of _ "map er_payload (readEvents i (?h + 1) d')"])
      (simp only: new_part map_append length_map es sse_stream_resumed(3) [OF inv head last snap new', of sid] simp_thms)
qed

lemma parse_specs_roots: "parse_specs ss = Inr rs \<Longrightarrow> list_all2 (\<lambda>s r. parseRootSpec s = Inr r) ss rs"
  by (induction ss arbitrary: rs) (auto split: sum.splits)

lemma parseRootSpec_text: "parseRootSpec s = Inr r \<Longrightarrow> s = rr_name r @ ''@'' @ rr_range r"
proof -
  assume a: "parseRootSpec s = Inr r"
  let ?rest = "dropWhile (\<lambda>c. c \<noteq> CHR ''@'') s"
  have r: "rr_name r = takeWhile (\<lambda>c. c \<noteq> CHR ''@'') s" "rr_range r = tl ?rest" "?rest \<noteq> []"
    using a by (auto simp: parseRootSpec_def Let_def split: if_splits)
  have "hd ?rest = CHR ''@''" using hd_dropWhile [OF r(3)] by simp
  then have "?rest = CHR ''@'' # rr_range r" using r(2,3) by (metis list.collapse)
  then show ?thesis using r(1) by (metis append_Cons append_Nil takeWhile_dropWhile_id)
qed

text \<open>
  \<open>GET /v1/manifest\<close> answers with a manifest that can be read back under the digest in the
  answer, and in which every \<open>name@range\<close> of the request is pinned to a version in its range; a
  request that is refused stores nothing.
\<close>

theorem manifest_route_sound:
  assumes "orders cmp"
  shows "case get_manifest sat cmp sha256 req d of
      (Inl e, d') \<Rightarrow> d' = d
    | (Inr (sha, m, cons), d') \<Rightarrow>
        get_manifest_sha sha d' = Inr (sha, m) \<and> sha = manifestSha256 sha256 m
        \<and> list_all (\<lambda>spec. \<exists>n r v. spec = n @ ''@'' @ r \<and> map_get m n = Some v \<and> sat v r)
            (asArray (query_of req ''root'') @ asArray (query_of req ''dep''))"
proof -
  let ?ss = "asArray (query_of req ''root'') @ asArray (query_of req ''dep'')"
  { fix rs m cons
    assume p: "parse_specs ?ss = Inr rs" and r: "resolve_manifest sat cmp (catalogFromDriver d) None None rs = Inr (m, cons)"
    have "list_all (\<lambda>r. \<exists>v. map_get m (rr_name r) = Some v \<and> sat v (rr_range r)) rs"
      using resolve_manifest_sound [OF r assms] by blast
    with parse_specs_roots [OF p] have "list_all (\<lambda>spec. \<exists>n r v. spec = n @ ''@'' @ r \<and> map_get m n = Some v \<and> sat v r) ?ss"
    proof (induction rule: list_all2_induct)
      case (Cons s ss r rs)
      with parseRootSpec_text [of s r] show ?case by (simp, blast)
    qed simp }
  note pinned = this
  obtain r d' where rd: "get_manifest sat cmp sha256 req d = (r, d')" by (cases "get_manifest sat cmp sha256 req d")
  show ?thesis
  proof (cases r)
    case (Inl e)
    then have "d' = d" using rd by (auto simp only: get_manifest_def Let_def split: if_splits sum.splits prod.splits)
    then show ?thesis using rd Inl by simp
  next
    case (Inr res)
    obtain sha m cons where res: "res = (sha, m, cons)" by (cases res)
    from rd Inr res obtain rs where rs: "parse_specs ?ss = Inr rs"
      "resolve_manifest sat cmp (catalogFromDriver d) None None rs = Inr (m, cons)"
      and sha: "sha = manifestSha256 sha256 m" "d' = saveManifest sha m d"
      by (auto simp only: get_manifest_def Let_def split: if_splits sum.splits prod.splits)
    have "get_manifest_sha sha d' = Inr (sha, m)" by (simp add: sha(2) get_manifest_sha_def loadManifest_def saveManifest_def)
    with pinned [OF rs] sha(1) show ?thesis by (simp only: rd Inr res prod.case sum.case simp_thms)
  qed
qed

definition demo_listed :: driver where
  "demo_listed = empty_driver \<lparr> d_classVersions := [(''Note@3'', demo_record ''Note'' ''3'' [])] \<rparr>"

theorem manifest_route_sound_witness:
  "case get_manifest (\<lambda>v r. demo_cmp r v \<le> 0) demo_cmp id
        \<lparr> rq_method = ''GET'', rq_headers = [], rq_query = JObj [(''root'', JStr ''Note@2'')] \<rparr> demo_listed of
     (Inl e, d') \<Rightarrow> False
   | (Inr (sha, m, cons), d') \<Rightarrow> get_manifest_sha sha d' = Inr (sha, m) \<and> m = [(''Note'', ''3'')]"
proof -
  let ?req = "\<lparr> rq_method = ''GET'', rq_headers = [], rq_query = JObj [(''root'', JStr ''Note@2'')] \<rparr>"
  let ?g = "get_manifest (\<lambda>v r. demo_cmp r v \<le> 0) demo_cmp id ?req demo_listed"
  have "orders demo_cmp" by (simp add: orders_def demo_cmp_def)
  note sound = manifest_route_sound [where sat = "\<lambda>v r. demo_cmp r v \<le> 0" and ?sha256.0 = id and req = ?req and d = demo_listed, OF this]
  have q: "asArray (query_of ?req ''root'') = [''Note@2'']" "asArray (query_of ?req ''dep'') = []"
    by (simp_all add: asArray_def query_of_def)
  have specs: "parseRootSpec ''Note@2'' = Inr \<lparr> rr_name = ''Note'', rr_range = ''2'' \<rparr>" by code_simp
  have res: "resolve_manifest (\<lambda>v r. demo_cmp r v \<le> 0) demo_cmp (catalogFromDriver demo_listed)
      None None [\<lparr> rr_name = ''Note'', rr_range = ''2'' \<rparr>]
    = Inr ([(''Note'', ''3'')], [(''Note'', [\<lparr> ac_range = ''2'', ac_path = [''Note@2''] \<rparr>])])" by code_simp
  have run: "(case ?g of (Inl e, d') \<Rightarrow> False | (Inr (sha, m, cons), d') \<Rightarrow> m = [(''Note'', ''3'')])"
    by (simp add: get_manifest_def Let_def q specs res)
  obtain r d' where g: "?g = (r, d')" by (cases ?g)
  show ?thesis
  proof (cases r)
    case (Inr res)
    obtain sha m cons where res: "res = (sha, m, cons)" by (cases res)
    have "get_manifest_sha sha d' = Inr (sha, m)"
      using sound unfolding g Inr res prod.case sum.case by (rule conjunct1)
    moreover have "m = [(''Note'', ''3'')]" using run unfolding g Inr res prod.case sum.case .
    ultimately show ?thesis unfolding g Inr res prod.case sum.case by (rule conjI)
  qed (use run g in simp)
qed

text \<open>The destroy policy guards only an actor that is live: any principal tombstones the others.\<close>

theorem delete_unloaded_unchecked:
  assumes "getLive i (rt_dir rt) = None"
  shows "case delete_actor msg i p (rt, w) of
    (r, rt', w') \<Rightarrow> r = Inr () \<and> rt' = rt \<and> (\<exists>es. w_driver w' = (tombstoneActor i (w_driver w)) \<lparr> d_audit := es \<rparr>)"
proof -
  have ok: "fst (audit_record msg (\<lambda>e d. (Inr (), appendAudit e d)) au ri dr) = Inr ()
      \<and> (\<exists>es. snd (snd (audit_record msg (\<lambda>e d. (Inr (), appendAudit e d)) au ri dr)) = dr \<lparr> d_audit := es \<rparr>)" for au ri dr
    by (cases "au_noop au") (simp_all add: audit_record_def appendAudit_def exI [of _ "d_audit dr"], metis)
  show ?thesis using assms ok by (simp add: delete_actor_def tombstone_def Let_def split_beta)
qed

end
