(* ===== verification/Extract.thy ===== *)
theory Extract
  imports Routes
begin

text \<open>
  Extraction of handler signatures from a class's source (\<open>src/codegen/extract.ts\<close>, \<open>types.ts\<close>). The
  TypeScript parser is an argument: a source file is the part of its syntax tree the extractor
  reads, each node as the texts and kinds it asks for.
\<close>

section \<open>The syntax tree\<close>

datatype prop_name = IdentName string | LiteralName string | OtherName string

datatype callee = IdentCallee string | PropertyCallee string | OtherCallee string

datatype call_arg = StringArg string | OtherArg

text \<open>A decorator that is a call, with its arguments, or another expression.\<close>

datatype decorator = CallDecorator callee "call_arg list" | PlainDecorator

record ts_param =
  tp_ident :: "string option"
  tp_type :: "string option"

record ts_method =
  tm_name :: prop_name
  tm_decorators :: "decorator list"
  tm_generic :: bool
  tm_params :: "ts_param list"
  tm_return :: "string option"
  tm_body :: "string option"

datatype member = Method ts_method | OtherMember

text \<open>The first type of the first heritage clause: its expression and its type arguments.\<close>

record ts_heritage =
  th_text :: string
  th_args :: "string list"

record ts_class =
  tc_heritage :: "ts_heritage option"
  tc_members :: "member list"

text \<open>A statement; the last kind carries the first class expression found inside it.\<close>

datatype stmt =
    ClassStmt ts_class
  | ReturnClass ts_class
  | AliasStmt string string
  | OtherStmt "ts_class option"

section \<open>What is extracted\<close>

record extracted_handler =
  eh_name :: string
  eh_argsType :: string
  eh_returnType :: string
  eh_esEventReturn :: bool

record extracted_class =
  ec_name :: string
  ec_version :: version
  ec_sha :: string
  ec_eventSourced :: bool
  ec_stateType :: string
  ec_eventType :: string
  ec_reduceBody :: "string option"
  ec_reduceParams :: "(string \<times> string) option"
  ec_handlers :: "extracted_handler list"
  ec_warnings :: "string list"

record codegen_input =
  ci_className :: string
  ci_version :: version
  ci_source :: string

section \<open>Finding the class\<close>

text \<open>A class statement or \<open>return class\<close> wins; otherwise the first class expression in the tree.\<close>

fun declared_class :: "stmt list \<Rightarrow> ts_class option" where
  "declared_class [] = None"
| "declared_class (ClassStmt c # ss) = Some c"
| "declared_class (ReturnClass c # ss) = Some c"
| "declared_class (AliasStmt n t # ss) = declared_class ss"
| "declared_class (OtherStmt e # ss) = declared_class ss"

fun nested_class :: "stmt list \<Rightarrow> ts_class option" where
  "nested_class [] = None"
| "nested_class (OtherStmt (Some c) # ss) = Some c"
| "nested_class (s # ss) = nested_class ss"

definition findFirstClassDeclaration :: "stmt list \<Rightarrow> ts_class option" where
  "findFirstClassDeclaration ss = (case declared_class ss of Some c \<Rightarrow> Some c | None \<Rightarrow> nested_class ss)"

definition ends_with :: "string \<Rightarrow> string \<Rightarrow> bool" where
  "ends_with p s = starts_with (rev p) (rev s)"

text \<open>\<open>/(^|\.)EventSourced$/\<close> on the heritage expression.\<close>

definition isEventSourcedHeritage :: "ts_heritage \<Rightarrow> bool" where
  "isEventSourcedHeritage h \<longleftrightarrow> th_text h = ''EventSourced'' \<or> ends_with ''.EventSourced'' (th_text h)"

definition inferStateAndEventFromHeritage :: "ts_heritage \<Rightarrow> bool \<Rightarrow> string \<times> string" where
  "inferStateAndEventFromHeritage h es = (case th_args h of
      [] \<Rightarrow> (''unknown'', ''never'')
    | st # rest \<Rightarrow> (st, if es then (case rest of ev # _ \<Rightarrow> ev | [] \<Rightarrow> ''never'') else ''never''))"

definition nameOf :: "prop_name \<Rightarrow> string" where
  "nameOf n = (case n of IdentName s \<Rightarrow> s | LiteralName s \<Rightarrow> s | OtherName s \<Rightarrow> s)"

definition paramNamesOf :: "ts_method \<Rightarrow> (string \<times> string) option" where
  "paramNamesOf m = (case tm_params m of
      p0 # p1 # _ \<Rightarrow> Some ((case tp_ident p0 of Some s \<Rightarrow> s | None \<Rightarrow> ''state''), (case tp_ident p1 of Some s \<Rightarrow> s | None \<Rightarrow> ''event''))
    | _ \<Rightarrow> None)"

section \<open>Handlers\<close>

definition callee_name :: "callee \<Rightarrow> string" where
  "callee_name c = (case c of IdentCallee s \<Rightarrow> s | PropertyCallee s \<Rightarrow> s | OtherCallee s \<Rightarrow> s)"

fun handlerNameFromDecorators :: "prop_name \<Rightarrow> decorator list \<Rightarrow> string option" where
  "handlerNameFromDecorators n [] = None"
| "handlerNameFromDecorators n (PlainDecorator # ds) = handlerNameFromDecorators n ds"
| "handlerNameFromDecorators n (CallDecorator c args # ds) = (
     if callee_name c \<noteq> ''handler'' then handlerNameFromDecorators n ds
     else (case args of StringArg s # _ \<Rightarrow> Some s | _ \<Rightarrow> Some (nameOf n)))"

text \<open>\<open>String.prototype.trim\<close>.\<close>

definition js_space :: "char \<Rightarrow> bool" where
  "js_space c \<longleftrightarrow> (let n = of_char c :: nat in (9 \<le> n \<and> n \<le> 13) \<or> n = 32 \<or> n = 160)"

definition trim :: "string \<Rightarrow> string" where
  "trim s = rev (dropWhile js_space (rev (dropWhile js_space s)))"

fun contains_text :: "string \<Rightarrow> string \<Rightarrow> bool" where
  "contains_text p [] = (p = [])"
| "contains_text p (c # s) = (starts_with p (c # s) \<or> contains_text p s)"

text \<open>\<open>/^Promise<([\s\S]+)>$/\<close>; an event return ends in brackets and has \<open>Event\<close> in it.\<close>

definition unwrapPromise :: "string \<Rightarrow> string \<times> bool" where
  "unwrapPromise t = (
     let t = trim t;
         inner = (if starts_with ''Promise<'' t \<and> ends_with ''>'' t \<and> 9 < length t
                  then trim (butlast (drop 8 t)) else t)
     in (inner, ends_with ''[]'' inner \<and> contains_text ''Event'' inner))"

text \<open>The characters of the code's texts that do not fit eight bits, as their UTF-8 bytes.\<close>

definition em_dash :: string where
  "em_dash = [CHR 0xE2, CHR 0x80, CHR 0x94]"

definition ellipsis :: string where
  "ellipsis = [CHR 0xE2, CHR 0x80, CHR 0xA6]"

definition extractHandler :: "ts_method \<Rightarrow> string \<Rightarrow> extracted_handler \<times> string list" where
  "extractHandler m name = (
     if tm_generic m
     then (\<lparr> eh_name = name, eh_argsType = ''unknown'', eh_returnType = ''unknown'', eh_esEventReturn = False \<rparr>,
           [''handler '' @ name @ '' declares generic type parameters; emitted as unknown '' @ em_dash @ '' see docs/codegen.md''])
     else (let (ret, es) = unwrapPromise (case tm_return m of Some t \<Rightarrow> t | None \<Rightarrow> ''unknown'') in
       (\<lparr> eh_name = name,
          eh_argsType = (case tm_params m of p # _ \<Rightarrow> (case tp_type p of Some t \<Rightarrow> t | None \<Rightarrow> ''unknown'') | [] \<Rightarrow> ''unknown''),
          eh_returnType = ret, eh_esEventReturn = es \<rparr>, [])))"

section \<open>The class\<close>

text \<open>\<open>/^[A-Za-z_$][\w$]*$/\<close> on the trimmed text; a declared alias is inlined one level deep.\<close>

definition type_name :: "string \<Rightarrow> bool" where
  "type_name s \<longleftrightarrow> (let start = (\<lambda>c. ident_start c \<or> c = CHR ''$'') in
     (case s of [] \<Rightarrow> False | c # cs \<Rightarrow> start c \<and> list_all (\<lambda>c. start c \<or> is_digit c) cs))"

fun alias_body :: "stmt list \<Rightarrow> string \<Rightarrow> string option" where
  "alias_body [] t = None"
| "alias_body (AliasStmt n body # ss) t = (if n = t then Some body else alias_body ss t)"
| "alias_body (s # ss) t = alias_body ss t"

definition resolveLocalAlias :: "stmt list \<Rightarrow> string \<Rightarrow> string option" where
  "resolveLocalAlias ss x = (if type_name (trim x) then alias_body ss (trim x) else None)"

text \<open>The loop over the members: the reduce method of an event-sourced class, then the handlers.\<close>

record class_scan =
  cs_body :: "string option"
  cs_params :: "(string \<times> string) option"
  cs_handlers :: "extracted_handler list"
  cs_warnings :: "string list"

fun scan_members :: "bool \<Rightarrow> member list \<Rightarrow> class_scan \<Rightarrow> class_scan" where
  "scan_members es [] sc = sc"
| "scan_members es (OtherMember # ms) sc = scan_members es ms sc"
| "scan_members es (Method m # ms) sc = scan_members es ms (
     if es \<and> nameOf (tm_name m) = ''reduce''
     then sc \<lparr> cs_body := tm_body m, cs_params := paramNamesOf m \<rparr>
     else (case handlerNameFromDecorators (tm_name m) (tm_decorators m) of
        None \<Rightarrow> sc
      | Some name \<Rightarrow> (let (h, ws) = extractHandler m name in
          sc \<lparr> cs_handlers := cs_handlers sc @ [h], cs_warnings := cs_warnings sc @ ws \<rparr>)))"

text \<open>\<open>parse\<close> is the TypeScript parser on a file name and its text, \<open>sha\<close> the hex digest of a text.\<close>

definition extractClass :: "(string \<Rightarrow> string \<Rightarrow> stmt list) \<Rightarrow> (string \<Rightarrow> string) \<Rightarrow> codegen_input \<Rightarrow> extracted_class" where
  "extractClass parse sha i = (
     let ss = parse (ci_className i @ ''.ts'') (ci_source i);
         found = findFirstClassDeclaration ss;
         heritage = (case found of Some c \<Rightarrow> tc_heritage c | None \<Rightarrow> None);
         es = (case heritage of Some h \<Rightarrow> isEventSourcedHeritage h | None \<Rightarrow> False);
         (st, ev) = (case heritage of
             Some h \<Rightarrow> (let (s, e) = inferStateAndEventFromHeritage h es in
               ((case resolveLocalAlias ss s of Some t \<Rightarrow> t | None \<Rightarrow> s), (case resolveLocalAlias ss e of Some t \<Rightarrow> t | None \<Rightarrow> e)))
           | None \<Rightarrow> (''unknown'', ''never''));
         none = \<lparr> cs_body = None, cs_params = None, cs_handlers = [], cs_warnings = [] \<rparr>;
         sc = (case found of
             None \<Rightarrow> none \<lparr> cs_warnings := [''no class declaration found in '' @ ci_className i] \<rparr>
           | Some c \<Rightarrow> scan_members es (tc_members c) none)
     in \<lparr> ec_name = ci_className i, ec_version = ci_version i, ec_sha = sha (ci_source i), ec_eventSourced = es,
          ec_stateType = st, ec_eventType = (if es then ev else ''never''), ec_reduceBody = cs_body sc,
          ec_reduceParams = cs_params sc, ec_handlers = cs_handlers sc, ec_warnings = cs_warnings sc \<rparr>)"

section \<open>Lemmas\<close>

lemma extractClass_fields [simp]:
  "ec_name (extractClass parse sha i) = ci_className i" "ec_version (extractClass parse sha i) = ci_version i"
  "ec_sha (extractClass parse sha i) = sha (ci_source i)"
  by (simp_all add: extractClass_def Let_def split_beta)

text \<open>The extraction reads the version only to copy it.\<close>

lemma extractClass_version:
  "extractClass parse sha (i \<lparr> ci_version := v \<rparr>) = (extractClass parse sha i) \<lparr> ec_version := v \<rparr>"
  by (simp add: extractClass_def Let_def split_beta cong: option.case_cong)

text \<open>Which methods become handlers: those with a handler decorator, in order, but not reduce.\<close>

definition handler_methods :: "bool \<Rightarrow> member list \<Rightarrow> (ts_method \<times> string) list" where
  "handler_methods es ms = concat (map (\<lambda>m. case m of OtherMember \<Rightarrow> []
      | Method m \<Rightarrow> if es \<and> nameOf (tm_name m) = ''reduce'' then []
          else (case handlerNameFromDecorators (tm_name m) (tm_decorators m) of Some n \<Rightarrow> [(m, n)] | None \<Rightarrow> [])) ms)"

lemma scan_handlers:
  "cs_handlers (scan_members es ms sc) = cs_handlers sc @ map (\<lambda>(m, n). fst (extractHandler m n)) (handler_methods es ms)"
  by (induction es ms sc rule: scan_members.induct) (auto simp: handler_methods_def split_beta split: option.split)

lemma unwrap_twice: "fst (unwrapPromise ''Promise<Promise<X>>'') = ''Promise<X>''"
  by code_simp

end
