(* ===== verification/Diff.thy ===== *)
theory Diff
  imports Prelude "HOL-Library.Sublist"
begin

text \<open>
  The unified diff of \<open>actctl codegen --check\<close> (\<open>src/codegen/diff.ts\<close>): the table of the lengths of
  the longest common subsequences of the suffixes, the walk over it, and the text it prints.
  \<open>lcs\<close> is the textbook recursion the table is compared with.
\<close>

section \<open>The code\<close>

datatype op = Context string | Add string | Del string

text \<open>Row \<open>i\<close> of the table, from its line \<open>x\<close> and the row below; each row has one entry more than \<open>b\<close>.\<close>

fun dp_row :: "string \<Rightarrow> string list \<Rightarrow> nat list \<Rightarrow> nat list" where
  "dp_row x [] below = [0]"
| "dp_row x (y # ys) below = (let r = dp_row x ys (tl below) in
     (if x = y then hd (tl below) + 1 else max (hd below) (hd r)) # r)"

fun dp_table :: "string list \<Rightarrow> string list \<Rightarrow> nat list list" where
  "dp_table [] b = [replicate (length b + 1) 0]"
| "dp_table (x # a) b = (let t = dp_table a b in dp_row x b (hd t) # t)"

function lcs_walk :: "nat list list \<Rightarrow> string list \<Rightarrow> string list \<Rightarrow> nat \<Rightarrow> nat \<Rightarrow> op list" where
  "lcs_walk dp a b i j = (
     if i < length a \<and> j < length b then
       (if a ! i = b ! j then Context (a ! i) # lcs_walk dp a b (i + 1) (j + 1)
        else if dp ! i ! (j + 1) \<le> dp ! (i + 1) ! j then Del (a ! i) # lcs_walk dp a b (i + 1) j
        else Add (b ! j) # lcs_walk dp a b i (j + 1))
     else map Del (drop i a) @ map Add (drop j b))"
  by pat_completeness auto
termination by (relation "measure (\<lambda>(dp, a, b, i, j). (length a - i) + (length b - j))") auto

declare lcs_walk.simps [simp del]

definition lcsDiff :: "string list \<Rightarrow> string list \<Rightarrow> op list" where
  "lcsDiff a b = lcs_walk (dp_table a b) a b 0 0"

definition op_line :: "op \<Rightarrow> string" where
  "op_line p = (case p of Context l \<Rightarrow> CHR '' '' # l | Add l \<Rightarrow> CHR ''+'' # l | Del l \<Rightarrow> CHR ''-'' # l)"

definition newline :: char where
  "newline = CHR 0x0A"

definition unifiedDiff :: "string \<Rightarrow> string \<Rightarrow> string \<Rightarrow> string \<Rightarrow> string" where
  "unifiedDiff oldText newText oldName newName = (
     if oldText = newText then []
     else join [newline] ([''--- '' @ oldName, ''+++ '' @ newName]
            @ map op_line (lcsDiff (split_on newline oldText) (split_on newline newText))))"

section \<open>The reference\<close>

fun lcs :: "string list \<Rightarrow> string list \<Rightarrow> nat" where
  "lcs [] b = 0"
| "lcs a [] = 0"
| "lcs (x # a) (y # b) = (if x = y then lcs a b + 1 else max (lcs a (y # b)) (lcs (x # a) b))"

lemma lcs_Nil2 [simp]: "lcs a [] = 0"
  by (cases a) auto

lemma lcs_upper: "subseq zs a \<Longrightarrow> subseq zs b \<Longrightarrow> length zs \<le> lcs a b"
proof (induction a b arbitrary: zs rule: lcs.induct)
  case (3 x a y b)
  show ?case
  proof (cases zs)
    case (Cons z zs')
    show ?thesis
    proof (cases "z = x")
      case True
      show ?thesis
      proof (cases "x = y")
        case True
        then have "length zs' \<le> lcs a b" using 3 Cons \<open>z = x\<close> by simp
        then show ?thesis using True Cons by simp
      next
        case False
        then have "subseq zs b" using 3 Cons \<open>z = x\<close> by (simp add: subseq_Cons2_neq)
        then have "length zs \<le> lcs (x # a) b" using 3 False by blast
        then show ?thesis using False by simp
      qed
    next
      case F: False
      then have a: "subseq zs a" using 3 Cons by (simp add: subseq_Cons2_neq)
      show ?thesis
      proof (cases "x = y")
        case True
        then have "subseq zs b" using 3 Cons F by (simp add: subseq_Cons2_neq)
        with a 3 True have "length zs \<le> lcs a b" by blast
        then show ?thesis using True by simp
      next
        case False
        with a 3 have "length zs \<le> lcs a (y # b)" by blast
        then show ?thesis using False by simp
      qed
    qed
  qed simp
qed auto

section \<open>The table\<close>

lemma length_dp_row [simp]: "length (dp_row x b below) = length b + 1"
  by (induction x b below rule: dp_row.induct) (auto simp: Let_def)

lemma length_dp_table [simp]: "length (dp_table a b) = length a + 1"
  by (induction a) (auto simp: Let_def)

text \<open>The suffixes of a list, longest first, down to the empty one.\<close>

primrec tails :: "string list \<Rightarrow> string list list" where
  "tails [] = [[]]"
| "tails (y # b) = (y # b) # tails b"

lemma hd_tails [simp]: "hd (tails b) = b" "tails b \<noteq> []"
  by (cases b; simp)+

lemma length_tails [simp]: "length (tails b) = length b + 1"
  by (induction b) auto

lemma tails_nth: "j \<le> length b \<Longrightarrow> tails b ! j = drop j b"
  by (induction b arbitrary: j) (auto simp: nth_Cons split: nat.split)

lemma map_lcs_Nil: "map (lcs []) (tails b) = replicate (length b + 1) 0"
  by (induction b) auto

lemma dp_row_eq: "dp_row x b (map (lcs a) (tails b)) = map (lcs (x # a)) (tails b)"
  by (induction b) (auto simp: Let_def hd_map)

lemma dp_table_eq: "dp_table a b = map (\<lambda>a'. map (lcs a') (tails b)) (tails a)"
  by (induction a) (auto simp: Let_def hd_map dp_row_eq map_lcs_Nil)

lemma dp_table_nth:
  "i \<le> length a \<Longrightarrow> j \<le> length b \<Longrightarrow> dp_table a b ! i ! j = lcs (drop i a) (drop j b)"
  by (simp add: dp_table_eq tails_nth del: upt_Suc)

section \<open>The walk\<close>

text \<open>The old and the new lines of a list of operations, and the lines both have.\<close>

definition old_lines :: "op list \<Rightarrow> string list" where
  "old_lines ps = concat (map (\<lambda>p. case p of Context l \<Rightarrow> [l] | Del l \<Rightarrow> [l] | Add l \<Rightarrow> []) ps)"

definition new_lines :: "op list \<Rightarrow> string list" where
  "new_lines ps = concat (map (\<lambda>p. case p of Context l \<Rightarrow> [l] | Add l \<Rightarrow> [l] | Del l \<Rightarrow> []) ps)"

definition common_lines :: "op list \<Rightarrow> string list" where
  "common_lines ps = concat (map (\<lambda>p. case p of Context l \<Rightarrow> [l] | _ \<Rightarrow> []) ps)"

lemmas lines_defs = old_lines_def new_lines_def common_lines_def

lemma lines_rest [simp]:
  "old_lines (map Del a @ map Add b) = a" "new_lines (map Del a @ map Add b) = b" "common_lines (map Del a @ map Add b) = []"
  by (induction a; induction b; simp add: lines_defs)+

lemma lines_Cons [simp]:
  "old_lines (Context l # ps) = l # old_lines ps" "old_lines (Del l # ps) = l # old_lines ps" "old_lines (Add l # ps) = old_lines ps"
  "new_lines (Context l # ps) = l # new_lines ps" "new_lines (Add l # ps) = l # new_lines ps" "new_lines (Del l # ps) = new_lines ps"
  "common_lines (Context l # ps) = l # common_lines ps" "common_lines (Add l # ps) = common_lines ps" "common_lines (Del l # ps) = common_lines ps"
  by (simp_all add: lines_defs)

lemma common_subseq: "subseq (common_lines ps) (old_lines ps) \<and> subseq (common_lines ps) (new_lines ps)"
proof (induction ps)
  case (Cons p ps)
  then show ?case by (cases p) auto
qed (simp add: lines_defs)

lemma lcs_walk_exact:
  assumes "dp = dp_table a b" and "i \<le> length a" and "j \<le> length b"
  shows "old_lines (lcs_walk dp a b i j) = drop i a \<and> new_lines (lcs_walk dp a b i j) = drop j b
    \<and> length (common_lines (lcs_walk dp a b i j)) = lcs (drop i a) (drop j b)"
  using assms
proof (induction dp a b i j rule: lcs_walk.induct)
  case (1 dp a b i j)
  show ?case
  proof (cases "i < length a \<and> j < length b")
    case True
    then have d: "drop i a = a ! i # drop (Suc i) a" "drop j b = b ! j # drop (Suc j) b"
      by (simp_all add: Cons_nth_drop_Suc)
    have n: "dp ! i ! Suc j = lcs (drop i a) (drop (Suc j) b)" "dp ! Suc i ! j = lcs (drop (Suc i) a) (drop j b)"
      using True by (simp_all add: "1.prems"(1) dp_table_nth)
    show ?thesis using 1 True n by (subst (1 2 3) lcs_walk.simps) (auto simp: d max_def simp del: drop_Suc)
  next
    case False
    then have "drop i a = [] \<or> drop j b = []" by auto
    then show ?thesis using False by (subst (1 2 3) lcs_walk.simps) auto
  qed
qed

text \<open>The added and deleted lines of a list of operations.\<close>

definition edits :: "op list \<Rightarrow> nat" where
  "edits ps = length (filter (\<lambda>p. case p of Context _ \<Rightarrow> False | _ \<Rightarrow> True) ps)"

lemma edits_count: "edits ps + 2 * length (common_lines ps) = length (old_lines ps) + length (new_lines ps)"
proof (induction ps)
  case (Cons p ps)
  then show ?case by (cases p) (auto simp: edits_def)
qed (simp add: edits_def lines_defs)

lemma lcsDiff_exact:
  "old_lines (lcsDiff a b) = a" "new_lines (lcsDiff a b) = b" "length (common_lines (lcsDiff a b)) = lcs a b"
  using lcs_walk_exact [of "dp_table a b" a b 0 0] by (simp_all add: lcsDiff_def)

section \<open>Reading a diff back\<close>

text \<open>The operation a printed line stands for, and the two texts a diff describes.\<close>

definition op_of_line :: "string \<Rightarrow> op" where
  "op_of_line l = (case l of [] \<Rightarrow> Context [] | c # t \<Rightarrow> if c = CHR ''+'' then Add t else if c = CHR ''-'' then Del t else Context t)"

definition read_diff :: "string \<Rightarrow> string \<times> string" where
  "read_diff t = (let ps = map op_of_line (drop 2 (split_on newline t)) in
     (join [newline] (old_lines ps), join [newline] (new_lines ps)))"

lemma op_of_line_line [simp]: "op_of_line (op_line p) = p"
  by (cases p) (simp_all add: op_of_line_def op_line_def)

lemma split_on_lines: "l \<in> set (split_on c s) \<Longrightarrow> c \<notin> set l"
proof (induction s arbitrary: l)
  case (Cons x s)
  then show ?case by (cases "split_on c s") (auto split: if_splits)
qed simp

lemma set_op_lines:
  "p \<in> set ps \<Longrightarrow> \<exists>c l. op_line p = c # l \<and> c \<noteq> newline \<and> (l \<in> set (old_lines ps) \<or> l \<in> set (new_lines ps))"
  by (cases p) (force simp: op_line_def lines_defs newline_def)+

lemma op_lines_newline:
  assumes "p \<in> set (lcsDiff (split_on newline s) (split_on newline t))"
  shows "newline \<notin> set (op_line p)"
  using set_op_lines [OF assms] split_on_lines by (fastforce simp: lcsDiff_exact)

section \<open>Properties\<close>

text \<open>
  The diff of two lists of lines is a shortest edit script: it turns the old lines into the new
  ones, and no script of kept, added and deleted lines that does has fewer edits.
\<close>

theorem diff_is_shortest:
  "old_lines (lcsDiff a b) = a \<and> new_lines (lcsDiff a b) = b
   \<and> (\<forall>ps. old_lines ps = a \<and> new_lines ps = b \<longrightarrow> edits (lcsDiff a b) \<le> edits ps)"
proof -
  have "edits (lcsDiff a b) \<le> edits ps" if "old_lines ps = a" "new_lines ps = b" for ps
  proof -
    have "length (common_lines ps) \<le> lcs a b" using common_subseq [of ps] that lcs_upper by simp
    then show ?thesis using edits_count [of ps] edits_count [of "lcsDiff a b"] that by (simp add: lcsDiff_exact)
  qed
  then show ?thesis by (simp add: lcsDiff_exact)
qed

theorem diff_is_shortest_witness:
  "edits (lcsDiff [''a'', ''b'', ''c''] [''b'', ''d'', ''c'']) \<le> edits [Del ''a'', Del ''b'', Del ''c'', Add ''b'', Add ''d'', Add ''c'']"
  using diff_is_shortest [of "[''a'', ''b'', ''c'']" "[''b'', ''d'', ''c'']"] by (auto simp: lines_defs)

text \<open>
  The printed diff loses nothing: it is empty exactly when the texts are equal, and otherwise
  both texts can be read back from it, whatever they contain, as long as the names in its header
  are one line each.
\<close>

theorem unified_diff_roundtrip:
  assumes "newline \<notin> set oldName" and "newline \<notin> set newName"
  shows "if oldText = newText then unifiedDiff oldText newText oldName newName = []
    else unifiedDiff oldText newText oldName newName \<noteq> []
      \<and> read_diff (unifiedDiff oldText newText oldName newName) = (oldText, newText)"
proof (cases "oldText = newText")
  case False
  let ?ps = "lcsDiff (split_on newline oldText) (split_on newline newText)"
  let ?ls = "[''--- '' @ oldName, ''+++ '' @ newName] @ map op_line ?ps"
  have "\<forall>l\<in>set ?ls. newline \<notin> set l" using assms op_lines_newline by (auto simp: newline_def)
  then have s: "split_on newline (join [newline] ?ls) = ?ls" by (intro split_on_join) simp_all
  have u: "unifiedDiff oldText newText oldName newName = join [newline] ?ls" using False by (simp add: unifiedDiff_def)
  have "read_diff (join [newline] ?ls) = (oldText, newText)"
    by (simp only: read_diff_def s Let_def) (simp add: comp_def lcsDiff_exact join_split_on)
  moreover have "join [newline] ?ls \<noteq> []" using s by (metis append_Cons split_on.simps(1) list.inject list.distinct(1))
  ultimately show ?thesis using False u by simp
qed (simp add: unifiedDiff_def)

theorem unified_diff_roundtrip_witness:
  "read_diff (unifiedDiff ''a-b'' ''a+b'' ''committed'' ''generated'') = (''a-b'', ''a+b'')"
  using unified_diff_roundtrip [of "''committed''" "''generated''" "''a-b''" "''a+b''"] by (simp add: newline_def)

end
