(* ===== verification/Codegen.thy ===== *)
theory Codegen
  imports Extract Diff
begin

text \<open>
  The pipeline of \<open>actctl codegen\<close>: the emitter (\<open>src/codegen/emit.ts\<close>), the cache (\<open>cache.ts\<close>) and
  the driver (\<open>run.ts\<close>). A file system maps paths, as lists of their components, to texts; a
  directory exists when a file is below it. The parser, the transpiler, the digest and
  \<open>JSON.parse\<close> are arguments.
\<close>

section \<open>Text\<close>

definition unlines :: "string list \<Rightarrow> string" where
  "unlines ls = join [newline] ls"

text \<open>\<open>JSON.stringify(v, null, 2)\<close> on an object whose values are printed already.\<close>

definition json_pretty :: "string \<Rightarrow> (string \<times> string) list \<Rightarrow> string" where
  "json_pretty ind ps = (
     if ps = [] then ''{}''
     else [CHR 0x7B, newline]
        @ join [CHR '','', newline] (map (\<lambda>(k, v). ind @ ''  '' @ json_quote k @ '': '' @ v) ps)
        @ newline # ind @ [CHR 0x7D])"

definition json_string_map :: "string \<Rightarrow> (string, string) jsmap \<Rightarrow> string" where
  "json_string_map ind m = json_pretty ind (map (\<lambda>k. (k, json_quote (the (map_get m k)))) (own_keys m))"

section \<open>The declarations\<close>

definition dts_header :: string where
  "dts_header = ''// This file is generated by `actctl codegen`. Do not edit by hand.'' @ [newline]
     @ ''// Re-run codegen after publishing a new class version.'' @ [newline]"

definition handler_line :: "extracted_class \<Rightarrow> extracted_handler \<Rightarrow> string" where
  "handler_line c h = ''  '' @ eh_name h @ ''(args: '' @ eh_argsType h @ ''): Promise<''
     @ (if eh_esEventReturn h then ec_name c @ ''Event[]'' else eh_returnType h) @ ''>;''"

definition event_line :: "extracted_class \<Rightarrow> string" where
  "event_line c = (if ec_eventSourced c then ''export type '' @ ec_name c @ ''Event = '' @ ec_eventType c @ '';'' @ [newline] else [])"

definition blockForClass :: "extracted_class \<Rightarrow> string" where
  "blockForClass c = (
     let headerLine = ''// '' @ ec_name c @ ''@'' @ ec_version c @ '' (sha256: '' @ take 12 (ec_sha c) @ ellipsis @ '')'';
         stateLine = ''export type '' @ ec_name c @ ''State = '' @ ec_stateType c @ '';'';
         handlerLines = (if ec_handlers c = [] then [''  // (no @handler methods declared)'']
                         else map (handler_line c) (ec_handlers c));
         handlerBlock = ''export interface '' @ ec_name c @ ''Handlers {'' @ newline # unlines handlerLines @ newline # [CHR 0x7D]
     in headerLine @ newline # stateLine @ newline # event_line c @ handlerBlock @ [newline])"

definition umbrella_lines :: "extracted_class \<Rightarrow> string list" where
  "umbrella_lines c =
     [''  '' @ ec_name c @ '': {'', ''    state: '' @ ec_name c @ ''State;'',
      ''    event: '' @ (if ec_eventSourced c then ec_name c @ ''Event'' else ''never'') @ '';'',
      ''    handlers: '' @ ec_name c @ ''Handlers;'',
      ''    eventSourced: '' @ (if ec_eventSourced c then ''true'' else ''false'') @ '';'', ''  };'']"

definition umbrellaBlock :: "extracted_class list \<Rightarrow> string" where
  "umbrellaBlock cs = unlines ([''export interface Classes {''] @ concat (map umbrella_lines cs)
     @ [[CHR 0x7D], [], ''export type ClassName = keyof Classes;'']) @ [newline]"

definition emitDts :: "extracted_class list \<Rightarrow> string \<Rightarrow> string" where
  "emitDts cs sha = unlines ([dts_header, ''/* eslint-disable */'' @ [newline],
       ''export const MANIFEST_SHA = '' @ [CHR 0x27] @ sha @ [CHR 0x27] @ '' as const;'' @ [newline]]
     @ map blockForClass cs @ [umbrellaBlock cs])"

section \<open>The manifest\<close>

definition emitManifestJson :: "extracted_class list \<Rightarrow> string \<Rightarrow> string" where
  "emitManifestJson cs sha = (
     let resolved = foldl obj_assign [] (map (\<lambda>c. (ec_name c, ec_version c)) cs);
         sources = foldl obj_assign [] (map (\<lambda>c. (ec_name c, ec_sha c)) cs)
     in json_pretty [] [(''sha256'', json_quote sha), (''resolved'', json_string_map ''  '' resolved), (''sources'', json_string_map ''  '' sources)])"

section \<open>The reducers\<close>

definition skip_space :: "string \<Rightarrow> string" where
  "skip_space s = dropWhile js_space s"

definition after :: "string \<Rightarrow> string \<Rightarrow> string option" where
  "after p s = (if starts_with p s then Some (drop (length p) s) else None)"

text \<open>\<open>\s*(?:export\s*\{\s*\};?)?\s*$\<close>.\<close>

definition only_export :: "string \<Rightarrow> bool" where
  "only_export s = (case skip_space s of [] \<Rightarrow> True | t \<Rightarrow>
     (case after ''export'' t of None \<Rightarrow> False | Some t1 \<Rightarrow>
       (case after [CHR 0x7B] (skip_space t1) of None \<Rightarrow> False | Some t2 \<Rightarrow>
         (case after [CHR 0x7D] (skip_space t2) of None \<Rightarrow> False | Some t3 \<Rightarrow>
           skip_space (case after '';'' t3 of Some t4 \<Rightarrow> t4 | None \<Rightarrow> t3) = []))))"

text \<open>The shortest non-empty text before a semicolon with nothing but an export behind it.\<close>

fun capture :: "string \<Rightarrow> string \<Rightarrow> string option" where
  "capture acc [] = None"
| "capture acc (c # s) = (if acc \<noteq> [] \<and> c = CHR '';'' \<and> only_export s then Some (rev acc) else capture (c # acc) s)"

definition reduce_at :: "string \<Rightarrow> string option" where
  "reduce_at s = (case after ''const'' s of None \<Rightarrow> None | Some t1 \<Rightarrow>
     if skip_space t1 = t1 then None
     else (case after ''__reduce__'' (skip_space t1) of None \<Rightarrow> None | Some t2 \<Rightarrow>
       (case after ''='' (skip_space t2) of None \<Rightarrow> None | Some t3 \<Rightarrow>
         (case capture [] (skip_space t3) of Some r \<Rightarrow> Some r | None \<Rightarrow> capture [] t3))))"

fun match_reduce :: "string \<Rightarrow> string option" where
  "match_reduce [] = None"
| "match_reduce (c # s) = (case reduce_at (c # s) of Some r \<Rightarrow> Some r | None \<Rightarrow> match_reduce s)"

definition transpileReduceBody :: "(string \<Rightarrow> string) \<Rightarrow> string \<Rightarrow> string \<Rightarrow> string \<Rightarrow> string \<Rightarrow> error + string" where
  "transpileReduceBody transpile cn st ev body = (
     case match_reduce (trim (transpile (''const __reduce__ = ('' @ st @ '', '' @ ev @ '') => '' @ body @ '';''))) of
       None \<Rightarrow> Inl (PlainError (''failed to transpile reduce body for '' @ cn))
     | Some r \<Rightarrow> Inr (trim r))"

definition reducer_of :: "extracted_class \<Rightarrow> (string \<times> string \<times> string) option" where
  "reducer_of c = (if ec_eventSourced c then
     (case (ec_reduceBody c, ec_reduceParams c) of (Some b, Some (st, ev)) \<Rightarrow> if b = [] then None else Some (st, ev, b) | _ \<Rightarrow> None)
     else None)"

fun reducer_lines :: "(string \<Rightarrow> string) \<Rightarrow> extracted_class list \<Rightarrow> error + string list" where
  "reducer_lines transpile [] = Inr []"
| "reducer_lines transpile (c # cs) = (case reducer_of c of
      None \<Rightarrow> reducer_lines transpile cs
    | Some (st, ev, b) \<Rightarrow> (case transpileReduceBody transpile (ec_name c) st ev b of
        Inl e \<Rightarrow> Inl e
      | Inr js \<Rightarrow> (case reducer_lines transpile cs of Inl e \<Rightarrow> Inl e
          | Inr ls \<Rightarrow> Inr ((''  '' @ ec_name c @ '': '' @ js @ '','') # ls))))"

definition emitRuntimeJs :: "(string \<Rightarrow> string) \<Rightarrow> extracted_class list \<Rightarrow> error + string" where
  "emitRuntimeJs transpile cs = (case reducer_lines transpile cs of
      Inl e \<Rightarrow> Inl e
    | Inr ls \<Rightarrow> Inr (unlines (
        [''// This file is generated by `actctl codegen`. Do not edit by hand.'',
         ''// ES reducer runtime '' @ em_dash @ '' kept byte-identical to the server'' @ [CHR 0x27] @ ''s reduce().'', [],
         ''export const reducers = Object.freeze({''] @ ls @
        [''});'', [], ''export function applyEvent(className, state, event) {'', ''  const r = reducers[className];'',
         ''  if (!r) throw new Error(`no reducer for ${className}`);'', ''  return r(state, event);'', [CHR 0x7D], []])))"

section \<open>The output\<close>

record codegen_output =
  co_dts :: string
  co_manifestJson :: string
  co_runtimeJs :: string
  co_manifestSha :: string
  co_perClassSha :: "(string, string) jsmap"

definition emit :: "(string \<Rightarrow> string) \<Rightarrow> (string \<Rightarrow> string) \<Rightarrow> extracted_class list \<Rightarrow> error + codegen_output" where
  "emit sha transpile classes = (
     let cs = sort_key ec_name classes;
         manifestSha = manifestSha256 sha (manifestFromEntries (map (\<lambda>c. (ec_name c, ec_version c)) cs))
     in case emitRuntimeJs transpile cs of
          Inl e \<Rightarrow> Inl e
        | Inr js \<Rightarrow> Inr \<lparr> co_dts = emitDts cs manifestSha, co_manifestJson = emitManifestJson cs manifestSha, co_runtimeJs = js,
            co_manifestSha = manifestSha, co_perClassSha = foldl (\<lambda>m c. map_set (ec_name c) (ec_sha c) m) [] cs \<rparr>)"

section \<open>The file system and the cache\<close>

type_synonym path = "string list"
type_synonym file_system = "(path, string) jsmap"

definition show_path :: "path \<Rightarrow> string" where
  "show_path p = join ''/'' p"

definition dir_exists :: "path \<Rightarrow> file_system \<Rightarrow> bool" where
  "dir_exists d fs \<longleftrightarrow> list_ex (\<lambda>(p, t). take (length d) p = d \<and> length d < length p) fs"

text \<open>The environment of a run: parser, digest, transpiler and \<open>JSON.parse\<close>.\<close>

record run_env =
  re_parse :: "string \<Rightarrow> string \<Rightarrow> stmt list"
  re_sha :: "string \<Rightarrow> string"
  re_transpile :: "string \<Rightarrow> string"
  re_json :: "string \<Rightarrow> jsval option"

record cache_state =
  ca_manifestSha :: jsval
  ca_classes :: jsval

definition cache_file :: "path \<Rightarrow> path" where
  "cache_file rdir = rdir @ [''.actctl'', ''last-sha.json'']"

definition cache_read :: "(string \<Rightarrow> jsval option) \<Rightarrow> path \<Rightarrow> file_system \<Rightarrow> cache_state option" where
  "cache_read json rdir fs = (case map_get fs (cache_file rdir) of
      None \<Rightarrow> None
    | Some t \<Rightarrow> (case json t of
        None \<Rightarrow> None
      | Some v \<Rightarrow> if js_prop v ''schemaVersion'' \<noteq> JNum 1 then None
                  else Some \<lparr> ca_manifestSha = js_prop v ''manifestSha'', ca_classes = js_prop v ''classes'' \<rparr>))"

definition cache_json :: "string \<Rightarrow> (string, string) jsmap \<Rightarrow> jsval" where
  "cache_json sha classes = JObj [(''manifestSha'', JStr sha), (''classes'', JObj (map (\<lambda>k. (k, JStr (the (map_get classes k)))) (own_keys classes))),
     (''schemaVersion'', JNum 1)]"

definition cache_text :: "string \<Rightarrow> (string, string) jsmap \<Rightarrow> string" where
  "cache_text sha classes = json_pretty [] [(''manifestSha'', json_quote sha), (''classes'', json_string_map ''  '' classes), (''schemaVersion'', ''1'')]"

definition cache_write :: "path \<Rightarrow> string \<Rightarrow> (string, string) jsmap \<Rightarrow> file_system \<Rightarrow> file_system" where
  "cache_write rdir sha classes fs = map_set (cache_file rdir) (cache_text sha classes) fs"

text \<open>The lines of a text as a multi-line regular expression sees them.\<close>

definition text_lines :: "string \<Rightarrow> string list" where
  "text_lines t = concat (map (split_on (CHR 0x0D)) (split_on newline t))"

text \<open>A new cache directory is added to a \<open>.gitignore\<close> beside it.\<close>

definition ensureCacheDir :: "path \<Rightarrow> file_system \<Rightarrow> file_system" where
  "ensureCacheDir rdir fs = (
     if dir_exists (rdir @ [''.actctl'']) fs then fs
     else (case map_get fs (rdir @ [''.gitignore'']) of
        None \<Rightarrow> fs
      | Some t \<Rightarrow> if ''.actctl/'' \<in> set (text_lines t) then fs
                  else map_set (rdir @ [''.gitignore'']) ((if ends_with [newline] t then t else t @ [newline]) @ ''.actctl/'' @ [newline]) fs))"

section \<open>The driver\<close>

definition hashInputs :: "(string \<Rightarrow> string) \<Rightarrow> codegen_input list \<Rightarrow> (string, string) jsmap" where
  "hashInputs sha inputs = foldl obj_assign [] (map (\<lambda>i. (ci_className i, sha (ci_source i))) inputs)"

definition outputs :: "codegen_output \<Rightarrow> (string \<times> string) list" where
  "outputs r = [(''index.d.ts'', co_dts r), (''manifest.json'', co_manifestJson r @ [newline]), (''index.runtime.js'', co_runtimeJs r)]"

definition writeOutputs :: "path \<Rightarrow> codegen_output \<Rightarrow> file_system \<Rightarrow> file_system" where
  "writeOutputs out r fs = foldl (\<lambda>fs (n, t). map_set (out @ [n]) t fs) fs (outputs r)"

definition outputFilesExist :: "path \<Rightarrow> file_system \<Rightarrow> bool" where
  "outputFilesExist out fs \<longleftrightarrow> map_has fs (out @ [''index.d.ts'']) \<and> map_has fs (out @ [''manifest.json''])
     \<and> map_has fs (out @ [''index.runtime.js''])"

definition readIfExists :: "path \<Rightarrow> file_system \<Rightarrow> string" where
  "readIfExists p fs = (case map_get fs p of Some t \<Rightarrow> t | None \<Rightarrow> [])"

definition computeDrift :: "path \<Rightarrow> codegen_output \<Rightarrow> file_system \<Rightarrow> string option" where
  "computeDrift out r fs = (
     let diffs = concat (map (\<lambda>(n, t). let old = readIfExists (out @ [n]) fs in
           if old = t then [] else [unifiedDiff old t (''committed '' @ show_path (out @ [n])) ''generated'']) (outputs r))
     in if diffs = [] then None else Some (unlines diffs))"

text \<open>What \<open>Object.keys\<close> and an index see of a value; none where \<open>Object.keys\<close> throws.\<close>

definition js_entries :: "jsval \<Rightarrow> (string \<times> jsval) list option" where
  "js_entries v = (case v of
      JUndefined \<Rightarrow> None | JNull \<Rightarrow> None | JBool _ \<Rightarrow> Some [] | JNum _ \<Rightarrow> Some []
    | JStr s \<Rightarrow> Some (zip (map show_nat [0..<length s]) (map (\<lambda>c. JStr [c]) s))
    | JArr vs \<Rightarrow> Some (zip (map show_nat [0..<length vs]) vs)
    | JObj ps \<Rightarrow> Some ps)"

definition shallowEqual :: "jsval \<Rightarrow> (string, string) jsmap \<Rightarrow> error + bool" where
  "shallowEqual a b = (case js_entries a of
      None \<Rightarrow> Inl (TypeError ''Cannot convert undefined or null to object'')
    | Some ps \<Rightarrow> Inr (length ps = length b \<and> list_all (\<lambda>(k, v). map_option JStr (map_get b k) = Some v) ps))"

datatype run_status = Wrote | Skipped | CheckClean | CheckDrift

record run_result =
  rn_status :: run_status
  rn_manifestSha :: jsval
  rn_classes :: "extracted_class list"
  rn_diff :: "string option"
  rn_warnings :: "string list"

text \<open>The fast path: the result of a skipped run, or none.\<close>

definition fast_path :: "run_env \<Rightarrow> path \<Rightarrow> path \<Rightarrow> codegen_input list \<Rightarrow> file_system \<Rightarrow> error + run_result option" where
  "fast_path en out rdir inputs fs = (case cache_read (re_json en) rdir fs of
      None \<Rightarrow> Inr None
    | Some ca \<Rightarrow> (case shallowEqual (ca_classes ca) (hashInputs (re_sha en) inputs) of
        Inl e \<Rightarrow> Inl e
      | Inr eq \<Rightarrow> Inr (if eq \<and> outputFilesExist out fs
          then Some \<lparr> rn_status = Skipped, rn_manifestSha = ca_manifestSha ca, rn_classes = [], rn_diff = None, rn_warnings = [] \<rparr>
          else None)))"

text \<open>The rest of a run, once the sources are loaded and the fast path is not taken.\<close>

definition full_run :: "run_env \<Rightarrow> path \<Rightarrow> path \<Rightarrow> bool \<Rightarrow> codegen_input list \<Rightarrow> file_system \<Rightarrow> (error + run_result) \<times> file_system" where
  "full_run en out rdir check inputs fs = (
     let classes = map (extractClass (re_parse en) (re_sha en)) inputs in
     case emit (re_sha en) (re_transpile en) classes of
       Inl e \<Rightarrow> (Inl e, fs)
     | Inr r \<Rightarrow>
        let warnings = concat (map (\<lambda>c. map (\<lambda>w. ec_name c @ '': '' @ w) (ec_warnings c)) classes);
            result = \<lparr> rn_status = Wrote, rn_manifestSha = JStr (co_manifestSha r), rn_classes = classes, rn_diff = None, rn_warnings = warnings \<rparr>
        in if check then (case computeDrift out r fs of
             None \<Rightarrow> (Inr (result \<lparr> rn_status := CheckClean \<rparr>), fs)
           | Some d \<Rightarrow> (Inr (result \<lparr> rn_status := CheckDrift, rn_diff := Some d \<rparr>), fs))
           else (Inr result, cache_write rdir (co_manifestSha r) (co_perClassSha r) (ensureCacheDir rdir (writeOutputs out r fs))))"

definition run_codegen ::
  "run_env \<Rightarrow> path \<Rightarrow> path option \<Rightarrow> bool \<Rightarrow> bool \<Rightarrow> error + codegen_input list \<Rightarrow> file_system \<Rightarrow> (error + run_result) \<times> file_system" where
  "run_codegen en out rootDir force check loaded fs = (case loaded of
      Inl e \<Rightarrow> (Inl e, fs)
    | Inr inputs \<Rightarrow>
       let rdir = (case rootDir of Some r \<Rightarrow> r | None \<Rightarrow> out) in
       if check \<or> force then full_run en out rdir check inputs fs
       else (case fast_path en out rdir inputs fs of
          Inl e \<Rightarrow> (Inl e, fs)
        | Inr (Some res) \<Rightarrow> (Inr res, fs)
        | Inr None \<Rightarrow> full_run en out rdir check inputs fs))"

section \<open>Lemmas\<close>

lemma map_get_writeOutputs [simp]: "n \<notin> fst ` set (outputs r) \<Longrightarrow> map_get (writeOutputs out r fs) (d @ [n]) = map_get fs (d @ [n])"
  by (auto simp: writeOutputs_def outputs_def)

lemma map_get_outputs: "(n, t) \<in> set (outputs r) \<Longrightarrow> map_get (writeOutputs out r fs) (out @ [n]) = Some t"
  by (auto simp: writeOutputs_def outputs_def)

lemma map_get_ensureCacheDir [simp]: "n \<noteq> ''.gitignore'' \<Longrightarrow> map_get (ensureCacheDir rdir fs) (d @ [n]) = map_get fs (d @ [n])"
  by (auto simp: ensureCacheDir_def split: option.split)

lemma cache_file_snoc: "cache_file rdir = (rdir @ [''.actctl'']) @ [''last-sha.json'']"
  by (simp add: cache_file_def)

lemma map_get_cache_write [simp]:
  "n \<noteq> ''last-sha.json'' \<Longrightarrow> map_get (cache_write rdir sha m fs) (d @ [n]) = map_get fs (d @ [n])"
  "map_get (cache_write rdir sha m fs) (cache_file rdir) = Some (cache_text sha m)"
  by (simp_all add: cache_write_def cache_file_snoc del: append_assoc)

text \<open>What a run that writes leaves behind, whatever was there before.\<close>

definition written :: "path \<Rightarrow> path \<Rightarrow> codegen_output \<Rightarrow> file_system \<Rightarrow> bool" where
  "written out rdir r fs \<longleftrightarrow> list_all (\<lambda>(n, t). map_get fs (out @ [n]) = Some t) (outputs r)
     \<and> map_get fs (cache_file rdir) = Some (cache_text (co_manifestSha r) (co_perClassSha r))"

lemma written_after: "written out rdir r (cache_write rdir (co_manifestSha r) (co_perClassSha r) (ensureCacheDir rdir (writeOutputs out r fs)))"
  by (simp add: written_def outputs_def) (simp add: writeOutputs_def outputs_def)

lemma full_run_Wrote:
  assumes "full_run en out rdir check inputs fs = (Inr res, fs')" and "rn_status res = Wrote"
  shows "\<exists>r. emit (re_sha en) (re_transpile en) (map (extractClass (re_parse en) (re_sha en)) inputs) = Inr r
    \<and> written out rdir r fs' \<and> rn_manifestSha res = JStr (co_manifestSha r)
    \<and> rn_classes res = map (extractClass (re_parse en) (re_sha en)) inputs"
  using assms written_after by (auto simp: full_run_def Let_def split: sum.splits if_splits option.splits)

lemma run_Wrote:
  assumes "run_codegen en out rd force check (Inr inputs) fs = (Inr res, fs')" and "rn_status res = Wrote"
  shows "\<exists>r. emit (re_sha en) (re_transpile en) (map (extractClass (re_parse en) (re_sha en)) inputs) = Inr r
    \<and> written out (case rd of Some d \<Rightarrow> d | None \<Rightarrow> out) r fs' \<and> rn_manifestSha res = JStr (co_manifestSha r)
    \<and> rn_classes res = map (extractClass (re_parse en) (re_sha en)) inputs"
proof -
  let ?d = "case rd of Some d \<Rightarrow> d | None \<Rightarrow> out"
  have "full_run en out ?d check inputs fs = (Inr res, fs')"
    using assms by (auto simp: run_codegen_def fast_path_def Let_def split: if_splits sum.splits option.splits)
  then show ?thesis using assms(2) by (rule full_run_Wrote)
qed

lemma check_written:
  assumes "emit (re_sha en) (re_transpile en) (map (extractClass (re_parse en) (re_sha en)) inputs) = Inr r" and "written out d r fs"
  shows "\<exists>res. full_run en out rdir True inputs fs = (Inr res, fs) \<and> rn_status res = CheckClean \<and> rn_manifestSha res = JStr (co_manifestSha r)"
proof -
  have "computeDrift out r fs = None"
    using assms(2) by (simp add: computeDrift_def Let_def written_def readIfExists_def outputs_def)
  then show ?thesis using assms(1) by (simp add: full_run_def Let_def)
qed

text \<open>The digests written to the cache and those of the next run, when every class has one name.\<close>

lemma foldl_set_distinct:
  "distinct (map f xs) \<Longrightarrow> \<forall>x\<in>set xs. map_get m (f x) = None \<Longrightarrow> foldl (\<lambda>m x. map_set (f x) (g x) m) m xs = m @ map (\<lambda>x. (f x, g x)) xs"
proof (induction xs arbitrary: m)
  case (Cons x xs)
  have "map_set (f x) (g x) m = m @ [(f x, g x)]" using Cons.prems by (simp add: map_set_fresh)
  moreover have "map_get (m @ [(f x, g x)]) (f y) = None" if "y \<in> set xs" for y
  proof -
    from Cons.prems(1) have "f x \<notin> f ` set xs" by simp
    with that have "f y \<noteq> f x" by (metis imageI)
    with that Cons.prems(2) show ?thesis by (simp add: map_add_def)
  qed
  ultimately show ?case using Cons by simp
qed simp

lemma hashInputs_distinct:
  assumes "distinct (map ci_className inputs)" and "''__proto__'' \<notin> ci_className ` set inputs"
  shows "hashInputs sha inputs = map (\<lambda>i. (ci_className i, sha (ci_source i))) inputs"
proof -
  have "map_wf ([] @ map (\<lambda>i. (ci_className i, sha (ci_source i))) inputs)" using assms(1) by (simp add: map_wf_def comp_def)
  then have "hashInputs sha inputs = filter (\<lambda>p. fst p \<noteq> ''__proto__'') (map (\<lambda>i. (ci_className i, sha (ci_source i))) inputs)"
    unfolding hashInputs_def by (subst foldl_obj_assign) simp_all
  moreover have "filter (\<lambda>p. fst p \<noteq> ''__proto__'') (map (\<lambda>i. (ci_className i, sha (ci_source i))) inputs) = map (\<lambda>i. (ci_className i, sha (ci_source i))) inputs"
    using assms(2) by (intro filter_True) force
  ultimately show ?thesis by simp
qed

lemma emit_fields:
  assumes "emit sha transpile classes = Inr r"
  shows "co_manifestSha r = manifestSha256 sha (manifestFromEntries (map (\<lambda>c. (ec_name c, ec_version c)) (sort_key ec_name classes)))"
    and "distinct (map ec_name classes) \<Longrightarrow> co_perClassSha r = map (\<lambda>c. (ec_name c, ec_sha c)) (sort_key ec_name classes)"
proof -
  show "co_manifestSha r = manifestSha256 sha (manifestFromEntries (map (\<lambda>c. (ec_name c, ec_version c)) (sort_key ec_name classes)))"
    using assms by (auto simp: emit_def Let_def split: sum.splits)
  assume "distinct (map ec_name classes)"
  then have "distinct (map ec_name (sort_key ec_name classes))" by (metis mset_map mset_sort mset_eq_imp_distinct_iff)
  then have "foldl (\<lambda>m c. map_set (ec_name c) (ec_sha c) m) [] (sort_key ec_name classes) = map (\<lambda>c. (ec_name c, ec_sha c)) (sort_key ec_name classes)"
    using foldl_set_distinct [of ec_name "sort_key ec_name classes" "[]" ec_sha] by simp
  then show "co_perClassSha r = map (\<lambda>c. (ec_name c, ec_sha c)) (sort_key ec_name classes)"
    using assms by (auto simp: emit_def Let_def split: sum.splits)
qed

lemma shallowEqual_same:
  assumes "map_wf m" and "map_wf b" and "set m = set b"
  shows "shallowEqual (JObj (map (\<lambda>k. (k, JStr (the (map_get m k)))) (own_keys m))) b = Inr True"
proof -
  have "mset m = mset b" using assms by (metis map_wf_def distinct_map set_eq_iff_mset_eq_distinct)
  then have "length (own_keys m) = length b" by (metis mset_own_keys size_mset length_map mset_map)
  moreover have "map_get b k = Some (the (map_get m k))" if "k \<in> set (own_keys m)" for k
  proof -
    from that obtain v where "(k, v) \<in> set m" by (auto simp: set_own_keys)
    with assms have "map_get m k = Some v" "map_get b k = Some v" by (simp_all add: map_wf_get_iff)
    then show ?thesis by simp
  qed
  ultimately show ?thesis by (simp add: shallowEqual_def js_entries_def list_all_iff)
qed

text \<open>\<open>JSON.parse\<close> reads back the cache text that a run on these inputs writes.\<close>

definition parses_cache :: "run_env \<Rightarrow> codegen_input list \<Rightarrow> bool" where
  "parses_cache en inputs \<longleftrightarrow> (case emit (re_sha en) (re_transpile en) (map (extractClass (re_parse en) (re_sha en)) inputs) of
      Inl e \<Rightarrow> True
    | Inr r \<Rightarrow> re_json en (cache_text (co_manifestSha r) (co_perClassSha r)) = Some (cache_json (co_manifestSha r) (co_perClassSha r)))"

text \<open>After a run that wrote, any inputs with the same names and sources take the fast path.\<close>

lemma fast_path_written:
  assumes json: "parses_cache en inputs" and w: "written out rdir r fs"
    and e: "emit (re_sha en) (re_transpile en) (map (extractClass (re_parse en) (re_sha en)) inputs) = Inr r"
    and names: "distinct (map ci_className inputs)" "''__proto__'' \<notin> ci_className ` set inputs"
    and same: "map (\<lambda>i. (ci_className i, ci_source i)) inputs' = map (\<lambda>i. (ci_className i, ci_source i)) inputs"
  shows "fast_path en out rdir inputs' fs = Inr (Some \<lparr> rn_status = Skipped, rn_manifestSha = JStr (co_manifestSha r),
    rn_classes = [], rn_diff = None, rn_warnings = [] \<rparr>)"
proof -
  let ?cs = "map (extractClass (re_parse en) (re_sha en)) inputs"
  have n: "map ec_name ?cs = map ci_className inputs" by (simp add: comp_def)
  have names': "map ci_className inputs' = map ci_className inputs"
    using arg_cong [OF same, of "map fst"] by (simp add: comp_def)
  have p: "co_perClassSha r = map (\<lambda>c. (ec_name c, ec_sha c)) (sort_key ec_name ?cs)"
    using emit_fields(2) [OF e, unfolded n] names(1) by blast
  have h: "hashInputs (re_sha en) inputs' = map (\<lambda>(n, t). (n, re_sha en t)) (map (\<lambda>i. (ci_className i, ci_source i)) inputs')"
    using hashInputs_distinct [of inputs' "re_sha en"] names names' by (metis (no_types, lifting) comp_def list.set_map map_eq_conv map_map prod.case)
  then have h': "hashInputs (re_sha en) inputs' = map (\<lambda>i. (ci_className i, re_sha en (ci_source i))) inputs"
    unfolding same by simp
  have wfb: "map_wf (hashInputs (re_sha en) inputs')" using names(1) by (simp add: h' map_wf_def comp_def)
  have "map fst (co_perClassSha r) = map ec_name (sort_key ec_name ?cs)" by (simp add: p comp_def)
  then have wfm: "map_wf (co_perClassSha r)" unfolding map_wf_def using names(1) n by (metis mset_map mset_sort mset_eq_imp_distinct_iff)
  have "set (co_perClassSha r) = set (hashInputs (re_sha en) inputs')" by (force simp: p h')
  then have eq: "shallowEqual (JObj (map (\<lambda>k. (k, JStr (the (map_get (co_perClassSha r) k)))) (own_keys (co_perClassSha r)))) (hashInputs (re_sha en) inputs') = Inr True"
    by (rule shallowEqual_same [OF wfm wfb])
  have "outputFilesExist out fs" using w by (simp add: written_def outputFilesExist_def outputs_def)
  moreover have "cache_read (re_json en) rdir fs = Some \<lparr> ca_manifestSha = JStr (co_manifestSha r),
      ca_classes = JObj (map (\<lambda>k. (k, JStr (the (map_get (co_perClassSha r) k)))) (own_keys (co_perClassSha r))) \<rparr>"
    using w json e by (simp add: written_def cache_read_def parses_cache_def cache_json_def)
  ultimately show ?thesis using eq by (simp add: fast_path_def)
qed

lemma sort_key_perm:
  fixes f :: "'a \<Rightarrow> string"
  assumes "mset xs = mset ys" and "distinct (map f xs)"
  shows "sort_key f xs = sort_key f ys"
  using assms by (intro sort_key_inj_key_eq) (auto simp: distinct_map)

section \<open>Properties\<close>

text \<open>
  C37. A run that wrote is stable: checking the same sources against the files it left finds no
  drift and writes nothing, and running again skips with the manifest digest it recorded and
  leaves every file as it is.
\<close>

theorem codegen_rerun:
  assumes "run_codegen en out rd force False (Inr inputs) fs = (Inr res, fs')" and "rn_status res = Wrote"
    and "parses_cache en inputs" and "distinct (map ci_className inputs)" and "''__proto__'' \<notin> ci_className ` set inputs"
  shows "(\<exists>r1. run_codegen en out rd again True (Inr inputs) fs' = (Inr r1, fs') \<and> rn_status r1 = CheckClean
       \<and> rn_manifestSha r1 = rn_manifestSha res)
    \<and> (\<exists>r2. run_codegen en out rd False False (Inr inputs) fs' = (Inr r2, fs') \<and> rn_status r2 = Skipped
       \<and> rn_manifestSha r2 = rn_manifestSha res)"
proof -
  let ?d = "case rd of Some d \<Rightarrow> d | None \<Rightarrow> out"
  obtain r where e: "emit (re_sha en) (re_transpile en) (map (extractClass (re_parse en) (re_sha en)) inputs) = Inr r"
    and w: "written out ?d r fs'" and sha: "rn_manifestSha res = JStr (co_manifestSha r)"
    using run_Wrote [OF assms(1,2)] by blast
  show ?thesis
    using check_written [OF e w, of ?d] fast_path_written [OF assms(3) w e assms(4,5) refl] sha
    by (simp add: run_codegen_def Let_def)
qed

text \<open>
  The output does not depend on the order the sources are found in: with one source per class,
  two orders of the same inputs write the same files and name the same manifest.
\<close>

theorem codegen_order_free:
  assumes "mset inputs = mset inputs'" and "distinct (map ci_className inputs)"
  shows "emit (re_sha en) (re_transpile en) (map (extractClass (re_parse en) (re_sha en)) inputs)
      = emit (re_sha en) (re_transpile en) (map (extractClass (re_parse en) (re_sha en)) inputs')
    \<and> snd (run_codegen en out rd True False (Inr inputs) fs) = snd (run_codegen en out rd True False (Inr inputs') fs)"
proof -
  let ?x = "extractClass (re_parse en) (re_sha en)"
  have "sort_key ec_name (map ?x inputs) = sort_key ec_name (map ?x inputs')"
    using assms by (intro sort_key_perm) (simp_all add: comp_def)
  then have e: "emit (re_sha en) (re_transpile en) (map ?x inputs) = emit (re_sha en) (re_transpile en) (map ?x inputs')"
    by (simp add: emit_def)
  then show ?thesis by (simp add: run_codegen_def full_run_def Let_def split: sum.split)
qed

text \<open>
  The cache compares names and sources, not versions: when only the versions of the classes change,
  the run is skipped and the files keep the old manifest.
\<close>

theorem version_bump_skipped:
  assumes "run_codegen en out rd force False (Inr inputs) fs = (Inr res, fs')" and "rn_status res = Wrote"
    and "parses_cache en inputs" and "distinct (map ci_className inputs)" and "''__proto__'' \<notin> ci_className ` set inputs"
  shows "\<exists>r2. run_codegen en out rd False False (Inr (map (\<lambda>i. i \<lparr> ci_version := newer i \<rparr>) inputs)) fs' = (Inr r2, fs')
    \<and> rn_status r2 = Skipped \<and> rn_manifestSha r2 = rn_manifestSha res"
proof -
  let ?d = "case rd of Some d \<Rightarrow> d | None \<Rightarrow> out"
  obtain r where e: "emit (re_sha en) (re_transpile en) (map (extractClass (re_parse en) (re_sha en)) inputs) = Inr r"
    and w: "written out ?d r fs'" and sha: "rn_manifestSha res = JStr (co_manifestSha r)"
    using run_Wrote [OF assms(1,2)] by blast
  have "map (\<lambda>i. (ci_className i, ci_source i)) (map (\<lambda>i. i \<lparr> ci_version := newer i \<rparr>) inputs) = map (\<lambda>i. (ci_className i, ci_source i)) inputs"
    by (simp add: comp_def)
  from fast_path_written [OF assms(3) w e assms(4,5) this] sha show ?thesis
    by (simp add: run_codegen_def Let_def)
qed

text \<open>
  A handler of a class without events whose return type names an event array is emitted with the
  event type of the class, which the declarations do not declare.
\<close>

definition demo_agenda :: "stmt list" where
  "demo_agenda = [ClassStmt \<lparr> tc_heritage = Some \<lparr> th_text = ''actjs.Actor'', th_args = [''S''] \<rparr>,
     tc_members = [Method \<lparr> tm_name = IdentName ''list'', tm_decorators = [CallDecorator (IdentCallee ''handler'') []],
       tm_generic = False, tm_params = [], tm_return = Some ''Promise<CalendarEvent[]>'', tm_body = None \<rparr>] \<rparr>]"

theorem undeclared_event_type:
  "case extractClass (\<lambda>f t. demo_agenda) id \<lparr> ci_className = ''Agenda'', ci_version = ''1.0.0'', ci_source = [] \<rparr> of
     c \<Rightarrow> map (handler_line c) (ec_handlers c) = [''  list(args: unknown): Promise<AgendaEvent[]>;''] \<and> event_line c = []"
  by code_simp

definition demo_run_env :: run_env where
  "demo_run_env = \<lparr> re_parse = \<lambda>f t. demo_agenda, re_sha = take 4, re_transpile = id,
     re_json = \<lambda>t. Some (cache_json (take 4 (manifest_canonical [(''Agenda'', ''1.0.0'')])) [(''Agenda'', ''clas'')]) \<rparr>"

definition demo_inputs :: "codegen_input list" where
  "demo_inputs = [\<lparr> ci_className = ''Agenda'', ci_version = ''1.0.0'', ci_source = ''class Agenda'' \<rparr>]"

lemma demo_run:
  "\<exists>res fs'. run_codegen demo_run_env [''gen''] None False False (Inr demo_inputs) [] = (Inr res, fs') \<and> rn_status res = Wrote"
  "parses_cache demo_run_env demo_inputs" "distinct (map ci_className demo_inputs)" "''__proto__'' \<notin> ci_className ` set demo_inputs"
proof -
  show "\<exists>res fs'. run_codegen demo_run_env [''gen''] None False False (Inr demo_inputs) [] = (Inr res, fs') \<and> rn_status res = Wrote"
    by (simp add: run_codegen_def fast_path_def cache_read_def full_run_def Let_def emit_def emitRuntimeJs_def demo_inputs_def demo_run_env_def
        reducer_of_def extractClass_def demo_agenda_def findFirstClassDeclaration_def isEventSourcedHeritage_def ends_with_def starts_with_def
        inferStateAndEventFromHeritage_def nameOf_def split_beta)
  show "parses_cache demo_run_env demo_inputs"
    by (simp add: parses_cache_def emit_def emitRuntimeJs_def demo_inputs_def demo_run_env_def manifestSha256_def manifestFromEntries_def
        reducer_of_def extractClass_def demo_agenda_def findFirstClassDeclaration_def isEventSourcedHeritage_def ends_with_def starts_with_def
        inferStateAndEventFromHeritage_def nameOf_def split_beta Let_def)
qed (simp_all add: demo_inputs_def)

theorem codegen_rerun_witness:
  "\<exists>fs' r2. run_codegen demo_run_env [''gen''] None False False (Inr demo_inputs) fs' = (Inr r2, fs') \<and> rn_status r2 = Skipped"
proof -
  obtain res fs' where "run_codegen demo_run_env [''gen''] None False False (Inr demo_inputs) [] = (Inr res, fs')" "rn_status res = Wrote"
    using demo_run(1) by blast
  from codegen_rerun [OF this demo_run(2-4)] show ?thesis by blast
qed

theorem codegen_order_free_witness:
  "emit id id (map (extractClass (\<lambda>f t. []) id) [\<lparr> ci_className = ''A'', ci_version = ''1'', ci_source = [] \<rparr>, \<lparr> ci_className = ''B'', ci_version = ''2'', ci_source = [] \<rparr>])
   = emit id id (map (extractClass (\<lambda>f t. []) id) [\<lparr> ci_className = ''B'', ci_version = ''2'', ci_source = [] \<rparr>, \<lparr> ci_className = ''A'', ci_version = ''1'', ci_source = [] \<rparr>])"
  using codegen_order_free [of "[\<lparr> ci_className = ''A'', ci_version = ''1'', ci_source = [] \<rparr>, \<lparr> ci_className = ''B'', ci_version = ''2'', ci_source = [] \<rparr>]"
    "[\<lparr> ci_className = ''B'', ci_version = ''2'', ci_source = [] \<rparr>, \<lparr> ci_className = ''A'', ci_version = ''1'', ci_source = [] \<rparr>]"
    "\<lparr> re_parse = \<lambda>f t. [], re_sha = id, re_transpile = id, re_json = \<lambda>t. None \<rparr>"]
  by (simp only: run_env.select_convs list.map mset.simps distinct.simps) (simp add: add_mset_commute)

end
