(* ===== verification/Sources.thy ===== *)
theory Sources
  imports Codegen
begin

text \<open>
  Where \<open>actctl codegen\<close> gets its sources (\<open>src/codegen/sources.ts\<close>): the files of a directory, or
  the class routes of a server. \<open>get\<close> (\<open>fetch\<close>) is an argument: the reply to a request for a URL.
\<close>

section \<open>A directory\<close>

text \<open>The names in a directory: the next component of every path below it.\<close>

definition readdir :: "path \<Rightarrow> file_system \<Rightarrow> string list" where
  "readdir dir fs = remdups (map (\<lambda>p. p ! length dir) (filter (\<lambda>p. take (length dir) p = dir \<and> length dir < length p) (map fst fs)))"

text \<open>\<open>extname(name) = '.ts'\<close>: a name that is only the extension has none.\<close>

definition ts_file :: "string \<Rightarrow> bool" where
  "ts_file name \<longleftrightarrow> ends_with ''.ts'' name \<and> 3 < length name"

text \<open>The version of the meta file beside a source; a value that is not a string is printed.\<close>

definition readMeta :: "(string \<Rightarrow> jsval option) \<Rightarrow> (jsval \<Rightarrow> string) \<Rightarrow> path \<Rightarrow> file_system \<Rightarrow> version option" where
  "readMeta json str p fs = (case Option.bind (map_get fs p) json of
      None \<Rightarrow> None
    | Some v \<Rightarrow> (case js_prop v ''version'' of JUndefined \<Rightarrow> None | JNull \<Rightarrow> None | JStr s \<Rightarrow> Some s | x \<Rightarrow> Some (str x)))"

definition local_input :: "(string \<Rightarrow> jsval option) \<Rightarrow> (jsval \<Rightarrow> string) \<Rightarrow> path \<Rightarrow> file_system \<Rightarrow> string \<Rightarrow> codegen_input list" where
  "local_input json str dir fs name = (case map_get fs (dir @ [name]) of
      None \<Rightarrow> []
    | Some source \<Rightarrow> if \<not> ts_file name then []
        else (let cn = take (length name - 3) name in
          [\<lparr> ci_className = cn,
             ci_version = (case readMeta json str (dir @ [cn @ ''.meta.json'']) fs of Some v \<Rightarrow> v | None \<Rightarrow> ''0.0.0-local''),
             ci_source = source \<rparr>]))"

definition loadLocal :: "(string \<Rightarrow> jsval option) \<Rightarrow> (jsval \<Rightarrow> string) \<Rightarrow> path \<Rightarrow> file_system \<Rightarrow> codegen_input list" where
  "loadLocal json str dir fs = sort_key ci_className (concat (map (local_input json str dir fs) (readdir dir fs)))"

section \<open>Comparing versions\<close>

text \<open>The value of digits in a radix.\<close>

definition radix_digit :: "char \<Rightarrow> nat" where
  "radix_digit c = (let n = of_char c :: nat in
     if 48 \<le> n \<and> n \<le> 57 then n - 48 else if 97 \<le> n \<and> n \<le> 102 then n - 87 else if 65 \<le> n \<and> n \<le> 70 then n - 55 else 16)"

definition number_in :: "nat \<Rightarrow> string \<Rightarrow> nat option" where
  "number_in b s = (if s \<noteq> [] \<and> list_all (\<lambda>c. radix_digit c < b) s then Some (foldl (\<lambda>v c. b * v + radix_digit c) 0 s) else None)"

definition is_exp :: "char \<Rightarrow> bool" where
  "is_exp c \<longleftrightarrow> c = CHR ''e'' \<or> c = CHR ''E''"

text \<open>
  \<open>Number(s)\<close> where it is finite, on texts without a dot or a sign; the rounding of values
  above \<open>2 ^ 53\<close> is left out.
\<close>

definition js_number :: "string \<Rightarrow> nat option" where
  "js_number s = (let t = trim s;
       v = (if t = [] then Some 0
            else if starts_with ''0x'' t \<or> starts_with ''0X'' t then number_in 16 (drop 2 t)
            else if starts_with ''0o'' t \<or> starts_with ''0O'' t then number_in 8 (drop 2 t)
            else if starts_with ''0b'' t \<or> starts_with ''0B'' t then number_in 2 (drop 2 t)
            else (let m = takeWhile (\<lambda>c. \<not> is_exp c) t; e = dropWhile (\<lambda>c. \<not> is_exp c) t in
              (case number_in 10 m of None \<Rightarrow> None | Some x \<Rightarrow>
                if e = [] then Some x
                else (case number_in 10 (tl e) of None \<Rightarrow> None | Some k \<Rightarrow> if x = 0 then Some 0 else if 308 < k then None else Some (x * 10 ^ k)))))
     in case v of Some n \<Rightarrow> if n < 2 ^ 1024 then Some n else None | None \<Rightarrow> None)"

text \<open>One step of the loop: the segments decide, or the rest does.\<close>

definition compare_seg :: "string \<Rightarrow> string \<Rightarrow> int \<Rightarrow> int" where
  "compare_seg x y rest = (case (js_number x, js_number y) of
      (Some m, Some n) \<Rightarrow> if m \<noteq> n then int m - int n else rest
    | _ \<Rightarrow> if x \<noteq> y then (if x < y then -1 else 1) else rest)"

fun compare_segs :: "string list \<Rightarrow> string list \<Rightarrow> int" where
  "compare_segs [] [] = 0"
| "compare_segs (x # a) [] = compare_seg x ''0'' (compare_segs a [])"
| "compare_segs [] (y # b) = compare_seg ''0'' y (compare_segs [] b)"
| "compare_segs (x # a) (y # b) = compare_seg x y (compare_segs a b)"

definition version_segs :: "version \<Rightarrow> string list" where
  "version_segs v = split_on (CHR ''.'') (map (\<lambda>c. if c = CHR ''+'' \<or> c = CHR ''-'' then CHR ''.'' else c) v)"

definition semverCompare :: "version \<Rightarrow> version \<Rightarrow> int" where
  "semverCompare a b = compare_segs (version_segs a) (version_segs b)"

text \<open>
  A stable sort by a comparator; where the comparator is not an order the language leaves the
  result to the engine, here it is that of insertion.
\<close>

fun insert_by :: "('a \<Rightarrow> 'a \<Rightarrow> int) \<Rightarrow> 'a \<Rightarrow> 'a list \<Rightarrow> 'a list" where
  "insert_by cmp x [] = [x]"
| "insert_by cmp x (y # ys) = (if cmp x y \<le> 0 then x # y # ys else y # insert_by cmp x ys)"

definition sort_by :: "('a \<Rightarrow> 'a \<Rightarrow> int) \<Rightarrow> 'a list \<Rightarrow> 'a list" where
  "sort_by cmp xs = foldr (insert_by cmp) xs []"

definition js_text :: "jsval \<Rightarrow> string" where
  "js_text v = (case v of JStr s \<Rightarrow> s | _ \<Rightarrow> [])"

definition pickLatestNonDeprecated :: "jsval list \<Rightarrow> version option" where
  "pickLatestNonDeprecated vs = (
     let alive = filter (\<lambda>v. js_prop v ''deprecatedAt'' = JUndefined) vs in
     case sort_by (\<lambda>a b. semverCompare (js_text (js_prop b ''version'')) (js_text (js_prop a ''version''))) alive of
       [] \<Rightarrow> None | v # _ \<Rightarrow> Some (js_text (js_prop v ''version'')))"

section \<open>A server\<close>

record fetch_reply =
  fr_ok :: bool
  fr_status :: nat
  fr_statusText :: string
  fr_json :: jsval
  fr_text :: string

text \<open>\<open>encodeURIComponent\<close>.\<close>

definition upper_hex :: "nat \<Rightarrow> char" where
  "upper_hex d = char_of (if d < 10 then 48 + d else 55 + d)"

definition uri_safe :: "char \<Rightarrow> bool" where
  "uri_safe c \<longleftrightarrow> is_digit c \<or> ident_start c \<or> c \<in> set ''-.!~*()'' \<or> c = CHR 0x27"

definition encodeURIComponent :: "string \<Rightarrow> string" where
  "encodeURIComponent s = concat (map (\<lambda>c. if uri_safe c then [c]
     else concat (map (\<lambda>b. [CHR ''%'', upper_hex (unat b div 16), upper_hex (unat b mod 16)]) (utf8 [c]))) s)"

definition fetch_headers :: "string option \<Rightarrow> (string \<times> string) list" where
  "fetch_headers token = (''Accept'', ''application/json'') #
     (case token of Some t \<Rightarrow> if t = [] then [] else [(''Authorization'', ''Bearer '' @ t)] | None \<Rightarrow> [])"

text \<open>One class of the index: its input, or none when it has no live version.\<close>

definition fetch_class :: "(string \<Rightarrow> (string \<times> string) list \<Rightarrow> fetch_reply) \<Rightarrow> string \<Rightarrow> string option \<Rightarrow> string \<Rightarrow> error + codegen_input list" where
  "fetch_class get base token cn = (
     let versions_url = base @ ''/v1/classes/'' @ encodeURIComponent cn @ ''/versions'';
         lst = get versions_url (fetch_headers token) in
     if \<not> fr_ok lst then Inl (HttpLoaderError (''failed to list versions for '' @ cn @ '': '' @ show_nat (fr_status lst) @ '' '' @ fr_statusText lst))
     else (case js_prop (fr_json lst) ''versions'' of
        JArr vs \<Rightarrow> (case pickLatestNonDeprecated vs of
            None \<Rightarrow> Inr []
          | Some v \<Rightarrow> if v = [] then Inr [] else
              (let src = get (versions_url @ ''/'' @ encodeURIComponent v @ ''/source'') (fetch_headers token) in
               if \<not> fr_ok src then Inl (HttpLoaderError (''failed to fetch source for '' @ cn @ ''@'' @ v @ '': '' @ show_nat (fr_status src)))
               else Inr [\<lparr> ci_className = cn, ci_version = v, ci_source = fr_text src \<rparr>]))
      | _ \<Rightarrow> Inl (TypeError ''versions.filter is not a function'')))"

fun fetch_classes :: "(string \<Rightarrow> error + codegen_input list) \<Rightarrow> string list \<Rightarrow> error + codegen_input list" where
  "fetch_classes f [] = Inr []"
| "fetch_classes f (cn # cns) = (case f cn of
      Inl e \<Rightarrow> Inl e
    | Inr is \<Rightarrow> (case fetch_classes f cns of Inl e \<Rightarrow> Inl e | Inr rest \<Rightarrow> Inr (is @ rest)))"

definition loadHttp :: "(string \<Rightarrow> (string \<times> string) list \<Rightarrow> fetch_reply) \<Rightarrow> string \<Rightarrow> string option \<Rightarrow> error + codegen_input list" where
  "loadHttp get base token = (let idx = get (base @ ''/v1/classes'') (fetch_headers token) in
     if \<not> fr_ok idx then Inl (HttpLoaderError (''GET /v1/classes is not available ('' @ show_nat (fr_status idx) @ ''). Pass --class to enumerate.''))
     else (case js_prop (fr_json idx) ''classes'' of
        JArr cns \<Rightarrow> (case fetch_classes (fetch_class get base token) (map js_text cns) of
            Inl e \<Rightarrow> Inl e | Inr is \<Rightarrow> Inr (sort_key ci_className is))
      | _ \<Rightarrow> Inl (TypeError ''indexJson.classes is not iterable'')))"

section \<open>Sorting\<close>

lemma set_sort_by [simp]: "set (sort_by cmp xs) = set xs"
proof -
  have ins: "set (insert_by cmp x ys) = insert x (set ys)" for x :: 'a and ys
    by (induction cmp x ys rule: insert_by.induct) auto
  show ?thesis by (induction xs) (simp_all add: sort_by_def ins)
qed

text \<open>Where the comparator is a total order on the elements, the first of the sorted list is least.\<close>

lemma hd_sort_by:
  assumes total: "\<And>x y. x \<in> set xs \<Longrightarrow> y \<in> set xs \<Longrightarrow> cmp x y \<le> 0 \<or> cmp y x \<le> 0"
    and trans: "\<And>x y z. x \<in> set xs \<Longrightarrow> y \<in> set xs \<Longrightarrow> z \<in> set xs \<Longrightarrow> cmp x y \<le> 0 \<Longrightarrow> cmp y z \<le> 0 \<Longrightarrow> cmp x z \<le> 0"
    and "y \<in> set xs"
  shows "cmp (hd (sort_by cmp xs)) y \<le> 0"
  using assms
proof (induction xs arbitrary: y)
  case Nil
  from Nil.prems(3) show ?case by simp
next
  case (Cons x xs)
  have sorted: "sort_by cmp (x # xs) = insert_by cmp x (sort_by cmp xs)" by (simp add: sort_by_def)
  have self: "cmp x x \<le> 0" using Cons.prems(1) [of x x] by simp
  show ?case
  proof (cases "sort_by cmp xs")
    case Nil
    then have "xs = []" using set_sort_by [of cmp xs] by simp
    with Cons.prems(3) self show ?thesis by (simp add: sort_by_def)
  next
    case (Cons z zs)
    have z: "z \<in> set xs" using set_sort_by [of cmp xs] Cons by auto
    have least: "cmp z y' \<le> 0" if "y' \<in> set xs" for y'
      using Cons.IH [of y'] Cons.prems(1,2) that Cons by (metis list.sel(1) list.set_intros(2))
    consider "y = x" | "y \<in> set xs" using Cons.prems(3) by auto
    then show ?thesis
    proof cases
      case 1
      then show ?thesis using sorted Cons self Cons.prems(1) [of x z] z by (auto split: if_splits)
    next
      case 2
      then show ?thesis using sorted Cons least [OF 2] Cons.prems(2) [of x z y] z by auto
    qed
  qed
qed

section \<open>Release versions\<close>

definition release :: "nat \<Rightarrow> nat \<Rightarrow> nat \<Rightarrow> version" where
  "release a b c = join ''.'' [show_nat a, show_nat b, show_nat c]"

lemma digit_facts:
  assumes "is_digit c"
  shows "\<not> js_space c" "\<not> is_exp c" "radix_digit c = of_char c - 48" "radix_digit c < 10" "c \<noteq> CHR ''.''" "c \<noteq> CHR ''+''" "c \<noteq> CHR ''-''"
    "c \<noteq> CHR ''x''" "c \<noteq> CHR ''X''" "c \<noteq> CHR ''o''" "c \<noteq> CHR ''O''" "c \<noteq> CHR ''b''" "c \<noteq> CHR ''B''"
  using assms by (auto simp: is_digit_def js_space_def is_exp_def radix_digit_def Let_def)

lemma dropWhile_none: "\<forall>x\<in>set xs. \<not> P x \<Longrightarrow> dropWhile P xs = xs"
  by (cases xs) auto

lemma number_show_nat: "number_in 10 (show_nat n) = Some n"
proof -
  have d: "\<forall>c\<in>set (show_nat n). is_digit c" using show_nat_digits by blast
  have "foldl (\<lambda>v c. 10 * v + radix_digit c) 0 s = read_nat s" if "\<forall>c\<in>set s. is_digit c" for s
    unfolding read_nat_def using that digit_facts(3) by (intro foldl_cong) auto
  then show ?thesis using d digit_facts(4) by (simp add: number_in_def list_all_iff)
qed

lemma js_number_show_nat: "n < 2 ^ 1024 \<Longrightarrow> js_number (show_nat n) = Some n"
proof -
  assume n: "n < 2 ^ 1024"
  have d: "\<forall>c\<in>set (show_nat n). is_digit c" using show_nat_digits by blast
  have t: "trim (show_nat n) = show_nat n"
    using d digit_facts(1) by (simp add: trim_def dropWhile_none)
  have p: "\<not> starts_with [CHR ''0'', x] (show_nat n)" if "\<not> is_digit x" for x
    using d that by (auto simp: starts_with_iff)
  have x: "\<not> is_digit (CHR ''x'')" "\<not> is_digit (CHR ''X'')" "\<not> is_digit (CHR ''o'')" "\<not> is_digit (CHR ''O'')" "\<not> is_digit (CHR ''b'')" "\<not> is_digit (CHR ''B'')"
    by (simp_all add: is_digit_def)
  have e: "takeWhile (\<lambda>c. \<not> is_exp c) (show_nat n) = show_nat n" "dropWhile (\<lambda>c. \<not> is_exp c) (show_nat n) = []"
    using d digit_facts(2) by (simp_all add: takeWhile_eq_all_conv dropWhile_eq_Nil_conv)
  show ?thesis using n by (simp add: js_number_def t p x e number_show_nat Let_def)
qed

lemma version_segs_release: "version_segs (release a b c) = [show_nat a, show_nat b, show_nat c]"
proof -
  have "map (\<lambda>c. if c = CHR ''+'' \<or> c = CHR ''-'' then CHR ''.'' else c) (show_nat n) = show_nat n" for n
    using show_nat_digits digit_facts(6,7) by (intro map_idI) metis
  then have "version_segs (release a b c) = split_on (CHR ''.'') (join [CHR ''.''] [show_nat a, show_nat b, show_nat c])"
    by (simp add: version_segs_def release_def)
  also have "\<dots> = [show_nat a, show_nat b, show_nat c]"
    using show_nat_digits digit_facts(5) by (intro split_on_join) auto
  finally show ?thesis .
qed

definition safe_int :: "nat \<Rightarrow> bool" where
  "safe_int n \<longleftrightarrow> n < 2 ^ 53"

lemma compare_release:
  assumes "safe_int a" "safe_int b" "safe_int c" "safe_int a'" "safe_int b'" "safe_int c'"
  shows "semverCompare (release a b c) (release a' b' c') \<le> 0 \<longleftrightarrow> a < a' \<or> a = a' \<and> (b < b' \<or> b = b' \<and> c \<le> c')"
proof -
  have "(2::nat) ^ 53 < 2 ^ 1024" by simp
  then have j: "js_number (show_nat n) = Some n" if "safe_int n" for n
    using that by (intro js_number_show_nat) (simp add: safe_int_def)
  show ?thesis using assms by (auto simp: semverCompare_def version_segs_release compare_seg_def j)
qed

lemma version_json_props:
  "js_prop (version_json r) ''deprecatedAt'' = (case cv_deprecatedAt r of Some t \<Rightarrow> JNum t | None \<Rightarrow> JUndefined)"
  "js_text (js_prop (version_json r) ''version'') = cv_version r"
  by (simp_all add: version_json_def js_text_def split: option.split)

section \<open>Properties\<close>

text \<open>
  From the server's listing of a class whose versions are releases, the loader picks the newest
  that is not deprecated, and picks none only when all are.
\<close>

theorem picks_newest_release:
  assumes rel: "list_all (\<lambda>r. \<exists>a b c. cv_version r = release a b c \<and> safe_int a \<and> safe_int b \<and> safe_int c) (listClassVersions cn d)"
  shows "case js_prop (get_versions cn d) ''versions'' of
      JArr vs \<Rightarrow> (case pickLatestNonDeprecated vs of
          None \<Rightarrow> list_all (\<lambda>r. cv_deprecatedAt r \<noteq> None) (listClassVersions cn d)
        | Some v \<Rightarrow> \<exists>r a b c. r \<in> set (listClassVersions cn d) \<and> cv_version r = v \<and> cv_deprecatedAt r = None \<and> v = release a b c
            \<and> (\<forall>r'\<in>set (listClassVersions cn d). cv_deprecatedAt r' = None \<longrightarrow>
                (\<exists>a' b' c'. cv_version r' = release a' b' c' \<and> (a' < a \<or> a' = a \<and> (b' < b \<or> b' = b \<and> c' \<le> c)))))
    | _ \<Rightarrow> False"
proof -
  let ?rs = "listClassVersions cn d"
  let ?vs = "map version_json ?rs"
  let ?alive = "filter (\<lambda>v. js_prop v ''deprecatedAt'' = JUndefined) ?vs"
  let ?cmp = "\<lambda>a b. semverCompare (js_text (js_prop b ''version'')) (js_text (js_prop a ''version''))"
  have alive: "x \<in> set ?alive \<longleftrightarrow> (\<exists>r\<in>set ?rs. x = version_json r \<and> cv_deprecatedAt r = None)" for x
    by (auto simp: version_json_props split: option.splits)
  have shape: "\<exists>a b c. js_text (js_prop x ''version'') = release a b c \<and> safe_int a \<and> safe_int b \<and> safe_int c" if "x \<in> set ?alive" for x
    using that rel alive [of x] by (force simp: version_json_props list_all_iff)
  have total: "?cmp x y \<le> 0 \<or> ?cmp y x \<le> 0" if "x \<in> set ?alive" "y \<in> set ?alive" for x y
    using shape [OF that(1)] shape [OF that(2)] by (auto simp: compare_release)
  have trans: "?cmp x z \<le> 0" if "x \<in> set ?alive" "y \<in> set ?alive" "z \<in> set ?alive" "?cmp x y \<le> 0" "?cmp y z \<le> 0" for x y z
    using shape [OF that(1)] shape [OF that(2)] shape [OF that(3)] that(4,5) by (auto simp: compare_release)
  have pick: "case pickLatestNonDeprecated ?vs of
          None \<Rightarrow> list_all (\<lambda>r. cv_deprecatedAt r \<noteq> None) ?rs
        | Some v \<Rightarrow> \<exists>r a b c. r \<in> set ?rs \<and> cv_version r = v \<and> cv_deprecatedAt r = None \<and> v = release a b c
            \<and> (\<forall>r'\<in>set ?rs. cv_deprecatedAt r' = None \<longrightarrow>
                (\<exists>a' b' c'. cv_version r' = release a' b' c' \<and> (a' < a \<or> a' = a \<and> (b' < b \<or> b' = b \<and> c' \<le> c))))"
  proof (cases "sort_by ?cmp ?alive")
    case Nil
    then have "?alive = []" using set_sort_by [of ?cmp ?alive] by simp
    then have "list_all (\<lambda>r. cv_deprecatedAt r \<noteq> None) ?rs" using alive by (force simp: list_all_iff)
    then show ?thesis using Nil by (simp add: pickLatestNonDeprecated_def)
  next
    case (Cons v rest)
    have v: "v \<in> set ?alive" using set_sort_by [of ?cmp ?alive] Cons by (metis list.set_intros(1))
    have least: "?cmp v y \<le> 0" if "y \<in> set ?alive" for y
      using hd_sort_by [of ?alive ?cmp y, OF total trans that] Cons by simp
    from v alive obtain r where r: "r \<in> set ?rs" "v = version_json r" "cv_deprecatedAt r = None" by blast
    from rel r(1) obtain a b c where abc: "cv_version r = release a b c" "safe_int a" "safe_int b" "safe_int c" by (auto simp: list_all_iff)
    have below: "\<exists>a' b' c'. cv_version r' = release a' b' c' \<and> (a' < a \<or> a' = a \<and> (b' < b \<or> b' = b \<and> c' \<le> c))"
      if "r' \<in> set ?rs" "cv_deprecatedAt r' = None" for r'
    proof -
      from that alive have "version_json r' \<in> set ?alive" by blast
      from least [OF this] have "semverCompare (cv_version r') (release a b c) \<le> 0" by (simp add: r(2) version_json_props abc(1))
      moreover from rel that(1) obtain a' b' c' where "cv_version r' = release a' b' c'" "safe_int a'" "safe_int b'" "safe_int c'" by (auto simp: list_all_iff)
      ultimately show ?thesis using compare_release [of a' b' c' a b c] abc by auto
    qed
    have "pickLatestNonDeprecated ?vs = Some (cv_version r)" using Cons by (simp add: pickLatestNonDeprecated_def r(2) version_json_props)
    moreover have "\<forall>r'\<in>set ?rs. cv_deprecatedAt r' = None \<longrightarrow>
        (\<exists>a' b' c'. cv_version r' = release a' b' c' \<and> (a' < a \<or> a' = a \<and> (b' < b \<or> b' = b \<and> c' \<le> c)))"
      using below by blast
    ultimately show ?thesis using r(1,3) abc(1) by (simp only: option.case) blast
  qed
  then show ?thesis by (simp add: get_versions_def)
qed

definition demo_releases :: driver where
  "demo_releases = empty_driver \<lparr> d_classVersions :=
     [(''Note@1.0.0'', demo_record ''Note'' (release 1 0 0) []), (''Note@1.2.0'', demo_record ''Note'' (release 1 2 0) [])] \<rparr>"

theorem picks_newest_release_witness:
  "\<exists>v. pickLatestNonDeprecated (map version_json (listClassVersions ''Note'' demo_releases)) = Some v
     \<and> (\<exists>r\<in>set (listClassVersions ''Note'' demo_releases). cv_version r = v)"
proof -
  have l: "listClassVersions ''Note'' demo_releases = [demo_record ''Note'' (release 1 0 0) [], demo_record ''Note'' (release 1 2 0) []]"
    by (simp add: listClassVersions_def demo_releases_def starts_with_def)
  have "safe_int 0" "safe_int 1" "safe_int 2" by (simp_all add: safe_int_def)
  then have "list_all (\<lambda>r. \<exists>a b c. cv_version r = release a b c \<and> safe_int a \<and> safe_int b \<and> safe_int c) (listClassVersions ''Note'' demo_releases)"
    unfolding l by (auto simp: demo_record_def)
  from picks_newest_release [OF this] have "case pickLatestNonDeprecated (map version_json (listClassVersions ''Note'' demo_releases)) of
      None \<Rightarrow> list_all (\<lambda>r. cv_deprecatedAt r \<noteq> None) (listClassVersions ''Note'' demo_releases)
    | Some v \<Rightarrow> \<exists>r\<in>set (listClassVersions ''Note'' demo_releases). cv_version r = v"
    by (auto simp: get_versions_def split: option.splits)
  then show ?thesis
    by (cases "pickLatestNonDeprecated (map version_json (listClassVersions ''Note'' demo_releases))") (simp_all add: l demo_record_def)
qed

text \<open>The comparison takes a prerelease for newer than its release, and is not an order.\<close>

lemma demo_numbers:
  "js_number ''0'' = Some 0" "js_number ''1'' = Some 1" "js_number ''9'' = Some 9" "js_number ''10'' = Some 10"
  "js_number ''beta'' = None" "js_number ''1a'' = None"
  by (simp_all add: js_number_def trim_def js_space_def number_in_def radix_digit_def starts_with_def is_exp_def)

theorem prerelease_wins:
  "pickLatestNonDeprecated [JObj [(''version'', JStr ''1.0.0'')], JObj [(''version'', JStr ''1.0.0-beta'')]] = Some ''1.0.0-beta''"
  by (simp add: pickLatestNonDeprecated_def sort_by_def semverCompare_def version_segs_def compare_seg_def demo_numbers js_text_def)

theorem comparison_cycles:
  "semverCompare ''1.0.0-9'' ''1.0.0-10'' < 0 \<and> semverCompare ''1.0.0-10'' ''1.0.0-1a'' < 0 \<and> semverCompare ''1.0.0-1a'' ''1.0.0-9'' < 0"
proof -
  have "''10'' < ''1a''" "''1a'' < ''9''" by code_simp+
  then show ?thesis by (simp add: semverCompare_def version_segs_def compare_seg_def demo_numbers)
qed

text \<open>The server of this repository has no class index: loading from it always fails.\<close>

theorem http_loader_never_loads:
  assumes "\<not> fr_ok (get (base @ ''/v1/classes'') (fetch_headers token))"
    and "fr_status (get (base @ ''/v1/classes'') (fetch_headers token)) = fst get_classes"
  shows "loadHttp get base token = Inl (HttpLoaderError ''GET /v1/classes is not available (501). Pass --class to enumerate.'')"
proof -
  have "show_nat 501 = ''501''" by code_simp
  with assms show ?thesis by (simp add: loadHttp_def get_classes_def)
qed

text \<open>A file whose name is only the extension is no class, and a source without a meta file is local.\<close>

theorem local_sources_sorted:
  "sorted (map ci_className (loadLocal json str dir fs))
   \<and> (\<forall>i\<in>set (loadLocal json str dir fs). map_get fs (dir @ [ci_className i @ ''.ts'']) = Some (ci_source i) \<and> ci_className i \<noteq> [])"
proof -
  have "map_get fs (dir @ [ci_className i @ ''.ts'']) = Some (ci_source i) \<and> ci_className i \<noteq> []"
    if "i \<in> set (local_input json str dir fs name)" for i name
  proof -
    from that obtain source where s: "map_get fs (dir @ [name]) = Some source" "ts_file name" "ci_className i = take (length name - 3) name" "ci_source i = source"
      by (cases "map_get fs (dir @ [name])"; cases "ts_file name") (simp_all add: local_input_def Let_def)
    from s(2) have "ends_with ''.ts'' name" "3 < length name" by (simp_all add: ts_file_def)
    then have "take 3 (rev name) = rev ''.ts''" by (simp add: ends_with_def starts_with_def eval_nat_numeral)
    then have "rev (take 3 (rev name)) = ''.ts''" by simp
    then have "drop (length name - 3) name = ''.ts''" by (simp only: rev_take length_rev rev_rev_ident)
    then have "name = ci_className i @ ''.ts''" using s(3) by (metis append_take_drop_id)
    then show ?thesis using s \<open>3 < length name\<close> by auto
  qed
  then show ?thesis by (auto simp: loadLocal_def)
qed

end
