(* ===== verification/Bindings.thy ===== *)
theory Bindings
  imports Errors
begin

text \<open>
  The framework bindings (\<open>src/bindings/store.ts\<close>, \<open>svelte.ts\<close>, \<open>react.ts\<close>): the stores shared by the
  components of a page, counted by reference, with one upstream subscription each, and the
  selections layered over them. Stores, listeners and selections have numbers in place of
  identities. Listeners are logged when they run and do not change the set they are in; \<open>same\<close> is
  \<open>Object.is\<close>, an argument because it compares objects by identity.
\<close>

section \<open>Stores\<close>

datatype store_status = Idle | Loading | Ready

datatype ready_promise = Unsettled | Fulfilled jsval | Failed error

text \<open>A listener of a store: a callback, or the wrapper of a selection around one.\<close>

datatype listener = Plain nat | Selecting nat nat

record actor_store =
  so_class :: string
  so_id :: string
  so_refCount :: int
  so_snapshot :: jsval
  so_status :: store_status
  so_error :: "error option"
  so_listeners :: "listener list"
  so_unsubscribe :: bool
  so_destroyed :: bool
  so_ready :: ready_promise

record selection =
  se_store :: nat
  se_selector :: "jsval \<Rightarrow> jsval"
  se_last :: jsval
  se_hasLast :: bool

text \<open>
  \<open>bi_pending\<close>: stores whose subscribe call is not answered; \<open>bi_open\<close>: stores whose upstream
  subscription is open; \<open>bi_fired\<close>: the callbacks run so far.
\<close>

record bindings =
  bi_stores :: "(nat, actor_store) jsmap"
  bi_registry :: "(string, nat) jsmap"
  bi_selections :: "(nat, selection) jsmap"
  bi_pending :: "nat list"
  bi_open :: "nat list"
  bi_fired :: "nat list"

definition no_bindings :: bindings where
  "no_bindings = \<lparr> bi_stores = [], bi_registry = [], bi_selections = [], bi_pending = [], bi_open = [], bi_fired = [] \<rparr>"

definition store_key :: "string \<Rightarrow> string \<Rightarrow> string" where
  "store_key cn i = cn @ '':'' @ i"

definition key_of :: "actor_store \<Rightarrow> string" where
  "key_of st = store_key (so_class st) (so_id st)"

definition on_store :: "nat \<Rightarrow> (actor_store \<Rightarrow> actor_store) \<Rightarrow> bindings \<Rightarrow> bindings" where
  "on_store s f b = (case map_get (bi_stores b) s of
      None \<Rightarrow> b | Some st \<Rightarrow> b \<lparr> bi_stores := map_set s (f st) (bi_stores b) \<rparr>)"

definition createActorStore :: "string \<Rightarrow> string \<Rightarrow> bindings \<Rightarrow> nat \<times> bindings" where
  "createActorStore cn i b = (let s = length (bi_stores b) in
     (s, b \<lparr> bi_stores := map_set s \<lparr> so_class = cn, so_id = i, so_refCount = 0, so_snapshot = JUndefined, so_status = Loading,
           so_error = None, so_listeners = [], so_unsubscribe = False, so_destroyed = False, so_ready = Unsettled \<rparr> (bi_stores b),
         bi_pending := bi_pending b @ [s] \<rparr>))"

definition getActorStore :: "string \<Rightarrow> string \<Rightarrow> bindings \<Rightarrow> nat \<times> bindings" where
  "getActorStore cn i b = (
     let key = store_key cn i;
         (s, b1) = (case map_get (bi_registry b) key of
             Some s \<Rightarrow> (s, b)
           | None \<Rightarrow> (let (s, b1) = createActorStore cn i b in (s, b1 \<lparr> bi_registry := map_set key s (bi_registry b1) \<rparr>)))
     in (s, on_store s (\<lambda>st. st \<lparr> so_refCount := so_refCount st + 1 \<rparr>) b1))"

definition destroy_store :: "nat \<Rightarrow> bindings \<Rightarrow> bindings" where
  "destroy_store s b = (case map_get (bi_stores b) s of
      None \<Rightarrow> b
    | Some st \<Rightarrow> if so_destroyed st then b
        else b \<lparr> bi_stores := map_set s (st \<lparr> so_destroyed := True, so_listeners := [] \<rparr>) (bi_stores b),
                 bi_open := (if so_unsubscribe st then filter (\<lambda>x. x \<noteq> s) (bi_open b) else bi_open b),
                 bi_registry := map_delete (key_of st) (bi_registry b) \<rparr>)"

definition releaseActorStore :: "nat \<Rightarrow> bindings \<Rightarrow> bindings" where
  "releaseActorStore s b = (
     let b1 = on_store s (\<lambda>st. st \<lparr> so_refCount := so_refCount st - 1 \<rparr>) b in
     case map_get (bi_stores b1) s of
       None \<Rightarrow> b1
     | Some st \<Rightarrow> if so_refCount st \<le> 0 then destroy_store s b1 else b1)"

section \<open>Selections\<close>

definition compute :: "bindings \<Rightarrow> selection \<Rightarrow> jsval" where
  "compute b se = (case map_get (bi_stores b) (se_store se) of
      None \<Rightarrow> JUndefined
    | Some st \<Rightarrow> if so_snapshot st = JUndefined then JUndefined else se_selector se (so_snapshot st))"

text \<open>A selection's number is the count of selections before it.\<close>

definition selectStore :: "nat \<Rightarrow> (jsval \<Rightarrow> jsval) \<Rightarrow> bindings \<Rightarrow> nat \<times> bindings" where
  "selectStore s f b = (let k = length (bi_selections b) in
     (k, b \<lparr> bi_selections := map_set k \<lparr> se_store = s, se_selector = f, se_last = JUndefined, se_hasLast = False \<rparr> (bi_selections b) \<rparr>))"

definition select_getSnapshot :: "(jsval \<Rightarrow> jsval \<Rightarrow> bool) \<Rightarrow> nat \<Rightarrow> bindings \<Rightarrow> jsval \<times> bindings" where
  "select_getSnapshot same k b = (case map_get (bi_selections b) k of
      None \<Rightarrow> (JUndefined, b)
    | Some se \<Rightarrow> (let next = compute b se in
        if se_hasLast se \<and> same next (se_last se) then (se_last se, b)
        else (next, b \<lparr> bi_selections := map_set k (se \<lparr> se_last := next, se_hasLast := True \<rparr>) (bi_selections b) \<rparr>)))"

definition listen_on :: "listener \<Rightarrow> actor_store \<Rightarrow> actor_store" where
  "listen_on l st = st \<lparr> so_listeners := (if l \<in> set (so_listeners st) then so_listeners st else so_listeners st @ [l]) \<rparr>"

definition store_subscribe :: "nat \<Rightarrow> listener \<Rightarrow> bindings \<Rightarrow> bindings" where
  "store_subscribe s l b = on_store s (listen_on l) b"

definition store_unsubscribe :: "nat \<Rightarrow> listener \<Rightarrow> bindings \<Rightarrow> bindings" where
  "store_unsubscribe s l b = on_store s (\<lambda>st. st \<lparr> so_listeners := filter (\<lambda>x. x \<noteq> l) (so_listeners st) \<rparr>) b"

definition select_subscribe :: "nat \<Rightarrow> nat \<Rightarrow> bindings \<Rightarrow> bindings" where
  "select_subscribe k c b = (case map_get (bi_selections b) k of
      None \<Rightarrow> b
    | Some se \<Rightarrow> store_subscribe (se_store se) (Selecting k c)
        (b \<lparr> bi_selections := map_set k (se \<lparr> se_last := compute b se, se_hasLast := True \<rparr>) (bi_selections b) \<rparr>))"

section \<open>Upstream\<close>

text \<open>A listener runs: the wrapper of a selection calls back only when the selected value changed.\<close>

definition run_listener :: "(jsval \<Rightarrow> jsval \<Rightarrow> bool) \<Rightarrow> listener \<Rightarrow> bindings \<Rightarrow> bindings" where
  "run_listener same l b = (case l of
      Plain c \<Rightarrow> b \<lparr> bi_fired := bi_fired b @ [c] \<rparr>
    | Selecting k c \<Rightarrow> (case map_get (bi_selections b) k of
        None \<Rightarrow> b
      | Some se \<Rightarrow> (let next = compute b se in
          if same next (se_last se) then b
          else b \<lparr> bi_selections := map_set k (se \<lparr> se_last := next \<rparr>) (bi_selections b), bi_fired := bi_fired b @ [c] \<rparr>)))"

definition run_listeners :: "(jsval \<Rightarrow> jsval \<Rightarrow> bool) \<Rightarrow> nat \<Rightarrow> bindings \<Rightarrow> bindings" where
  "run_listeners same s b = (case map_get (bi_stores b) s of
      None \<Rightarrow> b | Some st \<Rightarrow> foldl (\<lambda>b l. run_listener same l b) b (so_listeners st))"

definition upstream_state :: "(jsval \<Rightarrow> jsval \<Rightarrow> bool) \<Rightarrow> nat \<Rightarrow> jsval \<Rightarrow> bindings \<Rightarrow> bindings" where
  "upstream_state same s v b = run_listeners same s (on_store s (\<lambda>st.
     if so_status st = Ready then st \<lparr> so_snapshot := v \<rparr>
     else st \<lparr> so_snapshot := v, so_status := Ready, so_ready := (if so_ready st = Unsettled then Fulfilled v else so_ready st) \<rparr>) b)"

text \<open>The answer to the subscribe call of a store.\<close>

definition subscribe_answered :: "(jsval \<Rightarrow> jsval \<Rightarrow> bool) \<Rightarrow> nat \<Rightarrow> error + unit \<Rightarrow> bindings \<Rightarrow> bindings" where
  "subscribe_answered same s r b = (
     let b1 = b \<lparr> bi_pending := filter (\<lambda>x. x \<noteq> s) (bi_pending b) \<rparr> in
     case map_get (bi_stores b) s of
       None \<Rightarrow> b1
     | Some st \<Rightarrow> (case r of
         Inr _ \<Rightarrow> if so_destroyed st then b1
                  else on_store s (\<lambda>st. st \<lparr> so_unsubscribe := True \<rparr>) (b1 \<lparr> bi_open := bi_open b1 @ [s] \<rparr>)
       | Inl e \<Rightarrow> run_listeners same s (on_store s (\<lambda>st. st \<lparr> so_error := Some e,
             so_ready := (if so_ready st = Unsettled then Failed e else so_ready st) \<rparr>) b1)))"

section \<open>The adapters\<close>

text \<open>\<open>useActor\<close>: the value it returns, or what it throws: an error or the loading promise.\<close>

datatype hook_result = Value jsval | ThrowsError error | Suspends

definition useActor :: "nat \<Rightarrow> bool \<Rightarrow> bindings \<Rightarrow> hook_result" where
  "useActor s suspend b = (case map_get (bi_stores b) s of
      None \<Rightarrow> Value JUndefined
    | Some st \<Rightarrow>
       if suspend \<and> so_snapshot st = JUndefined
       then (case so_error st of Some e \<Rightarrow> ThrowsError e | None \<Rightarrow> Suspends)
       else Value (so_snapshot st))"

text \<open>The value of Svelte's \<open>actor\<close>: state, loading, error.\<close>

definition snapshotValue :: "actor_store \<Rightarrow> jsval \<times> bool \<times> error option" where
  "snapshotValue st = (so_snapshot st, so_status st \<noteq> Ready, so_error st)"

text \<open>Svelte's \<open>actorValue\<close>: one reference is taken, and every subscriber's clean-up releases one.\<close>

definition actorValue :: "string \<Rightarrow> string \<Rightarrow> (jsval \<Rightarrow> jsval) \<Rightarrow> bindings \<Rightarrow> nat \<times> nat \<times> bindings" where
  "actorValue cn i f b = (let (s, b1) = getActorStore cn i b; (k, b2) = selectStore s f b1 in (s, k, b2))"

definition actorValue_subscribe :: "(jsval \<Rightarrow> jsval \<Rightarrow> bool) \<Rightarrow> nat \<Rightarrow> nat \<Rightarrow> bindings \<Rightarrow> jsval \<times> bindings" where
  "actorValue_subscribe same k c b = (let (v, b1) = select_getSnapshot same k b in (v, select_subscribe k c b1))"

definition actorValue_cleanup :: "nat \<Rightarrow> nat \<Rightarrow> nat \<Rightarrow> bindings \<Rightarrow> bindings" where
  "actorValue_cleanup s k c b = releaseActorStore s (store_unsubscribe s (Selecting k c) b)"

section \<open>Runs\<close>

datatype binding_op =
    OpGet string string
  | OpRelease nat
  | OpDestroy nat
  | OpSubscribe nat nat
  | OpUnsubscribe nat listener
  | OpAnswer nat "error + unit"
  | OpState nat jsval
  | OpSelect nat "jsval \<Rightarrow> jsval"
  | OpSelectGet nat
  | OpSelectSubscribe nat nat

text \<open>A subscribe call is answered once.\<close>

definition binding_step :: "(jsval \<Rightarrow> jsval \<Rightarrow> bool) \<Rightarrow> binding_op \<Rightarrow> bindings \<Rightarrow> bindings" where
  "binding_step same x b = (case x of
      OpGet cn i \<Rightarrow> snd (getActorStore cn i b)
    | OpRelease s \<Rightarrow> releaseActorStore s b
    | OpDestroy s \<Rightarrow> destroy_store s b
    | OpSubscribe s c \<Rightarrow> store_subscribe s (Plain c) b
    | OpUnsubscribe s l \<Rightarrow> store_unsubscribe s l b
    | OpAnswer s r \<Rightarrow> if s \<in> set (bi_pending b) then subscribe_answered same s r b else b
    | OpState s v \<Rightarrow> upstream_state same s v b
    | OpSelect s f \<Rightarrow> snd (selectStore s f b)
    | OpSelectGet k \<Rightarrow> snd (select_getSnapshot same k b)
    | OpSelectSubscribe k c \<Rightarrow> select_subscribe k c b)"

definition binding_run :: "(jsval \<Rightarrow> jsval \<Rightarrow> bool) \<Rightarrow> binding_op list \<Rightarrow> bindings \<Rightarrow> bindings" where
  "binding_run same xs b = foldl (\<lambda>b x. binding_step same x b) b xs"

section \<open>The invariant\<close>

text \<open>What the invariant reads of a store.\<close>

definition core :: "actor_store \<Rightarrow> string \<times> bool \<times> bool \<times> int" where
  "core st = (key_of st, so_destroyed st, so_unsubscribe st, so_refCount st)"

definition cores :: "bindings \<Rightarrow> nat \<Rightarrow> (string \<times> bool \<times> bool \<times> int) option" where
  "cores b s = map_option core (map_get (bi_stores b) s)"

text \<open>
  The registry holds exactly the stores that are not destroyed; those have references; the open
  subscriptions are those of live stores that can close them, and none of these is awaited.
\<close>

definition inv_but :: "nat set \<Rightarrow> bindings \<Rightarrow> bool" where
  "inv_but X b \<longleftrightarrow>
     (\<forall>s. cores b s \<noteq> None \<longleftrightarrow> s < length (bi_stores b))
   \<and> (\<forall>k s. map_get (bi_registry b) k = Some s \<longleftrightarrow> (\<exists>u r. cores b s = Some (k, False, u, r)))
   \<and> (\<forall>s k u r. s \<notin> X \<longrightarrow> cores b s = Some (k, False, u, r) \<longrightarrow> 1 \<le> r)
   \<and> distinct (bi_open b) \<and> distinct (bi_pending b)
   \<and> (\<forall>s\<in>set (bi_open b). \<exists>k r. cores b s = Some (k, False, True, r))
   \<and> (\<forall>s\<in>set (bi_pending b). \<exists>k d r. cores b s = Some (k, d, False, r))"

text \<open>\<open>X\<close> exempts a store whose last reference is just being released.\<close>

definition bindings_inv :: "bindings \<Rightarrow> bool" where
  "bindings_inv b \<longleftrightarrow> inv_but {} b"

lemma inv_butD:
  assumes "inv_but X b"
  shows "cores b s \<noteq> None \<longleftrightarrow> s < length (bi_stores b)"
    "map_get (bi_registry b) k = Some s \<longleftrightarrow> (\<exists>u r. cores b s = Some (k, False, u, r))"
    "s \<notin> X \<Longrightarrow> cores b s = Some (k, False, u, r) \<Longrightarrow> 1 \<le> r"
    "distinct (bi_open b)" "distinct (bi_pending b)"
    "s \<in> set (bi_open b) \<Longrightarrow> \<exists>k r. cores b s = Some (k, False, True, r)"
    "s \<in> set (bi_pending b) \<Longrightarrow> \<exists>k d r. cores b s = Some (k, d, False, r)"
  using assms by (auto simp: inv_but_def)

lemma inv_butI:
  assumes "\<And>s. cores b s \<noteq> None \<longleftrightarrow> s < length (bi_stores b)"
    "\<And>k s. map_get (bi_registry b) k = Some s \<longleftrightarrow> (\<exists>u r. cores b s = Some (k, False, u, r))"
    "\<And>s k u r. s \<notin> X \<Longrightarrow> cores b s = Some (k, False, u, r) \<Longrightarrow> 1 \<le> r"
    "distinct (bi_open b)" "distinct (bi_pending b)"
    "\<And>s. s \<in> set (bi_open b) \<Longrightarrow> \<exists>k r. cores b s = Some (k, False, True, r)"
    "\<And>s. s \<in> set (bi_pending b) \<Longrightarrow> \<exists>k d r. cores b s = Some (k, d, False, r)"
  shows "inv_but X b"
  using assms unfolding inv_but_def by meson

text \<open>Operations that keep what the invariant reads keep the invariant.\<close>

definition same_core :: "bindings \<Rightarrow> bindings \<Rightarrow> bool" where
  "same_core b b' \<longleftrightarrow> cores b' = cores b \<and> length (bi_stores b') = length (bi_stores b) \<and> bi_registry b' = bi_registry b
     \<and> bi_open b' = bi_open b \<and> bi_pending b' = bi_pending b"

lemma same_core_inv: "same_core b b' \<Longrightarrow> bindings_inv b' = bindings_inv b"
  by (simp add: same_core_def bindings_inv_def inv_but_def)

lemma same_core_refl [simp]: "same_core b b"
  by (simp add: same_core_def)

lemma same_core_trans: "same_core a b \<Longrightarrow> same_core b c \<Longrightarrow> same_core a c"
  by (simp add: same_core_def)

lemma same_core_update [simp]:
  "same_core b (b \<lparr> bi_selections := x \<rparr>)" "same_core b (b \<lparr> bi_fired := y \<rparr>)"
  "same_core b (b \<lparr> bi_selections := x, bi_fired := y \<rparr>)"
  by (simp_all add: same_core_def cores_def fun_eq_iff)

lemma cores_on_store: "cores (on_store s f b) t = (if t = s then map_option (\<lambda>st. core (f st)) (map_get (bi_stores b) s) else cores b t)"
  by (auto simp: on_store_def cores_def split: option.split)

lemma on_store_frame [simp]:
  "length (bi_stores (on_store s f b)) = length (bi_stores b)" "bi_registry (on_store s f b) = bi_registry b"
  "bi_open (on_store s f b) = bi_open b" "bi_pending (on_store s f b) = bi_pending b"
  by (auto simp: on_store_def map_length_set split: option.split)

lemma same_core_on_store: "(\<And>st. core (f st) = core st) \<Longrightarrow> same_core b (on_store s f b)"
  by (auto simp: same_core_def fun_eq_iff cores_on_store) (simp add: cores_def)

lemma same_core_run_listener: "same_core b (run_listener same l b)"
  by (auto simp: run_listener_def Let_def split: listener.split option.split)

lemma same_core_run_listeners: "same_core b (run_listeners same s b)"
proof -
  have "same_core b (foldl (\<lambda>b l. run_listener same l b) b ls)" for b ls
    by (induction ls arbitrary: b) (auto intro: same_core_trans same_core_run_listener)
  then show ?thesis by (simp add: run_listeners_def split: option.split)
qed

lemma same_core_quiet:
  "same_core b (store_subscribe s l b)" "same_core b (store_unsubscribe s l b)" "same_core b (snd (selectStore s f b))"
  "same_core b (snd (select_getSnapshot same k b))" "same_core b (upstream_state same s v b)"
proof -
  show "same_core b (store_subscribe s l b)" unfolding store_subscribe_def
    by (rule same_core_on_store) (simp add: core_def key_of_def listen_on_def)
  show "same_core b (store_unsubscribe s l b)" unfolding store_unsubscribe_def
    by (rule same_core_on_store) (simp add: core_def key_of_def)
  show "same_core b (snd (selectStore s f b))" by (simp add: selectStore_def Let_def)
  show "same_core b (snd (select_getSnapshot same k b))" by (simp add: select_getSnapshot_def Let_def split: option.split)
  show "same_core b (upstream_state same s v b)" unfolding upstream_state_def
    by (rule same_core_trans [OF same_core_on_store same_core_run_listeners]) (simp add: core_def key_of_def)
qed

lemma same_core_select_subscribe: "same_core b (select_subscribe k c b)"
  unfolding select_subscribe_def by (auto split: option.split intro: same_core_trans [OF same_core_update(1) same_core_quiet(1)])

lemma cores_destroy:
  "cores (destroy_store s b) t = (if t = s then map_option (\<lambda>(k, d, u, r). (k, True, u, r)) (cores b s) else cores b t)"
  by (auto simp: destroy_store_def cores_def core_def key_of_def split: option.split)

lemma destroy_frame:
  "length (bi_stores (destroy_store s b)) = length (bi_stores b)" "bi_pending (destroy_store s b) = bi_pending b"
  by (auto simp: destroy_store_def map_length_set split: option.split)

lemma destroy_live:
  assumes "cores b s = Some (k, False, u, r)"
  shows "bi_registry (destroy_store s b) = map_delete k (bi_registry b)"
    and "bi_open (destroy_store s b) = (if u then filter (\<lambda>x. x \<noteq> s) (bi_open b) else bi_open b)"
  using assms by (auto simp: destroy_store_def cores_def core_def)

lemma destroy_dead:
  assumes "\<nexists>k u r. cores b s = Some (k, False, u, r)"
  shows "destroy_store s b = b"
  using assms by (auto simp: destroy_store_def cores_def core_def split: option.split)

lemma inv_but_inv: "bindings_inv b \<Longrightarrow> inv_but X b"
  unfolding bindings_inv_def by (rule inv_butI) (use inv_butD [of "{}" b] in auto)

lemma inv_but_referenced:
  assumes "inv_but {x} b" and "\<And>k u r. cores b x = Some (k, False, u, r) \<Longrightarrow> 1 \<le> r"
  shows "bindings_inv b"
proof -
  have "1 \<le> r" if "cores b s = Some (k, False, u, r)" for s k u r
    using assms(2) inv_butD(3) [OF assms(1), of s k u r] that by (cases "s = x") auto
  then show ?thesis unfolding bindings_inv_def by (intro inv_butI) (use inv_butD [OF assms(1)] in auto)
qed

lemma inv_destroy:
  assumes i: "inv_but {s} b"
  shows "bindings_inv (destroy_store s b)"
proof (cases "\<exists>k u r. cores b s = Some (k, False, u, r)")
  case True
  then obtain k u r where c: "cores b s = Some (k, False, u, r)" by blast
  have reg: "map_get (bi_registry b) k = Some s" using inv_butD(2) [OF i] c by blast
  have c': "cores (destroy_store s b) t = (if t = s then Some (k, True, u, r) else cores b t)" for t
    by (simp add: cores_destroy c)
  show ?thesis unfolding bindings_inv_def
  proof (rule inv_butI)
    fix t show "cores (destroy_store s b) t \<noteq> None \<longleftrightarrow> t < length (bi_stores (destroy_store s b))"
      using inv_butD(1) [OF i, of t] c by (auto simp: c' destroy_frame)
  next
    fix k' t
    have "map_get (bi_registry b) k' = Some t \<longleftrightarrow> (\<exists>u r. cores b t = Some (k', False, u, r))" by (rule inv_butD(2) [OF i])
    then show "map_get (bi_registry (destroy_store s b)) k' = Some t \<longleftrightarrow> (\<exists>u r. cores (destroy_store s b) t = Some (k', False, u, r))"
      using reg c unfolding c' destroy_live(1) [OF c] by (auto split: if_splits)
  next
    fix t k' u' r' assume "cores (destroy_store s b) t = Some (k', False, u', r')"
    then show "1 \<le> r'" using inv_butD(3) [OF i, of t k' u' r'] by (auto simp: c' split: if_splits)
  next
    fix t assume "t \<in> set (bi_open (destroy_store s b))"
    then have t: "t \<in> set (bi_open b)" "u \<longrightarrow> t \<noteq> s" by (auto simp: destroy_live(2) [OF c] split: if_splits)
    from inv_butD(6) [OF i t(1)] t(2) c show "\<exists>k r. cores (destroy_store s b) t = Some (k, False, True, r)"
      by (auto simp: c')
  next
    fix t assume "t \<in> set (bi_pending (destroy_store s b))"
    then have "\<exists>k d r. cores b t = Some (k, d, False, r)" using inv_butD(7) [OF i, of t] by (simp add: destroy_frame)
    then show "\<exists>k d r. cores (destroy_store s b) t = Some (k, d, False, r)" using c by (auto simp: c')
  qed (use inv_butD(4,5) [OF i] in \<open>auto simp: destroy_frame destroy_live(2) [OF c]\<close>)
next
  case False
  then show ?thesis using inv_but_referenced [OF i] destroy_dead [of b s] by metis
qed

text \<open>A change of the reference count of one store.\<close>

lemma inv_count:
  assumes i: "bindings_inv b"
  shows "inv_but {s} (on_store s (\<lambda>st. st \<lparr> so_refCount := f (so_refCount st) \<rparr>) b)" (is "inv_but _ ?b")
proof -
  have c: "cores ?b t = (if t = s then map_option (\<lambda>(k, d, u, r). (k, d, u, f r)) (cores b s) else cores b t)" for t
    by (simp only: cores_on_store) (cases "map_get (bi_stores b) s", simp_all add: cores_def core_def key_of_def)
  note d = inv_butD [OF i [unfolded bindings_inv_def]]
  show ?thesis
  proof (rule inv_butI)
    fix t show "cores ?b t \<noteq> None \<longleftrightarrow> t < length (bi_stores ?b)" using d(1) [of t] by (auto simp: c)
  next
    fix k t show "map_get (bi_registry ?b) k = Some t \<longleftrightarrow> (\<exists>u r. cores ?b t = Some (k, False, u, r))"
      unfolding on_store_frame d(2) c by auto
  next
    fix t k u r assume "t \<notin> {s}" "cores ?b t = Some (k, False, u, r)"
    then show "1 \<le> r" using d(3) [of t k u r] by (simp add: c)
  next
    fix t assume "t \<in> set (bi_open ?b)"
    with d(6) [of t] show "\<exists>k r. cores ?b t = Some (k, False, True, r)" by (auto simp: c)
  next
    fix t assume "t \<in> set (bi_pending ?b)"
    with d(7) [of t] show "\<exists>k d r. cores ?b t = Some (k, d, False, r)" by (auto simp: c)
  qed (use d(4,5) in simp_all)
qed

lemma inv_release:
  assumes "bindings_inv b"
  shows "bindings_inv (releaseActorStore s b)"
proof -
  let ?b = "on_store s (\<lambda>st. st \<lparr> so_refCount := so_refCount st - 1 \<rparr>) b"
  have i: "inv_but {s} ?b" using inv_count [OF assms, of s "\<lambda>r. r - 1"] .
  show ?thesis
  proof (cases "\<exists>st. map_get (bi_stores ?b) s = Some st \<and> so_refCount st \<le> 0")
    case True
    then show ?thesis using inv_destroy [OF i] by (auto simp: releaseActorStore_def Let_def)
  next
    case False
    then have "1 \<le> r" if "cores ?b s = Some (k, False, u, r)" for k u r
      using that by (auto simp: cores_def core_def)
    then have "bindings_inv ?b" by (rule inv_but_referenced [OF i])
    moreover have "releaseActorStore s b = ?b" using False by (auto simp: releaseActorStore_def Let_def split: option.split)
    ultimately show ?thesis by simp
  qed
qed

text \<open>The answer that opens the subscription of a live store.\<close>

lemma inv_opened:
  assumes i: "bindings_inv b" and p: "s \<in> set (bi_pending b)" and c: "cores b s = Some (k, False, u, r)"
    and b': "\<And>t. cores b' t = (if t = s then Some (k, False, True, r) else cores b t)" "length (bi_stores b') = length (bi_stores b)"
      "bi_registry b' = bi_registry b" "bi_open b' = bi_open b @ [s]" "bi_pending b' = filter (\<lambda>x. x \<noteq> s) (bi_pending b)"
  shows "bindings_inv b'"
proof -
  note d = inv_butD [OF i [unfolded bindings_inv_def]]
  have "s \<notin> set (bi_open b)" using d(6) [of s] d(7) [OF p] by auto
  show ?thesis unfolding bindings_inv_def
  proof (rule inv_butI)
    fix t show "cores b' t \<noteq> None \<longleftrightarrow> t < length (bi_stores b')" using d(1) [of t] c by (auto simp: b')
  next
    fix k' t show "map_get (bi_registry b') k' = Some t \<longleftrightarrow> (\<exists>u r. cores b' t = Some (k', False, u, r))"
      unfolding b' d(2) using c by auto
  next
    fix t k' u' r' assume "cores b' t = Some (k', False, u', r')"
    then show "1 \<le> r'" using d(3) [of t k' u' r'] d(3) [of s k u r] c by (auto simp: b' split: if_splits)
  next
    fix t assume "t \<in> set (bi_open b')"
    then show "\<exists>k r. cores b' t = Some (k, False, True, r)" using d(6) [of t] by (auto simp: b')
  next
    fix t assume "t \<in> set (bi_pending b')"
    then show "\<exists>k d r. cores b' t = Some (k, d, False, r)" using d(7) [of t] by (auto simp: b')
  qed (use d(4,5) \<open>s \<notin> set (bi_open b)\<close> in \<open>auto simp: b'\<close>)
qed

lemma inv_answer:
  assumes i: "bindings_inv b" and p: "s \<in> set (bi_pending b)"
  shows "bindings_inv (subscribe_answered same s r b)"
proof -
  let ?b = "b \<lparr> bi_pending := filter (\<lambda>x. x \<noteq> s) (bi_pending b) \<rparr>"
  have cb: "cores ?b = cores b" by (simp add: cores_def fun_eq_iff)
  note d = inv_butD [OF i [unfolded bindings_inv_def]]
  have inv: "bindings_inv ?b" unfolding bindings_inv_def
    by (rule inv_butI) (use d in \<open>auto simp: cb\<close>)
  obtain st where st: "map_get (bi_stores b) s = Some st" using d(7) [OF p] by (auto simp: cores_def)
  show ?thesis
  proof (cases r)
    case (Inl e)
    have "same_core ?b (subscribe_answered same s r b)"
      by (simp add: subscribe_answered_def st Inl)
        (rule same_core_trans [OF same_core_on_store same_core_run_listeners], simp add: core_def key_of_def)
    then show ?thesis using inv by (simp add: same_core_inv)
  next
    case (Inr x)
    show ?thesis
    proof (cases "so_destroyed st")
      case True
      then show ?thesis using inv by (simp add: subscribe_answered_def st Inr)
    next
      case False
      have e: "subscribe_answered same s r b = on_store s (\<lambda>st. st \<lparr> so_unsubscribe := True \<rparr>) (?b \<lparr> bi_open := bi_open b @ [s] \<rparr>)"
        using False by (simp add: subscribe_answered_def st Inr)
      have "cores b s = Some (key_of st, False, so_unsubscribe st, so_refCount st)" using st False by (simp add: cores_def core_def)
      then show ?thesis
      proof (rule inv_opened [OF i p])
        fix t show "cores (subscribe_answered same s r b) t = (if t = s then Some (key_of st, False, True, so_refCount st) else cores b t)"
          unfolding e cores_on_store using st False by (simp add: core_def key_of_def) (simp add: cores_def)
      qed (simp_all add: e)
    qed
  qed
qed

text \<open>A new store: registered, awaited, still without references.\<close>

lemma inv_created:
  assumes i: "bindings_inv b" and no: "map_get (bi_registry b) (store_key cn j) = None"
    and c: "createActorStore cn j b = (s, b1)"
    and b2: "b2 = b1 \<lparr> bi_registry := map_set (store_key cn j) s (bi_registry b1) \<rparr>"
  shows "inv_but {s} b2"
proof -
  note d = inv_butD [OF i [unfolded bindings_inv_def]]
  have s: "s = length (bi_stores b)" and b1: "bi_registry b2 = map_set (store_key cn j) s (bi_registry b)" "bi_open b2 = bi_open b" "bi_pending b2 = bi_pending b @ [s]"
    using c b2 by (auto simp: createActorStore_def Let_def)
  have fresh: "cores b s = None" using d(1) [of s] s by (metis less_irrefl)
  then have "map_get (bi_stores b) s = None" by (simp add: cores_def)
  then have l: "length (bi_stores b2) = Suc (length (bi_stores b))" using c s b2 by (auto simp: createActorStore_def Let_def map_length_set)
  have cs: "cores b2 t = (if t = s then Some (store_key cn j, False, False, 0) else cores b t)" for t
    using c s b2 by (auto simp: createActorStore_def Let_def cores_def core_def key_of_def)
  show ?thesis
  proof (rule inv_butI)
    fix t
    have "cores b2 t \<noteq> None \<longleftrightarrow> t = s \<or> cores b t \<noteq> None" unfolding cs by (auto intro: exI [of _ False])
    then show "cores b2 t \<noteq> None \<longleftrightarrow> t < length (bi_stores b2)" using d(1) [of t] s l by (metis less_Suc_eq)
  next
    fix k t
    have "map_get (bi_registry b) k \<noteq> Some s" using d(2) [of k s] fresh by simp
    then show "map_get (bi_registry b2) k = Some t \<longleftrightarrow> (\<exists>u r. cores b2 t = Some (k, False, u, r))"
      using d(2) [of k t] no unfolding cs by (cases "t = s"; cases "k = store_key cn j") (auto simp: b1 fresh)
  next
    fix t k u r assume "t \<notin> {s}" "cores b2 t = Some (k, False, u, r)"
    then show "1 \<le> r" using d(3) [of t k u r] by (simp add: cs)
  next
    fix t assume "t \<in> set (bi_open b2)"
    with d(6) [of t] fresh show "\<exists>k r. cores b2 t = Some (k, False, True, r)" by (auto simp: cs b1)
  next
    fix t assume "t \<in> set (bi_pending b2)"
    with d(7) [of t] show "\<exists>k d r. cores b2 t = Some (k, d, False, r)" by (auto simp: cs b1)
  qed (use d(4,5) d(7) [of s] fresh in \<open>auto simp: b1\<close>)
qed

lemma inv_get:
  assumes i: "bindings_inv b"
  shows "bindings_inv (snd (getActorStore cn j b))"
proof -
  let ?inc = "\<lambda>st. st \<lparr> so_refCount := so_refCount st + 1 \<rparr>"
  have referenced: "bindings_inv (on_store s ?inc b1)" if "inv_but {s} b1" "\<And>k u r. cores b1 s = Some (k, False, u, r) \<Longrightarrow> 0 \<le> r" for s b1
  proof -
    note d = inv_butD [OF that(1)]
    have c: "cores (on_store s ?inc b1) t = (if t = s then map_option (\<lambda>(k, d, u, r). (k, d, u, r + 1)) (cores b1 s) else cores b1 t)" for t
      by (simp only: cores_on_store) (cases "map_get (bi_stores b1) s", simp_all add: cores_def core_def key_of_def)
    show ?thesis unfolding bindings_inv_def
    proof (rule inv_butI)
      fix t show "cores (on_store s ?inc b1) t \<noteq> None \<longleftrightarrow> t < length (bi_stores (on_store s ?inc b1))" using d(1) [of t] by (auto simp: c)
    next
      fix k t show "map_get (bi_registry (on_store s ?inc b1)) k = Some t \<longleftrightarrow> (\<exists>u r. cores (on_store s ?inc b1) t = Some (k, False, u, r))"
        unfolding on_store_frame d(2) c by auto
    next
      fix t k u r assume "cores (on_store s ?inc b1) t = Some (k, False, u, r)"
      then show "1 \<le> r" using d(3) [of t k u r] that(2) [of k u "r - 1"] by (auto simp: c split: if_splits)
    next
      fix t assume "t \<in> set (bi_open (on_store s ?inc b1))"
      with d(6) [of t] show "\<exists>k r. cores (on_store s ?inc b1) t = Some (k, False, True, r)" by (auto simp: c)
    next
      fix t assume "t \<in> set (bi_pending (on_store s ?inc b1))"
      with d(7) [of t] show "\<exists>k d r. cores (on_store s ?inc b1) t = Some (k, d, False, r)" by (auto simp: c)
    qed (use d(4,5) in simp_all)
  qed
  show ?thesis
  proof (cases "map_get (bi_registry b) (store_key cn j)")
    case (Some s)
    have "0 \<le> r" if "cores b s = Some (k, False, u, r)" for k u r
      using inv_butD(3) [OF i [unfolded bindings_inv_def]] that by fastforce
    then show ?thesis using referenced [OF inv_but_inv [OF i]] Some by (simp add: getActorStore_def)
  next
    case None
    obtain s b1 where c: "createActorStore cn j b = (s, b1)" by (cases "createActorStore cn j b")
    let ?b = "b1 \<lparr> bi_registry := map_set (store_key cn j) s (bi_registry b1) \<rparr>"
    have "cores ?b s = Some (store_key cn j, False, False, 0)"
      using c by (auto simp: createActorStore_def Let_def cores_def core_def key_of_def)
    then have "bindings_inv (on_store s ?inc ?b)" using referenced [OF inv_created [OF i None c refl]] by simp
    then show ?thesis using None c by (simp add: getActorStore_def)
  qed
qed

lemma inv_step: "bindings_inv b \<Longrightarrow> bindings_inv (binding_step same x b)"
  by (cases x) (simp_all add: binding_step_def inv_get inv_release inv_answer inv_destroy inv_but_inv
      same_core_inv [OF same_core_quiet(1)] same_core_inv [OF same_core_quiet(2)] same_core_inv [OF same_core_quiet(3)]
      same_core_inv [OF same_core_quiet(4)] same_core_inv [OF same_core_quiet(5)] same_core_inv [OF same_core_select_subscribe])

lemma inv_run: "bindings_inv b \<Longrightarrow> bindings_inv (binding_run same xs b)"
  unfolding binding_run_def by (induction xs arbitrary: b) (simp_all add: inv_step)

lemma inv_no_bindings: "bindings_inv no_bindings"
  unfolding bindings_inv_def by (rule inv_butI) (simp_all add: no_bindings_def cores_def)

section \<open>Properties\<close>

text \<open>
  C38. Components share one upstream subscription per actor and none leaks: after any sequence of
  acquiring, releasing, destroying, listening and answers of the server, two live stores of an actor
  are the same store, an upstream subscription that is open belongs to a live store and is open
  once, and a store without references is destroyed and has no open subscription.
\<close>

theorem store_shared_and_closed:
  assumes "b = binding_run same xs no_bindings" and "map_get (bi_stores b) s = Some st"
  shows "(\<not> so_destroyed st \<longrightarrow> (\<forall>s' st'. map_get (bi_stores b) s' = Some st' \<and> \<not> so_destroyed st'
        \<and> so_class st' = so_class st \<and> so_id st' = so_id st \<longrightarrow> s' = s))
    \<and> (s \<in> set (bi_open b) \<longrightarrow> \<not> so_destroyed st) \<and> distinct (bi_open b)
    \<and> (so_refCount st \<le> 0 \<longrightarrow> so_destroyed st \<and> s \<notin> set (bi_open b))"
proof -
  have "bindings_inv b" unfolding assms(1) by (rule inv_run [OF inv_no_bindings])
  note d = inv_butD [OF this [unfolded bindings_inv_def]]
  have c: "cores b s = Some (key_of st, so_destroyed st, so_unsubscribe st, so_refCount st)"
    using assms(2) by (simp add: cores_def core_def)
  have same: "s' = s" if "map_get (bi_stores b) s' = Some st'" "\<not> so_destroyed st'" "so_class st' = so_class st" "so_id st' = so_id st" "\<not> so_destroyed st" for s' st'
  proof -
    have "cores b s' = Some (key_of st, False, so_unsubscribe st', so_refCount st')"
      using that by (simp add: cores_def core_def key_of_def)
    then have "map_get (bi_registry b) (key_of st) = Some s'" using d(2) by blast
    moreover have "map_get (bi_registry b) (key_of st) = Some s" using d(2) c that(5) by auto
    ultimately show ?thesis by simp
  qed
  have opened: "\<not> so_destroyed st" if "s \<in> set (bi_open b)" using d(6) [OF that] c by auto
  have "1 \<le> so_refCount st" if "\<not> so_destroyed st" using d(3) [of s] c that by simp
  then show ?thesis using same opened d(4) by fastforce
qed

theorem store_shared_and_closed_witness:
  "case binding_run (=) [OpGet ''Cart'' ''1'', OpGet ''Cart'' ''1'', OpAnswer 0 (Inr ()), OpRelease 0, OpRelease 0, OpGet ''Cart'' ''1''] no_bindings of
     b \<Rightarrow> \<exists>st. map_get (bi_stores b) 0 = Some st \<and> so_destroyed st \<and> 0 \<notin> set (bi_open b) \<and> map_get (bi_registry b) ''Cart:1'' = Some 1"
proof -
  let ?xs = "[OpGet ''Cart'' ''1'', OpGet ''Cart'' ''1'', OpAnswer 0 (Inr ()), OpRelease 0, OpRelease 0, OpGet ''Cart'' ''1'']"
  let ?b = "binding_run (=) ?xs no_bindings"
  have "map_get (bi_registry ?b) ''Cart:1'' = Some 1" by code_simp
  moreover have "(case map_get (bi_stores ?b) 0 of Some st \<Rightarrow> so_refCount st = 0 | None \<Rightarrow> False)" by code_simp
  then obtain st where st: "map_get (bi_stores ?b) 0 = Some st" "so_refCount st \<le> 0"
    by (cases "map_get (bi_stores ?b) 0") auto
  moreover have "so_destroyed st \<and> 0 \<notin> set (bi_open ?b)" using store_shared_and_closed [OF refl st(1)] st(2) by blast
  ultimately show ?thesis by auto
qed

text \<open>Every plain listener of a live store hears of every state, in the order of subscription.\<close>

theorem listeners_hear_states:
  assumes "map_get (bi_stores b) s = Some st" and "so_listeners st = map Plain cs"
  shows "bi_fired (upstream_state same s v b) = bi_fired b @ cs
    \<and> (\<exists>st'. map_get (bi_stores (upstream_state same s v b)) s = Some st' \<and> so_snapshot st' = v \<and> so_status st' = Ready)"
proof -
  have f: "foldl (\<lambda>b l. run_listener same l b) b (map Plain cs) = b \<lparr> bi_fired := bi_fired b @ cs \<rparr>" for b
    by (induction cs arbitrary: b) (simp_all add: run_listener_def)
  show ?thesis using assms by (simp add: upstream_state_def run_listeners_def on_store_def f)
qed

text \<open>
  The last value is kept per selection, not per subscriber: of two subscribers of one selection only
  the first hears of a change.
\<close>

theorem second_selector_deaf:
  "bi_fired (binding_run (=) [OpGet ''Cart'' ''1'', OpAnswer 0 (Inr ()), OpState 0 (JNum 1), OpSelect 0 id,
      OpSelectSubscribe 0 7, OpSelectSubscribe 0 8, OpState 0 (JNum 2), OpState 0 (JNum 3)] no_bindings) = [7, 7]"
  by code_simp

text \<open>Every clean-up of Svelte's derived store releases the one reference: the first closes it for all.\<close>

theorem derived_store_over_released:
  "(let (s, k, b) = actorValue ''Cart'' ''1'' id no_bindings;
        b1 = subscribe_answered (=) s (Inr ()) b;
        b2 = snd (actorValue_subscribe (=) k 8 (snd (actorValue_subscribe (=) k 7 b1)));
        b3 = actorValue_cleanup s k 7 b2
    in (bi_open b2, bi_open b3, bi_fired (upstream_state (=) s (JNum 1) b3))) = ([0], [], [])"
  by code_simp

text \<open>A store whose subscribe call failed never asks again: it stays with its error and is still shared.\<close>

theorem failed_store_is_shared:
  "(let (s, b) = getActorStore ''Cart'' ''1'' no_bindings; b1 = subscribe_answered (=) s (Inl MailboxFullError) b;
        (s', b2) = getActorStore ''Cart'' ''1'' b1
    in (s' = s, bi_pending b2, useActor s' True b2)) = (True, [], ThrowsError MailboxFullError)"
  by code_simp

end
