(* ===== verification/ValkeyPg.thy ===== *)
theory ValkeyPg
  imports MemoryInbox MemoryReminders MemoryRegistry "HOL-Library.Char_ord" "HOL-Library.List_Lexorder"
begin

text \<open>
  The production driver (\<open>src/storage/valkey-pg.ts\<close>, \<open>codec.ts\<close>): one definition per method, each SQL
  statement and Valkey command as its effect on the tables of \<open>migrations/\<close> and on the keys of
  \<open>keys.ts\<close>. Ids are UUIDs, as the columns demand. The clock of both stores is \<open>vp_now\<close>.
\<close>

section \<open>Keys\<close>

definition actorHot_key :: "actor_id \<Rightarrow> string" where
  "actorHot_key i = ''actor:'' @ i @ '':hot''"

definition actorInbox_key :: "actor_id \<Rightarrow> string" where
  "actorInbox_key i = ''actor:'' @ i @ '':inbox''"

definition reminders_key :: string where
  "reminders_key = ''reminders''"

definition manifestCache_key :: "string \<Rightarrow> string" where
  "manifestCache_key sha = ''manifest:'' @ sha"

definition idempotency_key_of :: "string \<Rightarrow> string" where
  "idempotency_key_of key = ''idem:'' @ key"

text \<open>
  The five uses of the key space never meet, and within each different names have different keys, so
  that each can be a map of its own in the state below.
\<close>

lemma key_space:
  "actorHot_key i = actorHot_key j \<longleftrightarrow> i = j" "actorInbox_key i = actorInbox_key j \<longleftrightarrow> i = j"
  "manifestCache_key a = manifestCache_key b \<longleftrightarrow> a = b" "idempotency_key_of a = idempotency_key_of b \<longleftrightarrow> a = b"
  "distinct [actorHot_key i, actorInbox_key j, reminders_key, manifestCache_key a, idempotency_key_of b]"
proof -
  have "last (actorHot_key i) \<noteq> last (actorInbox_key j)" by (simp add: actorHot_key_def actorInbox_key_def)
  then have "actorHot_key i \<noteq> actorInbox_key j" by metis
  then show "distinct [actorHot_key i, actorInbox_key j, reminders_key, manifestCache_key a, idempotency_key_of b]"
    by (simp add: actorHot_key_def actorInbox_key_def reminders_key_def manifestCache_key_def idempotency_key_of_def)
qed (simp_all add: actorHot_key_def actorInbox_key_def manifestCache_key_def idempotency_key_of_def)

section \<open>State\<close>

text \<open>
  What a value becomes when it is stored: as JSON text and back, in a \<open>jsonb\<close> column and back (which
  forgets the order of keys), and the length of its gzipped JSON.
\<close>

record pg_codec =
  cd_json :: "jsval \<Rightarrow> jsval"
  cd_jsonb :: "jsval \<Rightarrow> jsval"
  cd_size :: "jsval \<Rightarrow> nat"

text \<open>A row of \<open>reminder\<close>; the members of the sorted set are pairs of its id and the message.\<close>

record pg_reminder =
  pr_id :: string
  pr_when :: ms
  pr_msg :: reminder_msg
  pr_delivered :: "ms option"

text \<open>A Valkey stream: its entries and the last id it gave, a time and a counter.\<close>

record stream =
  st_entries :: "((int \<times> nat) \<times> inbox_entry) list"
  st_last :: "int \<times> nat"

record pg_driver =
  vp_actors :: "(actor_id, actor_row) jsmap"
  vp_snapshots :: "(actor_id \<times> int, snapshot_row) jsmap"
  vp_events :: "event_record list"
  vp_reminders :: "pg_reminder list"
  vp_versions :: "class_version_record list"
  vp_blobs :: "(string, bytes) jsmap"
  vp_manifests :: "(string, resolved_manifest) jsmap"
  vp_audit :: "audit_entry list"
  vp_hot :: "(actor_id, snapshot_read \<times> ms option) jsmap"
  vp_inbox :: "(actor_id, stream) jsmap"
  vp_queue :: "(ms \<times> string \<times> reminder_msg) list"
  vp_manifestCache :: "(string, resolved_manifest) jsmap"
  vp_idempotency :: "(string, jsval \<times> ms \<times> ms) jsmap"
  vp_oversized :: nat
  vp_hotTtl :: int
  vp_now :: ms

section \<open>Actors\<close>

definition pg_registerActor ::
  "actor_id \<Rightarrow> class_name \<Rightarrow> version \<Rightarrow> (string, string) jsmap \<Rightarrow> pg_driver \<Rightarrow> pg_driver" where
  "pg_registerActor i cn v tags d = d \<lparr> vp_actors := map_set i (case map_get (vp_actors d) i of
      Some r \<Rightarrow> r \<lparr> ar_class := cn, ar_version := v, ar_tags := tags \<rparr>
    | None \<Rightarrow> \<lparr> ar_class = cn, ar_version = v, ar_createdAt = vp_now d, ar_lastActiveAt = None,
        ar_tombstonedAt = None, ar_tags = tags, ar_fence = 0 \<rparr>) (vp_actors d) \<rparr>"

definition pg_update_actor :: "actor_id \<Rightarrow> (actor_row \<Rightarrow> actor_row) \<Rightarrow> pg_driver \<Rightarrow> pg_driver" where
  "pg_update_actor i f d = (case map_get (vp_actors d) i of
      None \<Rightarrow> d | Some r \<Rightarrow> d \<lparr> vp_actors := map_set i (f r) (vp_actors d) \<rparr>)"

definition pg_tombstoneActor :: "actor_id \<Rightarrow> pg_driver \<Rightarrow> pg_driver" where
  "pg_tombstoneActor i d = (let d1 = pg_update_actor i (\<lambda>r. r \<lparr> ar_tombstonedAt := Some (vp_now d) \<rparr>) d
     in d1 \<lparr> vp_hot := map_delete i (vp_hot d1) \<rparr>)"

definition pg_loadActorFence :: "actor_id \<Rightarrow> pg_driver \<Rightarrow> int" where
  "pg_loadActorFence i d = (case map_get (vp_actors d) i of Some r \<Rightarrow> ar_fence r | None \<Rightarrow> 0)"

text \<open>The update is conditional on the fence: a row count of zero is a stale token.\<close>

definition pg_bumpActorFence :: "actor_id \<Rightarrow> int \<Rightarrow> pg_driver \<Rightarrow> (error + int) \<times> pg_driver" where
  "pg_bumpActorFence i expected d = (
     let next = expected + 1 in
     case map_get (vp_actors d) i of
       Some r \<Rightarrow> if ar_fence r = expected then (Inr next, pg_update_actor i (\<lambda>r. r \<lparr> ar_fence := next \<rparr>) d)
                 else (Inl (StaleFenceTokenError i expected (pg_loadActorFence i d)), d)
     | None \<Rightarrow> (Inl (StaleFenceTokenError i expected (pg_loadActorFence i d)), d))"

definition pg_assertFence :: "actor_id \<Rightarrow> int option \<Rightarrow> pg_driver \<Rightarrow> error + unit" where
  "pg_assertFence i expected d = (case expected of
      None \<Rightarrow> Inr ()
    | Some e \<Rightarrow> if pg_loadActorFence i d \<noteq> e then Inl (StaleFenceTokenError i e (pg_loadActorFence i d)) else Inr ())"

section \<open>Snapshots\<close>

definition SNAPSHOT_SIZE_WARN_BYTES :: nat where
  "SNAPSHOT_SIZE_WARN_BYTES = 64 * 1024"

definition isOversizedSnapshot :: "nat \<Rightarrow> bool" where
  "isOversizedSnapshot n \<longleftrightarrow> SNAPSHOT_SIZE_WARN_BYTES < n"

text \<open>A key that has expired is not there.\<close>

definition hot_get :: "actor_id \<Rightarrow> pg_driver \<Rightarrow> snapshot_read option" where
  "hot_get i d = (case map_get (vp_hot d) i of
      None \<Rightarrow> None
    | Some (s, None) \<Rightarrow> Some s
    | Some (s, Some t) \<Rightarrow> if vp_now d < t then Some s else None)"

definition writeHotCache :: "pg_codec \<Rightarrow> actor_id \<Rightarrow> snapshot_read \<Rightarrow> pg_driver \<Rightarrow> pg_driver" where
  "writeHotCache cd i s d = d \<lparr> vp_hot := map_set i (s \<lparr> sr_state := cd_json cd (sr_state s) \<rparr>,
      if 0 < vp_hotTtl d then Some (vp_now d + vp_hotTtl d * 1000) else None) (vp_hot d) \<rparr>"

text \<open>The join of the newest snapshot row with its actor.\<close>

definition newest_row :: "actor_id \<Rightarrow> pg_driver \<Rightarrow> snapshot_read option" where
  "newest_row i d = (case map_get (vp_actors d) i of
      None \<Rightarrow> None
    | Some a \<Rightarrow> (case best_key (map (\<lambda>p. snd (fst p)) (filter (\<lambda>p. fst (fst p) = i) (vp_snapshots d))) of
        None \<Rightarrow> None
      | Some q \<Rightarrow> (case map_get (vp_snapshots d) (i, q) of
          None \<Rightarrow> None
        | Some r \<Rightarrow> Some \<lparr> sr_class = ar_class a, sr_version = sn_version r, sr_seq = q, sr_state = sn_state r \<rparr>)))"

definition pg_loadSnapshot :: "pg_codec \<Rightarrow> actor_id \<Rightarrow> pg_driver \<Rightarrow> snapshot_read option \<times> pg_driver" where
  "pg_loadSnapshot cd i d = (case hot_get i d of
      Some s \<Rightarrow> (Some s, d)
    | None \<Rightarrow> (case newest_row i d of
        None \<Rightarrow> (None, d)
      | Some s \<Rightarrow> (Some s, writeHotCache cd i s d)))"

definition upsert_snapshot :: "actor_id \<Rightarrow> int \<Rightarrow> snapshot_row \<Rightarrow> pg_driver \<Rightarrow> pg_driver" where
  "upsert_snapshot i q row d = d \<lparr> vp_snapshots := map_set (i, q) row (vp_snapshots d) \<rparr>"

text \<open>A snapshot of an unknown actor violates the foreign key; an undefined state is no JSON text.\<close>

definition pg_saveSnapshot ::
  "pg_codec \<Rightarrow> actor_id \<Rightarrow> snapshot_write \<Rightarrow> int option \<Rightarrow> pg_driver \<Rightarrow> (error + unit) \<times> pg_driver" where
  "pg_saveSnapshot cd i snap expected d = (case pg_assertFence i expected d of
      Inl e \<Rightarrow> (Inl e, d)
    | Inr _ \<Rightarrow>
       if sw_state snap = JUndefined then (Inl (TypeError ''The first argument must be of type string''), d)
       else
         let d0 = (if isOversizedSnapshot (cd_size cd (sw_state snap)) then d \<lparr> vp_oversized := vp_oversized d + 1 \<rparr> else d) in
         case map_get (vp_actors d0) i of
           None \<Rightarrow> (Inl (DriverError ''foreign key''), d0)
         | Some a \<Rightarrow>
            let row = \<lparr> sn_ts = vp_now d0, sn_version = sw_version snap, sn_state = cd_json cd (sw_state snap) \<rparr>;
                d1 = upsert_snapshot i (sw_seq snap) row d0;
                d2 = pg_update_actor i (\<lambda>r. r \<lparr> ar_lastActiveAt := Some (vp_now d0) \<rparr>) d1
            in (Inr (), writeHotCache cd i \<lparr> sr_class = ar_class a, sr_version = sw_version snap,
                  sr_seq = sw_seq snap, sr_state = sw_state snap \<rparr> d2))"

section \<open>Events\<close>

text \<open>\<open>COALESCE(MAX(seq), 0)\<close>.\<close>

definition max_seq :: "int list \<Rightarrow> int" where
  "max_seq qs = (case qs of [] \<Rightarrow> 0 | q # qs \<Rightarrow> foldl max q qs)"

text \<open>The rows \<open>WHERE actor_id = i\<close>, as they were inserted.\<close>

definition events_of_actor :: "actor_id \<Rightarrow> pg_driver \<Rightarrow> event_record list" where
  "events_of_actor i d = filter (\<lambda>r. er_actor r = i) (vp_events d)"

definition pg_headEventSeq :: "actor_id \<Rightarrow> pg_driver \<Rightarrow> int" where
  "pg_headEventSeq i d = max_seq (map er_seq (events_of_actor i d))"

text \<open>The transaction reads the head and the version, then inserts; \<open>t\<close> is when it began.\<close>

definition append_begin :: "actor_id \<Rightarrow> pg_driver \<Rightarrow> (int \<times> version \<times> ms) option" where
  "append_begin i d = (case map_get (vp_actors d) i of
      None \<Rightarrow> None | Some a \<Rightarrow> Some (pg_headEventSeq i d, ar_version a, vp_now d))"

fun insert_events :: "pg_codec \<Rightarrow> actor_id \<Rightarrow> version \<Rightarrow> ms \<Rightarrow> int \<Rightarrow> event_write list \<Rightarrow> event_record list \<Rightarrow> error + int \<times> event_record list" where
  "insert_events cd i v t q [] rows = Inr (q, rows)"
| "insert_events cd i v t q (e # es) rows = (
     if ew_payload e = JUndefined then Inl (DriverError ''null value in column payload'')
     else if list_ex (\<lambda>r. er_actor r = i \<and> er_seq r = q + 1 \<and> er_ts r = t) rows then Inl (DriverError ''duplicate key'')
     else insert_events cd i v t (q + 1) es (rows @ [\<lparr> er_actor = i, er_seq = q + 1, er_ts = t, er_version = v, er_type = ew_type e,
            er_payload = cd_jsonb cd (ew_payload e), er_causation = ew_causation e \<rparr>]))"

definition append_commit :: "pg_codec \<Rightarrow> actor_id \<Rightarrow> event_write list \<Rightarrow> int \<times> version \<times> ms \<Rightarrow> pg_driver \<Rightarrow> (error + int) \<times> pg_driver" where
  "append_commit cd i es begun d = (case begun of (q, v, t) \<Rightarrow>
     (case insert_events cd i v t q es (vp_events d) of
        Inl e \<Rightarrow> (Inl e, d)
      | Inr (s, rows) \<Rightarrow> (Inr s, d \<lparr> vp_events := rows \<rparr>)))"

definition pg_appendEvents ::
  "pg_codec \<Rightarrow> actor_id \<Rightarrow> event_write list \<Rightarrow> int option \<Rightarrow> pg_driver \<Rightarrow> (error + int) \<times> pg_driver" where
  "pg_appendEvents cd i es expected d = (case pg_assertFence i expected d of
      Inl e \<Rightarrow> (Inl e, d)
    | Inr _ \<Rightarrow>
       if es = [] then (Inr (pg_headEventSeq i d), d)
       else (case append_begin i d of
          None \<Rightarrow> (Inl (PlainError (''appendEvents: unknown actor '' @ i)), d)
        | Some begun \<Rightarrow> append_commit cd i es begun d))"

definition pg_readEvents :: "actor_id \<Rightarrow> int \<Rightarrow> pg_driver \<Rightarrow> event_record list" where
  "pg_readEvents i from d = sort_key er_seq (filter (\<lambda>r. from \<le> er_seq r) (events_of_actor i d))"

section \<open>The inbox stream\<close>

definition stream_of :: "actor_id \<Rightarrow> pg_driver \<Rightarrow> stream" where
  "stream_of i d = (case map_get (vp_inbox d) i of Some s \<Rightarrow> s | None \<Rightarrow> \<lparr> st_entries = [], st_last = (0, 0) \<rparr>)"

text \<open>\<open>XADD *\<close>: the time, or the last id's time with the next counter when the clock is behind.\<close>

definition next_id :: "ms \<Rightarrow> int \<times> nat \<Rightarrow> int \<times> nat" where
  "next_id t l = (if fst l < t then (t, 0) else (fst l, snd l + 1))"

definition show_id :: "int \<times> nat \<Rightarrow> string" where
  "show_id x = show_int (fst x) @ CHR ''-'' # show_nat (snd x)"

definition xadd :: "actor_id \<Rightarrow> inbox_entry \<Rightarrow> pg_driver \<Rightarrow> string \<times> pg_driver" where
  "xadd i e d = (let s = stream_of i d; x = next_id (vp_now d) (st_last s) in
     (show_id x, d \<lparr> vp_inbox := map_set i \<lparr> st_entries = st_entries s @ [(x, e)], st_last = x \<rparr> (vp_inbox d) \<rparr>))"

definition pg_appendInbox :: "pg_codec \<Rightarrow> actor_id \<Rightarrow> inbox_entry \<Rightarrow> pg_driver \<Rightarrow> (error + string) \<times> pg_driver" where
  "pg_appendInbox cd i e d = (
     if ie_payload e = JUndefined then (Inl (TypeError ''Invalid argument type''), d)
     else (let (k, d') = xadd i (e \<lparr> ie_payload := cd_json cd (ie_payload e) \<rparr>) d in (Inr k, d')))"

definition pg_readPendingInbox :: "actor_id \<Rightarrow> int \<Rightarrow> pg_driver \<Rightarrow> inbox_record list" where
  "pg_readPendingInbox i limit d =
     map (\<lambda>(x, e). \<lparr> ir_id = show_id x, ir_entry = e \<rparr>) (take (nat limit) (st_entries (stream_of i d)))"

definition pg_ackInbox :: "actor_id \<Rightarrow> string list \<Rightarrow> pg_driver \<Rightarrow> pg_driver" where
  "pg_ackInbox i ids d = (
     if ids = [] then d
     else case map_get (vp_inbox d) i of
        None \<Rightarrow> d
      | Some s \<Rightarrow> d \<lparr> vp_inbox := map_set i (s \<lparr> st_entries := filter (\<lambda>(x, e). show_id x \<notin> set ids) (st_entries s) \<rparr>) (vp_inbox d) \<rparr>)"

definition pg_pendingInboxCount :: "actor_id \<Rightarrow> pg_driver \<Rightarrow> nat" where
  "pg_pendingInboxCount i d = length (st_entries (stream_of i d))"

section \<open>Reminders\<close>

text \<open>\<open>ZADD\<close>: a member that is there gets the score, a new one is added.\<close>

definition zadd :: "ms \<Rightarrow> string \<times> reminder_msg \<Rightarrow> (ms \<times> string \<times> reminder_msg) list \<Rightarrow> (ms \<times> string \<times> reminder_msg) list" where
  "zadd t m q = (if m \<in> snd ` set q then map (\<lambda>p. if snd p = m then (t, m) else p) q else q @ [(t, m)])"

definition stored_msg :: "(jsval \<Rightarrow> jsval) \<Rightarrow> reminder_msg \<Rightarrow> reminder_msg" where
  "stored_msg f m = m \<lparr> rm_payload := f (rm_payload m) \<rparr>"

definition pg_enqueueReminder :: "pg_codec \<Rightarrow> string \<Rightarrow> ms \<Rightarrow> reminder_msg \<Rightarrow> pg_driver \<Rightarrow> (error + unit) \<times> pg_driver" where
  "pg_enqueueReminder cd uuid t msg d = (
     if rm_payload msg = JUndefined then (Inl (DriverError ''null value in column payload''), d)
     else (Inr (), d \<lparr> vp_reminders := vp_reminders d @ [\<lparr> pr_id = uuid, pr_when = t, pr_msg = stored_msg (cd_jsonb cd) msg, pr_delivered = None \<rparr>],
                       vp_queue := zadd t (uuid, stored_msg (cd_json cd) msg) (vp_queue d) \<rparr>))"

text \<open>The script: the due members in the order of score and member, removed from the set.\<close>

definition due_members :: "ms \<Rightarrow> nat \<Rightarrow> (ms \<times> string \<times> reminder_msg) list \<Rightarrow> (ms \<times> string \<times> reminder_msg) list" where
  "due_members t limit q = take limit (sort_key (\<lambda>p. (fst p, fst (snd p))) (filter (\<lambda>p. fst p \<le> t) q))"

definition pop_members :: "ms \<Rightarrow> nat \<Rightarrow> pg_driver \<Rightarrow> (ms \<times> string \<times> reminder_msg) list \<times> pg_driver" where
  "pop_members t limit d = (let ms = due_members t limit (vp_queue d) in
     (ms, d \<lparr> vp_queue := filter (\<lambda>p. p \<notin> set ms) (vp_queue d) \<rparr>))"

definition mark_delivered :: "string list \<Rightarrow> pg_driver \<Rightarrow> pg_driver" where
  "mark_delivered ids d = d \<lparr> vp_reminders := map (\<lambda>r. if pr_id r \<in> set ids then r \<lparr> pr_delivered := Some (vp_now d) \<rparr> else r) (vp_reminders d) \<rparr>"

definition pg_popDueReminders :: "ms \<Rightarrow> nat \<Rightarrow> pg_driver \<Rightarrow> reminder_msg list \<times> pg_driver" where
  "pg_popDueReminders t limit d = (let (ms, d1) = pop_members t limit d in
     if ms = [] then ([], d1) else (map (\<lambda>p. snd (snd p)) ms, mark_delivered (map (\<lambda>p. fst (snd p)) ms) d1))"

text \<open>The rows that were not delivered go back into the set, as their columns have them.\<close>

definition recoverReminders :: "pg_codec \<Rightarrow> pg_driver \<Rightarrow> pg_driver" where
  "recoverReminders cd d = d \<lparr> vp_queue := foldl (\<lambda>q r. zadd (pr_when r) (pr_id r, stored_msg (cd_json cd) (pr_msg r)) q)
     (vp_queue d) (filter (\<lambda>r. pr_delivered r = None) (vp_reminders d)) \<rparr>"

section \<open>Class versions\<close>

text \<open>\<open>sha\<close> is the hex digest; a taken name and version rolls the transaction back.\<close>

definition pg_publishClass :: "(bytes \<Rightarrow> string) \<Rightarrow> publish_class_input \<Rightarrow> pg_driver \<Rightarrow> (error + unit) \<times> pg_driver" where
  "pg_publishClass sha input d = (
     let h = sha (pc_source input);
         blobs = (if map_has (vp_blobs d) h then vp_blobs d else map_set h (pc_source input) (vp_blobs d))
     in if list_ex (\<lambda>r. cv_name r = pc_name input \<and> cv_version r = pc_version input) (vp_versions d)
        then (Inl (VersionAlreadyPublishedError (pc_name input) (pc_version input)), d)
        else (Inr (), d \<lparr> vp_blobs := blobs, vp_versions := vp_versions d @
          [\<lparr> cv_name = pc_name input, cv_version = pc_version input, cv_sha = h, cv_deps = pc_deps input,
             cv_engines = pc_engines input, cv_publishedAt = vp_now d, cv_deprecatedAt = None, cv_graceUntil = None,
             cv_signedBy = map_option sg_signedBy (pc_signature input),
             cv_floating = (case pc_floating input of Some b \<Rightarrow> b | None \<Rightarrow> False),
             cv_eventSourced = (case pc_eventSourced input of Some b \<Rightarrow> b | None \<Rightarrow> False) \<rparr>] \<rparr>))"

definition pg_getClassSource :: "class_name \<Rightarrow> version \<Rightarrow> pg_driver \<Rightarrow> bytes option" where
  "pg_getClassSource n v d = (case filter (\<lambda>r. cv_name r = n \<and> cv_version r = v) (vp_versions d) of
      [] \<Rightarrow> None | r # _ \<Rightarrow> map_get (vp_blobs d) (cv_sha r))"

text \<open>A signer's name that is empty reads as no signer.\<close>

definition pg_listClassVersions :: "class_name \<Rightarrow> pg_driver \<Rightarrow> class_version_record list" where
  "pg_listClassVersions n d = map (\<lambda>r. r \<lparr> cv_signedBy := (if cv_signedBy r = Some [] then None else cv_signedBy r) \<rparr>)
     (sort_key cv_publishedAt (filter (\<lambda>r. cv_name r = n) (vp_versions d)))"

text \<open>\<open>graceUntil ? new Date(graceUntil) : null\<close>: zero is no deadline.\<close>

definition pg_deprecateClassVersion :: "class_name \<Rightarrow> version \<Rightarrow> ms option \<Rightarrow> pg_driver \<Rightarrow> pg_driver" where
  "pg_deprecateClassVersion n v graceUntil d = d \<lparr> vp_versions := map (\<lambda>r.
     if cv_name r = n \<and> cv_version r = v
     then r \<lparr> cv_deprecatedAt := Some (vp_now d), cv_graceUntil := (if graceUntil = Some 0 then None else graceUntil) \<rparr>
     else r) (vp_versions d) \<rparr>"

section \<open>Manifests, idempotency, audit\<close>

definition pg_loadManifest :: "string \<Rightarrow> pg_driver \<Rightarrow> resolved_manifest option \<times> pg_driver" where
  "pg_loadManifest sha d = (case map_get (vp_manifestCache d) sha of
      Some m \<Rightarrow> (Some m, d)
    | None \<Rightarrow> (case map_get (vp_manifests d) sha of
        None \<Rightarrow> (None, d)
      | Some m \<Rightarrow> (Some m, d \<lparr> vp_manifestCache := map_set sha m (vp_manifestCache d) \<rparr>)))"

definition pg_saveManifest :: "string \<Rightarrow> resolved_manifest \<Rightarrow> pg_driver \<Rightarrow> pg_driver" where
  "pg_saveManifest sha m d = d \<lparr>
     vp_manifests := (if map_has (vp_manifests d) sha then vp_manifests d else map_set sha m (vp_manifests d)),
     vp_manifestCache := map_set sha m (vp_manifestCache d) \<rparr>"

definition pg_loadIdempotency :: "string \<Rightarrow> pg_driver \<Rightarrow> idempotency_record option" where
  "pg_loadIdempotency key d = (case map_get (vp_idempotency d) key of
      None \<Rightarrow> None
    | Some (resp, storedAt, expires) \<Rightarrow> if vp_now d < expires
        then Some \<lparr> im_key = key, im_response = resp, im_storedAt = storedAt \<rparr> else None)"

text \<open>\<open>PX\<close> must be positive.\<close>

definition pg_saveIdempotency :: "pg_codec \<Rightarrow> string \<Rightarrow> jsval \<Rightarrow> ms \<Rightarrow> pg_driver \<Rightarrow> (error + unit) \<times> pg_driver" where
  "pg_saveIdempotency cd key resp ttl d = (
     if ttl \<le> 0 then (Inl (DriverError ''ERR invalid expire time in set''), d)
     else (Inr (), d \<lparr> vp_idempotency := map_set key (cd_json cd resp, vp_now d, vp_now d + ttl) (vp_idempotency d) \<rparr>))"

definition pg_appendAudit :: "string \<Rightarrow> audit_entry \<Rightarrow> pg_driver \<Rightarrow> (error + unit) \<times> pg_driver" where
  "pg_appendAudit uuid e d = (let x = (if ae_id e = [] then uuid else ae_id e) in
     if x \<in> ae_id ` set (vp_audit d) then (Inl (DriverError ''duplicate key''), d)
     else (Inr (), d \<lparr> vp_audit := vp_audit d @ [e \<lparr> ae_id := x \<rparr>] \<rparr>))"

end
