(* ===== verification/ValkeyPgLaws.thy ===== *)
theory ValkeyPgLaws
  imports ValkeyPg
begin

text \<open>
  The production driver keeps the contract of \<open>StorageContract\<close> in its tables and its streams: its event
  table interprets \<open>event_log\<close>, its snapshot table \<open>snapshot_slot\<close>, an actor's stream \<open>durable_inbox\<close>.
  Then how it agrees with the memory driver, and where the cache in front of the snapshots does not.
\<close>

section \<open>The event table\<close>

definition pg_log_inv :: "pg_driver \<Rightarrow> bool" where
  "pg_log_inv d \<longleftrightarrow> (\<forall>i. map er_seq (events_of_actor i d) = [1..int (length (events_of_actor i d))])"

lemma max_seq_snoc: "0 \<le> q \<Longrightarrow> max_seq (qs @ [q]) = max (max_seq qs) q"
  by (simp add: max_seq_def split: list.splits)

lemma max_seq_upto: "max_seq [1..int n] = int n"
proof (induction n)
  case (Suc n)
  have "[1..int (Suc n)] = [1..int n] @ [int (Suc n)]" by (simp add: upto_rec2)
  with Suc show ?case by (simp add: max_seq_snoc)
qed (simp add: max_seq_def)

lemma head_of_log: "pg_log_inv d \<Longrightarrow> pg_headEventSeq i d = int (length (events_of_actor i d))"
  by (simp add: pg_headEventSeq_def pg_log_inv_def max_seq_upto)

text \<open>The rows an append inserts.\<close>

definition pg_new_rows :: "pg_codec \<Rightarrow> actor_id \<Rightarrow> version \<Rightarrow> ms \<Rightarrow> int \<Rightarrow> event_write list \<Rightarrow> event_record list" where
  "pg_new_rows cd i v t q es = map2 (\<lambda>k e. \<lparr> er_actor = i, er_seq = k, er_ts = t, er_version = v, er_type = ew_type e,
     er_payload = cd_jsonb cd (ew_payload e), er_causation = ew_causation e \<rparr>) [q + 1..q + int (length es)] es"

lemma pg_new_rows_Cons:
  "pg_new_rows cd i v t q (e # es) = \<lparr> er_actor = i, er_seq = q + 1, er_ts = t, er_version = v, er_type = ew_type e,
     er_payload = cd_jsonb cd (ew_payload e), er_causation = ew_causation e \<rparr> # pg_new_rows cd i v t (q + 1) es"
proof -
  have "[q + 1..q + int (length (e # es))] = (q + 1) # [q + 1 + 1..q + 1 + int (length es)]"
    by (simp add: upto_rec1 algebra_simps)
  then show ?thesis by (simp add: pg_new_rows_def)
qed

lemma pg_new_rows_facts:
  "length (pg_new_rows cd i v t q es) = length es"
  "map er_seq (pg_new_rows cd i v t q es) = [q + 1..q + int (length es)]"
  "filter (\<lambda>r. er_actor r = j) (pg_new_rows cd i v t q es) = (if j = i then pg_new_rows cd i v t q es else [])"
proof -
  show "length (pg_new_rows cd i v t q es) = length es" by (simp add: pg_new_rows_def)
  show "map er_seq (pg_new_rows cd i v t q es) = [q + 1..q + int (length es)]"
  proof (induction es arbitrary: q)
    case (Cons e es)
    then show ?case by (simp add: pg_new_rows_Cons upto_rec1 algebra_simps)
  qed (simp add: pg_new_rows_def)
  have "\<forall>r\<in>set (pg_new_rows cd i v t q es). er_actor r = i"
    by (induction es arbitrary: q) (auto simp: pg_new_rows_Cons, simp add: pg_new_rows_def)
  then show "filter (\<lambda>r. er_actor r = j) (pg_new_rows cd i v t q es) = (if j = i then pg_new_rows cd i v t q es else [])"
    by (auto simp: filter_empty_conv filter_id_conv)
qed

lemma insert_events_rows:
  "insert_events cd i v t q es rows = Inr (s, rows') \<Longrightarrow> rows' = rows @ pg_new_rows cd i v t q es \<and> s = q + int (length es)"
proof (induction cd i v t q es rows rule: insert_events.induct)
  case (1 cd i v t q rows)
  then show ?case by (simp add: pg_new_rows_def)
next
  case (2 cd i v t q e es rows)
  then show ?case by (auto simp: pg_new_rows_Cons split: if_splits)
qed

lemma pg_appendEvents_ok:
  assumes "pg_appendEvents cd i es f d = (Inr s, d')"
  shows "es = [] \<and> d' = d \<and> s = pg_headEventSeq i d
    \<or> (\<exists>a. map_get (vp_actors d) i = Some a \<and> s = pg_headEventSeq i d + int (length es)
        \<and> d' = d \<lparr> vp_events := vp_events d @ pg_new_rows cd i (ar_version a) (vp_now d) (pg_headEventSeq i d) es \<rparr>)"
  using assms insert_events_rows
  by (fastforce simp: pg_appendEvents_def append_begin_def append_commit_def split: sum.splits if_splits option.splits)

lemma pg_appendEvents_err: "pg_appendEvents cd i es f d = (Inl e, d') \<Longrightarrow> d' = d"
  by (auto simp: pg_appendEvents_def append_begin_def append_commit_def split: sum.splits if_splits option.splits)

lemma events_after:
  "events_of_actor j (d \<lparr> vp_events := vp_events d @ pg_new_rows cd i v t q es \<rparr>)
   = events_of_actor j d @ (if j = i then pg_new_rows cd i v t q es else [])"
  by (simp add: events_of_actor_def pg_new_rows_facts)

lemma pg_log_inv_append: "pg_log_inv d \<Longrightarrow> pg_log_inv (snd (pg_appendEvents cd i es f d))"
proof -
  assume inv: "pg_log_inv d"
  obtain r d' where ap: "pg_appendEvents cd i es f d = (r, d')" by (cases "pg_appendEvents cd i es f d")
  show ?thesis
  proof (cases r)
    case (Inl e)
    with ap pg_appendEvents_err inv show ?thesis by (metis snd_conv)
  next
    case (Inr s)
    from pg_appendEvents_ok [OF ap [unfolded Inr]] show ?thesis
    proof (elim disjE exE conjE)
      assume "d' = d"
      then show ?thesis using inv ap by simp
    next
      fix a
      assume d': "d' = d \<lparr> vp_events := vp_events d @ pg_new_rows cd i (ar_version a) (vp_now d) (pg_headEventSeq i d) es \<rparr>"
      let ?n = "length (events_of_actor i d)"
      have "[1..int ?n] @ [int ?n + 1..int ?n + int (length es)] = [1..int ?n + int (length es)]"
        by (rule upto_append [symmetric]) simp_all
      then show ?thesis using inv ap
        by (auto simp: pg_log_inv_def d' events_after pg_new_rows_facts head_of_log [OF inv])
    qed
  qed
qed

lemma pg_appendEvents_log:
  assumes "pg_log_inv d" and "pg_appendEvents cd i es f d = (Inr s, d')"
  shows "\<exists>new. events_of_actor i d' = events_of_actor i d @ new \<and> length new = length es \<and> s = pg_headEventSeq i d'"
proof -
  have inv': "pg_log_inv d'" using pg_log_inv_append [OF assms(1), of cd i es f] assms(2) by simp
  from pg_appendEvents_ok [OF assms(2)] show ?thesis
    by (auto simp: head_of_log [OF inv'] head_of_log [OF assms(1)] events_after pg_new_rows_facts)
qed

lemma pg_append_other: "i \<noteq> j \<Longrightarrow> events_of_actor j (snd (pg_appendEvents cd i es f d)) = events_of_actor j d"
proof -
  assume "i \<noteq> j"
  moreover obtain r d' where "pg_appendEvents cd i es f d = (r, d')" by (cases "pg_appendEvents cd i es f d")
  ultimately show ?thesis
    by (cases r) (auto dest!: pg_appendEvents_ok pg_appendEvents_err simp: events_after)
qed

lemma pg_readEvents_log: "pg_log_inv d \<Longrightarrow> pg_readEvents i from d = filter (\<lambda>r. from \<le> er_seq r) (events_of_actor i d)"
proof -
  assume "pg_log_inv d"
  then have "sorted (map er_seq (events_of_actor i d))" unfolding pg_log_inv_def by (metis sorted_upto)
  then show ?thesis by (simp add: pg_readEvents_def sorted_sort_id sorted_filter sort_key_id_if_sorted)
qed

interpretation pg_log: event_log pg_log_inv events_of_actor er_seq "pg_appendEvents cd" pg_readEvents pg_headEventSeq for cd
proof
  fix d i assume "pg_log_inv d"
  then show "map er_seq (events_of_actor i d) = [1..pg_headEventSeq i d]"
    by (simp add: head_of_log) (simp add: pg_log_inv_def)
qed (fact pg_log_inv_append head_of_log pg_readEvents_log pg_appendEvents_log pg_appendEvents_err pg_append_other)+

section \<open>The snapshot table\<close>

text \<open>The rows of an actor by seq.\<close>

definition pg_snaps_of :: "actor_id \<Rightarrow> pg_driver \<Rightarrow> (int, snapshot_row) jsmap" where
  "pg_snaps_of i d = map (\<lambda>p. (snd (fst p), snd p)) (filter (\<lambda>p. fst (fst p) = i) (vp_snapshots d))"

lemma pg_snaps_get [simp]: "map_get (pg_snaps_of i d) q = map_get (vp_snapshots d) (i, q)"
proof -
  have "map_get (map (\<lambda>p. (snd (fst p), snd p)) (filter (\<lambda>p. fst (fst p) = i) m)) q = map_get m (i, q)"
    for m :: "(actor_id \<times> int, snapshot_row) jsmap"
    by (induction m) auto
  then show ?thesis by (simp add: pg_snaps_of_def)
qed

lemma newest_row_eq:
  "newest_row i d = (case map_get (vp_actors d) i of
      None \<Rightarrow> None
    | Some a \<Rightarrow> (case best_key (map fst (pg_snaps_of i d)) of
        None \<Rightarrow> None
      | Some q \<Rightarrow> map_option (\<lambda>r. \<lparr> sr_class = ar_class a, sr_version = sn_version r, sr_seq = q, sr_state = sn_state r \<rparr>)
          (map_get (pg_snaps_of i d) q)))"
  by (simp add: newest_row_def pg_snaps_of_def o_def pg_snaps_get [unfolded pg_snaps_of_def] split: option.split)

text \<open>The scan for the newest key depends only on which keys there are.\<close>

lemma best_key_cong: "set ks = set ks' \<Longrightarrow> best_key ks = best_key ks'"
proof (cases "best_key ks")
  case None
  assume "set ks = set ks'"
  with None show ?thesis using best_key_None [of ks] best_key_None [of ks'] by simp
next
  case (Some b)
  assume eq: "set ks = set ks'"
  from best_key_Some [OF Some] have b: "b \<in> set ks'" "0 \<le> b" "\<forall>k\<in>set ks'. k \<le> b" by (simp_all add: eq)
  then have "best_key ks' \<noteq> None" using best_key_None [of ks'] by force
  then obtain c where c: "best_key ks' = Some c" by blast
  from best_key_Some [OF c] b have "c = b" by force
  with c Some show ?thesis by simp
qed

lemma best_key_greatest: "q \<in> set ks \<Longrightarrow> 0 \<le> q \<Longrightarrow> \<forall>k\<in>set ks. k \<le> q \<Longrightarrow> best_key ks = Some q"
proof -
  assume q: "q \<in> set ks" "0 \<le> q" "\<forall>k\<in>set ks. k \<le> q"
  then have "best_key ks \<noteq> None" using best_key_None [of ks] by force
  then obtain c where "best_key ks = Some c" by blast
  with best_key_Some [OF this] q show ?thesis by force
qed

definition pg_slots :: "actor_id \<Rightarrow> pg_driver \<Rightarrow> (int \<times> version \<times> jsval) list" where
  "pg_slots i d = map (\<lambda>(k, row). (k, sn_version row, sn_state row)) (pg_snaps_of i d)"

definition pg_table_save :: "actor_id \<Rightarrow> int \<Rightarrow> version \<times> jsval \<Rightarrow> pg_driver \<Rightarrow> pg_driver" where
  "pg_table_save i k s d = upsert_snapshot i k \<lparr> sn_ts = vp_now d, sn_version = fst s, sn_state = snd s \<rparr> d"

definition pg_table_load :: "actor_id \<Rightarrow> pg_driver \<Rightarrow> (int \<times> version \<times> jsval) option" where
  "pg_table_load i d = map_option (\<lambda>r. (sr_seq r, sr_version r, sr_state r)) (newest_row i d)"

lemma pg_slots_get: "map_get (pg_slots i d) k = map_option (\<lambda>row. (sn_version row, sn_state row)) (map_get (vp_snapshots d) (i, k))"
  by (simp add: pg_slots_def map_of_map flip: pg_snaps_get)

lemma newest_row_None:
  "newest_row i d = None \<longleftrightarrow> map_get (vp_actors d) i = None \<or> (\<forall>k\<in>fst ` set (pg_snaps_of i d). k < 0)"
  using best_key_row [of "pg_snaps_of i d"] best_key_None [of "map fst (pg_snaps_of i d)"]
  by (auto simp: newest_row_eq split: option.splits)

interpretation pg_snap: snapshot_slot "\<lambda>_. True" "\<lambda>i d. map_has (vp_actors d) i" pg_slots pg_table_save pg_table_load
proof
  fix d i k s
  show "map_get (pg_slots i (pg_table_save i k s d)) = (map_get (pg_slots i d)) (k := Some s)"
    by (auto simp: pg_slots_get pg_table_save_def upsert_snapshot_def)
  show "map_has (vp_actors (pg_table_save i k s d)) i = map_has (vp_actors d) i"
    by (simp add: pg_table_save_def upsert_snapshot_def)
next
  fix d i k s
  assume "pg_table_load i d = Some (k, s)"
  then obtain a row where l: "map_get (vp_actors d) i = Some a" "best_key (map fst (pg_snaps_of i d)) = Some k"
      "map_get (pg_snaps_of i d) k = Some row" "s = (sn_version row, sn_state row)"
    by (auto simp: pg_table_load_def newest_row_eq split: option.splits)
  show "map_has (vp_actors d) i \<and> 0 \<le> k \<and> map_get (pg_slots i d) k = Some s \<and> (\<forall>k'. map_has (pg_slots i d) k' \<longrightarrow> k' \<le> k)"
    using l best_key_Some [OF l(2)] map_of_SomeD [of "pg_snaps_of i d"]
    by (fastforce simp: pg_slots_get)
next
  fix d i k
  assume has: "map_has (vp_actors d) i" "map_has (pg_slots i d) k" "0 \<le> k"
  then obtain row where "map_get (pg_snaps_of i d) k = Some row" by (auto simp: pg_slots_get)
  then have "k \<in> fst ` set (pg_snaps_of i d)" unfolding dom_map_of_conv_image_fst [symmetric] by blast
  with has show "pg_table_load i d \<noteq> None" by (auto simp: pg_table_load_def newest_row_None not_less)
qed

section \<open>An actor's stream\<close>

lemma show_int_inject [simp]: "show_int a = show_int b \<longleftrightarrow> a = b"
proof
  assume eq: "show_int a = show_int b"
  have neg: "show_int x \<noteq> show_nat n" if "x < 0" for x n
  proof
    assume "show_int x = show_nat n"
    then have "CHR ''-'' \<in> set (show_nat n)" using that by (metis show_int_def list.set_intros(1))
    then show False by simp
  qed
  show "a = b"
    using eq neg [of a "nat b"] neg [of b "nat a"]
    by (cases "a < 0"; cases "b < 0") (auto simp: show_int_def simp flip: nat_eq_iff2)
qed simp

lemma show_id_inject: "show_id x = show_id y \<Longrightarrow> x = y"
proof -
  assume eq: "show_id x = show_id y"
  then have "snd x = snd y" by (auto simp: show_id_def intro: dash_suffix_inject)
  with eq show ?thesis by (cases x; cases y) (simp add: show_id_def)
qed

text \<open>The ids in a stream increase and none is above the last one given.\<close>

definition stream_inv :: "actor_id \<Rightarrow> pg_driver \<Rightarrow> bool" where
  "stream_inv i d \<longleftrightarrow> sorted_wrt (<) (map fst (st_entries (stream_of i d)))
     \<and> (\<forall>x\<in>fst ` set (st_entries (stream_of i d)). x \<le> st_last (stream_of i d))"

definition stream_issued :: "actor_id \<Rightarrow> pg_driver \<Rightarrow> string \<Rightarrow> bool" where
  "stream_issued i d k \<longleftrightarrow> (\<exists>x. x \<le> st_last (stream_of i d) \<and> k = show_id x)"

lemma stream_issuedI: "x \<le> st_last (stream_of i d) \<Longrightarrow> stream_issued i d (show_id x)"
  unfolding stream_issued_def by blast

definition stream_pending :: "actor_id \<Rightarrow> pg_driver \<Rightarrow> (string \<times> inbox_entry) list" where
  "stream_pending i d = map (\<lambda>(x, e). (show_id x, e)) (st_entries (stream_of i d))"

lemma next_id_greater: "l < next_id t l"
  by (cases l) (auto simp: next_id_def less_prod_def)

lemma stream_of_xadd:
  "stream_of j (snd (xadd i e d)) = (if j = i then (let s = stream_of i d; x = next_id (vp_now d) (st_last s) in
     \<lparr> st_entries = st_entries s @ [(x, e)], st_last = x \<rparr>) else stream_of j d)"
  by (simp add: xadd_def Let_def stream_of_def)

lemma stream_of_ack:
  "stream_of j (pg_ackInbox i ids d) = (if j = i then stream_of i d \<lparr> st_entries :=
     filter (\<lambda>(x, e). show_id x \<notin> set ids) (st_entries (stream_of i d)) \<rparr> else stream_of j d)"
  by (auto simp: pg_ackInbox_def stream_of_def filter_id_conv split: option.split)

lemma stream_inv_xadd: "stream_inv i d \<Longrightarrow> stream_inv i (snd (xadd j e d))"
  using next_id_greater [of "st_last (stream_of j d)" "vp_now d"]
  by (auto simp: stream_inv_def stream_of_xadd Let_def sorted_wrt_append intro: le_less_trans less_imp_le)

lemma stream_inv_ack: "stream_inv i d \<Longrightarrow> stream_inv i (pg_ackInbox j ids d)"
proof -
  have "sorted_wrt (<) (map fst xs) \<Longrightarrow> sorted_wrt (<) (map fst (filter P xs))" for xs :: "((int \<times> nat) \<times> inbox_entry) list" and P
    by (induction xs) auto
  then show "stream_inv i d \<Longrightarrow> stream_inv i (pg_ackInbox j ids d)"
    by (auto simp: stream_inv_def stream_of_ack)
qed

interpretation pg_inbox: durable_inbox "stream_inv i" "stream_issued i" "\<lambda>_ :: unit. stream_pending i"
  "\<lambda>_. xadd i" "\<lambda>_. pg_ackInbox i" "\<lambda>_ n d. map (\<lambda>r. (ir_id r, ir_entry r)) (pg_readPendingInbox i n d)"
  "\<lambda>_. pg_pendingInboxCount i" for i
proof
  fix d :: pg_driver and e k d'
  assume inv: "stream_inv i d" and ap: "xadd i e d = (k, d')"
  let ?l = "st_last (stream_of i d)"
  have k: "k = show_id (next_id (vp_now d) ?l)" and d': "d' = snd (xadd i e d)" using ap by (auto simp: xadd_def Let_def)
  have "\<not> stream_issued i d k"
    using next_id_greater [of ?l "vp_now d"] by (auto simp: stream_issued_def k dest!: show_id_inject)
  then show "stream_pending i d' = stream_pending i d @ [(k, e)] \<and> \<not> stream_issued i d k"
    by (simp add: stream_pending_def d' stream_of_xadd Let_def k)
next
  fix d :: pg_driver
  assume inv: "stream_inv i d"
  then have "distinct (map fst (st_entries (stream_of i d)))"
    by (auto simp: stream_inv_def strict_sorted_iff)
  then have "distinct (map show_id (map fst (st_entries (stream_of i d))))"
    by (simp only: distinct_map) (auto intro!: inj_onI dest: show_id_inject)
  then show "distinct (map fst (stream_pending i d))" by (simp add: stream_pending_def o_def split_def)
next
  fix d :: pg_driver and k e
  assume "stream_issued i d k"
  then obtain x where "x \<le> st_last (stream_of i d)" "k = show_id x" by (auto simp: stream_issued_def)
  then show "stream_issued i (snd (xadd i e d)) k"
    using next_id_greater [of "st_last (stream_of i d)" "vp_now d"] by (auto intro!: stream_issuedI simp: stream_of_xadd Let_def)
next
  fix d d' :: pg_driver and k e
  assume "xadd i e d = (k, d')"
  then have "d' = snd (xadd i e d)" "k = show_id (st_last (stream_of i d'))" by (auto simp: xadd_def Let_def stream_of_def)
  then show "stream_issued i d' k" by (auto intro: stream_issuedI)
next
  fix d :: pg_driver and r
  assume "stream_inv i d" and "r \<in> set (stream_pending i d)"
  then show "stream_issued i d (fst r)" by (force simp: stream_pending_def stream_inv_def intro: stream_issuedI)
next
  fix d :: pg_driver and ids k
  show "stream_issued i (pg_ackInbox i ids d) k = stream_issued i d k" by (simp add: stream_issued_def stream_of_ack)
  show "stream_pending i (pg_ackInbox i ids d) = filter (\<lambda>r. fst r \<notin> set ids) (stream_pending i d)"
    by (simp add: stream_pending_def stream_of_ack filter_map o_def split_def)
qed (auto simp: stream_inv_xadd stream_inv_ack stream_pending_def pg_readPendingInbox_def pg_pendingInboxCount_def take_map o_def split_def)

end
