(* ===== verification/DriverAgreement.thy ===== *)
theory DriverAgreement
  imports ValkeyPgLaws
begin

text \<open>
  Two drivers behind one interface: where \<open>src/storage/memory.ts\<close> and \<open>src/storage/valkey-pg.ts\<close> answer
  alike, call for call, and where they do not.
\<close>

section \<open>Calls on a driver\<close>

datatype driver_call =
    CRegister actor_id class_name version "(string, string) jsmap"
  | CTombstone actor_id
  | CFence actor_id
  | CBump actor_id int
  | CAppend actor_id "event_write list" "int option"
  | CRead actor_id int
  | CHead actor_id
  | CSave actor_id snapshot_write "int option"
  | CLoad actor_id
  | CPass ms

datatype driver_answer =
    ANone
  | ASeq int
  | AEvents "event_record list"
  | ASnapshot "snapshot_read option"
  | AError error

definition answer_of :: "('a \<Rightarrow> driver_answer) \<Rightarrow> error + 'a \<Rightarrow> driver_answer" where
  "answer_of f r = (case r of Inl e \<Rightarrow> AError e | Inr x \<Rightarrow> f x)"

fun mem_step :: "driver_call \<Rightarrow> driver \<Rightarrow> driver_answer \<times> driver" where
  "mem_step (CRegister i c v tags) d = (ANone, registerActor i c v tags d)"
| "mem_step (CTombstone i) d = (ANone, tombstoneActor i d)"
| "mem_step (CFence i) d = (ASeq (loadActorFence i d), d)"
| "mem_step (CBump i f) d = (let (r, d') = bumpActorFence i f d in (answer_of ASeq r, d'))"
| "mem_step (CAppend i es f) d = (let (r, d') = appendEvents i es f d in (answer_of ASeq r, d'))"
| "mem_step (CRead i from) d = (AEvents (readEvents i from d), d)"
| "mem_step (CHead i) d = (ASeq (headEventSeq i d), d)"
| "mem_step (CSave i s f) d = (let (r, d') = saveSnapshot i s f d in (answer_of (\<lambda>_. ANone) r, d'))"
| "mem_step (CLoad i) d = (ASnapshot (loadSnapshot i d), d)"
| "mem_step (CPass t) d = (ANone, d \<lparr> d_now := d_now d + t \<rparr>)"

fun pg_step :: "pg_codec \<Rightarrow> driver_call \<Rightarrow> pg_driver \<Rightarrow> driver_answer \<times> pg_driver" where
  "pg_step cd (CRegister i c v tags) d = (ANone, pg_registerActor i c v tags d)"
| "pg_step cd (CTombstone i) d = (ANone, pg_tombstoneActor i d)"
| "pg_step cd (CFence i) d = (ASeq (pg_loadActorFence i d), d)"
| "pg_step cd (CBump i f) d = (let (r, d') = pg_bumpActorFence i f d in (answer_of ASeq r, d'))"
| "pg_step cd (CAppend i es f) d = (let (r, d') = pg_appendEvents cd i es f d in (answer_of ASeq r, d'))"
| "pg_step cd (CRead i from) d = (AEvents (pg_readEvents i from d), d)"
| "pg_step cd (CHead i) d = (ASeq (pg_headEventSeq i d), d)"
| "pg_step cd (CSave i s f) d = (let (r, d') = pg_saveSnapshot cd i s f d in (answer_of (\<lambda>_. ANone) r, d'))"
| "pg_step cd (CLoad i) d = (let (r, d') = pg_loadSnapshot cd i d in (ASnapshot r, d'))"
| "pg_step cd (CPass t) d = (ANone, d \<lparr> vp_now := vp_now d + t \<rparr>)"

fun run_calls :: "('d \<Rightarrow> 'c \<Rightarrow> 'a \<times> 'd) \<Rightarrow> 'c list \<Rightarrow> 'd \<Rightarrow> 'a list \<times> 'd" where
  "run_calls f [] d = ([], d)"
| "run_calls f (c # cs) d = (let (a, d') = f d c; (as, d'') = run_calls f cs d' in (a # as, d''))"

text \<open>
  The calls on which the drivers are to agree: an actor is registered once and bumped or saved once it is,
  what is stored survives the JSON round trip, and snapshots are saved at growing seqs from zero.
\<close>

definition survives :: "pg_codec \<Rightarrow> jsval \<Rightarrow> bool" where
  "survives cd v \<longleftrightarrow> v \<noteq> JUndefined \<and> cd_json cd v = v \<and> cd_jsonb cd v = v"

fun regular :: "pg_codec \<Rightarrow> driver \<Rightarrow> driver_call \<Rightarrow> bool" where
  "regular cd d (CRegister i c v tags) \<longleftrightarrow> map_get (d_actors d) i = None"
| "regular cd d (CBump i f) \<longleftrightarrow> map_has (d_actors d) i"
| "regular cd d (CAppend i es f) \<longleftrightarrow> list_all (\<lambda>e. survives cd (ew_payload e)) es"
| "regular cd d (CSave i s f) \<longleftrightarrow> map_has (d_actors d) i \<and> survives cd (sw_state s) \<and> 0 \<le> sw_seq s
     \<and> list_all (\<lambda>p. fst p \<le> sw_seq s) (snaps_of i d)"
| "regular cd d _ \<longleftrightarrow> True"

fun all_regular :: "pg_codec \<Rightarrow> driver_call list \<Rightarrow> driver \<Rightarrow> bool" where
  "all_regular cd [] d \<longleftrightarrow> True"
| "all_regular cd (c # cs) d \<longleftrightarrow> regular cd d c \<and> all_regular cd cs (snd (mem_step c d))"

definition empty_pg :: "int \<Rightarrow> pg_driver" where
  "empty_pg ttl = \<lparr> vp_actors = [], vp_snapshots = [], vp_events = [], vp_reminders = [], vp_versions = [], vp_blobs = [],
     vp_manifests = [], vp_audit = [], vp_hot = [], vp_inbox = [], vp_queue = [], vp_manifestCache = [], vp_idempotency = [],
     vp_oversized = 0, vp_hotTtl = ttl, vp_now = 0 \<rparr>"

section \<open>What the two states share\<close>

text \<open>The cache in front of the snapshots holds the newest row or nothing.\<close>

definition cache_coherent :: "pg_driver \<Rightarrow> bool" where
  "cache_coherent p \<longleftrightarrow> (\<forall>i s t. map_get (vp_hot p) i = Some (s, t) \<longrightarrow> newest_row i p = Some s)"

definition agree :: "pg_codec \<Rightarrow> driver \<Rightarrow> pg_driver \<Rightarrow> bool" where
  "agree cd d p \<longleftrightarrow> log_inv d \<and> pg_log_inv p \<and> cache_coherent p \<and> d_now d = vp_now p
     \<and> (\<forall>i. map_get (d_actors d) i = map_get (vp_actors p) i)
     \<and> (\<forall>i. event_log_of i d = events_of_actor i p)
     \<and> (\<forall>i q. map_get (snaps_of i d) q = map_get (pg_snaps_of i p) q)
     \<and> (\<forall>i q r. map_get (pg_snaps_of i p) q = Some r \<longrightarrow> cd_json cd (sn_state r) = sn_state r)"

lemma agreeD:
  assumes "agree cd d p"
  shows "log_inv d" "pg_log_inv p" "cache_coherent p" "d_now d = vp_now p" "map_get (d_actors d) i = map_get (vp_actors p) i"
    "event_log_of i d = events_of_actor i p" "map_get (snaps_of i d) q = map_get (pg_snaps_of i p) q"
    "map_get (pg_snaps_of i p) q = Some r \<Longrightarrow> cd_json cd (sn_state r) = sn_state r"
  using assms unfolding agree_def by blast+

lemma agree_fence: "agree cd d p \<Longrightarrow> loadActorFence i d = pg_loadActorFence i p"
  by (simp add: loadActorFence_def pg_loadActorFence_def agreeD(5))

lemma agree_assert: "agree cd d p \<Longrightarrow> assertFence i f d = pg_assertFence i f p"
  by (simp add: assertFence_def pg_assertFence_def agree_fence Let_def cong: option.case_cong)

lemma agree_head: "agree cd d p \<Longrightarrow> headEventSeq i d = pg_headEventSeq i p"
  by (simp add: mem_log.head_length head_of_log agreeD)

lemma agree_read: "agree cd d p \<Longrightarrow> readEvents i from d = pg_readEvents i from p"
  by (simp add: mem_log.read_log pg_readEvents_log agreeD)

lemma agree_newest: "agree cd d p \<Longrightarrow> loadSnapshot i d = newest_row i p"
proof -
  assume ag: "agree cd d p"
  have "dom (map_of (snaps_of i d)) = dom (map_of (pg_snaps_of i p))" using agreeD(7) [OF ag] by (auto simp: dom_def)
  then have "best_key (map fst (snaps_of i d)) = best_key (map fst (pg_snaps_of i p))"
    by (intro best_key_cong) (simp add: dom_map_of_conv_image_fst)
  moreover have "loadSnapshot i d = (case map_get (d_actors d) i of
      None \<Rightarrow> None
    | Some a \<Rightarrow> (case best_key (map fst (snaps_of i d)) of
        None \<Rightarrow> None
      | Some q \<Rightarrow> map_option (\<lambda>r. \<lparr> sr_class = ar_class a, sr_version = sn_version r, sr_seq = q, sr_state = sn_state r \<rparr>)
          (map_get (snaps_of i d) q)))"
    by (auto simp: loadSnapshot_def snaps_of_def best_key_def split: option.split)
  ultimately show ?thesis
    by (simp add: newest_row_eq agreeD(5) [OF ag] agreeD(7) [OF ag] del: pg_snaps_get cong: option.case_cong)
qed

lemma newest_row_cong:
  "map_get (vp_actors p') i = map_get (vp_actors p) i \<Longrightarrow> vp_snapshots p' = vp_snapshots p \<Longrightarrow> newest_row i p' = newest_row i p"
  by (simp add: newest_row_eq pg_snaps_of_def cong: option.case_cong)

lemma hot_get_newest: "cache_coherent p \<Longrightarrow> hot_get i p = Some s \<Longrightarrow> newest_row i p = Some s"
  by (auto simp: cache_coherent_def hot_get_def split: option.splits prod.splits if_splits)

lemma coherent_load: "cache_coherent p \<Longrightarrow> fst (pg_loadSnapshot cd i p) = newest_row i p"
  using hot_get_newest [of p i] by (auto simp: pg_loadSnapshot_def split: option.split)

text \<open>An actor's newest row depends on its row's class only.\<close>

lemma newest_row_class:
  "map_option ar_class (map_get (vp_actors p') i) = map_option ar_class (map_get (vp_actors p) i) \<Longrightarrow>
   pg_snaps_of i p' = pg_snaps_of i p \<Longrightarrow> newest_row i p' = newest_row i p"
  unfolding newest_row_eq by (auto split: option.split)

lemma coherent_writeHotCache:
  assumes "\<And>j s t. j \<noteq> i \<Longrightarrow> map_get (vp_hot p) j = Some (s, t) \<Longrightarrow> newest_row j p = Some s"
    and "newest_row i p = Some s" and "cd_json cd (sr_state s) = sr_state s"
  shows "cache_coherent (writeHotCache cd i s p)"
proof -
  have same: "newest_row j (writeHotCache cd i s p) = newest_row j p" for j
    by (rule newest_row_cong) (simp_all add: writeHotCache_def)
  have "s \<lparr> sr_state := cd_json cd (sr_state s) \<rparr> = s" using assms(3) by simp
  then show ?thesis unfolding cache_coherent_def same
    using assms(1,2) by (auto simp: writeHotCache_def split: if_splits)
qed

section \<open>Call by call\<close>

lemma agree_update:
  assumes "agree cd d p" and "log_inv d'" and "vp_events p' = vp_events p" "d_events d' = d_events d"
    "vp_snapshots p' = vp_snapshots p" "d_snapshots d' = d_snapshots d" "d_now d' = vp_now p'"
    "\<And>i. map_get (d_actors d') i = map_get (vp_actors p') i" "cache_coherent p'"
  shows "agree cd d' p'"
  using assms unfolding agree_def pg_log_inv_def events_of_actor_def event_log_of_def events_of_def snaps_of_def pg_snaps_of_def
  by simp

lemma coherent_actors:
  assumes "cache_coherent p" "vp_hot p' = vp_hot p \<or> vp_hot p' = map_delete i (vp_hot p)" "vp_snapshots p' = vp_snapshots p"
    "\<And>j. map_has (vp_actors p) j \<Longrightarrow> map_option ar_class (map_get (vp_actors p') j) = map_option ar_class (map_get (vp_actors p) j)"
  shows "cache_coherent p'"
  unfolding cache_coherent_def
proof (intro allI impI)
  fix j s t assume "map_get (vp_hot p') j = Some (s, t)"
  then have "map_get (vp_hot p) j = Some (s, t)" using assms(2) by (auto split: if_splits)
  then have n: "newest_row j p = Some s" using assms(1) by (simp add: cache_coherent_def)
  then have "map_has (vp_actors p) j" using newest_row_None [of j p] by auto
  then have "newest_row j p' = newest_row j p"
    using assms(3,4) by (intro newest_row_class) (simp_all add: pg_snaps_of_def)
  with n show "newest_row j p' = Some s" by simp
qed

lemma agree_register:
  assumes "agree cd d p" and "map_get (d_actors d) i = None"
  shows "agree cd (registerActor i c v tags d) (pg_registerActor i c v tags p)"
  by (rule agree_update [OF assms(1) log_inv_registerActor [OF agreeD(1) [OF assms(1)]]])
    (use assms(2) in \<open>auto simp: registerActor_def pg_registerActor_def agreeD(4,5) [OF assms(1)]
       intro!: coherent_actors [OF agreeD(3) [OF assms(1)]]\<close>)

lemma agree_tombstone: "agree cd d p \<Longrightarrow> agree cd (tombstoneActor i d) (pg_tombstoneActor i p)"
  by (rule agree_update [OF _ log_inv_tombstoneActor [OF agreeD(1)]], assumption, assumption)
    (auto simp: agreeD(4) tombstoneActor_def pg_tombstoneActor_def pg_update_actor_def Let_def
       agreeD(5) intro!: coherent_actors [OF agreeD(3), where i = i] split: option.split)

lemma agree_bump:
  assumes "agree cd d p" and "map_has (d_actors d) i"
  shows "fst (bumpActorFence i f d) = fst (pg_bumpActorFence i f p)
    \<and> agree cd (snd (bumpActorFence i f d)) (snd (pg_bumpActorFence i f p))"
proof -
  obtain a where a: "map_get (d_actors d) i = Some a" "map_get (vp_actors p) i = Some a"
    using assms agreeD(5) [OF assms(1), of i] by auto
  have "agree cd (snd (bumpActorFence i f d)) (snd (pg_bumpActorFence i f p))"
    by (rule agree_update [OF assms(1) log_inv_bumpActorFence [OF agreeD(1) [OF assms(1)]]])
      (use assms a in \<open>auto simp: agreeD(4) bumpActorFence_def pg_bumpActorFence_def pg_update_actor_def loadActorFence_def Let_def
         agreeD(5) intro!: coherent_actors [OF agreeD(3)]\<close>)
  then show ?thesis using a
    by (simp add: bumpActorFence_def pg_bumpActorFence_def loadActorFence_def pg_loadActorFence_def Let_def)
qed

lemma agree_load:
  assumes ag: "agree cd d p"
  shows "loadSnapshot i d = fst (pg_loadSnapshot cd i p) \<and> agree cd d (snd (pg_loadSnapshot cd i p))"
proof -
  have "agree cd d (writeHotCache cd i s p)" if s: "newest_row i p = Some s" for s
  proof (rule agree_update [OF ag agreeD(1) [OF ag]])
    obtain q r where "map_get (pg_snaps_of i p) q = Some r" "sr_state s = sn_state r"
      using s by (auto simp: newest_row_eq split: option.splits)
    then show "cache_coherent (writeHotCache cd i s p)"
      using agreeD(3,8) [OF ag] s by (intro coherent_writeHotCache) (auto simp: cache_coherent_def)
  qed (simp_all add: writeHotCache_def agreeD(4,5) [OF ag])
  then have "agree cd d (snd (pg_loadSnapshot cd i p))"
    using ag by (auto simp: pg_loadSnapshot_def split: option.split)
  then show ?thesis using coherent_load [OF agreeD(3) [OF ag], of cd i] by (simp add: agree_newest [OF ag])
qed

lemma agree_pass: "agree cd d p \<Longrightarrow> agree cd (d \<lparr> d_now := d_now d + t \<rparr>) (p \<lparr> vp_now := vp_now p + t \<rparr>)"
  by (rule agree_update [where d = d and p = p], assumption)
    (auto simp: agreeD(4,5) intro: log_inv_cong [OF agreeD(1)] coherent_actors [OF agreeD(3)])

lemma insert_events_runs:
  "list_all (\<lambda>e. ew_payload e \<noteq> JUndefined) es \<Longrightarrow> \<forall>r\<in>set rows. er_actor r = i \<longrightarrow> er_seq r \<le> q \<Longrightarrow>
   insert_events cd i v t q es rows = Inr (q + int (length es), rows @ pg_new_rows cd i v t q es)"
proof (induction cd i v t q es rows rule: insert_events.induct)
  case (1 cd i v t q rows)
  then show ?case by (simp add: pg_new_rows_def)
next
  case (2 cd i v t q e es rows)
  then have "\<not> list_ex (\<lambda>r. er_actor r = i \<and> er_seq r = q + 1 \<and> er_ts r = t) rows" by (force simp: list_ex_iff)
  moreover have "\<forall>r\<in>set (rows @ [\<lparr> er_actor = i, er_seq = q + 1, er_ts = t, er_version = v, er_type = ew_type e,
      er_payload = cd_jsonb cd (ew_payload e), er_causation = ew_causation e \<rparr>]). er_actor r = i \<longrightarrow> er_seq r \<le> q + 1"
    using 2(3) by (simp add: ball_Un) (meson add_increasing2 zero_le_one)
  ultimately show ?case using 2(1,2) by (simp add: pg_new_rows_Cons)
qed

lemma new_rows_records:
  "list_all (\<lambda>e. survives cd (ew_payload e)) es \<Longrightarrow>
   pg_new_rows cd i v t q es = map2 (new_record i t v) [q + 1..q + int (length es)] es"
  by (induction es arbitrary: q)
    (auto simp: pg_new_rows_Cons upto_rec1 [of "_ + 1"] new_record_def new_row_def event_of_row_def survives_def algebra_simps,
     simp add: pg_new_rows_def)

lemma agree_append:
  assumes ag: "agree cd d p" and es: "list_all (\<lambda>e. survives cd (ew_payload e)) es"
  shows "fst (appendEvents i es f d) = fst (pg_appendEvents cd i es f p)
    \<and> agree cd (snd (appendEvents i es f d)) (snd (pg_appendEvents cd i es f p))"
  using agreeD(1) [OF ag]
proof (cases rule: appendEvents_cases [where i = i and es = es and fence = f])
  case (stale f')
  then show ?thesis using ag by (simp add: pg_appendEvents_def pg_assertFence_def agree_fence [OF ag])
next
  case nothing
  then show ?thesis using ag
    by (auto simp: pg_appendEvents_def agree_head [OF ag] agree_assert [OF ag, symmetric] appendEvents_def split: sum.splits)
next
  case unknown
  then show ?thesis using ag
    by (auto simp: pg_appendEvents_def append_begin_def agreeD(5) [OF ag, symmetric] agree_assert [OF ag, symmetric]
      appendEvents_def split: sum.splits)
next
  case (appended a)
  let ?q = "pg_headEventSeq i p" and ?v = "ar_version a"
  let ?p = "p \<lparr> vp_events := vp_events p @ pg_new_rows cd i ?v (vp_now p) ?q es \<rparr>"
  let ?d = "snd (appendEvents i es f d)"
  have "\<forall>r\<in>set (vp_events p). er_actor r = i \<longrightarrow> er_seq r \<le> ?q"
    using pg_log.seq_range [OF agreeD(2) [OF ag], of _ i] by (auto simp: events_of_actor_def)
  moreover have "list_all (\<lambda>e. ew_payload e \<noteq> JUndefined) es" using es by (auto simp: survives_def list_all_iff)
  moreover have "pg_assertFence i f p = Inr ()"
    using appended(3) by (auto simp: pg_assertFence_def agree_fence [OF ag])
  ultimately have run: "pg_appendEvents cd i es f p = (Inr (?q + int (length es)), ?p)"
    using appended(1,2) by (simp add: pg_appendEvents_def append_begin_def agreeD(5) [OF ag, symmetric] append_commit_def insert_events_runs)
  have "event_log_of j ?d = event_log_of j d @
      (if j = i then map2 (new_record i (vp_now p) ?v) [?q + 1..?q + int (length es)] es else [])" for j
    by (simp add: appended(4) agreeD(4) [OF ag] agree_head [OF ag] event_log_of_def new_record_def zip_map2 split_def o_def)
  then have "event_log_of j ?d = events_of_actor j ?p" for j
    unfolding events_after unfolding new_rows_records [OF es] agreeD(6) [OF ag] by simp
  moreover have "log_inv ?d" by (rule log_inv_appendEvents [OF agreeD(1) [OF ag]])
  moreover have "pg_log_inv ?p" using pg_log_inv_append [OF agreeD(2) [OF ag], of cd i es f] run by simp
  moreover have "cache_coherent ?p" by (rule coherent_actors [OF agreeD(3) [OF ag], where i = i]) simp_all
  ultimately have "agree cd ?d ?p" using ag by (simp add: agree_def appended(4) snaps_of_def pg_snaps_of_def)
  with run show ?thesis by (simp add: appended(4) agree_head [OF ag])
qed

lemma agree_save:
  assumes ag: "agree cd d p" and ok: "regular cd d (CSave i s f)"
  shows "fst (saveSnapshot i s f d) = fst (pg_saveSnapshot cd i s f p)
    \<and> agree cd (snd (saveSnapshot i s f d)) (snd (pg_saveSnapshot cd i s f p))"
proof (cases "assertFence i f d")
  case (Inl e)
  then show ?thesis using ag by (simp add: saveSnapshot_def pg_saveSnapshot_def agree_assert [OF ag, symmetric])
next
  case (Inr u)
  obtain a where a: "map_get (d_actors d) i = Some a" using ok by auto
  have st: "sw_state s \<noteq> JUndefined" "cd_json cd (sw_state s) = sw_state s" using ok by (simp_all add: survives_def)
  let ?q = "sw_seq s"
  let ?row = "\<lparr> sn_ts = vp_now p, sn_version = sw_version s, sn_state = sw_state s \<rparr>"
  let ?c = "\<lparr> sr_class = ar_class a, sr_version = sw_version s, sr_seq = ?q, sr_state = sw_state s \<rparr>"
  define p0 where "p0 = (if isOversizedSnapshot (cd_size cd (sw_state s)) then p \<lparr> vp_oversized := vp_oversized p + 1 \<rparr> else p)"
  define p1 where "p1 = pg_update_actor i (\<lambda>r. r \<lparr> ar_lastActiveAt := Some (vp_now p) \<rparr>) (upsert_snapshot i ?q ?row p0)"
  define d' where "d' = snd (saveSnapshot i s f d)"
  have p0: "vp_actors p0 = vp_actors p" "vp_snapshots p0 = vp_snapshots p" "vp_hot p0 = vp_hot p" "vp_events p0 = vp_events p"
      "vp_now p0 = vp_now p" "vp_hotTtl p0 = vp_hotTtl p" by (simp_all add: p0_def)
  have a': "map_get (vp_actors p) i = Some a" using a agreeD(5) [OF ag] by simp
  have p1: "vp_actors p1 = map_set i (a \<lparr> ar_lastActiveAt := Some (vp_now p) \<rparr>) (vp_actors p)" "vp_hot p1 = vp_hot p"
      "vp_snapshots p1 = map_set (i, ?q) ?row (vp_snapshots p)" "vp_events p1 = vp_events p" "vp_now p1 = vp_now p"
    using a' by (simp_all add: p1_def pg_update_actor_def upsert_snapshot_def p0)
  have run: "pg_saveSnapshot cd i s f p = (Inr (), writeHotCache cd i ?c p1)"
    using Inr st a' by (simp add: pg_saveSnapshot_def agree_assert [OF ag, symmetric] Let_def p0 p1_def flip: p0_def)
  have mem: "saveSnapshot i s f d = (Inr (), d')"
    using Inr a by (simp add: d'_def saveSnapshot_def Let_def)
  have d': "map_get (d_actors d') j = map_get (vp_actors p1) j" "snaps_of j d' = (if j = i then map_set ?q ?row (snaps_of i d) else snaps_of j d)"
      "d_now d' = vp_now p" "d_events d' = d_events d" "d_headSeq d' = d_headSeq d" for j
    using Inr a by (auto simp: d'_def saveSnapshot_def Let_def p1 snaps_of_def agreeD(4,5) [OF ag])
  have "newest_row i p1 = Some ?c"
  proof -
    have "dom (map_of (pg_snaps_of i p1)) = insert ?q (dom (map_of (snaps_of i d)))"
      using agreeD(7) [OF ag, of i] by (auto simp: p1 dom_def)
    then have "set (map fst (pg_snaps_of i p1)) = insert ?q (set (map fst (snaps_of i d)))"
      by (simp add: dom_map_of_conv_image_fst)
    moreover have "\<forall>k\<in>set (map fst (snaps_of i d)). k \<le> ?q" using ok by (auto simp: list_all_iff)
    ultimately have "best_key (map fst (pg_snaps_of i p1)) = Some ?q"
      using ok by (intro best_key_greatest) auto
    then show ?thesis by (simp add: newest_row_eq p1)
  qed
  moreover have "newest_row j p1 = newest_row j p" if "j \<noteq> i" for j
  proof -
    have "map_get (pg_snaps_of j p1) k = map_get (pg_snaps_of j p) k" for k using that by (simp add: p1)
    then have "dom (map_of (pg_snaps_of j p1)) = dom (map_of (pg_snaps_of j p))" by (auto simp: dom_def)
    then have "best_key (map fst (pg_snaps_of j p1)) = best_key (map fst (pg_snaps_of j p))"
      by (intro best_key_cong) (simp add: dom_map_of_conv_image_fst)
    then show ?thesis using that by (simp add: newest_row_eq p1 cong: option.case_cong)
  qed
  ultimately have "cache_coherent (writeHotCache cd i ?c p1)"
    using agreeD(3) [OF ag] st by (intro coherent_writeHotCache) (auto simp: cache_coherent_def p1)
  moreover have "log_inv d'" using log_inv_saveSnapshot [OF agreeD(1) [OF ag], of i s f] mem by simp
  moreover have "map_get (snaps_of j d') k = map_get (vp_snapshots p1) (j, k)" for j k
    using agreeD(7) [OF ag] by (simp add: d' p1)
  ultimately have "agree cd d' (writeHotCache cd i ?c p1)"
    using ag st unfolding agree_def
    by (auto simp: writeHotCache_def d'(1,3) p1 pg_log_inv_def events_of_actor_def event_log_of_def events_of_def d'(4) split: if_splits)
  with run mem show ?thesis by simp
qed

lemma agree_step:
  assumes "agree cd d p" and "regular cd d c"
  shows "fst (mem_step c d) = fst (pg_step cd c p) \<and> agree cd (snd (mem_step c d)) (snd (pg_step cd c p))"
proof (cases c)
  case (CBump i f)
  then show ?thesis using assms agree_bump [OF assms(1), of i f] by (simp add: split_def Let_def)
next
  case (CAppend i es f)
  then show ?thesis using assms agree_append [OF assms(1), of es i f] by (simp add: split_def Let_def)
next
  case (CSave i s f)
  then show ?thesis using assms agree_save [OF assms(1), of i s f] by (simp add: split_def Let_def)
next
  case (CLoad i)
  then show ?thesis using agree_load [OF assms(1), of i] by (simp add: split_def Let_def)
qed (use assms in \<open>simp_all add: agree_register agree_tombstone agree_fence agree_read agree_head agree_pass\<close>)

lemma agree_run:
  "agree cd d p \<Longrightarrow> all_regular cd cs d \<Longrightarrow>
   fst (run_calls (\<lambda>d c. mem_step c d) cs d) = fst (run_calls (\<lambda>p c. pg_step cd c p) cs p)
   \<and> agree cd (snd (run_calls (\<lambda>d c. mem_step c d) cs d)) (snd (run_calls (\<lambda>p c. pg_step cd c p) cs p))"
proof (induction cs arbitrary: d p)
  case (Cons c cs)
  then have "agree cd (snd (mem_step c d)) (snd (pg_step cd c p))" "fst (mem_step c d) = fst (pg_step cd c p)"
    using agree_step [of cd d p c] by simp_all
  with Cons show ?case by (simp add: split_def Let_def)
qed simp

lemma agree_empty: "agree cd empty_driver (empty_pg ttl)"
  by (simp add: agree_def pg_log_inv_def cache_coherent_def empty_pg_def events_of_actor_def event_log_of_def events_of_def
    snaps_of_def pg_snaps_of_def) (simp add: empty_driver_def)

section \<open>Properties\<close>

text \<open>
  C6. From empty stores, the memory driver and the Valkey/Postgres driver give the same answer to every call of
  any regular sequence of registrations, tombstones, fence bumps, fenced and unfenced appends and
  snapshot saves, reads, heads and loads, whatever the time that passes between them and the cache's
  TTL; afterwards the cache holds no snapshot that is not the newest one.
\<close>

theorem drivers_agree:
  assumes "all_regular cd cs empty_driver"
  shows "fst (run_calls (\<lambda>p c. pg_step cd c p) cs (empty_pg ttl)) = fst (run_calls (\<lambda>d c. mem_step c d) cs empty_driver)
    \<and> cache_coherent (snd (run_calls (\<lambda>p c. pg_step cd c p) cs (empty_pg ttl)))"
  using agree_run [OF agree_empty assms, of ttl] by (auto dest: agreeD(3))

definition plain_codec :: pg_codec where
  "plain_codec = \<lparr> cd_json = id, cd_jsonb = id, cd_size = (\<lambda>_. 0) \<rparr>"

definition demo_save :: "int \<Rightarrow> int \<Rightarrow> snapshot_write" where
  "demo_save q v = \<lparr> sw_class = ''Cart'', sw_version = ''1.0.0'', sw_seq = q, sw_state = JNum v \<rparr>"

definition demo_calls :: "driver_call list" where
  "demo_calls = [CRegister ''a'' ''Cart'' ''1.0.0'' [], CBump ''a'' 0, CAppend ''a'' [demo_write 1, demo_write 2] (Some 1),
     CAppend ''a'' [demo_write 3] (Some 0), CSave ''a'' (demo_save 2 7) None, CLoad ''a'', CHead ''a'']"

theorem drivers_agree_witness:
  "fst (run_calls (\<lambda>p c. pg_step plain_codec c p) demo_calls (empty_pg 60)) =
     [ANone, ASeq 1, ASeq 2, AError (StaleFenceTokenError ''a'' 0 1), ANone,
      ASnapshot (Some \<lparr> sr_class = ''Cart'', sr_version = ''1.0.0'', sr_seq = 2, sr_state = JNum 7 \<rparr>), ASeq 2]"
proof -
  note defs = demo_calls_def demo_save_def demo_write_def plain_codec_def survives_def empty_driver_def registerActor_def
    bumpActorFence_def loadActorFence_def appendEvents_def assertFence_def headEventSeq_def saveSnapshot_def loadSnapshot_def
    snaps_of_def best_key_def answer_of_def
  have "all_regular plain_codec demo_calls empty_driver" by (simp add: defs Let_def)
  moreover have "fst (run_calls (\<lambda>d c. mem_step c d) demo_calls empty_driver) =
     [ANone, ASeq 1, ASeq 2, AError (StaleFenceTokenError ''a'' 0 1), ANone,
      ASnapshot (Some \<lparr> sr_class = ''Cart'', sr_version = ''1.0.0'', sr_seq = 2, sr_state = JNum 7 \<rparr>), ASeq 2]"
    by (simp add: defs Let_def)
  ultimately show ?thesis using drivers_agree [of plain_codec demo_calls 60] by simp
qed

section \<open>Where the drivers part\<close>

text \<open>
  The snapshot a host saves at seq -1 to keep state through a class change is never loaded from the
  tables, but it goes to the cache, which answers with it until it expires or is overwritten.
\<close>

theorem retention_shadows_newest:
  "let p = snd (run_calls (\<lambda>p c. pg_step plain_codec c p)
       [CRegister ''a'' ''Cart'' ''1.0.0'' [], CSave ''a'' (demo_save 2 7) None, CSave ''a'' (demo_save (- 1) 5) None] (empty_pg 0));
     d = snd (run_calls (\<lambda>d c. mem_step c d)
       [CRegister ''a'' ''Cart'' ''1.0.0'' [], CSave ''a'' (demo_save 2 7) None, CSave ''a'' (demo_save (- 1) 5) None] empty_driver)
   in map_option sr_seq (loadSnapshot ''a'' d) = Some 2 \<and> map_option sr_seq (newest_row ''a'' p) = Some 2
      \<and> map_option sr_seq (fst (pg_loadSnapshot plain_codec ''a'' p)) = Some (- 1)"
  by (simp add: demo_save_def plain_codec_def empty_driver_def empty_pg_def registerActor_def pg_registerActor_def Let_def
      saveSnapshot_def pg_saveSnapshot_def assertFence_def pg_assertFence_def isOversizedSnapshot_def SNAPSHOT_SIZE_WARN_BYTES_def
      upsert_snapshot_def pg_update_actor_def writeHotCache_def loadSnapshot_def pg_loadSnapshot_def hot_get_def newest_row_def best_key_def)

text \<open>
  The transaction of an append does not exclude another one: the primary key has the time in it, so two
  appends that both read the head before either inserts give the same seqs to different events.
\<close>

theorem concurrent_appends_share_seqs:
  "let p = pg_registerActor ''a'' ''Cart'' ''1.0.0'' [] (empty_pg 0);
     b1 = the (append_begin ''a'' p);
     b2 = the (append_begin ''a'' (p \<lparr> vp_now := 1 \<rparr>));
     (r1, p1) = append_commit plain_codec ''a'' [demo_write 1] b1 (p \<lparr> vp_now := 1 \<rparr>);
     (r2, p2) = append_commit plain_codec ''a'' [demo_write 2] b2 p1
   in r1 = Inr 1 \<and> r2 = Inr 1 \<and> map (\<lambda>r. (er_seq r, er_payload r)) (pg_readEvents ''a'' 1 p2) = [(1, JNum 1), (1, JNum 2)]"
  by (simp add: Let_def pg_registerActor_def empty_pg_def append_begin_def append_commit_def pg_headEventSeq_def max_seq_def
      events_of_actor_def demo_write_def plain_codec_def pg_readEvents_def)

text \<open>A claim on an actor that was never registered: the memory driver grants it, the other refuses.\<close>

theorem bump_without_row_differs:
  "fst (mem_step (CBump ''a'' 0) empty_driver) = ASeq 1
   \<and> fst (pg_step cd (CBump ''a'' 0) (empty_pg ttl)) = AError (StaleFenceTokenError ''a'' 0 0)"
  by (simp add: empty_driver_def empty_pg_def bumpActorFence_def pg_bumpActorFence_def loadActorFence_def pg_loadActorFence_def
      answer_of_def Let_def)

text \<open>Registering an actor again: the memory driver starts its fence at zero, the other keeps it.\<close>

theorem reregister_differs:
  "map_get (vp_actors p) i = Some r \<Longrightarrow>
   pg_loadActorFence i (pg_registerActor i c v tags p) = ar_fence r \<and> loadActorFence i (registerActor i c v tags d) = 0"
  by (simp add: pg_registerActor_def pg_loadActorFence_def registerActor_def loadActorFence_def)

text \<open>A deprecation whose grace period ended at the epoch is stored without a deadline.\<close>

theorem zero_grace_is_endless:
  "cv_graceUntil r = None \<Longrightarrow> vp_versions p = [r] \<Longrightarrow>
   map cv_graceUntil (vp_versions (pg_deprecateClassVersion (cv_name r) (cv_version r) (Some 0) p)) = [None]"
  by (simp add: pg_deprecateClassVersion_def)

text \<open>
  The text of a set member is the JSON of the message; recovery builds it from the \<open>jsonb\<close> column, which
  has its own order of keys. When the order differs the member is new, and the reminder fires twice.
\<close>

theorem recovered_reminder_fires_twice:
  "let m = \<lparr> rm_actor = ''a'', rm_class = ''Cart'', rm_type = ''Tick'',
       rm_payload = JObj [(''bb'', JNum 1), (''a'', JNum 2)] \<rparr>;
     cd = plain_codec \<lparr> cd_jsonb := (\<lambda>v. case v of JObj o' \<Rightarrow> JObj (rev o') | _ \<Rightarrow> v) \<rparr>;
     p = recoverReminders cd (snd (pg_enqueueReminder cd ''u'' 5 m (empty_pg 0)))
   in map rm_payload (fst (pg_popDueReminders 9 10 p))
      = [JObj [(''bb'', JNum 1), (''a'', JNum 2)], JObj [(''a'', JNum 2), (''bb'', JNum 1)]]"
  by (simp add: Let_def plain_codec_def empty_pg_def pg_enqueueReminder_def recoverReminders_def zadd_def stored_msg_def
      pg_popDueReminders_def pop_members_def due_members_def)

end
