(* ===== verification/Logging.thy ===== *)
theory Logging
  imports Errors
begin

text \<open>
  The logging surface (\<open>src/log/index.ts\<close>): how the levels of the root logger and of the subsystems are
  resolved from options and environment, what a child logger's level is, and the collecting logger.
  The lines \<open>pino\<close> prints and their redaction are left out.
\<close>

section \<open>Levels\<close>

datatype log_level = LFatal | LError | LWarn | LInfo | LDebug | LTrace | LSilent

definition level_names :: "(string \<times> log_level) list" where
  "level_names = [(''fatal'', LFatal), (''error'', LError), (''warn'', LWarn), (''info'', LInfo), (''debug'', LDebug),
     (''trace'', LTrace), (''silent'', LSilent)]"

definition isLogLevel :: "string \<Rightarrow> log_level option" where
  "isLogLevel v = map_of level_names v"

datatype subsystem = SubServer | SubRuntime | SubDriver | SubHandler | SubAudit

definition SUBSYSTEMS :: "subsystem list" where
  "SUBSYSTEMS = [SubServer, SubRuntime, SubDriver, SubHandler, SubAudit]"

fun subsystem_name :: "subsystem \<Rightarrow> string" where
  "subsystem_name SubServer = ''server''"
| "subsystem_name SubRuntime = ''runtime''"
| "subsystem_name SubDriver = ''driver''"
| "subsystem_name SubHandler = ''handler''"
| "subsystem_name SubAudit = ''audit''"

text \<open>\<open>ACTJS_LOG_LEVEL_${sub.toUpperCase()}\<close>.\<close>

definition upper_char :: "char \<Rightarrow> char" where
  "upper_char c = (if 97 \<le> (of_char c :: nat) \<and> (of_char c :: nat) \<le> 122 then char_of (of_char c - 32 :: nat) else c)"

definition subsystem_env :: "subsystem \<Rightarrow> string" where
  "subsystem_env s = ''ACTJS_LOG_LEVEL_'' @ map upper_char (subsystem_name s)"

lemma subsystem_env_names:
  "subsystem_env SubServer = ''ACTJS_LOG_LEVEL_SERVER''" "subsystem_env SubRuntime = ''ACTJS_LOG_LEVEL_RUNTIME''"
  "subsystem_env SubDriver = ''ACTJS_LOG_LEVEL_DRIVER''" "subsystem_env SubHandler = ''ACTJS_LOG_LEVEL_HANDLER''"
  "subsystem_env SubAudit = ''ACTJS_LOG_LEVEL_AUDIT''"
  by code_simp+

type_synonym environ = "(string, string) jsmap"

definition env_level :: "environ \<Rightarrow> string \<Rightarrow> log_level option" where
  "env_level env key = Option.bind (map_get env key) isLogLevel"

definition resolveLevel :: "environ \<Rightarrow> log_level \<Rightarrow> string option \<Rightarrow> log_level" where
  "resolveLevel env fallback envKey = (case Option.bind envKey (env_level env) of
      Some l \<Rightarrow> l
    | None \<Rightarrow> (case env_level env ''ACTJS_LOG_LEVEL'' of Some l \<Rightarrow> l | None \<Rightarrow> fallback))"

definition subsystemDefault :: "subsystem \<Rightarrow> log_level" where
  "subsystemDefault s = (if s = SubDriver then LWarn else LInfo)"

text \<open>The level the map holds for one subsystem, if any.\<close>

definition subsystem_level :: "environ \<Rightarrow> (subsystem \<Rightarrow> log_level option) \<Rightarrow> subsystem \<Rightarrow> log_level option" where
  "subsystem_level env overrides s = (
     let fallback = subsystemDefault s;
         resolved = resolveLevel env (case overrides s of Some l \<Rightarrow> l | None \<Rightarrow> fallback) (Some (subsystem_env s))
     in if resolved \<noteq> fallback then Some resolved else overrides s)"

definition resolveSubsystemLevels :: "environ \<Rightarrow> (subsystem \<Rightarrow> log_level option) \<Rightarrow> (subsystem, log_level) jsmap" where
  "resolveSubsystemLevels env overrides = foldl (\<lambda>m s. case subsystem_level env overrides s of
      Some l \<Rightarrow> map_set s l m | None \<Rightarrow> m) [] SUBSYSTEMS"

section \<open>The logger\<close>

type_synonym log_fields = "(string, jsval) jsmap"

record pino_logger =
  pl_level :: log_level
  pl_bindings :: log_fields
  pl_subsystemLevels :: "(subsystem, log_level) jsmap"

definition makeLogger :: "environ \<Rightarrow> log_level option \<Rightarrow> (subsystem \<Rightarrow> log_level option) \<Rightarrow> pino_logger" where
  "makeLogger env level overrides = \<lparr>
     pl_level = resolveLevel env (case level of Some l \<Rightarrow> l | None \<Rightarrow> LInfo) None,
     pl_bindings = [], pl_subsystemLevels = resolveSubsystemLevels env overrides \<rparr>"

definition subsystem_of :: "jsval option \<Rightarrow> subsystem option" where
  "subsystem_of v = (case v of Some (JStr s) \<Rightarrow> find (\<lambda>x. subsystem_name x = s) SUBSYSTEMS | _ \<Rightarrow> None)"

definition logger_child :: "log_fields \<Rightarrow> pino_logger \<Rightarrow> pino_logger" where
  "logger_child fs l = l \<lparr>
     pl_level := (case Option.bind (subsystem_of (map_get fs ''subsystem'')) (map_get (pl_subsystemLevels l)) of
        Some x \<Rightarrow> x | None \<Rightarrow> pl_level l),
     pl_bindings := foldl (\<lambda>m (k, v). map_set k v m) (pl_bindings l) fs \<rparr>"

section \<open>The collector\<close>

record collected_event =
  ce_level :: log_level
  ce_msg :: string
  ce_fields :: log_fields

text \<open>\<open>{ ...a, ...b }\<close>.\<close>

definition merged_fields :: "log_fields \<Rightarrow> log_fields \<Rightarrow> log_fields" where
  "merged_fields a b = foldl (\<lambda>m (k, v). map_set k v m) a b"

definition collect_record :: "log_fields \<Rightarrow> log_level \<Rightarrow> string \<Rightarrow> log_fields option \<Rightarrow> collected_event list \<Rightarrow> collected_event list" where
  "collect_record fs level what extra events = events @ [\<lparr> ce_level = level, ce_msg = what,
     ce_fields = merged_fields fs (case extra of Some e \<Rightarrow> e | None \<Rightarrow> []) \<rparr>]"

definition collect_child :: "log_fields \<Rightarrow> log_fields \<Rightarrow> log_fields" where
  "collect_child fs extras = merged_fields fs extras"

section \<open>What a child logs at\<close>

lemma merged_fields_get: "map_get (merged_fields a b) k = (case map_get (rev b) k of Some v \<Rightarrow> Some v | None \<Rightarrow> map_get a k)"
proof (induction b arbitrary: a)
  case (Cons p b)
  obtain x v where p: "p = (x, v)" by (cases p)
  have "merged_fields a (p # b) = merged_fields (map_set x v a) b" by (simp add: merged_fields_def p)
  then show ?case using Cons [of "map_set x v a"] by (auto simp: p map_add_def split: option.splits)
qed (simp add: merged_fields_def)

lemma subsystem_levels_get: "map_get (resolveSubsystemLevels env ov) s = subsystem_level env ov s"
  by (cases s) (simp_all add: resolveSubsystemLevels_def SUBSYSTEMS_def split: option.split)

lemma subsystem_of_name: "subsystem_of (Some (JStr (subsystem_name s))) = Some s"
  by (cases s) (simp_all add: subsystem_of_def SUBSYSTEMS_def)

definition child_level :: "environ \<Rightarrow> log_level option \<Rightarrow> (subsystem \<Rightarrow> log_level option) \<Rightarrow> subsystem \<Rightarrow> log_level" where
  "child_level env level ov s = pl_level (logger_child [(''subsystem'', JStr (subsystem_name s))] (makeLogger env level ov))"

lemma child_level_eq:
  "child_level env level ov s = (case subsystem_level env ov s of Some l \<Rightarrow> l | None \<Rightarrow> pl_level (makeLogger env level ov))"
  by (simp add: child_level_def logger_child_def subsystem_of_name) (simp add: makeLogger_def subsystem_levels_get)

text \<open>A level the environment sets for a subsystem is its child's level when it is not the default.\<close>

lemma subsystem_env_level_child:
  "env_level env (subsystem_env s) = Some l \<Longrightarrow> l \<noteq> subsystemDefault s \<Longrightarrow> child_level env level ov s = l"
  by (simp add: child_level_eq subsystem_level_def resolveLevel_def Let_def)

theorem subsystem_env_obeyed:
  "child_level [(''ACTJS_LOG_LEVEL_AUDIT'', ''trace'')] None (\<lambda>_. None) SubAudit = LTrace"
  by (rule subsystem_env_level_child)
    (simp_all add: env_level_def subsystem_env_names isLogLevel_def level_names_def subsystemDefault_def)

text \<open>
  The driver's default, warn, is never in force: it equals the fallback, so that nothing is stored for it
  and the child keeps the level of the root.
\<close>

theorem driver_default_ignored:
  "child_level [] None (\<lambda>_. None) SubDriver = LInfo \<and> subsystemDefault SubDriver = LWarn"
  by (simp add: child_level_eq subsystem_level_def resolveLevel_def env_level_def subsystemDefault_def makeLogger_def Let_def)

text \<open>An environment level that is the default loses to the option it is to override.\<close>

theorem option_beats_environment:
  "child_level [(''ACTJS_LOG_LEVEL_SERVER'', ''info'')] None ((\<lambda>_. None)(SubServer := Some LDebug)) SubServer = LDebug"
  by (simp add: child_level_eq subsystem_level_def resolveLevel_def env_level_def subsystem_env_names isLogLevel_def level_names_def
      subsystemDefault_def Let_def)

text \<open>An event of a collecting logger carries its own fields over the child's over the base's.\<close>

theorem collected_fields:
  "map_get (ce_fields (last (collect_record (collect_child base extras) level what (Some extra) events))) k =
     (case map_get (rev extra) k of Some v \<Rightarrow> Some v | None \<Rightarrow>
       (case map_get (rev extras) k of Some v \<Rightarrow> Some v | None \<Rightarrow> map_get base k))"
  by (simp add: collect_record_def collect_child_def merged_fields_get cong: option.case_cong)

section \<open>What is written\<close>

text \<open>The levels in the order of the package: a logger writes the events at its level and above, \<open>silent\<close> none.\<close>

fun severity :: "log_level \<Rightarrow> nat" where
  "severity LTrace = 10" | "severity LDebug = 20" | "severity LInfo = 30" | "severity LWarn = 40"
| "severity LError = 50" | "severity LFatal = 60" | "severity LSilent = 70"

lemma severity_inject: "severity a = severity b \<Longrightarrow> a = b"
  by (cases a; cases b) simp_all

instantiation log_level :: linorder
begin

definition less_eq_log_level :: "log_level \<Rightarrow> log_level \<Rightarrow> bool" where
  "a \<le> b \<longleftrightarrow> severity a \<le> severity b"

definition less_log_level :: "log_level \<Rightarrow> log_level \<Rightarrow> bool" where
  "a < b \<longleftrightarrow> severity a < severity b"

instance
  by standard (auto simp: less_eq_log_level_def less_log_level_def dest: severity_inject)

end

text \<open>The six methods: the level of the event, the fields (none given: empty) and the message, handed to the package.\<close>

definition log_event :: "log_level \<Rightarrow> string \<Rightarrow> log_fields option \<Rightarrow> pino_logger \<Rightarrow> collected_event list" where
  "log_event level what fs l = (
     if pl_level l \<le> level \<and> level < LSilent
     then [\<lparr> ce_level = level, ce_msg = what, ce_fields = merged_fields (pl_bindings l) (case fs of Some e \<Rightarrow> e | None \<Rightarrow> []) \<rparr>]
     else [])"

text \<open>A logger with a lower level writes at least as much, and what both write is the same; a silent one writes nothing.\<close>

theorem lower_level_writes_more:
  "a \<le> b \<Longrightarrow> log_event level what fs (l \<lparr> pl_level := b \<rparr>) \<noteq> [] \<Longrightarrow>
     log_event level what fs (l \<lparr> pl_level := a \<rparr>) = log_event level what fs (l \<lparr> pl_level := b \<rparr>)"
  by (auto simp: log_event_def split: if_splits)

theorem silent_writes_nothing: "log_event level what fs (l \<lparr> pl_level := LSilent \<rparr>) = []"
  by (auto simp: log_event_def)

text \<open>
  A child that asks for a subsystem under its environment level writes exactly from that level on, with the
  fields of the call over those of the child.
\<close>

theorem subsystem_writes_from_level:
  assumes "env_level env (subsystem_env s) = Some x" and "x \<noteq> subsystemDefault s" and "level \<noteq> LSilent"
  shows "log_event level what (Some fs) (logger_child [(''subsystem'', JStr (subsystem_name s))] (makeLogger env root_level ov)) \<noteq> []
    \<longleftrightarrow> x \<le> level"
proof -
  have "pl_level (logger_child [(''subsystem'', JStr (subsystem_name s))] (makeLogger env root_level ov)) = x"
    using subsystem_env_level_child [OF assms(1,2)] by (simp add: child_level_def)
  moreover have "level < LSilent" using assms(3) by (cases level) (simp_all add: less_log_level_def)
  ultimately show ?thesis by (simp add: log_event_def)
qed

text \<open>The driver of an application without settings writes at info.\<close>

theorem driver_writes_info:
  "log_event LInfo ''row'' None (logger_child [(''subsystem'', JStr ''driver'')] (makeLogger [] None (\<lambda>_. None))) \<noteq> []"
  by (simp add: log_event_def logger_child_def subsystem_of_def SUBSYSTEMS_def makeLogger_def subsystem_levels_get
      subsystem_level_def resolveLevel_def env_level_def subsystemDefault_def less_log_level_def Let_def)

end
