(* ===== verification/Metrics.thy ===== *)
theory Metrics
  imports Errors
begin

text \<open>
  The metrics surface (\<open>src/metrics/index.ts\<close>) and its call sites in \<open>Runtime.call\<close>: which samples the
  process hands to the Prometheus client, with the allow-list that keeps the method label small. The
  client library itself is left out: the model keeps the calls made on it.
\<close>

section \<open>State\<close>

text \<open>A call on a counter or gauge: \<open>inc(labels, n)\<close> or \<open>set(labels, n)\<close>.\<close>

datatype prom_call = PromInc string "(string \<times> string) list" int | PromSet string "(string \<times> string) list" int

record metrics_registry =
  mx_prefix :: string
  mx_methodLimit :: int
  mx_methodsByClass :: "(class_name, string list) jsmap"
  mx_overflowWarned :: bool
  mx_calls :: "prom_call list"
  mx_warnings :: "(class_name \<times> string) list"

definition DEFAULT_METHOD_LIMIT :: int where
  "DEFAULT_METHOD_LIMIT = 50"

definition new_metrics :: "int option \<Rightarrow> string option \<Rightarrow> metrics_registry" where
  "new_metrics limit prefix = \<lparr> mx_prefix = (case prefix of Some p \<Rightarrow> p | None \<Rightarrow> ''actjs_''),
     mx_methodLimit = (case limit of Some n \<Rightarrow> n | None \<Rightarrow> DEFAULT_METHOD_LIMIT),
     mx_methodsByClass = [], mx_overflowWarned = False, mx_calls = [], mx_warnings = [] \<rparr>"

definition prom :: "prom_call \<Rightarrow> metrics_registry \<Rightarrow> metrics_registry" where
  "prom c m = m \<lparr> mx_calls := mx_calls m @ [c] \<rparr>"

section \<open>The allow-list\<close>

definition allowed_methods :: "class_name \<Rightarrow> metrics_registry \<Rightarrow> string list" where
  "allowed_methods c m = (case map_get (mx_methodsByClass m) c of Some ms \<Rightarrow> ms | None \<Rightarrow> [])"

definition bucketMethod :: "class_name \<Rightarrow> string \<Rightarrow> metrics_registry \<Rightarrow> string \<times> metrics_registry" where
  "bucketMethod c meth m = (
     let known = allowed_methods c m;
         m1 = m \<lparr> mx_methodsByClass := map_set c known (mx_methodsByClass m) \<rparr>
     in if meth \<in> set known then (meth, m1)
        else if int (length known) < mx_methodLimit m
        then (meth, m1 \<lparr> mx_methodsByClass := map_set c (known @ [meth]) (mx_methodsByClass m1) \<rparr>)
        else (''_other'', if mx_overflowWarned m1 then m1
               else m1 \<lparr> mx_overflowWarned := True, mx_warnings := mx_warnings m1 @ [(c, meth)] \<rparr>))"

section \<open>Recording\<close>

definition recordCall :: "class_name \<Rightarrow> string \<Rightarrow> string \<Rightarrow> metrics_registry \<Rightarrow> metrics_registry" where
  "recordCall c meth outcome m = (let (label, m1) = bucketMethod c meth m in
     prom (PromInc (mx_prefix m @ ''actor_message_total'')
       [(''class'', c), (''method'', label), (''outcome'', outcome)] 1) m1)"

definition recordActivation :: "class_name \<Rightarrow> version \<Rightarrow> int \<Rightarrow> metrics_registry \<Rightarrow> metrics_registry" where
  "recordActivation c v delta m = prom (PromInc (mx_prefix m @ ''actor_active'') [(''class'', c), (''version'', v)] delta) m"

definition setMailboxDepth :: "class_name \<Rightarrow> int \<Rightarrow> metrics_registry \<Rightarrow> metrics_registry" where
  "setMailboxDepth c depth m = prom (PromSet (mx_prefix m @ ''actor_mailbox_depth'') [(''class'', c)] depth) m"

definition recordEventAppend :: "class_name \<Rightarrow> metrics_registry \<Rightarrow> metrics_registry" where
  "recordEventAppend c m = prom (PromInc (mx_prefix m @ ''event_append_total'') [(''class'', c)] 1) m"

definition recordSnapshot :: "class_name \<Rightarrow> metrics_registry \<Rightarrow> metrics_registry" where
  "recordSnapshot c m = prom (PromInc (mx_prefix m @ ''event_snapshot_total'') [(''class'', c)] 1) m"

definition recordPolicyDecision :: "class_name \<Rightarrow> bool \<Rightarrow> metrics_registry \<Rightarrow> metrics_registry" where
  "recordPolicyDecision c allowed m = prom (PromInc (mx_prefix m @ ''policy_decision_total'')
     [(''class'', c), (''decision'', if allowed then ''allow'' else ''deny'')] 1) m"

definition recordRateLimitDrop :: "string \<Rightarrow> metrics_registry \<Rightarrow> metrics_registry" where
  "recordRateLimitDrop subject m = prom (PromInc (mx_prefix m @ ''rate_limit_drop_total'') [(''subject'', subject)] 1) m"

definition recordCapacityExhausted :: "class_name \<Rightarrow> metrics_registry \<Rightarrow> metrics_registry" where
  "recordCapacityExhausted c m = prom (PromInc (mx_prefix m @ ''capacity_exhausted_total'') [(''class'', c)] 1) m"

definition recordCapabilityMint :: "class_name \<Rightarrow> metrics_registry \<Rightarrow> metrics_registry" where
  "recordCapabilityMint c m = prom (PromInc (mx_prefix m @ ''capability_minted_total'') [(''class'', c)] 1) m"

text \<open>The metrics half of \<open>Runtime.call\<close>: one record of the outcome, and what its error adds.\<close>

definition record_outcome :: "class_name \<Rightarrow> string \<Rightarrow> error + 'a \<Rightarrow> metrics_registry \<Rightarrow> metrics_registry" where
  "record_outcome c meth r m = (case r of
      Inr _ \<Rightarrow> recordCall c meth ''ok'' m
    | Inl (RateLimitedError subject oper wait) \<Rightarrow> recordRateLimitDrop subject (recordCall c meth ''rate_limited'' m)
    | Inl (CapacityExhaustedError c' n) \<Rightarrow> recordCapacityExhausted c' (recordCall c meth ''cap_exhausted'' m)
    | Inl (PolicyDeniedError a b) \<Rightarrow> recordCall c meth ''denied'' m
    | Inl _ \<Rightarrow> recordCall c meth ''error'' m)"

text \<open>The loop over the events of a commit.\<close>

definition record_appends :: "class_name \<Rightarrow> nat \<Rightarrow> metrics_registry \<Rightarrow> metrics_registry" where
  "record_appends c n m = (recordEventAppend c ^^ n) m"

datatype metrics_op =
    MCall class_name string "error + jsval"
  | MActivation class_name version int
  | MAppends class_name nat
  | MSnapshot class_name
  | MDecision class_name bool
  | MMint class_name

fun metrics_step :: "metrics_registry \<Rightarrow> metrics_op \<Rightarrow> metrics_registry" where
  "metrics_step m (MCall c meth r) = record_outcome c meth r m"
| "metrics_step m (MActivation c v n) = recordActivation c v n m"
| "metrics_step m (MAppends c n) = record_appends c n m"
| "metrics_step m (MSnapshot c) = recordSnapshot c m"
| "metrics_step m (MDecision c b) = recordPolicyDecision c b m"
| "metrics_step m (MMint c) = recordCapabilityMint c m"

section \<open>What was sampled\<close>

text \<open>The label triples handed to \<open>actor_message_total\<close>: class, method, outcome.\<close>

definition message_label :: "string \<Rightarrow> prom_call \<Rightarrow> (string \<times> string \<times> string) list" where
  "message_label p c = (case c of
      PromInc name [(a, x), (b, y), (d, z)] n \<Rightarrow> if name = p @ ''actor_message_total'' then [(x, y, z)] else []
    | _ \<Rightarrow> [])"

definition message_labels :: "metrics_registry \<Rightarrow> (string \<times> string \<times> string) list" where
  "message_labels m = concat (map (message_label (mx_prefix m)) (mx_calls m))"

definition outcome_name :: "error + 'a \<Rightarrow> string" where
  "outcome_name r = (case r of
      Inr _ \<Rightarrow> ''ok'' | Inl (RateLimitedError _ _ _) \<Rightarrow> ''rate_limited'' | Inl (CapacityExhaustedError _ _) \<Rightarrow> ''cap_exhausted''
    | Inl (PolicyDeniedError _ _) \<Rightarrow> ''denied'' | Inl _ \<Rightarrow> ''error'')"

definition class_methods :: "class_name \<Rightarrow> metrics_registry \<Rightarrow> string set" where
  "class_methods c m = {y. \<exists>z. (c, y, z) \<in> set (message_labels m)}"

definition metrics_inv :: "metrics_registry \<Rightarrow> bool" where
  "metrics_inv m \<longleftrightarrow> (\<forall>c. distinct (allowed_methods c m) \<and> int (length (allowed_methods c m)) \<le> max 0 (mx_methodLimit m)
      \<and> class_methods c m \<subseteq> insert ''_other'' (set (allowed_methods c m)))
    \<and> length (mx_warnings m) = (if mx_overflowWarned m then 1 else 0)"

lemma message_labels_prom [simp]:
  "message_labels (prom c m) = message_labels m @ message_label (mx_prefix m) c"
  by (simp add: message_labels_def prom_def)

lemma prom_frame [simp]:
  "mx_methodsByClass (prom c m) = mx_methodsByClass m" "mx_methodLimit (prom c m) = mx_methodLimit m" "mx_prefix (prom c m) = mx_prefix m"
  "mx_overflowWarned (prom c m) = mx_overflowWarned m" "mx_warnings (prom c m) = mx_warnings m"
  by (simp_all add: prom_def)

lemma message_label_short [simp]:
  "message_label p (PromInc n [x] k) = []" "message_label p (PromInc n [x, y] k) = []" "message_label p (PromSet n l k) = []"
  by (simp_all add: message_label_def split: prod.split)

lemma metrics_inv_quiet:
  assumes "metrics_inv m" "mx_methodsByClass m' = mx_methodsByClass m" "mx_methodLimit m' = mx_methodLimit m"
    "message_labels m' = message_labels m" "mx_overflowWarned m' = mx_overflowWarned m" "mx_warnings m' = mx_warnings m"
  shows "metrics_inv m'"
  using assms by (simp add: metrics_inv_def allowed_methods_def class_methods_def)

lemma metrics_inv_prom: "metrics_inv m \<Longrightarrow> message_label (mx_prefix m) x = [] \<Longrightarrow> metrics_inv (prom x m)"
  by (erule metrics_inv_quiet) simp_all

lemma bucketMethod_effect:
  assumes "bucketMethod c meth m = (label, m1)" and "metrics_inv m"
  shows "label = meth \<or> label = ''_other''" "label \<in> insert ''_other'' (set (allowed_methods c m1))"
    "metrics_inv m1" "mx_prefix m1 = mx_prefix m" "message_labels m1 = message_labels m" "mx_methodLimit m1 = mx_methodLimit m"
    "meth \<in> set (allowed_methods c m) \<or> int (length (allowed_methods c m)) < mx_methodLimit m \<Longrightarrow> label = meth"
    "set (allowed_methods c' m) \<subseteq> set (allowed_methods c' m1)"
proof -
  have ms: "mx_methodsByClass m1 = map_set c (allowed_methods c m1) (mx_methodsByClass m)"
    and k: "allowed_methods c m1 = (if meth \<in> set (allowed_methods c m) \<or> \<not> int (length (allowed_methods c m)) < mx_methodLimit m
      then allowed_methods c m else allowed_methods c m @ [meth])"
    using assms(1) by (auto simp: bucketMethod_def Let_def allowed_methods_def split: if_splits)
  have other: "allowed_methods c' m1 = allowed_methods c' m" if "c' \<noteq> c" for c'
    using that by (subst allowed_methods_def, subst ms) (simp add: allowed_methods_def)
  show "label = meth \<or> label = ''_other''" and lab: "label \<in> insert ''_other'' (set (allowed_methods c m1))"
    and frame: "mx_prefix m1 = mx_prefix m" "message_labels m1 = message_labels m" "mx_methodLimit m1 = mx_methodLimit m"
    and "meth \<in> set (allowed_methods c m) \<or> int (length (allowed_methods c m)) < mx_methodLimit m \<Longrightarrow> label = meth"
    using assms(1) k by (auto simp: bucketMethod_def Let_def message_labels_def split: if_splits)
  show sub: "set (allowed_methods c' m) \<subseteq> set (allowed_methods c' m1)" for c'
    using k other by (cases "c' = c") auto
  have "length (mx_warnings m1) = (if mx_overflowWarned m1 then 1 else 0)"
    using assms by (auto simp: bucketMethod_def Let_def metrics_inv_def split: if_splits)
  moreover have "distinct (allowed_methods c' m1) \<and> int (length (allowed_methods c' m1)) \<le> max 0 (mx_methodLimit m1)
      \<and> class_methods c' m1 \<subseteq> insert ''_other'' (set (allowed_methods c' m1))" for c'
  proof -
    have "class_methods c' m1 = class_methods c' m" by (simp add: class_methods_def frame)
    moreover have "distinct (allowed_methods c' m)" "int (length (allowed_methods c' m)) \<le> max 0 (mx_methodLimit m)"
        "class_methods c' m \<subseteq> insert ''_other'' (set (allowed_methods c' m))" using assms(2) by (simp_all add: metrics_inv_def)
    ultimately show ?thesis using sub [of c'] k other frame(3) by (cases "c' = c") auto
  qed
  ultimately show "metrics_inv m1" by (simp add: metrics_inv_def)
qed

lemma recordCall_effect:
  assumes "metrics_inv m"
  shows "metrics_inv (recordCall c meth outcome m)"
    "\<exists>label. message_labels (recordCall c meth outcome m) = message_labels m @ [(c, label, outcome)] \<and> (label = meth \<or> label = ''_other'')"
proof -
  obtain label m1 where b: "bucketMethod c meth m = (label, m1)" by (cases "bucketMethod c meth m")
  note e = bucketMethod_effect [OF b assms]
  have labs: "message_labels (recordCall c meth outcome m) = message_labels m @ [(c, label, outcome)]"
    using e(4,5) by (simp add: recordCall_def b message_label_def)
  then show "\<exists>label. message_labels (recordCall c meth outcome m) = message_labels m @ [(c, label, outcome)] \<and> (label = meth \<or> label = ''_other'')"
    using e(1) by blast
  have "class_methods c' (recordCall c meth outcome m) = class_methods c' m1 \<union> (if c' = c then {label} else {})" for c'
    using labs e(5) by (auto simp: class_methods_def)
  then show "metrics_inv (recordCall c meth outcome m)"
    using e(2,3) by (auto simp: metrics_inv_def recordCall_def b allowed_methods_def)
qed

lemma record_outcome_effect:
  assumes "metrics_inv m"
  shows "metrics_inv (record_outcome c meth r m) \<and> (\<exists>label. message_labels (record_outcome c meth r m)
      = message_labels m @ [(c, label, outcome_name r)] \<and> (label = meth \<or> label = ''_other''))"
  using recordCall_effect [OF assms, of c meth "outcome_name r"]
  by (auto simp: record_outcome_def outcome_name_def recordRateLimitDrop_def recordCapacityExhausted_def intro!: metrics_inv_prom
      split: sum.splits error.splits)

lemma record_appends_effect:
  "metrics_inv m \<Longrightarrow> metrics_inv (record_appends c n m) \<and> message_labels (record_appends c n m) = message_labels m"
proof (induction n)
  case (Suc n)
  then show ?case by (auto simp: record_appends_def recordEventAppend_def intro!: metrics_inv_prom)
qed (simp add: record_appends_def)

text \<open>The calls an operation reports: class, method and outcome.\<close>

fun reported :: "metrics_op \<Rightarrow> (string \<times> string \<times> string) list" where
  "reported (MCall c meth r) = [(c, meth, outcome_name r)]"
| "reported _ = []"

definition bucketed :: "string \<times> string \<times> string \<Rightarrow> string \<times> string \<times> string \<Rightarrow> bool" where
  "bucketed x y \<longleftrightarrow> fst y = fst x \<and> snd (snd y) = snd (snd x) \<and> (fst (snd y) = fst (snd x) \<or> fst (snd y) = ''_other'')"

lemma metrics_step_effect:
  assumes "metrics_inv m"
  shows "metrics_inv (metrics_step m x) \<and> (\<exists>new. message_labels (metrics_step m x) = message_labels m @ new \<and> list_all2 bucketed (reported x) new)"
proof (cases x)
  case (MCall c meth r)
  then show ?thesis using record_outcome_effect [OF assms, of c meth r] by (auto simp: bucketed_def)
next
  case (MAppends c n)
  then show ?thesis using record_appends_effect [OF assms, of c n] by simp
qed (use assms in \<open>auto simp: recordActivation_def recordSnapshot_def recordPolicyDecision_def recordCapabilityMint_def intro!: metrics_inv_prom\<close>)

lemma metrics_run_effect:
  "metrics_inv m \<Longrightarrow> metrics_inv (foldl metrics_step m xs) \<and>
   (\<exists>new. message_labels (foldl metrics_step m xs) = message_labels m @ new \<and> list_all2 bucketed (concat (map reported xs)) new)"
proof (induction xs arbitrary: m)
  case (Cons x xs)
  obtain new where n: "message_labels (metrics_step m x) = message_labels m @ new" "list_all2 bucketed (reported x) new"
    and inv: "metrics_inv (metrics_step m x)" using metrics_step_effect [OF Cons.prems] by blast
  obtain rest where "message_labels (foldl metrics_step (metrics_step m x) xs) = message_labels (metrics_step m x) @ rest"
      "list_all2 bucketed (concat (map reported xs)) rest" "metrics_inv (foldl metrics_step (metrics_step m x) xs)"
    using Cons.IH [OF inv] by blast
  with n show ?case by (auto intro!: exI [of _ "new @ rest"] list_all2_appendI)
qed simp

lemma limit_kept: "mx_methodLimit (foldl metrics_step m xs) = mx_methodLimit m"
proof (induction xs arbitrary: m)
  case (Cons x xs)
  have "mx_methodLimit (recordCall c meth out m) = mx_methodLimit m" for c meth out m
    by (auto simp: recordCall_def bucketMethod_def Let_def)
  moreover have "mx_methodLimit (record_appends c n m) = mx_methodLimit m" for c n m
    by (induction n) (simp_all add: record_appends_def recordEventAppend_def)
  ultimately have "mx_methodLimit (metrics_step m x) = mx_methodLimit m"
    by (cases x) (auto simp: record_outcome_def recordRateLimitDrop_def recordCapacityExhausted_def recordActivation_def
      recordSnapshot_def recordPolicyDecision_def recordCapabilityMint_def split: sum.split error.split)
  with Cons show ?case by simp
qed simp

lemma metrics_inv_new: "metrics_inv (new_metrics limit prefix)"
  by (simp add: metrics_inv_def new_metrics_def allowed_methods_def class_methods_def message_labels_def)

section \<open>Properties\<close>

text \<open>
  Whatever the process records, every call is sampled exactly once, in order, under its class and the
  outcome of its result, and under its method or \<open>_other\<close>; no class has more than the limit's number of
  method labels and \<open>_other\<close>, and the overflow is warned of at most once.
\<close>

theorem method_labels_bounded:
  "list_all2 bucketed (concat (map reported ops)) (message_labels (foldl metrics_step (new_metrics limit prefix) ops))
   \<and> card (class_methods c (foldl metrics_step (new_metrics limit prefix) ops)) \<le> nat (case limit of Some n \<Rightarrow> n | None \<Rightarrow> 50) + 1
   \<and> length (mx_warnings (foldl metrics_step (new_metrics limit prefix) ops)) \<le> 1"
proof -
  let ?m = "new_metrics limit prefix" and ?m' = "foldl metrics_step (new_metrics limit prefix) ops"
  note run = metrics_run_effect [OF metrics_inv_new, of limit prefix ops]
  have "mx_methodLimit ?m' = (case limit of Some n \<Rightarrow> n | None \<Rightarrow> 50)"
    by (cases limit) (simp_all add: limit_kept new_metrics_def DEFAULT_METHOD_LIMIT_def)
  moreover have inv: "metrics_inv ?m'" using run by blast
  moreover have "int (length (allowed_methods c ?m')) \<le> max 0 (mx_methodLimit ?m')" using inv by (simp add: metrics_inv_def)
  ultimately have len: "length (allowed_methods c ?m') \<le> nat (case limit of Some n \<Rightarrow> n | None \<Rightarrow> 50)" by linarith
  have "card (class_methods c ?m') \<le> card (insert ''_other'' (set (allowed_methods c ?m')))"
    using inv by (intro card_mono) (simp_all add: metrics_inv_def)
  also have "\<dots> \<le> card (set (allowed_methods c ?m')) + 1" by (simp add: card_insert_if)
  also have "\<dots> \<le> length (allowed_methods c ?m') + 1" by (simp add: card_length)
  finally have "card (class_methods c ?m') \<le> nat (case limit of Some n \<Rightarrow> n | None \<Rightarrow> 50) + 1" using len by simp
  moreover have "message_labels ?m = []" by (simp add: new_metrics_def message_labels_def)
  ultimately show ?thesis using run by (auto simp: metrics_inv_def)
qed

text \<open>
  The class label has no such bound: a call is recorded under the class of its request, also when no such
  class exists.
\<close>

theorem class_labels_unbounded:
  "distinct cs \<Longrightarrow>
   card (fst ` set (message_labels (foldl metrics_step (new_metrics None None) (map (\<lambda>c. MCall c ''get'' (Inl (ClassNotFound c))) cs)))) = length cs"
proof -
  let ?ops = "map (\<lambda>c. MCall c ''get'' (Inl (ClassNotFound c))) cs"
  obtain new where n: "message_labels (foldl metrics_step (new_metrics None None) ?ops) = message_labels (new_metrics None None) @ new"
      "list_all2 bucketed (concat (map reported ?ops)) new"
    using metrics_run_effect [OF metrics_inv_new] by blast
  have "map fst (concat (map reported ?ops)) = cs" by (induction cs) simp_all
  moreover have "map fst new = map fst (concat (map reported ?ops))"
    using n(2) by (induction rule: list_all2_induct) (simp_all add: bucketed_def)
  ultimately have "fst ` set new = set cs" by (metis list.set_map)
  moreover assume "distinct cs"
  ultimately show ?thesis using n(1) by (simp add: new_metrics_def message_labels_def distinct_card)
qed

end
