(* ===== verification/App.thy ===== *)
theory App
  imports Routes Logging Metrics
begin

text \<open>
  The application (\<open>src/server/app.ts\<close>): the hooks of \<open>Auth\<close> and \<open>Server\<close> in the order \<open>buildApp\<close> adds
  them around a route, the error handler behind them, and what it derives from its options. A route
  is a function of the principal, the pin and its own state; \<open>body_of\<close> prints a problem.
\<close>

section \<open>Options\<close>

record 'p app_options =
  ao_auth :: "auth_hook option"
  ao_requireAuth :: bool
  ao_issuerKey :: "'p option"
  ao_blocklist :: "(jsval \<Rightarrow> bool) option"
  ao_ttlMs :: "ms option"

text \<open>Capabilities are verified with the issuer's key, against the blocklist when there is one.\<close>

definition capabilityConfig :: "'p app_options \<Rightarrow> ('p \<times> (jsval \<Rightarrow> bool) option) option" where
  "capabilityConfig opts = map_option (\<lambda>k. (k, ao_blocklist opts)) (ao_issuerKey opts)"

definition idempotency_ttl :: "'p app_options \<Rightarrow> ms" where
  "idempotency_ttl opts = (case ao_ttlMs opts of Some t \<Rightarrow> t | None \<Rightarrow> DEFAULT_TTL_MS)"

text \<open>The warning at startup that every request will be anonymous.\<close>

definition warns_open :: "environ \<Rightarrow> 'p app_options \<Rightarrow> bool" where
  "warns_open env opts \<longleftrightarrow> ao_auth opts = None \<and> map_get env ''NODE_ENV'' \<noteq> Some ''development''
     \<and> map_get env ''NODE_ENV'' \<noteq> Some ''test'' \<and> (case map_get env ''VITEST'' of Some v \<Rightarrow> v = [] | None \<Rightarrow> True)"

datatype app_logger = NoopLogger | GivenLogger log_level | RuntimeLogger log_level | DefaultLogger

definition resolveLogger :: "environ \<Rightarrow> log_level option option \<Rightarrow> log_level \<Rightarrow> app_logger" where
  "resolveLogger env given runtimeLevel = (case given of
      Some None \<Rightarrow> NoopLogger
    | Some (Some l) \<Rightarrow> GivenLogger l
    | None \<Rightarrow> if runtimeLevel \<noteq> LSilent then RuntimeLogger runtimeLevel
        else if map_get env ''NODE_ENV'' = Some ''test'' \<or> (case map_get env ''VITEST'' of Some v \<Rightarrow> v \<noteq> [] | None \<Rightarrow> False)
        then NoopLogger else DefaultLogger)"

text \<open>The route \<open>/metrics\<close> is there for a registry that is given, or a runtime's that is no no-op.\<close>

definition pickRealMetricsRegistry :: "('m \<times> bool) option \<Rightarrow> 'm option" where
  "pickRealMetricsRegistry m = (case m of Some (r, noop) \<Rightarrow> if noop then None else Some r | None \<Rightarrow> None)"

definition metricsForRoute :: "'m option \<Rightarrow> ('m \<times> bool) option \<Rightarrow> 'm option" where
  "metricsForRoute given runtime_m = (case given of Some m \<Rightarrow> Some m | None \<Rightarrow> pickRealMetricsRegistry runtime_m)"

definition metrics_route :: "('m \<Rightarrow> string) \<Rightarrow> ('m \<Rightarrow> string) \<Rightarrow> 'm \<Rightarrow> http_response" where
  "metrics_route render contentType m = \<lparr> hr_status = 200, hr_body = render m, hr_contentType = Some (contentType m), hr_headers = [] \<rparr>"

definition health_route :: "ms \<Rightarrow> ms \<Rightarrow> jsval" where
  "health_route startedAt t = JObj [(''status'', JStr ''ok''), (''uptimeMs'', JNum (t - startedAt))]"

section \<open>Replies of the application itself\<close>

definition problem_reply :: "(problem \<Rightarrow> string) \<Rightarrow> problem \<Rightarrow> (string, string) jsmap \<Rightarrow> http_response" where
  "problem_reply body_of p headers = \<lparr> hr_status = pb_status p, hr_body = body_of p,
     hr_contentType = Some ''application/problem+json'', hr_headers = headers \<rparr>"

definition error_reply :: "(error \<Rightarrow> string) \<Rightarrow> (problem \<Rightarrow> string) \<Rightarrow> error \<Rightarrow> http_response" where
  "error_reply msg body_of e = (case handleError msg e of (status, retry, p) \<Rightarrow>
     problem_reply body_of p (case retry of Some s \<Rightarrow> [(''Retry-After'', s)] | None \<Rightarrow> []))"

definition gone_problem :: "(class_name \<times> version) list \<Rightarrow> problem" where
  "gone_problem refs = \<lparr> pb_type = error_url ''Gone'', pb_title = ''Gone'', pb_status = 410,
     pb_detail = ''class '' @ fst (hd refs) @ ''@'' @ snd (hd refs) @ '' is past its grace window; the pinned manifest references it. Re-resolve against the current registry.'',
     pb_code = ''Gone'', pb_extra = [(''expired'', JArr (map (\<lambda>(n, v). JObj [(''class'', JStr n), (''version'', JStr v)]) refs))] \<rparr>"

section \<open>A request\<close>

record pin_context =
  px_sha :: string
  px_resolved :: resolved_manifest
  px_deprecated :: "(class_name \<times> version) list"

text \<open>What a route sees of the hooks: who asks, the capability presented, the pin.\<close>

record request_context =
  rx_principal :: principal
  rx_capability :: "verified_capability option"
  rx_pin :: "pin_context option"

type_synonym 's app_route = "request_context \<Rightarrow> 's \<times> driver \<Rightarrow> (error + http_response) \<times> 's \<times> driver"

text \<open>The route as a handler of \<open>serve\<close>: a thrown error becomes the error handler's reply; the pin's warning rides along.\<close>

definition route_handler ::
  "(error \<Rightarrow> string) \<Rightarrow> (problem \<Rightarrow> string) \<Rightarrow> (string, string) jsmap \<Rightarrow> 's app_route \<Rightarrow> request_context \<Rightarrow> 's \<times> driver
   \<Rightarrow> http_response \<times> 's \<times> driver" where
  "route_handler msg body_of headers route rx sd = (case route rx sd of
      (r, s, d) \<Rightarrow> (let reply = (case r of Inr x \<Rightarrow> x | Inl e \<Rightarrow> error_reply msg body_of e)
        in (reply \<lparr> hr_headers := headers @ hr_headers reply \<rparr>, s, d)))"

text \<open>\<open>sampled\<close> as in \<open>pinHook\<close>. The hooks in order: authentication, pin, idempotency; then the route.\<close>

definition app_request ::
  "(error \<Rightarrow> string) \<Rightarrow> (problem \<Rightarrow> string) \<Rightarrow> (bytes \<Rightarrow> jsval option) \<Rightarrow> ('p \<Rightarrow> bytes \<Rightarrow> bytes \<Rightarrow> error + bool) \<Rightarrow>
   'p app_options \<Rightarrow> bool \<Rightarrow> http_request \<Rightarrow> 's app_route \<Rightarrow> usage_tracker \<Rightarrow> 's \<times> driver
   \<Rightarrow> http_response \<times> usage_tracker \<times> 's \<times> driver" where
  "app_request msg body_of parse verify opts sampled req route ut sd = (
     let t = d_now (snd sd) in
     case authHook msg parse verify t (ao_auth opts) (ao_requireAuth opts) (capabilityConfig opts) req of
       Inl e \<Rightarrow> (error_reply msg body_of e, ut, sd)
     | Inr (p, vc) \<Rightarrow> (case pinHook sampled t req (snd sd) ut of
         (PinError e, d, ut') \<Rightarrow> (error_reply msg body_of e, ut', fst sd, d)
       | (PinGone refs, d, ut') \<Rightarrow> (problem_reply body_of (gone_problem refs) [], ut', fst sd, d)
       | (NoPin, d, ut') \<Rightarrow> (let (r, sd') = serve (idempotency_ttl opts) req
            (route_handler msg body_of [] route \<lparr> rx_principal = p, rx_capability = vc, rx_pin = None \<rparr>) (fst sd, d) in (r, ut', sd'))
       | (Pinned sha resolved deprecated warning, d, ut') \<Rightarrow> (let (r, sd') = serve (idempotency_ttl opts) req
            (route_handler msg body_of (case warning of Some w \<Rightarrow> [(''Warning'', w)] | None \<Rightarrow> []) route
               \<lparr> rx_principal = p, rx_capability = vc,
                 rx_pin = Some \<lparr> px_sha = sha, px_resolved = resolved, px_deprecated = deprecated \<rparr> \<rparr>) (fst sd, d) in (r, ut', sd'))))"

section \<open>Properties\<close>

lemma idem_onSend_idempotency:
  "hr_status r < 200 \<or> 300 \<le> hr_status r \<Longrightarrow> idem_onSend ttl key r d = (r, d)"
  by (simp add: idem_onSend_def split: option.split)

lemma route_reply_status: "route rx sd = (Inl e, s, d) \<Longrightarrow> hr_status (fst (route_handler msg body_of hs route rx sd)) = pb_status (problemDetailFor msg e)"
  by (simp add: route_handler_def error_reply_def handleError_def problem_reply_def Let_def)

text \<open>The reply a request gets from the hooks alone, if one of them ends it.\<close>

definition hook_reply ::
  "(error \<Rightarrow> string) \<Rightarrow> (problem \<Rightarrow> string) \<Rightarrow> error + principal \<times> verified_capability option \<Rightarrow> pin_result \<Rightarrow> http_response option" where
  "hook_reply msg body_of who pin = (case who of
      Inl e \<Rightarrow> Some (error_reply msg body_of e)
    | Inr _ \<Rightarrow> (case pin of PinError e \<Rightarrow> Some (error_reply msg body_of e) | PinGone refs \<Rightarrow> Some (problem_reply body_of (gone_problem refs) []) | _ \<Rightarrow> None))"

text \<open>The context and the extra headers a route runs with.\<close>

definition route_context :: "principal \<Rightarrow> verified_capability option \<Rightarrow> pin_result \<Rightarrow> request_context \<times> (string, string) jsmap" where
  "route_context p vc pin = (case pin of
      Pinned sha resolved deprecated warning \<Rightarrow> (\<lparr> rx_principal = p, rx_capability = vc,
         rx_pin = Some \<lparr> px_sha = sha, px_resolved = resolved, px_deprecated = deprecated \<rparr> \<rparr>,
       case warning of Some w \<Rightarrow> [(''Warning'', w)] | None \<Rightarrow> [])
    | _ \<Rightarrow> (\<lparr> rx_principal = p, rx_capability = vc, rx_pin = None \<rparr>, []))"

lemma app_request_ended:
  assumes "who = authHook msg parse verify (d_now d) (ao_auth opts) (ao_requireAuth opts) (capabilityConfig opts) req"
    and "hook_reply msg body_of who (fst (pinHook sampled (d_now d) req d ut)) = Some r"
  shows "\<exists>ut' d'. app_request msg body_of parse verify opts sampled req route ut (s, d) = (r, ut', s, d')"
  using assms by (auto simp: app_request_def hook_reply_def Let_def split: sum.splits pin_result.splits prod.splits)

lemma app_request_served:
  assumes "authHook msg parse verify (d_now d) (ao_auth opts) (ao_requireAuth opts) (capabilityConfig opts) req = Inr (p, vc)"
    and "pinHook sampled (d_now d) req d ut = (pin, d', ut')" and "hook_reply msg body_of (Inr (p, vc)) pin = None"
    and "route_context p vc pin = (rx, hs)"
  shows "app_request msg body_of parse verify opts sampled req route ut (s, d) =
    (let (r, sd') = serve (idempotency_ttl opts) req (route_handler msg body_of hs route rx) (s, d') in (r, ut', sd'))"
  using assms by (auto simp: app_request_def hook_reply_def route_context_def Let_def split: pin_result.splits)


definition demo_app_options :: "nat app_options" where
  "demo_app_options = \<lparr> ao_auth = Some (\<lambda>r. Inr None), ao_requireAuth = True, ao_issuerKey = None, ao_blocklist = None, ao_ttlMs = None \<rparr>"

definition demo_request :: "nat app_route \<Rightarrow> http_response \<times> usage_tracker \<times> nat \<times> driver" where
  "demo_request route = app_request (\<lambda>e. []) pb_title (\<lambda>b. None) (\<lambda>k m s. Inr True) demo_app_options False demo_pinned route
     (new_tracker None) (5, demo_registry)"


text \<open>
  An application without an \<open>auth\<close> hook is open, \<open>requireAuth\<close> or not: every request is anonymous.
\<close>

theorem require_auth_without_hook:
  "ao_auth opts = None \<Longrightarrow> ao_issuerKey opts = None \<Longrightarrow>
   authHook msg parse verify t (ao_auth opts) (ao_requireAuth opts) (capabilityConfig opts) req = Inr (anonymousPrincipal, None)"
  by (simp add: authHook_def capabilityConfig_def)

end
