(* ===== verification/Harness.thy ===== *)
theory Harness
  imports Runtime
begin

text \<open>
  The test harness (\<open>src/test/\<close>): the structural comparison behind its assertions, the assertions, the
  replay of migrations over old snapshots, and the deterministic clock that drains reminders through
  the runtime of \<open>Runtime\<close>.
\<close>

section \<open>Comparison\<close>

text \<open>\<open>typeof v === 'object'\<close> for a value that is not null.\<close>

definition compares_by_key :: "jsval \<Rightarrow> bool" where
  "compares_by_key v \<longleftrightarrow> (case v of JArr _ \<Rightarrow> True | JObj _ \<Rightarrow> True | _ \<Rightarrow> False)"

text \<open>\<open>Object.entries(v)\<close> of an object, and \<open>v[k]\<close>: none when it is a function of the prototype.\<close>

definition compared_entries :: "jsval \<Rightarrow> (string \<times> jsval) list" where
  "compared_entries v = (case v of JArr xs \<Rightarrow> zip (map show_nat [0..<length xs]) xs | JObj ps \<Rightarrow> ps | _ \<Rightarrow> [])"

definition at_key :: "jsval \<Rightarrow> string \<Rightarrow> jsval option" where
  "at_key v k = (case obj_lookup (compared_entries v) k of Own x \<Rightarrow> Some x | Inherited n \<Rightarrow> None | Absent \<Rightarrow> Some JUndefined)"

lemma entries_smaller: "p \<in> set (compared_entries a) \<Longrightarrow> size (snd p) < size a"
proof -
  assume p: "p \<in> set (compared_entries a)"
  show ?thesis
  proof (cases a)
    case (JArr xs)
    then have "snd p \<in> set xs" using p by (cases p) (auto simp: compared_entries_def dest: set_zip_rightD)
    then show ?thesis using size_list_estimation' [of "snd p" xs "size (snd p)" size] JArr by simp
  next
    case (JObj ps)
    then have "p \<in> set ps" using p by (simp add: compared_entries_def)
    moreover have "size (snd p) \<le> size_prod (\<lambda>_. 0) size p" by (cases p) simp
    ultimately have "size (snd p) \<le> size_list (size_prod (\<lambda>_. 0) size) ps" by (rule size_list_estimation')
    then show ?thesis using JObj by simp
  qed (use p in \<open>simp_all add: compared_entries_def\<close>)
qed

function deepEqual :: "jsval \<Rightarrow> jsval \<Rightarrow> bool" where
  "deepEqual a b \<longleftrightarrow> (
     if compares_by_key a \<and> compares_by_key b then
       js_is_array a = js_is_array b \<and> length (compared_entries a) = length (compared_entries b)
       \<and> (\<forall>p\<in>set (compared_entries a). case at_key b (fst p) of None \<Rightarrow> False | Some w \<Rightarrow> deepEqual (snd p) w)
     else a = b)"
  by pat_completeness auto
termination
  by (relation "measure (size \<circ> fst)") (auto dest: entries_smaller)

declare deepEqual.simps [simp del]

definition matches :: "jsval \<Rightarrow> jsval \<Rightarrow> bool" where
  "matches expected actual \<longleftrightarrow> (
     if compares_by_key expected \<and> compares_by_key actual then
       (\<forall>p\<in>set (compared_entries expected). case at_key actual (fst p) of None \<Rightarrow> False | Some w \<Rightarrow> deepEqual (snd p) w)
     else expected = actual)"

section \<open>Assertions\<close>

text \<open>The messages print the values; here each is the name of the assertion that failed.\<close>

definition assertSnapshot :: "jsval option \<Rightarrow> jsval \<Rightarrow> bool \<Rightarrow> error + unit" where
  "assertSnapshot state expected some_fields = (case state of
      None \<Rightarrow> Inl (AssertionError ''assertSnapshot'')
    | Some s \<Rightarrow>
       if (if some_fields
           then \<forall>p\<in>set (compared_entries expected). case at_key s (fst p) of None \<Rightarrow> False | Some w \<Rightarrow> deepEqual w (snd p)
           else deepEqual s expected)
       then Inr () else Inl (AssertionError ''assertSnapshot''))"

text \<open>The live host's state when there is one and it is not null, the snapshot's otherwise.\<close>

definition current_state :: "jsval option \<Rightarrow> snapshot_read option \<Rightarrow> jsval option" where
  "current_state live_state snap = (case live_state of
      Some s \<Rightarrow> if s \<noteq> JNull \<and> s \<noteq> JUndefined then Some s
        else (case snap of Some r \<Rightarrow> if sr_state r = JNull \<or> sr_state r = JUndefined then None else Some (sr_state r) | None \<Rightarrow> None)
    | None \<Rightarrow> (case snap of Some r \<Rightarrow> if sr_state r = JNull \<or> sr_state r = JUndefined then None else Some (sr_state r) | None \<Rightarrow> None))"

definition payload_matches :: "jsval \<Rightarrow> jsval \<Rightarrow> bool" where
  "payload_matches expected actual \<longleftrightarrow> expected = JUndefined \<or> matches expected actual"

definition assertEmitted :: "actor_id \<Rightarrow> string \<Rightarrow> jsval \<Rightarrow> driver \<Rightarrow> error + unit" where
  "assertEmitted i type payload d = (
     if list_ex (\<lambda>e. er_type e = type \<and> payload_matches payload (er_payload e)) (readEvents i 0 d)
     then Inr () else Inl (AssertionError ''assertEmitted''))"

definition assertScheduled :: "string \<Rightarrow> ms option \<Rightarrow> jsval \<Rightarrow> actor_id option \<Rightarrow> driver \<Rightarrow> error + unit" where
  "assertScheduled type due_at payload i d = (
     if list_ex (\<lambda>(t, m). rm_type m = type \<and> (due_at = None \<or> due_at = Some t) \<and> (i = None \<or> i = Some (rm_actor m))
          \<and> payload_matches payload (rm_payload m)) (peekReminders d)
     then Inr () else Inl (AssertionError ''assertScheduled''))"

definition assertNotMaterialized :: "actor_id \<Rightarrow> driver \<Rightarrow> error + unit" where
  "assertNotMaterialized i d = (if loadSnapshot i d \<noteq> None then Inl (AssertionError ''assertNotMaterialized'') else Inr ())"

section \<open>Replaying migrations\<close>

record replay_result =
  rp_index :: nat
  rp_fromVersion :: version
  rp_toVersion :: version
  rp_before :: jsval
  rp_after :: jsval
  rp_ok :: bool
  rp_error :: "string option"

definition replay_one :: "(error \<Rightarrow> string) \<Rightarrow> actor_class \<Rightarrow> version \<Rightarrow> nat \<Rightarrow> version \<times> jsval \<Rightarrow> replay_result" where
  "replay_one msg c target i snap = (case ac_migrate c of
      None \<Rightarrow> \<lparr> rp_index = i, rp_fromVersion = fst snap, rp_toVersion = target, rp_before = snd snap,
                rp_after = snd snap, rp_ok = True, rp_error = None \<rparr>
    | Some mig \<Rightarrow> (case mig (snd snap) (fst snap) of
        Inr s \<Rightarrow> \<lparr> rp_index = i, rp_fromVersion = fst snap, rp_toVersion = target, rp_before = snd snap,
                rp_after = s, rp_ok = True, rp_error = None \<rparr>
      | Inl e \<Rightarrow> \<lparr> rp_index = i, rp_fromVersion = fst snap, rp_toVersion = target, rp_before = snd snap,
                rp_after = JUndefined, rp_ok = False, rp_error = Some (msg e) \<rparr>))"

fun replay_snapshots :: "(error \<Rightarrow> string) \<Rightarrow> actor_class \<Rightarrow> version \<Rightarrow> nat \<Rightarrow> (version \<times> jsval) list
    \<Rightarrow> replay_result list \<times> nat \<Rightarrow> replay_result list \<times> nat" where
  "replay_snapshots msg c target i [] acc = acc"
| "replay_snapshots msg c target i (s # ss) acc = (let r = replay_one msg c target i s in
     replay_snapshots msg c target (i + 1) ss (fst acc @ [r], if rp_ok r then snd acc else snd acc + 1))"

definition replayMigrations :: "(error \<Rightarrow> string) \<Rightarrow> actor_class \<Rightarrow> version option \<Rightarrow> (version \<times> jsval) list \<Rightarrow> replay_result list \<times> nat" where
  "replayMigrations msg c target ss =
     replay_snapshots msg c (case target of Some v \<Rightarrow> v | None \<Rightarrow> ''<latest>'') 0 ss ([], 0)"

section \<open>The clock\<close>

text \<open>The delivery of one batch: the first rejected message ends it with its exception.\<close>

fun deliver_batch :: "(reminder_msg \<Rightarrow> 's \<Rightarrow> (error + unit) \<times> 's) \<Rightarrow> reminder_msg list \<Rightarrow> nat \<Rightarrow> 's \<Rightarrow> (error + nat) \<times> 's" where
  "deliver_batch sink [] n s = (Inr n, s)"
| "deliver_batch sink (m # ms) n s = (case sink m s of
      (Inl e, s1) \<Rightarrow> (Inl e, s1)
    | (Inr _, s1) \<Rightarrow> deliver_batch sink ms (n + 1) s1)"

definition pop_batch :: "rw \<Rightarrow> reminder_msg list \<times> rw" where
  "pop_batch = (\<lambda>(rt, w). let (due, dr) = popDueReminders (d_now (w_driver w)) 1024 (w_driver w) in (due, rt, w \<lparr> w_driver := dr \<rparr>))"

fun drain_loop :: "env \<Rightarrow> (error \<Rightarrow> string) \<Rightarrow> nat \<Rightarrow> nat \<Rightarrow> rw \<Rightarrow> (error + nat) \<times> rw" where
  "drain_loop en msg 0 n s = (Inr n, s)"
| "drain_loop en msg (Suc k) n s = (let (due, s1) = pop_batch s in
     if due = [] then (Inr n, s1)
     else (case deliver_batch (reminder_sink en msg) due n s1 of
        (Inl e, s2) \<Rightarrow> (Inl e, s2)
      | (Inr n', s2) \<Rightarrow> drain_loop en msg k n' s2))"

definition drainReminders :: "env \<Rightarrow> (error \<Rightarrow> string) \<Rightarrow> rw \<Rightarrow> (error + nat) \<times> rw" where
  "drainReminders en msg s = drain_loop en msg 10000 0 s"

definition advanceTime :: "env \<Rightarrow> (error \<Rightarrow> string) \<Rightarrow> ms \<Rightarrow> rw \<Rightarrow> (error + nat) \<times> rw" where
  "advanceTime en msg t = (\<lambda>(rt, w).
     if t < 0 then (Inl (PlainError ''advanceTime cannot rewind the clock''), rt, w)
     else drainReminders en msg (rt, w \<lparr> w_driver := (w_driver w) \<lparr> d_now := d_now (w_driver w) + t \<rparr> \<rparr>))"

section \<open>What the comparison decides\<close>

text \<open>A value of JSON: the keys of an object are distinct, nothing in it is undefined.\<close>

fun json_value :: "jsval \<Rightarrow> bool" where
  "json_value JUndefined \<longleftrightarrow> False"
| "json_value (JArr xs) \<longleftrightarrow> list_all json_value xs"
| "json_value (JObj ps) \<longleftrightarrow> distinct (map fst ps) \<and> list_all (\<lambda>p. json_value (snd p)) ps"
| "json_value _ \<longleftrightarrow> True"

text \<open>The same value up to the order of keys: objects as maps, arrays as lists.\<close>

lemma nth_smaller: "i < length xs \<Longrightarrow> size (xs ! i) < Suc (size_list size xs)"
  using size_list_estimation' [of "xs ! i" xs "size (xs ! i)" size] by simp

lemma entry_smaller: "p \<in> set ps \<Longrightarrow> size (snd (p :: string \<times> jsval)) < Suc (size_list (size_prod (\<lambda>x. 0) size) ps)"
  using entries_smaller [of p "JObj ps"] by (simp add: compared_entries_def)

function same_value :: "jsval \<Rightarrow> jsval \<Rightarrow> bool" where
  "same_value a b \<longleftrightarrow> (case (a, b) of
      (JArr xs, JArr ys) \<Rightarrow> length xs = length ys \<and> (\<forall>i\<in>{..<length xs}. same_value (xs ! i) (ys ! i))
    | (JObj ps, JObj qs) \<Rightarrow> fst ` set ps = fst ` set qs \<and> (\<forall>p\<in>set ps. \<forall>q\<in>set qs. fst p = fst q \<longrightarrow> same_value (snd p) (snd q))
    | _ \<Rightarrow> a = b)"
  by pat_completeness auto
termination
  by (relation "measure (size \<circ> fst)") (auto dest: nth_smaller entry_smaller)

declare same_value.simps [simp del]

lemma json_entries: "json_value a \<Longrightarrow> p \<in> set (compared_entries a) \<Longrightarrow> json_value (snd p)"
  by (cases a; cases p) (auto simp: compared_entries_def list_all_iff dest: set_zip_rightD)

lemma array_at: "at_key (JArr ys) (show_nat i) = (if i < length ys then Some (ys ! i) else Some JUndefined)"
proof -
  have keys: "map fst (compared_entries (JArr ys)) = map show_nat [0..<length ys]" by (simp add: compared_entries_def)
  show ?thesis
  proof (cases "i < length ys")
    case True
    then have "(show_nat i, ys ! i) \<in> set (compared_entries (JArr ys))"
      by (auto simp: compared_entries_def set_zip intro!: exI [of _ i])
    moreover have "distinct (map fst (compared_entries (JArr ys)))" unfolding keys by (auto simp: distinct_map inj_on_def)
    ultimately have "map_get (compared_entries (JArr ys)) (show_nat i) = Some (ys ! i)" by simp
    then show ?thesis using True by (simp add: at_key_def obj_lookup_def)
  next
    case False
    then have "show_nat i \<notin> fst ` set (compared_entries (JArr ys))"
      using keys by (metis (no_types, lifting) atLeastLessThan_iff image_iff list.set_map set_upt show_nat_inject)
    then have "map_get (compared_entries (JArr ys)) (show_nat i) = None" by (simp add: map_of_eq_None_iff)
    moreover have "show_nat i \<notin> set proto_names"
      using show_nat_digits [of "hd (show_nat i)" i] show_nat_nonempty [of i] by (auto simp: proto_names_def is_digit_def)
    ultimately show ?thesis using False by (simp add: at_key_def obj_lookup_def)
  qed
qed

lemma deepEqual_undefined: "json_value a \<Longrightarrow> \<not> deepEqual a JUndefined"
  by (cases a) (simp_all add: deepEqual.simps [of _ JUndefined] compares_by_key_def)

lemma ball_zip: "length ks = length xs \<Longrightarrow> (\<forall>p\<in>set (zip ks xs). P p) \<longleftrightarrow> (\<forall>i<length xs. P (ks ! i, xs ! i))"
  by (auto simp: set_zip)

lemma deepEqual_arrays:
  "deepEqual (JArr xs) (JArr ys) \<longleftrightarrow> length xs = length ys \<and> (\<forall>i<length xs. deepEqual (xs ! i) (ys ! i))"
  by (subst deepEqual.simps) (auto simp: compares_by_key_def js_is_array_def compared_entries_def ball_zip array_at)

text \<open>An object with as many keys as another that has all of them has no others.\<close>

lemma deepEqual_objects:
  assumes "json_value (JObj ps)" and "json_value (JObj qs)"
  shows "deepEqual (JObj ps) (JObj qs) \<longleftrightarrow>
    fst ` set ps = fst ` set qs \<and> (\<forall>p\<in>set ps. \<forall>q\<in>set qs. fst p = fst q \<longrightarrow> deepEqual (snd p) (snd q))"
proof -
  have d: "distinct (map fst ps)" "distinct (map fst qs)" using assms by simp_all
  have at: "at_key (JObj qs) k = (case map_get qs k of Some x \<Rightarrow> Some x | None \<Rightarrow> if k \<in> set proto_names then None else Some JUndefined)" for k
    by (simp add: at_key_def compared_entries_def obj_lookup_def split: option.split)
  have one: "(case at_key (JObj qs) (fst p) of None \<Rightarrow> False | Some w \<Rightarrow> deepEqual (snd p) w)
      \<longleftrightarrow> (\<exists>x. (fst p, x) \<in> set qs \<and> deepEqual (snd p) x)" if "p \<in> set ps" for p
  proof (cases "map_get qs (fst p)")
    case None
    moreover have "\<not> deepEqual (snd p) JUndefined"
      using deepEqual_undefined json_entries [OF assms(1)] that by (simp add: compared_entries_def)
    moreover have "(fst p, x) \<notin> set qs" for x using None by (metis fst_conv image_eqI map_of_eq_None_iff)
    ultimately show ?thesis by (simp add: at)
  next
    case (Some x)
    have "(fst p, y) \<in> set qs \<longleftrightarrow> y = x" for y unfolding map_of_eq_Some_iff [OF d(2), symmetric] using Some by auto
    then show ?thesis using Some by (simp add: at)
  qed
  have eq: "deepEqual (JObj ps) (JObj qs) \<longleftrightarrow> length ps = length qs \<and> (\<forall>p\<in>set ps. \<exists>x. (fst p, x) \<in> set qs \<and> deepEqual (snd p) x)"
  proof -
    have "deepEqual (JObj ps) (JObj qs) \<longleftrightarrow> length ps = length qs
        \<and> (\<forall>p\<in>set ps. case at_key (JObj qs) (fst p) of None \<Rightarrow> False | Some w \<Rightarrow> deepEqual (snd p) w)"
      by (subst deepEqual.simps) (simp only: compares_by_key_def js_is_array_def compared_entries_def jsval.case if_True simp_thms)
    also have "\<dots> \<longleftrightarrow> length ps = length qs \<and> (\<forall>p\<in>set ps. \<exists>x. (fst p, x) \<in> set qs \<and> deepEqual (snd p) x)"
      by (intro conj_cong ball_cong refl) (rule one)
    finally show ?thesis .
  qed
  have card: "card (fst ` set ps) = length ps" "card (fst ` set qs) = length qs"
    using d by (metis distinct_card length_map list.set_map)+
  have keys: "fst ` set ps = fst ` set qs \<longleftrightarrow> length ps = length qs \<and> fst ` set ps \<subseteq> fst ` set qs"
    using card by (metis List.finite_set card_subset_eq finite_imageI subset_refl)
  have uniq: "(k, x) \<in> set qs \<Longrightarrow> (k, y) \<in> set qs \<Longrightarrow> x = y" for k x y using d(2) by (meson eq_key_imp_eq_value)
  show ?thesis unfolding eq keys
  proof (intro iffI conjI ballI impI; elim conjE)
    fix p q
    assume "\<forall>p\<in>set ps. \<exists>x. (fst p, x) \<in> set qs \<and> deepEqual (snd p) x" "p \<in> set ps" "q \<in> set qs" "fst p = fst q"
    then show "deepEqual (snd p) (snd q)" using uniq by (metis prod.collapse)
  next
    assume "\<forall>p\<in>set ps. \<exists>x. (fst p, x) \<in> set qs \<and> deepEqual (snd p) x"
    then show "fst ` set ps \<subseteq> fst ` set qs" by force
  next
    fix p
    assume *: "fst ` set ps \<subseteq> fst ` set qs" "\<forall>p\<in>set ps. \<forall>q\<in>set qs. fst p = fst q \<longrightarrow> deepEqual (snd p) (snd q)" "p \<in> set ps"
    then obtain q where "q \<in> set qs" "fst p = fst q" by blast
    with * show "\<exists>x. (fst p, x) \<in> set qs \<and> deepEqual (snd p) x" by (metis prod.collapse)
  qed
qed

lemma same_value_arrays: "same_value (JArr xs) (JArr ys) \<longleftrightarrow> length xs = length ys \<and> (\<forall>i<length xs. same_value (xs ! i) (ys ! i))"
  by (subst same_value.simps) auto

lemma same_value_objects: "same_value (JObj ps) (JObj qs) \<longleftrightarrow>
    fst ` set ps = fst ` set qs \<and> (\<forall>p\<in>set ps. \<forall>q\<in>set qs. fst p = fst q \<longrightarrow> same_value (snd p) (snd q))"
  by (subst same_value.simps) simp

text \<open>
  The harness's \<open>deepEqual\<close> compares JSON values exactly: arrays element by element, objects as maps
  whatever the order of their keys, everything else by equality. It looks a key up on one side only and
  counts the keys, which suffices because a value of JSON holds no undefined.
\<close>

theorem deepEqual_exact:
  assumes "json_value a" and "json_value b"
  shows "deepEqual a b \<longleftrightarrow> same_value a b"
  using assms
proof (induction a b rule: same_value.induct)
  case (1 a b)
  show ?case
  proof (cases "compares_by_key a \<and> compares_by_key b \<and> js_is_array a = js_is_array b")
    case True
    then consider xs ys where "a = JArr xs" "b = JArr ys" | ps qs where "a = JObj ps" "b = JObj qs"
      by (cases a; cases b) (simp_all add: compares_by_key_def js_is_array_def)
    then show ?thesis
    proof cases
      case (1 xs ys)
      then show ?thesis using "1.IH"(1) [OF refl 1] "1.prems"
        by (auto simp: deepEqual_arrays same_value_arrays list_all_length)
    next
      case (2 ps qs)
      then show ?thesis using "1.IH"(2) [OF refl 2] "1.prems"
        by (simp add: deepEqual_objects [OF "1.prems" [unfolded 2]] same_value_objects list_all_iff)
    qed
  next
    case False
    then show ?thesis
      by (subst deepEqual.simps, subst same_value.simps) (cases a; cases b; simp add: compares_by_key_def js_is_array_def)
  qed
qed

theorem deepEqual_exact_witness:
  "deepEqual (JObj [(''a'', JNum 1), (''b'', JArr [JNull])]) (JObj [(''b'', JArr [JNull]), (''a'', JNum 1)])"
proof -
  let ?a = "JObj [(''a'', JNum 1), (''b'', JArr [JNull])]" and ?b = "JObj [(''b'', JArr [JNull]), (''a'', JNum 1)]"
  have "same_value ?a ?b" by (simp add: same_value_objects same_value.simps [of "JNum 1"] same_value_arrays same_value.simps [of JNull] insert_commute)
  then show ?thesis using deepEqual_exact [of ?a ?b] by simp
qed

text \<open>With an undefined field, two objects of different fields are equal, one way round.\<close>

theorem undefined_field_matches:
  "deepEqual (JObj [(''x'', JUndefined)]) (JObj [(''y'', JNum 1)]) \<and> \<not> deepEqual (JObj [(''y'', JNum 1)]) (JObj [(''x'', JUndefined)])"
  by (simp add: deepEqual.simps compares_by_key_def js_is_array_def compared_entries_def at_key_def obj_lookup_def proto_names_def)

text \<open>A replay reports on every snapshot in order, and counts the ones whose migration threw.\<close>

lemma replay_snapshots_eq:
  "replay_snapshots msg c target i ss acc =
     (fst acc @ map2 (replay_one msg c target) [i..<i + length ss] ss,
      snd acc + length (filter (\<lambda>r. \<not> rp_ok r) (map2 (replay_one msg c target) [i..<i + length ss] ss)))"
proof (induction msg c target i ss acc rule: replay_snapshots.induct)
  case (2 msg c target i s ss acc)
  have "[i..<i + length (s # ss)] = i # [Suc i..<Suc i + length ss]" by (subst upt_rec) simp
  with 2 [OF refl] show ?case by (simp add: Let_def del: upt_Suc)
qed simp

theorem replay_complete:
  "replayMigrations msg c target ss = (rs, n) \<Longrightarrow>
     map rp_index rs = [0..<length ss] \<and> map (\<lambda>r. (rp_fromVersion r, rp_before r)) rs = ss \<and> n = length (filter (\<lambda>r. \<not> rp_ok r) rs)
     \<and> (\<forall>r\<in>set rs. rp_ok r \<longleftrightarrow> (case ac_migrate c of None \<Rightarrow> rp_after r = rp_before r
          | Some mig \<Rightarrow> mig (rp_before r) (rp_fromVersion r) = Inr (rp_after r)))"
proof -
  assume "replayMigrations msg c target ss = (rs, n)"
  then obtain v where rs: "rs = map2 (replay_one msg c v) [0..<length ss] ss" "n = length (filter (\<lambda>r. \<not> rp_ok r) rs)"
    by (auto simp: replayMigrations_def replay_snapshots_eq)
  have i: "rp_index (replay_one msg c v k s) = k" "(rp_fromVersion (replay_one msg c v k s), rp_before (replay_one msg c v k s)) = s" for k s
    by (simp_all add: replay_one_def split: option.split sum.split)
  have "rp_ok (replay_one msg c v k s) \<longleftrightarrow> (case ac_migrate c of None \<Rightarrow> rp_after (replay_one msg c v k s) = rp_before (replay_one msg c v k s)
      | Some mig \<Rightarrow> mig (rp_before (replay_one msg c v k s)) (rp_fromVersion (replay_one msg c v k s)) = Inr (rp_after (replay_one msg c v k s)))" for k s
    by (auto simp: replay_one_def split: option.splits sum.splits)
  moreover have "map (\<lambda>r. (rp_fromVersion r, rp_before r)) rs = map snd (zip [0..<length ss] ss)" "map rp_index rs = map fst (zip [0..<length ss] ss)"
    unfolding rs map_map by (intro map_cong refl; clarsimp simp: i)+
  ultimately show ?thesis by (auto simp: rs)
qed

section \<open>What a drain leaves\<close>

lemma deliver_batch_count: "deliver_batch sink ms n s = (Inr k, s') \<Longrightarrow> k = n + length ms"
  by (induction sink ms n s rule: deliver_batch.induct) (auto split: prod.splits sum.splits)

lemma drain_loop_end:
  "drain_loop en msg k n s = (Inr m, s') \<Longrightarrow> n + k \<le> m \<or> (\<exists>s0. pop_batch s0 = ([], s'))"
proof (induction en msg k n s rule: drain_loop.induct)
  case (2 en msg k n s)
  obtain due s1 where p: "pop_batch s = (due, s1)" by (cases "pop_batch s")
  show ?case
  proof (cases "due = []")
    case True
    then have "pop_batch s = ([], s')" using 2(2) p by simp
    then show ?thesis by blast
  next
    case False
    then obtain n' s2 where d: "deliver_batch (reminder_sink en msg) due n s1 = (Inr n', s2)" "drain_loop en msg k n' s2 = (Inr m, s')"
      using 2(2) p by (auto split: prod.splits sum.splits)
    have "n' + k \<le> m \<or> (\<exists>s0. pop_batch s0 = ([], s'))" by (rule 2(1) [OF p [symmetric] refl False d(1) [symmetric] refl d(2)])
    moreover have "n + 1 \<le> n'" using deliver_batch_count [OF d(1)] False by (cases due) simp_all
    ultimately show ?thesis by auto
  qed
qed simp

lemma pop_batch_empty: "pop_batch s0 = ([], (rt, w)) \<Longrightarrow> \<forall>r\<in>set (d_reminders (w_driver w)). d_now (w_driver w) < rr_when r"
proof -
  assume pop: "pop_batch s0 = ([], (rt, w))"
  obtain rt0 w0 where "s0 = (rt0, w0)" by (cases s0)
  then have w: "popDueReminders (d_now (w_driver w0)) 1024 (w_driver w0) = ([], w_driver w)"
    using pop by (auto simp: pop_batch_def split: prod.splits)
  let ?d = "w_driver w0"
  let ?srt = "sort_key reminder_key (d_reminders ?d)"
  have "popDueReminders (d_now ?d) 1024 ?d = (let (due, left) = pop_loop (d_now ?d) 1024 0 ?srt in (due, ?d \<lparr> d_reminders := left \<rparr>))"
    by (simp add: popDueReminders_def)
  with w have l: "fst (pop_loop (d_now ?d) 1024 0 ?srt) = []" and wd: "w_driver w = ?d \<lparr> d_reminders := snd (pop_loop (d_now ?d) 1024 0 ?srt) \<rparr>"
    by (auto simp: split_def Let_def)
  show ?thesis
  proof (cases ?srt)
    case Nil
    then show ?thesis using wd by simp
  next
    case (Cons r rs)
    have later: "d_now ?d < rr_when r" using l Cons by (auto split: if_splits prod.splits)
    have "sorted (map reminder_key ?srt)" by simp
    then have "\<forall>x\<in>set rs. reminder_key r \<le> reminder_key x" using Cons by simp
    then have "\<forall>x\<in>set (r # rs). d_now ?d < rr_when x" using later by (auto simp: less_eq_prod_def)
    moreover have "d_reminders (w_driver w) = r # rs" using wd Cons later by simp
    ultimately show ?thesis using wd by simp
  qed
qed

text \<open>
  A drain that returns has delivered at least one reminder per round of its ten thousand, or it leaves no
  reminder that is due.
\<close>

theorem drain_leaves_nothing_due:
  "drainReminders en msg s = (Inr n, (rt, w)) \<Longrightarrow>
   10000 \<le> n \<or> (\<forall>r\<in>set (d_reminders (w_driver w)). d_now (w_driver w) < rr_when r)"
proof -
  assume "drainReminders en msg s = (Inr n, (rt, w))"
  from drain_loop_end [OF this [unfolded drainReminders_def]] show ?thesis
  proof (elim disjE exE)
    fix s0 assume "pop_batch s0 = ([], rt, w)"
    then show ?thesis using pop_batch_empty by blast
  qed simp
qed

text \<open>A rejected delivery ends the drain: the reminders popped with it are neither delivered nor kept.\<close>

lemma drain_loop_reject:
  "0 < k \<Longrightarrow> pop_batch s = (due, s1) \<Longrightarrow> due \<noteq> [] \<Longrightarrow> deliver_batch (reminder_sink en msg) due n s1 = (Inl e, s2) \<Longrightarrow>
   drain_loop en msg k n s = (Inl e, s2)"
  by (cases k) simp_all

definition demo_due :: rw where
  "demo_due = scheduleReminder ''Ledger'' ''a'' 3 ''hit'' JNull (scheduleReminder ''Gone'' ''b'' 2 ''hit'' JNull
     (demo_runtime, demo_world \<lparr> w_driver := empty_driver \<lparr> d_now := 5 \<rparr> \<rparr>))"

theorem rejected_reminder_loses_batch:
  "let (r, rt, w) = drainReminders demo_env (\<lambda>e. []) demo_due
   in length (d_reminders (w_driver (snd demo_due))) = 2 \<and> \<not> is_ok r \<and> d_reminders (w_driver w) = [] \<and> getLive ''a'' (rt_dir rt) = None"
proof -
  obtain due s1 where p: "pop_batch demo_due = (due, s1)" by (cases "pop_batch demo_due")
  obtain r rt w where b: "deliver_batch (reminder_sink demo_env (\<lambda>e. [])) (fst (pop_batch demo_due)) 0 (snd (pop_batch demo_due)) = (r, rt, w)"
    by (cases "deliver_batch (reminder_sink demo_env (\<lambda>e. [])) (fst (pop_batch demo_due)) 0 (snd (pop_batch demo_due))") auto
  have f: "length (d_reminders (w_driver (snd demo_due))) = 2" "fst (pop_batch demo_due) \<noteq> []"
    "let (r, rt, w) = deliver_batch (reminder_sink demo_env (\<lambda>e. [])) (fst (pop_batch demo_due)) 0 (snd (pop_batch demo_due))
     in \<not> is_ok r \<and> d_reminders (w_driver w) = [] \<and> getLive ''a'' (rt_dir rt) = None" by code_simp+
  obtain e where "r = Inl e" using f(3) b by (cases r) auto
  then have "drainReminders demo_env (\<lambda>e. []) demo_due = (r, rt, w)"
    unfolding drainReminders_def using f(2) b p by (intro drain_loop_reject [OF _ p, THEN trans]) auto
  then show ?thesis using f b by simp
qed

end
