(* ===== verification/Schemas.thy ===== *)
theory Schemas
  imports Routes
begin

text \<open>
  The request and response schemas of the REST routes (\<open>src/server/routes/classes.ts\<close>, \<open>actors.ts\<close>,
  \<open>manifest.ts\<close>, \<open>admin.ts\<close>, \<open>health.ts\<close>) and the replies the handlers build. A schema is data, read by the
  documented meaning of the combinators the routes use: unknown keys are stripped, an absent optional
  field is left out, a default stands in for an absent one.
\<close>

section \<open>Schemas\<close>

datatype zod =
    ZString
  | ZStringMin nat
  | ZRegex "string \<Rightarrow> bool"
  | ZNumber
  | ZNonNegative
  | ZBoolean
  | ZLiteral jsval
  | ZUnknown
  | ZOptional zod
  | ZDefault jsval zod
  | ZRecord zod
  | ZArray zod
  | ZUnion zod zod
  | ZObject "(string \<times> zod) list"

text \<open>What parsing gives: the value, or nothing when it is refused.\<close>

fun zod_parse :: "zod \<Rightarrow> jsval \<Rightarrow> jsval option"
  and zod_fields :: "(string \<times> zod) list \<Rightarrow> jsval \<Rightarrow> (string \<times> jsval) list option" where
  "zod_parse ZString v = (case v of JStr s \<Rightarrow> Some v | _ \<Rightarrow> None)"
| "zod_parse (ZStringMin n) v = (case v of JStr s \<Rightarrow> if n \<le> length s then Some v else None | _ \<Rightarrow> None)"
| "zod_parse (ZRegex p) v = (case v of JStr s \<Rightarrow> if p s then Some v else None | _ \<Rightarrow> None)"
| "zod_parse ZNumber v = (case v of JNum n \<Rightarrow> Some v | _ \<Rightarrow> None)"
| "zod_parse ZNonNegative v = (case v of JNum n \<Rightarrow> if 0 \<le> n then Some v else None | _ \<Rightarrow> None)"
| "zod_parse ZBoolean v = (case v of JBool b \<Rightarrow> Some v | _ \<Rightarrow> None)"
| "zod_parse (ZLiteral x) v = (if v = x then Some v else None)"
| "zod_parse ZUnknown v = Some v"
| "zod_parse (ZOptional z) v = (if v = JUndefined then Some v else zod_parse z v)"
| "zod_parse (ZDefault x z) v = (if v = JUndefined then Some x else zod_parse z v)"
| "zod_parse (ZRecord z) v = (case v of
      JObj ps \<Rightarrow> map_option JObj (those (map (\<lambda>p. map_option (Pair (fst p)) (zod_parse z (snd p))) ps)) | _ \<Rightarrow> None)"
| "zod_parse (ZArray z) v = (case v of JArr vs \<Rightarrow> map_option JArr (those (map (zod_parse z) vs)) | _ \<Rightarrow> None)"
| "zod_parse (ZUnion a b) v = (case zod_parse a v of Some x \<Rightarrow> Some x | None \<Rightarrow> zod_parse b v)"
| "zod_parse (ZObject fs) v = (case v of JObj ps \<Rightarrow> map_option JObj (zod_fields fs v) | _ \<Rightarrow> None)"
| "zod_fields [] v = Some []"
| "zod_fields ((k, z) # fs) v = (case zod_parse z (js_prop v k) of
      None \<Rightarrow> None
    | Some x \<Rightarrow> map_option (\<lambda>r. if x = JUndefined then r else (k, x) # r) (zod_fields fs v))"

text \<open>\<open>base.extend({...})\<close>.\<close>

fun zod_extend :: "zod \<Rightarrow> (string \<times> zod) list \<Rightarrow> zod" where
  "zod_extend (ZObject fs) more_fields = ZObject (fs @ more_fields)"
| "zod_extend z more_fields = z"

definition ZStrings :: zod where
  "ZStrings = ZRecord ZString"

subsection \<open>Classes\<close>

definition ClassNameParam :: zod where
  "ClassNameParam = ZObject [(''name'', ZRegex valid_ident)]"

definition VersionParam :: zod where
  "VersionParam = zod_extend ClassNameParam [(''version'', ZStringMin 1)]"

definition PublishBody :: zod where
  "PublishBody = ZObject [(''version'', ZString), (''source'', ZString), (''deps'', ZDefault (JObj []) ZStrings),
     (''engines'', ZDefault (JObj []) ZStrings), (''floating'', ZOptional ZBoolean), (''eventSourced'', ZOptional ZBoolean),
     (''signature'', ZOptional ZString), (''kid'', ZOptional ZString)]"

definition PublishResponse :: zod where
  "PublishResponse = ZObject [(''name'', ZString), (''version'', ZString), (''sha256'', ZString), (''signedBy'', ZOptional ZString)]"

definition ListedVersion :: zod where
  "ListedVersion = ZObject [(''name'', ZString), (''version'', ZString), (''sourceSha256'', ZString), (''deps'', ZStrings),
     (''engines'', ZStrings), (''publishedAt'', ZNumber), (''deprecatedAt'', ZOptional ZNumber), (''graceUntil'', ZOptional ZNumber),
     (''signedBy'', ZOptional ZString), (''floating'', ZBoolean), (''eventSourced'', ZBoolean)]"

definition ListResponse :: zod where
  "ListResponse = ZObject [(''name'', ZString), (''versions'', ZArray ListedVersion)]"

definition DeprecateBody :: zod where
  "DeprecateBody = ZObject [(''deprecated'', ZLiteral (JBool True)), (''graceUntilMs'', ZOptional ZNonNegative)]"

definition DeprecateResponse :: zod where
  "DeprecateResponse = ZObject [(''name'', ZString), (''version'', ZString), (''deprecated'', ZLiteral (JBool True)),
     (''graceUntilMs'', ZOptional ZNumber)]"

definition NotImplementedResponse :: zod where
  "NotImplementedResponse = ZObject [(''type'', ZString), (''title'', ZString), (''status'', ZLiteral (JNum 501)),
     (''code'', ZLiteral (JStr ''NotImplemented'')), (''detail'', ZString)]"

subsection \<open>Actors\<close>

definition ClassParam :: zod where
  "ClassParam = ZObject [(''class'', ZRegex valid_ident)]"

definition ActorParam :: zod where
  "ActorParam = zod_extend ClassParam [(''id'', ZStringMin 1)]"

definition MethodParam :: zod where
  "MethodParam = zod_extend ActorParam [(''method'', ZRegex valid_ident)]"

definition CreateResponse :: zod where
  "CreateResponse = ZObject [(''class'', ZString), (''id'', ZString), (''manifest'', ZOptional ZString)]"

definition SnapshotResponse :: zod where
  "SnapshotResponse = ZObject [(''class'', ZString), (''id'', ZString), (''version'', ZString), (''seq'', ZString), (''state'', ZUnknown)]"

definition CallResponse :: zod where
  "CallResponse = ZObject [(''class'', ZString), (''id'', ZString), (''method'', ZString), (''result'', ZUnknown), (''manifest'', ZOptional ZString)]"

definition TombstoneResponse :: zod where
  "TombstoneResponse = ZObject [(''class'', ZString), (''id'', ZString), (''tombstoned'', ZLiteral (JBool True))]"

subsection \<open>Manifests, administration, health\<close>

definition is_sha :: "string \<Rightarrow> bool" where
  "is_sha s \<longleftrightarrow> length s = 64 \<and> list_all (\<lambda>c. is_digit c \<or> (let n = of_char c :: nat in 97 \<le> n \<and> n \<le> 102)) s"

definition ResolveQuery :: zod where
  "ResolveQuery = ZObject [(''root'', ZOptional (ZUnion ZString (ZArray ZString))), (''dep'', ZOptional (ZUnion ZString (ZArray ZString)))]"

definition ResolveResponse :: zod where
  "ResolveResponse = ZObject [(''sha256'', ZString), (''resolved'', ZStrings),
     (''constraints'', ZRecord (ZArray (ZObject [(''range'', ZString), (''path'', ZArray ZString)])))]"

definition ShaParam :: zod where
  "ShaParam = ZObject [(''sha'', ZRegex is_sha)]"

definition RetrieveResponse :: zod where
  "RetrieveResponse = ZObject [(''sha256'', ZString), (''resolved'', ZStrings)]"

definition InUseEntry :: zod where
  "InUseEntry = ZObject [(''sha'', ZString), (''count'', ZNumber), (''lastSeen'', ZNumber), (''resolved'', ZOptional ZStrings)]"

definition InUseResponse :: zod where
  "InUseResponse = ZObject [(''entries'', ZArray InUseEntry), (''otherCount'', ZNumber), (''otherLastSeen'', ZNumber)]"

definition KeyAddBody :: zod where
  "KeyAddBody = ZObject [(''publicKeyPem'', ZString)]"

definition KeyResponse :: zod where
  "KeyResponse = ZObject [(''kid'', ZString), (''algorithm'', ZString), (''addedAt'', ZNumber), (''revokedAt'', ZOptional ZNumber)]"

definition KeyParam :: zod where
  "KeyParam = ZObject [(''kid'', ZStringMin 1)]"

definition HealthResponse :: zod where
  "HealthResponse = ZObject [(''status'', ZLiteral (JStr ''ok'')), (''uptimeMs'', ZNonNegative)]"

section \<open>Bodies and replies\<close>

definition string_entries :: "jsval \<Rightarrow> (string, string) jsmap" where
  "string_entries v = (case v of JObj ps \<Rightarrow> List.map_filter (\<lambda>p. case snd p of JStr s \<Rightarrow> Some (fst p, s) | _ \<Rightarrow> None) ps | _ \<Rightarrow> [])"

definition opt_string :: "jsval \<Rightarrow> string option" where
  "opt_string v = (case v of JStr s \<Rightarrow> Some s | _ \<Rightarrow> None)"

definition opt_bool :: "jsval \<Rightarrow> bool option" where
  "opt_bool v = (case v of JBool b \<Rightarrow> Some b | _ \<Rightarrow> None)"

text \<open>The body of a publish as the handler reads it.\<close>

definition publish_body_of :: "jsval \<Rightarrow> publish_body option" where
  "publish_body_of raw = map_option (\<lambda>b. \<lparr> pv_version = the (opt_string (js_prop b ''version'')), pv_source = the (opt_string (js_prop b ''source'')),
     pv_deps = string_entries (js_prop b ''deps''), pv_engines = string_entries (js_prop b ''engines''),
     pv_floating = opt_bool (js_prop b ''floating''), pv_eventSourced = opt_bool (js_prop b ''eventSourced''),
     pv_signature = opt_string (js_prop b ''signature''), pv_kid = opt_string (js_prop b ''kid'') \<rparr>) (zod_parse PublishBody raw)"

definition strings_json :: "(string, string) jsmap \<Rightarrow> jsval" where
  "strings_json m = JObj (map (\<lambda>(k, v). (k, JStr v)) m)"

definition opt_field :: "string \<Rightarrow> ('a \<Rightarrow> jsval) \<Rightarrow> 'a option \<Rightarrow> (string \<times> jsval) list" where
  "opt_field k f x = (case x of Some y \<Rightarrow> [(k, f y)] | None \<Rightarrow> [])"

text \<open>A client's text for a body.\<close>

definition publish_body_json :: "publish_body \<Rightarrow> jsval" where
  "publish_body_json b = JObj ([(''version'', JStr (pv_version b)), (''source'', JStr (pv_source b)),
     (''deps'', strings_json (pv_deps b)), (''engines'', strings_json (pv_engines b))]
     @ opt_field ''floating'' JBool (pv_floating b) @ opt_field ''eventSourced'' JBool (pv_eventSourced b)
     @ opt_field ''signature'' JStr (pv_signature b) @ opt_field ''kid'' JStr (pv_kid b))"

definition create_json :: "class_name \<times> actor_id \<times> string option \<Rightarrow> jsval" where
  "create_json r = (case r of (c, i, pin) \<Rightarrow> JObj ([(''class'', JStr c), (''id'', JStr i)] @ opt_field ''manifest'' JStr pin))"

definition snapshot_json :: "actor_id \<Rightarrow> snapshot_read \<Rightarrow> jsval" where
  "snapshot_json i s = JObj [(''class'', JStr (sr_class s)), (''id'', JStr i), (''version'', JStr (sr_version s)),
     (''seq'', JStr (show_int (sr_seq s))), (''state'', snapshot_read.sr_state s)]"

definition call_json :: "class_name \<Rightarrow> actor_id \<Rightarrow> string \<Rightarrow> jsval \<Rightarrow> string option \<Rightarrow> jsval" where
  "call_json c i m r pin = JObj ([(''class'', JStr c), (''id'', JStr i), (''method'', JStr m), (''result'', r)] @ opt_field ''manifest'' JStr pin)"

definition tombstone_json :: "class_name \<Rightarrow> actor_id \<Rightarrow> jsval" where
  "tombstone_json c i = JObj [(''class'', JStr c), (''id'', JStr i), (''tombstoned'', JBool True)]"

definition publish_json :: "class_name \<Rightarrow> version \<Rightarrow> string \<times> string option \<Rightarrow> jsval" where
  "publish_json c v r = JObj ([(''name'', JStr c), (''version'', JStr v), (''sha256'', JStr (fst r))]
     @ opt_field ''signedBy'' JStr (truthy_string (snd r)))"

definition deprecate_json :: "class_name \<Rightarrow> version \<Rightarrow> ms option \<Rightarrow> jsval" where
  "deprecate_json c v g = JObj ([(''name'', JStr c), (''version'', JStr v), (''deprecated'', JBool True)] @ opt_field ''graceUntilMs'' JNum g)"

definition in_use_json :: "(string \<times> usage_entry) list \<times> nat \<times> ms \<Rightarrow> jsval" where
  "in_use_json r = (case r of (es, n, t) \<Rightarrow> JObj [(''entries'', JArr (map (\<lambda>(s, e). JObj ([(''sha'', JStr s),
       (''count'', JNum (int (ue_count e))), (''lastSeen'', JNum (ue_lastSeen e))] @ opt_field ''resolved'' strings_json (ue_resolved e))) es)),
     (''otherCount'', JNum (int n)), (''otherLastSeen'', JNum t)])"

section \<open>Properties\<close>

lemma those_Some: "(\<And>x. x \<in> set xs \<Longrightarrow> f x = Some (g x)) \<Longrightarrow> those (map f xs) = Some (map g xs)"
  by (induction xs) simp_all

lemma strings_json_parse: "zod_parse ZStrings (strings_json m) = Some (strings_json m)"
proof -
  have "those (map (\<lambda>p. map_option (Pair (fst p)) (zod_parse ZString (snd p))) (map (\<lambda>(k, v). (k, JStr v)) m)) = Some (map (\<lambda>(k, v). (k, JStr v)) m)"
    by (subst those_Some [where g = id]) auto
  then show ?thesis by (simp add: ZStrings_def strings_json_def)
qed

lemma string_entries_json: "string_entries (strings_json m) = m"
  by (induction m) (auto simp: string_entries_def strings_json_def List.map_filter_simps)

lemmas optional_fields = opt_field_def opt_string_def opt_bool_def

text \<open>
  A publish written out as a body is read back as it was: every field, absent ones absent.
\<close>

theorem publish_body_roundtrip: "publish_body_of (publish_body_json b) = Some b"
proof -
  let ?j = "publish_body_json b"
  have p: "js_prop ?j ''version'' = JStr (pv_version b)" "js_prop ?j ''source'' = JStr (pv_source b)"
      "js_prop ?j ''deps'' = strings_json (pv_deps b)" "js_prop ?j ''engines'' = strings_json (pv_engines b)"
      "js_prop ?j ''floating'' = (case pv_floating b of Some x \<Rightarrow> JBool x | None \<Rightarrow> JUndefined)"
      "js_prop ?j ''eventSourced'' = (case pv_eventSourced b of Some x \<Rightarrow> JBool x | None \<Rightarrow> JUndefined)"
      "js_prop ?j ''signature'' = (case pv_signature b of Some x \<Rightarrow> JStr x | None \<Rightarrow> JUndefined)"
      "js_prop ?j ''kid'' = (case pv_kid b of Some x \<Rightarrow> JStr x | None \<Rightarrow> JUndefined)"
    by (auto simp: publish_body_json_def opt_field_def split: option.split)
  obtain ps where j: "?j = JObj ps" by (simp add: publish_body_json_def)
  have nu: "strings_json m \<noteq> JUndefined" for m by (simp add: strings_json_def)
  let ?r = "JObj ([(''version'', JStr (pv_version b)), (''source'', JStr (pv_source b)),
     (''deps'', strings_json (pv_deps b)), (''engines'', strings_json (pv_engines b))]
     @ opt_field ''floating'' JBool (pv_floating b) @ opt_field ''eventSourced'' JBool (pv_eventSourced b)
     @ opt_field ''signature'' JStr (pv_signature b) @ opt_field ''kid'' JStr (pv_kid b))"
  have "zod_parse PublishBody ?j = Some ?r"
    unfolding j
    by (cases "pv_floating b"; cases "pv_eventSourced b"; cases "pv_signature b"; cases "pv_kid b")
      (simp_all add: PublishBody_def p [unfolded j] strings_json_parse nu opt_field_def del: js_prop_JObj)
  then show ?thesis
    by (auto simp: publish_body_of_def string_entries_json opt_string_def opt_bool_def opt_field_def split: option.split)
qed

lemma version_reply: "zod_parse ListedVersion (version_json v) = Some (version_json v)"
proof -
  have deps: "JObj (map (\<lambda>(k, r). (k, JStr r)) m) = strings_json m" for m by (simp add: strings_json_def)
  have nu: "strings_json m \<noteq> JUndefined" for m by (simp add: strings_json_def)
  show ?thesis
    by (cases "cv_deprecatedAt v"; cases "cv_graceUntil v"; cases "cv_signedBy v")
      (simp_all add: ListedVersion_def version_json_def deps strings_json_parse nu)
qed

text \<open>
  The serializer never refuses a reply of the handlers: the listing of any class, whatever is stored, the
  reply of a publish, a deprecation, a creation, a read, a call and a tombstone, of a signing key and of the
  usage report satisfy their response schemas, and pass through them unchanged.
\<close>

theorem replies_satisfy_schemas:
  "zod_parse ListResponse (get_versions c d) = Some (get_versions c d)
   \<and> zod_parse PublishResponse (publish_json c v r) = Some (publish_json c v r)
   \<and> zod_parse DeprecateResponse (deprecate_json c v g) = Some (deprecate_json c v g)
   \<and> zod_parse CreateResponse (create_json created) = Some (create_json created)
   \<and> (snapshot_read.sr_state snap \<noteq> JUndefined \<longrightarrow> zod_parse SnapshotResponse (snapshot_json i snap) = Some (snapshot_json i snap))
   \<and> (res \<noteq> JUndefined \<longrightarrow> zod_parse CallResponse (call_json c i m res pin) = Some (call_json c i m res pin))
   \<and> zod_parse TombstoneResponse (tombstone_json c i) = Some (tombstone_json c i)
   \<and> zod_parse KeyResponse (key_json key) = Some (key_json key)
   \<and> zod_parse InUseResponse (in_use_json report) = Some (in_use_json report)"
proof (intro conjI impI)
  have "those (map (zod_parse ListedVersion) (map version_json vs)) = Some (map version_json vs)" for vs
    by (subst those_Some [where g = id]) (auto simp: version_reply)
  then show "zod_parse ListResponse (get_versions c d) = Some (get_versions c d)"
    by (simp add: ListResponse_def get_versions_def)
  show "zod_parse InUseResponse (in_use_json report) = Some (in_use_json report)"
  proof -
    obtain es n t where r: "report = (es, n, t)" by (cases report)
    let ?f = "\<lambda>(s, e). JObj ([(''sha'', JStr s), (''count'', JNum (int (ue_count e))), (''lastSeen'', JNum (ue_lastSeen e))]
        @ opt_field ''resolved'' strings_json (ue_resolved e))"
    have nu: "strings_json m \<noteq> JUndefined" for m by (simp add: strings_json_def)
    have "zod_parse InUseEntry (?f x) = Some (?f x)" for x
      by (cases x; cases "ue_resolved (snd x)") (simp_all add: InUseEntry_def opt_field_def strings_json_parse nu)
    then have "those (map (zod_parse InUseEntry) (map ?f es)) = Some (map ?f es)"
      by (subst those_Some [where g = id]) auto
    then show ?thesis by (simp add: InUseResponse_def in_use_json_def r)
  qed
qed (auto simp: PublishResponse_def publish_json_def DeprecateResponse_def deprecate_json_def CreateResponse_def create_json_def
    SnapshotResponse_def snapshot_json_def CallResponse_def call_json_def TombstoneResponse_def tombstone_json_def
    KeyResponse_def key_json_def opt_field_def split: option.split prod.split)

text \<open>
  A name the path accepts holds none of the separators the code joins names with, so that class and id are
  read back from a joined key or subject in one way.
\<close>

lemma valid_ident_chars: "valid_ident s \<Longrightarrow> c \<in> set s \<Longrightarrow> ident_start c \<or> is_digit c"
  by (auto simp: valid_ident_def list_all_iff split: list.splits)

lemma separators_not_ident: "c \<in> set ''@:/.|'' \<Longrightarrow> \<not> ident_start c \<and> \<not> is_digit c"
  by (auto simp: ident_start_def is_digit_def)

theorem accepted_names_unambiguous:
  assumes "zod_parse ActorParam (JObj [(''class'', JStr c), (''id'', JStr i)]) \<noteq> None"
    and "zod_parse ActorParam (JObj [(''class'', JStr c'), (''id'', JStr i')]) \<noteq> None"
  shows "c @ '':'' @ i = c' @ '':'' @ i' \<longleftrightarrow> c = c' \<and> i = i'"
proof -
  have ok: "valid_ident c" "valid_ident c'"
    using assms by (auto simp: ActorParam_def ClassParam_def split: if_splits option.splits)
  then have no: "CHR '':'' \<notin> set c" "CHR '':'' \<notin> set c'"
    using valid_ident_chars separators_not_ident [of "CHR '':''"] by auto
  show ?thesis using sep_prefix_inject [OF _ no, of i i'] by auto
qed

theorem accepted_names_unambiguous_witness: "(''Cart'' @ '':'' @ ''a:b'' = ''Cart'' @ '':'' @ ''a'') = False"
proof -
  have v: "valid_ident ''Cart''" by (simp add: valid_ident_def ident_start_def)
  show ?thesis
    using accepted_names_unambiguous [of "''Cart''" "''a:b''" "''Cart''" "''a''"] v by (simp add: ActorParam_def ClassParam_def)
qed

text \<open>
  A health reply whose clock ran backwards since the start does not satisfy its schema: the serializer
  refuses it.
\<close>

theorem health_needs_a_monotone_clock:
  "zod_parse HealthResponse (JObj [(''status'', JStr ''ok''), (''uptimeMs'', JNum (t - startedAt))]) = None \<longleftrightarrow> t < (startedAt :: ms)"
  by (simp add: HealthResponse_def)

end
