(* ===== verification/Actctl.thy ===== *)
theory Actctl
  imports Sources Schemas
begin

text \<open>
  The command line (\<open>src/cli/actctl.ts\<close>): its argument parser, the dispatch, the options of a code
  generation and its exit code, and the requests of \<open>key\<close> and \<open>publish\<close>. A command that ends the process
  is its exit code; files and the server are parameters.
\<close>

section \<open>Arguments\<close>

record parsed_args =
  pa_subcommand :: string
  pa_flags :: "(string, string) jsmap"
  pa_switches :: "string list"
  pa_positional :: "string list"

definition is_flag :: "string \<Rightarrow> bool" where
  "is_flag a \<longleftrightarrow> starts_with ''--'' a"

text \<open>\<open>arg.indexOf('=')\<close> splits the argument; without one there is no split.\<close>

definition split_eq :: "string \<Rightarrow> (string \<times> string) option" where
  "split_eq a = (if CHR ''='' \<in> set a then Some (takeWhile (\<lambda>c. c \<noteq> CHR ''='') a, tl (dropWhile (\<lambda>c. c \<noteq> CHR ''='') a)) else None)"

definition add_switch :: "string \<Rightarrow> string list \<Rightarrow> string list" where
  "add_switch s ss = (if s \<in> set ss then ss else ss @ [s])"

fun parse_rest :: "string list \<Rightarrow> parsed_args \<Rightarrow> parsed_args" where
  "parse_rest [] p = p"
| "parse_rest (a # as) p = (
     if is_flag a then
       (case split_eq a of
          Some (n, v) \<Rightarrow> parse_rest as (p \<lparr> pa_flags := map_set (drop 2 n) v (pa_flags p) \<rparr>)
        | None \<Rightarrow> (case as of
            v # as' \<Rightarrow> if is_flag v then parse_rest as (p \<lparr> pa_switches := add_switch (drop 2 a) (pa_switches p) \<rparr>)
                       else parse_rest as' (p \<lparr> pa_flags := map_set (drop 2 a) v (pa_flags p) \<rparr>)
          | [] \<Rightarrow> p \<lparr> pa_switches := add_switch (drop 2 a) (pa_switches p) \<rparr>))
     else parse_rest as (p \<lparr> pa_positional := pa_positional p @ [a] \<rparr>))"

definition parseArgs :: "string list \<Rightarrow> parsed_args" where
  "parseArgs argv = parse_rest (tl argv) \<lparr> pa_subcommand = (case argv of s # _ \<Rightarrow> s | [] \<Rightarrow> []),
     pa_flags = [], pa_switches = [], pa_positional = [] \<rparr>"

text \<open>\<open>Inl\<close> is \<open>process.exit\<close>; an empty value counts as none.\<close>

definition requireFlag :: "parsed_args \<Rightarrow> string \<Rightarrow> nat + string" where
  "requireFlag p name = (case map_get (pa_flags p) name of
      Some v \<Rightarrow> if v = [] then Inl 2 else Inr v | None \<Rightarrow> Inl 2)"

datatype cli_command = CliCodegen | CliKey | CliPublish | CliHelp | CliUnknown

definition dispatch_command :: "parsed_args \<Rightarrow> cli_command" where
  "dispatch_command p = (let s = pa_subcommand p in
     if s = ''codegen'' then CliCodegen else if s = ''key'' then CliKey else if s = ''publish'' then CliPublish
     else if s \<in> {''help'', ''--help'', ''-h'', []} then CliHelp else CliUnknown)"

section \<open>Code generation\<close>

datatype cli_loader = UseLocal string | UseHttp string string "string option"

record codegen_options =
  cg_loader :: cli_loader
  cg_out :: string
  cg_root :: string
  cg_force :: bool
  cg_check :: bool

definition flag_token :: "string option \<Rightarrow> parsed_args \<Rightarrow> string option" where
  "flag_token envToken p = (case map_get (pa_flags p) ''token'' of Some t \<Rightarrow> Some t | None \<Rightarrow> envToken)"

definition codegenOptions :: "string option \<Rightarrow> parsed_args \<Rightarrow> nat + codegen_options" where
  "codegenOptions envToken p = (case requireFlag p ''source'' of
      Inl c \<Rightarrow> Inl c
    | Inr spec \<Rightarrow>
       let out = (case map_get (pa_flags p) ''out'' of Some v \<Rightarrow> v | None \<Rightarrow> ''./client-types'');
           rdir = (case map_get (pa_flags p) ''root'' of Some v \<Rightarrow> v | None \<Rightarrow> out);
           target = (case map_get (pa_flags p) ''target'' of Some v \<Rightarrow> v | None \<Rightarrow> ''prod'');
           opts = (\<lambda>l. \<lparr> cg_loader = l, cg_out = out, cg_root = rdir,
             cg_force = (''force'' \<in> set (pa_switches p)), cg_check = (''check'' \<in> set (pa_switches p)) \<rparr>)
       in if starts_with ''local:'' spec then Inr (opts (UseLocal (drop 6 spec)))
          else if starts_with ''http:'' spec \<or> starts_with ''https:'' spec
          then Inr (opts (UseHttp spec target (case flag_token envToken p of Some t \<Rightarrow> if t = [] then None else Some t | None \<Rightarrow> None)))
          else Inl 2)"

definition codegen_exit :: "run_status \<Rightarrow> nat" where
  "codegen_exit s = (case s of CheckDrift \<Rightarrow> 1 | _ \<Rightarrow> 0)"

section \<open>Requests\<close>

record cli_request =
  cq_server :: string
  cq_method :: string
  cq_path :: string
  cq_headers :: "(string \<times> string) list"
  cq_body :: "jsval option"

definition authHeaders :: "string option \<Rightarrow> (string \<times> string) list" where
  "authHeaders token = (''X-Actjs-Admin'', ''1'') # (case token of
      Some t \<Rightarrow> if t = [] then [] else [(''Authorization'', ''Bearer '' @ t)] | None \<Rightarrow> [])"

definition jsonHeaders :: "string option \<Rightarrow> (string \<times> string) list" where
  "jsonHeaders token = authHeaders token @ [(''content-type'', ''application/json'')]"

text \<open>A file that cannot be read is an exception, exit code 1.\<close>

definition runKey :: "(string \<Rightarrow> string option) \<Rightarrow> string option \<Rightarrow> parsed_args \<Rightarrow> nat + cli_request" where
  "runKey readFile envToken p = (case requireFlag p ''server'' of
      Inl c \<Rightarrow> Inl c
    | Inr server \<Rightarrow> (case requireFlag p ''kid'' of
        Inl c \<Rightarrow> Inl c
      | Inr kid \<Rightarrow>
         let token = flag_token envToken p; path = ''/v1/admin/signing-keys/'' @ encodeURIComponent kid in
         (case pa_positional p of
            oper # _ \<Rightarrow>
              if oper = ''add'' then (case requireFlag p ''pem'' of
                  Inl c \<Rightarrow> Inl c
                | Inr f \<Rightarrow> (case readFile f of
                    None \<Rightarrow> Inl 1
                  | Some pem \<Rightarrow> Inr \<lparr> cq_server = server, cq_method = ''POST'', cq_path = path, cq_headers = jsonHeaders token,
                      cq_body = Some (JObj [(''publicKeyPem'', JStr pem)]) \<rparr>))
              else if oper = ''revoke'' then Inr \<lparr> cq_server = server, cq_method = ''DELETE'', cq_path = path,
                 cq_headers = authHeaders token, cq_body = None \<rparr>
              else Inl 2
          | [] \<Rightarrow> Inl 2)))"

definition signing_text :: "string \<Rightarrow> string \<Rightarrow> string \<Rightarrow> string" where
  "signing_text sha name v = ''sha256:'' @ sha @ ''|'' @ name @ ''@'' @ v"

text \<open>\<open>sha256\<close> is the hex digest of bytes, \<open>sign\<close> takes the text of a private key and throws with none.\<close>

definition runPublish ::
  "(bytes \<Rightarrow> string) \<Rightarrow> (string \<Rightarrow> bytes \<Rightarrow> bytes option) \<Rightarrow> (string \<Rightarrow> string option) \<Rightarrow> string option \<Rightarrow> parsed_args \<Rightarrow> nat + cli_request" where
  "runPublish sha256 sign readFile envToken p = (case requireFlag p ''server'' of
      Inl c \<Rightarrow> Inl c
    | Inr server \<Rightarrow> (case requireFlag p ''name'' of
        Inl c \<Rightarrow> Inl c
      | Inr name \<Rightarrow> (case requireFlag p ''version'' of
          Inl c \<Rightarrow> Inl c
        | Inr v \<Rightarrow> (case requireFlag p ''source'' of
            Inl c \<Rightarrow> Inl c
          | Inr sourcePath \<Rightarrow> (case readFile sourcePath of
              None \<Rightarrow> Inl 1
            | Some src \<Rightarrow>
               let request = (\<lambda>sig. \<lparr> cq_server = server, cq_method = ''POST'',
                     cq_path = ''/v1/classes/'' @ encodeURIComponent name @ ''/versions'', cq_headers = jsonHeaders (flag_token envToken p),
                     cq_body = Some (JObj ([(''version'', JStr v), (''source'', JStr src)] @ sig)) \<rparr>) in
               (case map_get (pa_flags p) ''sign'' of
                  None \<Rightarrow> Inr (request [])
                | Some f \<Rightarrow>
                   if f = [] then Inr (request [])
                   else (case requireFlag p ''kid'' of
                       Inl c \<Rightarrow> Inl c
                     | Inr kid \<Rightarrow> (case readFile f of
                         None \<Rightarrow> Inl 1
                       | Some pem \<Rightarrow> (case sign pem (utf8 (signing_text (sha256 (utf8 src)) name v)) of
                           None \<Rightarrow> Inl 1
                         | Some sig \<Rightarrow> Inr (request [(''kid'', JStr kid), (''signature'', JStr (base64 sig))]))))))))))"

definition http_exit :: "bool \<Rightarrow> nat" where
  "http_exit ok = (if ok then 0 else 1)"

section \<open>What the server reads\<close>

lemma base64_roundtrip: "from_base64 (base64 buf) = buf"
proof -
  let ?s = "sextets (map unat buf)"
  have less: "\<forall>n\<in>set ?s. n < 64" using sextets_less [OF unat_bytes [of buf]] by (simp add: list_all_iff)
  have "takeWhile (\<lambda>c. c \<noteq> CHR ''='') (map b64_char ?s @ replicate k CHR ''='') = map b64_char ?s" for k
    using less b64_char_not(1) by (intro takeWhile_padding) auto
  then have "from_base64 (map b64_char ?s @ replicate k CHR ''='') = map of_nat (octets ?s)" for k
    using less b64_value_char by (simp add: from_base64_def map_filter_Some)
  then show ?thesis by (simp add: base64_def Let_def octets_sextets [OF unat_bytes] comp_def)
qed

lemma base64_nonempty: "buf \<noteq> [] \<Longrightarrow> base64 buf \<noteq> []"
  using base64_roundtrip [of buf] by (auto simp: from_base64_def)

lemma requireFlag_Inr: "requireFlag p n = Inr v \<longleftrightarrow> map_get (pa_flags p) n = Some v \<and> v \<noteq> []"
  by (auto simp: requireFlag_def split: option.splits)

lemma runPublish_signed:
  assumes "runPublish sha256 sign readFile env p = Inr q" and "map_get (pa_flags p) ''sign'' = Some f" and "f \<noteq> []"
  obtains server name v path src kid pem sig where
    "map_get (pa_flags p) ''name'' = Some name" "map_get (pa_flags p) ''version'' = Some v" "map_get (pa_flags p) ''kid'' = Some kid" "kid \<noteq> []"
    "map_get (pa_flags p) ''source'' = Some path" "readFile path = Some src" "readFile f = Some pem"
    "sign pem (utf8 (signing_text (sha256 (utf8 src)) name v)) = Some sig"
    "q = \<lparr> cq_server = server, cq_method = ''POST'', cq_path = ''/v1/classes/'' @ encodeURIComponent name @ ''/versions'',
       cq_headers = jsonHeaders (flag_token env p),
       cq_body = Some (JObj [(''version'', JStr v), (''source'', JStr src), (''kid'', JStr kid), (''signature'', JStr (base64 sig))]) \<rparr>"
  using assms that by (auto simp: runPublish_def Let_def requireFlag_Inr split: sum.splits option.splits if_splits)

section \<open>Properties\<close>

text \<open>
  What \<open>actctl publish --sign\<close> sends, the server's signature check accepts: when the key the command signs
  with is registered under its kid and not revoked, the request body is read as a publish whose signature
  verifies over the digest the server computes, and the kid is the signer.
\<close>

theorem signed_publish_accepted:
  assumes run: "runPublish (pu_sha256 pu) sign readFile env p = Inr q"
    and key: "map_get (pa_flags p) ''sign'' = Some f" "f \<noteq> []" "readFile f = Some pem"
    and pair: "\<And>m s. sign pem m = Some s \<Longrightarrow> s \<noteq> [] \<and> nodeVerify pub m s = Inr True"
    and row: "map_get (pa_flags p) ''kid'' = Some kid" "map_get rows kid = Some r" "kr_publicKey r = pub" "kr_revokedAt r = None"
    and opts: "po_signingKeys opts = Some (key_verify nodeVerify msg rows)"
  shows "\<exists>name j b. map_get (pa_flags p) ''name'' = Some name \<and> cq_path q = ''/v1/classes/'' @ encodeURIComponent name @ ''/versions''
    \<and> cq_body q = Some j \<and> publish_body_of j = Some b \<and> map_get (pa_flags p) ''version'' = Some (pv_version b)
    \<and> (let i = publish_input_of name b who in checkSignature opts i (pu_sha256 pu (sourceBuf (pi_source i))) = Inr (Some kid))"
  using run key(1,2)
proof (cases rule: runPublish_signed)
  case (1 server name v path src kid' pem' sig)
  have sig: "sig \<noteq> []" "nodeVerify pub (utf8 (signing_text (pu_sha256 pu (utf8 src)) name v)) sig = Inr True"
    using pair 1(7,8) key(3) by auto
  let ?b = "\<lparr> pv_version = v, pv_source = src, pv_deps = [], pv_engines = [], pv_floating = None,
         pv_eventSourced = None, pv_signature = Some (base64 sig), pv_kid = Some kid \<rparr>"
  let ?j = "JObj [(''version'', JStr v), (''source'', JStr src), (''kid'', JStr kid), (''signature'', JStr (base64 sig))]"
  have kid: "kid' = kid" using 1(3) row(1) by simp
  then have body: "publish_body_of ?j = Some ?b" by (simp add: publish_body_of_def PublishBody_def opt_string_def opt_bool_def string_entries_def)
  let ?i = "publish_input_of name ?b who"
  have i: "pi_signature ?i = Some (kid, sig)" "pi_source ?i = SourceText src" "pi_name ?i = name" "pi_version ?i = v"
    using base64_nonempty [OF sig(1)] 1(4) kid by (simp_all add: publish_input_of_def base64_roundtrip)
  have "checkSignature opts ?i (pu_sha256 pu (sourceBuf (pi_source ?i))) = Inr (Some kid)"
    using sig(2) row opts by (simp add: checkSignature_def i sourceBuf_def signingMessage_def signing_text_def key_verify_def)
  with 1 kid body show ?thesis by (intro exI [of _ name] exI [of _ ?j] exI [of _ ?b]) (simp add: Let_def)
qed

definition demo_argv :: "string list" where
  "demo_argv = [''publish'', ''--server'', ''http://api'', ''--name=Note'', ''--version=1.0.0'', ''--source'', ''Note.ts'',
     ''--sign'', ''k1.pem'', ''--kid'', ''k1'']"

definition demo_sign :: "string \<Rightarrow> bytes \<Rightarrow> bytes option" where
  "demo_sign pem m = (if pem = ''k1.pem'' then Some (1 # m) else None)"

theorem signed_publish_accepted_witness:
  "\<exists>q j b. runPublish (pu_sha256 demo_publisher) demo_sign (\<lambda>f. Some f) None (parseArgs demo_argv) = Inr q \<and> cq_body q = Some j
    \<and> publish_body_of j = Some b \<and> pv_version b = ''1.0.0'' \<and> pv_kid b = Some ''k1''"
proof -
  let ?p = "parseArgs demo_argv"
  have p: "?p = \<lparr> pa_subcommand = ''publish'', pa_flags = [(''server'', ''http://api''), (''name'', ''Note''), (''version'', ''1.0.0''),
      (''source'', ''Note.ts''), (''sign'', ''k1.pem''), (''kid'', ''k1'')], pa_switches = [], pa_positional = [] \<rparr>"
    by (simp add: parseArgs_def demo_argv_def is_flag_def split_eq_def starts_with_iff)
  obtain q where q: "runPublish (pu_sha256 demo_publisher) demo_sign (\<lambda>f. Some f) None ?p = Inr q"
    by (simp add: runPublish_def p requireFlag_def demo_sign_def Let_def)
  let ?r = "\<lparr> kr_publicKey = (), kr_pem = [], kr_addedAt = 0, kr_revokedAt = None \<rparr>"
  let ?o = "\<lparr> po_auditor = None, po_signingKeys = Some (key_verify (\<lambda>k m s. Inr (s = 1 # m)) (\<lambda>e. []) [(''k1'', ?r)]), po_requireSigned = True \<rparr>"
  have "\<exists>name j b. map_get (pa_flags ?p) ''name'' = Some name \<and> cq_path q = ''/v1/classes/'' @ encodeURIComponent name @ ''/versions''
    \<and> cq_body q = Some j \<and> publish_body_of j = Some b \<and> map_get (pa_flags ?p) ''version'' = Some (pv_version b)
    \<and> (let i = publish_input_of name b ''admin'' in checkSignature ?o i (pu_sha256 demo_publisher (sourceBuf (pi_source i))) = Inr (Some ''k1''))"
    by (rule signed_publish_accepted [OF q, where pub = "()" and r = ?r and f = "''k1.pem''" and pem = "''k1.pem''"])
      (simp_all add: p demo_sign_def)
  then obtain j b where b: "cq_body q = Some j" "publish_body_of j = Some b" "pv_version b = ''1.0.0''"
      "checkSignature ?o (publish_input_of ''Note'' b ''admin'') (pu_sha256 demo_publisher (sourceBuf (pi_source (publish_input_of ''Note'' b ''admin'')))) = Inr (Some ''k1'')"
    by (auto simp: p Let_def)
  then have "pv_kid b = Some ''k1''"
    by (auto simp: checkSignature_def publish_input_of_def split: option.splits if_splits sum.splits)
  with q b show ?thesis by blast
qed

text \<open>
  A \<open>--sign\<close> without a value, last or before another flag, is a switch: the version is published without a
  signature and without a word.
\<close>

theorem bare_sign_publishes_unsigned:
  "let p = parseArgs [''publish'', ''--server=s'', ''--name=N'', ''--version=1'', ''--source=f'', ''--sign'', ''--kid=k1'']
   in ''sign'' \<in> set (pa_switches p) \<and> map_option (\<lambda>q. cq_body q)
        (case runPublish sha256 signer_of (\<lambda>f. Some f) None p of Inr q \<Rightarrow> Some q | Inl c \<Rightarrow> None)
      = Some (Some (JObj [(''version'', JStr ''1''), (''source'', JStr ''f'')]))"
  by (simp add: parseArgs_def is_flag_def split_eq_def starts_with_iff add_switch_def runPublish_def requireFlag_def Let_def)

text \<open>A switch swallows what follows it unless that is a flag: the output directory of this line is a value.\<close>

theorem switch_swallows_operand:
  "pa_flags (parseArgs [''codegen'', ''--source=local:x'', ''--check'', ''extra'']) = [(''source'', ''local:x''), (''check'', ''extra'')]
   \<and> cg_check (projr (codegenOptions None (parseArgs [''codegen'', ''--source=local:x'', ''--check'', ''extra'']))) = False"
  by (simp add: parseArgs_def is_flag_def split_eq_def starts_with_iff codegenOptions_def requireFlag_def Let_def)

text \<open>Flags written with an equals sign are read back as they were given.\<close>

theorem equals_flags_roundtrip:
  "list_all (\<lambda>(n, v). CHR ''='' \<notin> set n) fs \<Longrightarrow>
   parse_rest (map (\<lambda>(n, v). ''--'' @ n @ ''='' @ v) fs) p = p \<lparr> pa_flags := foldl (\<lambda>m (n, v). map_set n v m) (pa_flags p) fs \<rparr>"
proof (induction fs arbitrary: p)
  case (Cons x fs)
  obtain n v where x: "x = (n, v)" by (cases x)
  have "takeWhile (\<lambda>c. c \<noteq> CHR ''='') (n @ CHR ''='' # v) = n" "dropWhile (\<lambda>c. c \<noteq> CHR ''='') (n @ CHR ''='' # v) = CHR ''='' # v"
    using Cons.prems x by (auto simp: takeWhile_append dropWhile_append3)
  then have "split_eq (''--'' @ n @ ''='' @ v) = Some (''--'' @ n, v)" by (simp add: split_eq_def)
  then show ?case using Cons by (simp add: x is_flag_def starts_with_iff)
qed simp

end
