(* ===== verification/Migrate.thy ===== *)
theory Migrate
  imports Errors "HOL-Library.List_Lexorder" "HOL-Library.Char_ord"
begin

text \<open>
  The migration runner (\<open>src/storage/migrate.ts\<close>): the files of a directory in the order of their names,
  each executed and recorded with its digest. What a file's SQL does to the database is a parameter, as is
  the digest; the bookkeeping table is a map from names to digests.
\<close>

section \<open>State\<close>

type_synonym sql_files = "(string, string) jsmap"

record 'db migrated =
  mg_db :: 'db
  mg_table :: "(string, string) jsmap"

definition ends_with :: "string \<Rightarrow> string \<Rightarrow> bool" where
  "ends_with suf s \<longleftrightarrow> starts_with (rev suf) (rev s)"

definition listUpMigrations :: "sql_files \<Rightarrow> string list" where
  "listUpMigrations files = sort (filter (ends_with ''.up.sql'') (map fst files))"

definition file_text :: "sql_files \<Rightarrow> string \<Rightarrow> string" where
  "file_text files f = (case map_get files f of Some s \<Rightarrow> s | None \<Rightarrow> [])"

section \<open>Applying\<close>

text \<open>
  \<open>applyOne\<close>: the statements, which their own transaction makes atomic, then the row outside of it. \<open>ins\<close> is
  the error the insert of a file's row meets, if any (a lost connection, another runner's row).
\<close>

definition applyOne :: "(string \<Rightarrow> 'db \<Rightarrow> error + 'db) \<Rightarrow> (string \<Rightarrow> error option) \<Rightarrow> (error \<Rightarrow> string) \<Rightarrow> string \<Rightarrow> string \<Rightarrow> string
    \<Rightarrow> 'db migrated \<Rightarrow> (error + unit) \<times> 'db migrated" where
  "applyOne exec ins msg f sql sha m = (case exec sql (mg_db m) of
      Inl e \<Rightarrow> (Inl (PlainError (''migration '' @ f @ '' failed: '' @ msg e)), m)
    | Inr db \<Rightarrow> (case ins f of
        Some e \<Rightarrow> (Inl (PlainError (''migration '' @ f @ '' failed: '' @ msg e)), m \<lparr> mg_db := db \<rparr>)
      | None \<Rightarrow> (Inr (), m \<lparr> mg_db := db, mg_table := map_set f sha (mg_table m) \<rparr>)))"

fun apply_files :: "(string \<Rightarrow> 'db \<Rightarrow> error + 'db) \<Rightarrow> (string \<Rightarrow> error option) \<Rightarrow> (string \<Rightarrow> string) \<Rightarrow> (error \<Rightarrow> string) \<Rightarrow> sql_files \<Rightarrow> string list
    \<Rightarrow> 'db migrated \<Rightarrow> (error + string list) \<times> 'db migrated" where
  "apply_files exec ins hash msg files [] m = (Inr [], m)"
| "apply_files exec ins hash msg files (f # fs) m = (
     let sql = file_text files f; sha = hash sql in
     case map_get (mg_table m) f of
       Some prev \<Rightarrow>
         if prev \<noteq> sha
         then (Inl (PlainError (''migration '' @ f @ '' was previously applied with a different sha256 (stored='' @ prev
                 @ '' current='' @ sha @ ''); migrations are immutable'')), m)
         else apply_files exec ins hash msg files fs m
     | None \<Rightarrow> (case applyOne exec ins msg f sql sha m of
         (Inl e, m1) \<Rightarrow> (Inl e, m1)
       | (Inr _, m1) \<Rightarrow> (case apply_files exec ins hash msg files fs m1 of
           (Inl e, m2) \<Rightarrow> (Inl e, m2)
         | (Inr done, m2) \<Rightarrow> (Inr (f # done), m2))))"

definition applyMigrations :: "(string \<Rightarrow> 'db \<Rightarrow> error + 'db) \<Rightarrow> (string \<Rightarrow> error option) \<Rightarrow> (string \<Rightarrow> string) \<Rightarrow> (error \<Rightarrow> string) \<Rightarrow> sql_files
    \<Rightarrow> 'db migrated \<Rightarrow> (error + string list) \<times> 'db migrated" where
  "applyMigrations exec ins hash msg files m = apply_files exec ins hash msg files (listUpMigrations files) m"

definition appliedMigrations :: "'db migrated \<Rightarrow> (string \<times> string) list" where
  "appliedMigrations m = sort_key fst (mg_table m)"

section \<open>Reverting\<close>

text \<open>\<open>replace(/\.up\.sql$/, '.down.sql')\<close>\<close>

definition down_file :: "string \<Rightarrow> string" where
  "down_file f = (if ends_with ''.up.sql'' f then take (length f - 7) f @ ''.down.sql'' else f)"

fun revert_files :: "(string \<Rightarrow> 'db \<Rightarrow> error + 'db) \<Rightarrow> sql_files \<Rightarrow> string list \<Rightarrow> 'db migrated \<Rightarrow> (error + unit) \<times> 'db migrated" where
  "revert_files exec files [] m = (Inr (), m)"
| "revert_files exec files (f # fs) m = (case map_get files (down_file f) of
      None \<Rightarrow> (Inl (PlainError ''ENOENT''), m)
    | Some sql \<Rightarrow> (case exec sql (mg_db m) of
        Inl e \<Rightarrow> (Inl e, m)
      | Inr db \<Rightarrow> revert_files exec files fs (m \<lparr> mg_db := db, mg_table := map_delete f (mg_table m) \<rparr>)))"

definition revertAll :: "(string \<Rightarrow> 'db \<Rightarrow> error + 'db) \<Rightarrow> sql_files \<Rightarrow> 'db migrated \<Rightarrow> (error + unit) \<times> 'db migrated" where
  "revertAll exec files m = revert_files exec files (rev (listUpMigrations files)) m"

section \<open>What a run leaves\<close>

text \<open>The files a table has not recorded, and the database after running them in order.\<close>

definition to_apply :: "string list \<Rightarrow> (string, string) jsmap \<Rightarrow> string list" where
  "to_apply fs table = filter (\<lambda>f. map_get table f = None) fs"

fun exec_all :: "(string \<Rightarrow> 'db \<Rightarrow> error + 'db) \<Rightarrow> string list \<Rightarrow> 'db \<Rightarrow> 'db option" where
  "exec_all exec [] db = Some db"
| "exec_all exec (s # ss) db = (case exec s db of Inl e \<Rightarrow> None | Inr db' \<Rightarrow> exec_all exec ss db')"

lemma apply_files_ok:
  assumes "apply_files exec ins hash msg files fs m = (Inr applied, m')" and "distinct fs"
  shows "applied = to_apply fs (mg_table m) \<and> exec_all exec (map (file_text files) applied) (mg_db m) = Some (mg_db m')
    \<and> (\<forall>f\<in>set fs. map_get (mg_table m') f = Some (hash (file_text files f)))
    \<and> (\<forall>f. f \<notin> set fs \<longrightarrow> map_get (mg_table m') f = map_get (mg_table m) f)"
  using assms
proof (induction exec ins hash msg files fs m arbitrary: applied m' rule: apply_files.induct)
  case (2 exec ins hash msg files f fs m)
  let ?sha = "hash (file_text files f)"
  show ?case
  proof (cases "map_get (mg_table m) f")
    case (Some prev)
    with 2 show ?thesis by (auto simp: to_apply_def Let_def split: if_splits)
  next
    case None
    obtain db where db: "exec (file_text files f) (mg_db m) = Inr db" "ins f = None"
      using 2(3) None by (auto simp: Let_def applyOne_def split: sum.splits option.splits)
    let ?m = "m \<lparr> mg_db := db, mg_table := map_set f ?sha (mg_table m) \<rparr>"
    obtain rest where rest: "apply_files exec ins hash msg files fs ?m = (Inr rest, m')" "applied = f # rest"
      using 2(3) None db by (auto simp: Let_def applyOne_def split: sum.splits prod.splits)
    have ih: "rest = to_apply fs (mg_table ?m) \<and> exec_all exec (map (file_text files) rest) (mg_db ?m) = Some (mg_db m')
        \<and> (\<forall>g\<in>set fs. map_get (mg_table m') g = Some (hash (file_text files g)))
        \<and> (\<forall>g. g \<notin> set fs \<longrightarrow> map_get (mg_table m') g = map_get (mg_table ?m) g)"
      using 2(1) [OF refl refl None] rest(1) 2(4) by (simp add: applyOne_def db)
    moreover have "to_apply fs (mg_table ?m) = to_apply fs (mg_table m)"
      using 2(4) by (auto simp: to_apply_def intro!: filter_cong)
    ultimately show ?thesis using None rest(2) db 2(4) by (auto simp: to_apply_def)
  qed
qed (simp add: to_apply_def)

lemma apply_files_skip:
  "\<forall>f\<in>set fs. map_get (mg_table m) f = Some (hash (file_text files f)) \<Longrightarrow> apply_files exec ins hash msg files fs m = (Inr [], m)"
  by (induction fs) (simp_all add: Let_def)

lemma listUp_distinct: "distinct (map fst files) \<Longrightarrow> distinct (listUpMigrations files)"
  by (simp add: listUpMigrations_def)

section \<open>Properties\<close>

text \<open>
  A run that succeeds applies exactly the recorded table's missing files, in the order of their names, and
  records every file with its digest; a second run over the same files applies nothing and changes nothing.
\<close>

theorem migrations_apply_once:
  assumes "applyMigrations exec ins hash msg files m = (Inr applied, m')" and "distinct (map fst files)"
  shows "applied = to_apply (listUpMigrations files) (mg_table m) \<and> sorted applied
    \<and> exec_all exec (map (file_text files) applied) (mg_db m) = Some (mg_db m')
    \<and> applyMigrations exec ins hash msg files m' = (Inr [], m')"
proof -
  note ok = apply_files_ok [OF assms(1) [unfolded applyMigrations_def] listUp_distinct [OF assms(2)]]
  moreover have "sorted (to_apply (listUpMigrations files) (mg_table m))"
    by (simp add: to_apply_def listUpMigrations_def sorted_filter [where f = id, simplified])
  then have "sorted applied" using ok by simp
  moreover have "applyMigrations exec ins hash msg files m' = (Inr [], m')"
    unfolding applyMigrations_def using ok by (intro apply_files_skip) blast
  ultimately show ?thesis by blast
qed

definition demo_exec :: "string \<Rightarrow> string list \<Rightarrow> error + string list" where
  "demo_exec s db = (if s = ''bad'' then Inl (PlainError ''syntax'') else Inr (db @ [s]))"

theorem migrations_apply_once_witness:
  "applyMigrations demo_exec (\<lambda>f. None) id (\<lambda>e. []) [(''2.up.sql'', ''b''), (''1.up.sql'', ''a''), (''1.down.sql'', ''x'')] \<lparr> mg_db = [], mg_table = [] \<rparr>
     = (Inr [''1.up.sql'', ''2.up.sql''], \<lparr> mg_db = [''a'', ''b''], mg_table = [(''1.up.sql'', ''a''), (''2.up.sql'', ''b'')] \<rparr>)
   \<and> applyMigrations demo_exec (\<lambda>f. None) id (\<lambda>e. []) [(''2.up.sql'', ''b''), (''1.up.sql'', ''a''), (''1.down.sql'', ''x'')]
       \<lparr> mg_db = [''a'', ''b''], mg_table = [(''1.up.sql'', ''a''), (''2.up.sql'', ''b'')] \<rparr>
     = (Inr [], \<lparr> mg_db = [''a'', ''b''], mg_table = [(''1.up.sql'', ''a''), (''2.up.sql'', ''b'')] \<rparr>)"
proof -
  let ?fs = "[(''2.up.sql'', ''b''), (''1.up.sql'', ''a''), (''1.down.sql'', ''x'')]"
  have run: "applyMigrations demo_exec (\<lambda>f. None) id (\<lambda>e. []) ?fs \<lparr> mg_db = [], mg_table = [] \<rparr>
     = (Inr [''1.up.sql'', ''2.up.sql''], \<lparr> mg_db = [''a'', ''b''], mg_table = [(''1.up.sql'', ''a''), (''2.up.sql'', ''b'')] \<rparr>)"
    by code_simp
  from migrations_apply_once [OF run] run show ?thesis by simp
qed

text \<open>A file that was changed after it ran stops the run before any later file.\<close>

theorem changed_migration_refused:
  "map_get (mg_table m) f = Some prev \<Longrightarrow> prev \<noteq> hash (file_text files f) \<Longrightarrow>
   \<exists>e. apply_files exec ins hash msg files (f # fs) m = (Inl e, m)"
  by (simp add: Let_def)

text \<open>
  A file whose row could not be written has changed the database and is not recorded: the next run executes
  it again.
\<close>

theorem unrecorded_migration_runs_again:
  "map_get (mg_table m) f = None \<Longrightarrow> exec (file_text files f) (mg_db m) = Inr db \<Longrightarrow> ins f = Some e \<Longrightarrow>
   exec (file_text files f) db = Inr db2 \<Longrightarrow>
   let m1 = snd (apply_files exec ins hash msg files [f] m)
   in mg_db m1 = db \<and> apply_files exec (\<lambda>f. None) hash msg files [f] m1
        = (Inr [f], \<lparr> mg_db = db2, mg_table = map_set f (hash (file_text files f)) (mg_table m) \<rparr>)"
  by (cases m) (simp add: Let_def applyOne_def)

text \<open>When every down file undoes its up file, reverting all that was applied gives the first database back.\<close>

theorem revert_undoes_apply:
  assumes "exec_all exec (map (file_text files) fs) db = Some db'"
    and "\<And>f x y. f \<in> set fs \<Longrightarrow> exec (file_text files f) x = Inr y \<Longrightarrow> (\<exists>sql. map_get files (down_file f) = Some sql \<and> exec sql y = Inr x)"
  shows "\<exists>table. revert_files exec files (rev fs) \<lparr> mg_db = db', mg_table = t \<rparr> = (Inr (), \<lparr> mg_db = db, mg_table = table \<rparr>)"
proof -
  have app: "exec_all exec (xs @ [x]) d = Some d' \<Longrightarrow> \<exists>d1. exec_all exec xs d = Some d1 \<and> exec x d1 = Inr d'" for xs x d d'
    by (induction xs arbitrary: d) (auto split: sum.splits)
  show ?thesis using assms
  proof (induction fs arbitrary: db' t rule: rev_induct)
    case (snoc f fs)
    then have "exec_all exec (map (file_text files) fs @ [file_text files f]) db = Some db'" by simp
    from app [OF this] obtain d1 where d1: "exec_all exec (map (file_text files) fs) db = Some d1" "exec (file_text files f) d1 = Inr db'"
      by blast
    then obtain sql where "map_get files (down_file f) = Some sql" "exec sql db' = Inr d1" using snoc.prems(2) by force
    with snoc.IH [OF d1(1)] snoc.prems(2) show ?case by simp
  qed simp
qed

end
