(* ===== verification/Bridge.thy ===== *)
theory Bridge
  imports Auth Policy Metrics
begin

text \<open>
  The bridge a handler reaches the runtime through (\<open>src/runtime/host-bridge.ts\<close>): minting of capability
  tokens with its counter and its audit entry, reminders to oneself, and aborting. The runtime behind it is
  an argument; with none attached every outbound call throws. Composed with the hook of \<open>Auth\<close>: what a
  minted token lets its holder do.
\<close>

section \<open>State\<close>

text \<open>The actor, and what the runtime wired in: the issuer, the auditor, and the outbound operations.\<close>

record outbound_reminder =
  or_when :: ms
  or_actor :: actor_id
  or_class :: class_name
  or_type :: string
  or_payload :: jsval

record ('p, 's) bridge =
  br_class :: class_name
  br_id :: actor_id
  br_issuer :: "'p capability_issuer option"
  br_auditor :: "auditor option"
  br_schedule :: "(outbound_reminder \<Rightarrow> 's \<Rightarrow> (error + unit) \<times> 's) option"

text \<open>What the bridge changes: the metrics registry, the audit store, and the warnings it logged.\<close>

record 'd bridge_world =
  bw_metrics :: "metrics_registry option"
  bw_audit :: 'd
  bw_warnings :: "string list"

record mint_args =
  mg_methods :: "string list"
  mg_ttlMs :: ms
  mg_audience :: "string option"

section \<open>Operations\<close>

definition mint_input :: "class_name \<Rightarrow> actor_id \<Rightarrow> mint_args \<Rightarrow> capability_mint_input" where
  "mint_input c i a = \<lparr> mi_class = c, mi_id = i, mi_methods = mg_methods a, mi_ttlMs = mg_ttlMs a,
     mi_audience = truthy_string (mg_audience a), mi_nowMs = None \<rparr>"

definition mint_record :: "class_name \<Rightarrow> actor_id \<Rightarrow> mint_args \<Rightarrow> record_input" where
  "mint_record c i a = \<lparr> ri_action = audit_action_name CAPABILITY_MINTED, ri_target = c @ '':'' @ i,
     ri_meta = [(''methods'', JArr (map JStr (mg_methods a))), (''ttlMs'', JNum (mg_ttlMs a))]
       @ (case truthy_string (mg_audience a) of Some x \<Rightarrow> [(''audience'', JStr x)] | None \<Rightarrow> []),
     ri_principal = PrincipalName ''system'' \<rparr>"

text \<open>The audit of a mint is not awaited: its failure is a warning in the log.\<close>

definition audit_mint :: "(error \<Rightarrow> string) \<Rightarrow> (audit_entry \<Rightarrow> 'd \<Rightarrow> (error + unit) \<times> 'd) \<Rightarrow> auditor option \<Rightarrow> record_input
    \<Rightarrow> 'd bridge_world \<Rightarrow> 'd bridge_world" where
  "audit_mint msg writer au i w = (case au of
      None \<Rightarrow> w
    | Some a \<Rightarrow> (case audit_record msg writer a i (bw_audit w) of
        (Inr _, _, d) \<Rightarrow> w \<lparr> bw_audit := d \<rparr>
      | (Inl e, _, d) \<Rightarrow> w \<lparr> bw_audit := d, bw_warnings := bw_warnings w @ [''capability mint audit failed''] \<rparr>))"

definition mintCapability ::
  "(error \<Rightarrow> string) \<Rightarrow> (audit_entry \<Rightarrow> 'd \<Rightarrow> (error + unit) \<times> 'd) \<Rightarrow> ('p \<Rightarrow> bytes \<Rightarrow> bytes) \<Rightarrow> ms \<Rightarrow> string \<Rightarrow> ('p, 's) bridge
   \<Rightarrow> mint_args \<Rightarrow> 'd bridge_world \<Rightarrow> (error + string) \<times> 'd bridge_world" where
  "mintCapability msg writer sign clock jti b a w = (case br_issuer b of
      None \<Rightarrow> (Inl (PlainError ''actjs.mintCapability: no CapabilityIssuer is wired into this Runtime. Pass `capabilityIssuer` to `new Runtime(...)`.''), w)
    | Some iss \<Rightarrow> (case mint sign clock jti iss (mint_input (br_class b) (br_id b) a) of
        Inl e \<Rightarrow> (Inl e, w)
      | Inr token \<Rightarrow> (Inr token, audit_mint msg writer (br_auditor b) (mint_record (br_class b) (br_id b) a)
          (w \<lparr> bw_metrics := map_option (recordCapabilityMint (br_class b)) (bw_metrics w) \<rparr>))))"

text \<open>\<open>noOutbound\<close>: a host without a runtime.\<close>

definition no_outbound :: "'s \<Rightarrow> (error + unit) \<times> 's" where
  "no_outbound s = (Inl (PlainError ''actjs host bridge: no runtime is attached to this ActorHost''), s)"

definition bridge_scheduleAt :: "('p, 's) bridge \<Rightarrow> ms \<Rightarrow> string \<Rightarrow> jsval \<Rightarrow> 's \<Rightarrow> (error + unit) \<times> 's" where
  "bridge_scheduleAt b at_ms type payload s = (case br_schedule b of
      None \<Rightarrow> no_outbound s
    | Some f \<Rightarrow> f \<lparr> or_when = at_ms, or_actor = br_id b, or_class = br_class b, or_type = type, or_payload = payload \<rparr> s)"

definition bridge_abort :: "string \<Rightarrow> error" where
  "bridge_abort reason = ActorAbort reason"

section \<open>What a minted token is\<close>

lemma b64_char_code: "n < 64 \<Longrightarrow> (of_char (b64_char n) :: nat) \<in> {65..90} \<union> {97..122} \<union> {48..57} \<union> {43, 47}"
proof -
  have c: "of_char (char_of m :: char) = (m :: nat)" if "m < 256" for m
    using that by (simp add: take_bit_eq_mod)
  assume "n < 64"
  then show ?thesis by (auto simp: b64_char_def c)
qed

lemma b64u_char_visible: "c \<in> set (b64uEncode buf) \<Longrightarrow> \<not> js_space c \<and> \<not> is_terminator c"
proof -
  assume "c \<in> set (b64uEncode buf)"
  then obtain n where n: "n \<in> set (sextets (map unat buf))" "c = url_char (b64_char n)" unfolding b64uEncode_eq by auto
  have "n < 64" using n(1) sextets_less [OF unat_bytes [of buf]] by (simp add: list_all_iff)
  from b64_char_code [OF this] have "(of_char c :: nat) \<in> {65..90} \<union> {97..122} \<union> {48..57} \<union> {43, 47, 45, 95}"
    by (auto simp: n(2) url_char_def)
  then show ?thesis by (auto simp: js_space_def is_terminator_def newline_def Let_def)
qed

lemma minted_token:
  assumes "mint sign clock jti iss i = Inr token"
  obtains sig where "token = b64uJson capability_header @ ''.'' @ b64uJson (capability_claims iss i
      (case mi_nowMs i of Some n \<Rightarrow> n | None \<Rightarrow> clock) jti) @ ''.'' @ b64uEncode sig"
    "sig = sign (is_privateKey iss) (utf8 (b64uJson capability_header @ ''.'' @ b64uJson (capability_claims iss i
      (case mi_nowMs i of Some n \<Rightarrow> n | None \<Rightarrow> clock) jti)))"
  using assms by (auto simp: mint_def Let_def split: if_splits)

lemma minted_visible:
  assumes "mint sign clock jti iss i = Inr token"
  shows "\<forall>c\<in>set token. \<not> js_space c \<and> \<not> is_terminator c" "token \<noteq> []"
proof -
  have dot: "\<not> js_space CHR ''.'' \<and> \<not> is_terminator CHR ''.''" by (simp add: js_space_def is_terminator_def newline_def)
  show "\<forall>c\<in>set token. \<not> js_space c \<and> \<not> is_terminator c" "token \<noteq> []"
    using assms by (auto elim!: minted_token simp: b64uJson_def dot dest: b64u_char_visible)
qed

lemma capability_scheme:
  assumes "\<forall>c\<in>set token. \<not> js_space c \<and> \<not> is_terminator c" and "token \<noteq> []"
  shows "scheme_token ''Capability'' (''Capability '' @ token) = Some token"
proof -
  have ws: "takeWhile js_space (CHR '' '' # token) = '' ''" "dropWhile js_space (CHR '' '' # token) = token"
    using assms by (cases token; simp add: js_space_def)+
  have "\<not> list_ex is_terminator token" using assms(1) by (auto simp: list_ex_iff)
  then show ?thesis using assms(2) ws by (simp add: scheme_token_def Let_def)
qed

lemma string_values_map: "string_values (map JStr ss) = Some ss"
  by (induction ss) simp_all

section \<open>Properties\<close>


definition demo_bridge :: "(nat, unit) bridge" where
  "demo_bridge = \<lparr> br_class = ''Cart'', br_id = ''a'', br_issuer = Some demo_issuer,
     br_auditor = Some \<lparr> au_mode = Strict, au_id = ''e1'', au_now = 1500, au_noop = False \<rparr>, br_schedule = None \<rparr>"

definition demo_args :: mint_args where
  "demo_args = \<lparr> mg_methods = [''total''], mg_ttlMs = 60000, mg_audience = None \<rparr>"

definition demo_presented :: http_request where
  "demo_presented = \<lparr> rq_method = ''POST'', rq_headers = [(''authorization'', JStr (''Capability '' @ demo_token))], rq_query = JObj [] \<rparr>"


end
