(* ===== verification/Connect.thy ===== *)
theory Connect
  imports Server
begin

text \<open>
  The connection of the client to the server's endpoint (\<open>Client.wsUrl\<close>, \<open>setManifestPin\<close> and the constructor
  of \<open>src/client/client.ts\<close>, the URL the transport keeps in \<open>src/client/transport.ts\<close>), composed with the
  hooks the upgrade request meets. A URL is its parsed parts; an upgrade request has the headers of the
  platform, which a page cannot add to.
\<close>

section \<open>The address\<close>

record url =
  ur_protocol :: string
  ur_host :: string
  ur_pathname :: string
  ur_query :: "(string, string) jsmap"

text \<open>\<open>replace(/^http/, 'ws')\<close>, which makes https into wss.\<close>

definition ws_protocol :: "string \<Rightarrow> string" where
  "ws_protocol p = (if starts_with ''http'' p then ''ws'' @ drop 4 p else p)"

definition wsUrl :: "string \<Rightarrow> string option \<Rightarrow> url \<Rightarrow> url" where
  "wsUrl pin token u = (
     let path = ur_pathname u;
         slashed = (if path \<noteq> [] \<and> last path = CHR ''/'' then path else path @ ''/'');
         q1 = (if pin \<noteq> ''latest'' then map_set ''manifest'' pin (ur_query u) else ur_query u);
         q2 = (case token of Some t \<Rightarrow> if t = [] then q1 else map_set ''token'' t q1 | None \<Rightarrow> q1)
     in u \<lparr> ur_protocol := ws_protocol (ur_protocol u), ur_pathname := slashed @ ''v1/ws'', ur_query := q2 \<rparr>)"

text \<open>What the server reads of the upgrade: the platform's headers and the query of the address.\<close>

definition upgrade_request :: "(string, jsval) jsmap \<Rightarrow> url \<Rightarrow> http_request" where
  "upgrade_request headers u = \<lparr> rq_method = ''GET'', rq_headers = headers,
     rq_query = JObj (map (\<lambda>(k, v). (k, JStr v)) (ur_query u)) \<rparr>"

section \<open>The client's side of it\<close>

text \<open>\<open>cc_socketUrl\<close> is the address the transport was built with; every socket is opened on it.\<close>

record client_connection =
  cc_base :: url
  cc_token :: "string option"
  cc_pin :: string
  cc_socketUrl :: url
  cc_opened :: "url list"

definition new_connection :: "url \<Rightarrow> string option \<Rightarrow> string option \<Rightarrow> client_connection" where
  "new_connection u token pin = (let p = (case pin of Some x \<Rightarrow> x | None \<Rightarrow> ''latest'') in
     \<lparr> cc_base = u, cc_token = token, cc_pin = p, cc_socketUrl = wsUrl p token u, cc_opened = [] \<rparr>)"

definition setManifestPin :: "string \<Rightarrow> client_connection \<Rightarrow> client_connection" where
  "setManifestPin pin c = c \<lparr> cc_pin := pin \<rparr>"

text \<open>\<open>new this.wsCtor(this.url)\<close> of the transport's \<open>connect\<close> and of every reconnect.\<close>

definition open_socket :: "client_connection \<Rightarrow> client_connection" where
  "open_socket c = c \<lparr> cc_opened := cc_opened c @ [cc_socketUrl c] \<rparr>"

datatype connection_op = SetPin string | OpenSocket

fun connection_step :: "client_connection \<Rightarrow> connection_op \<Rightarrow> client_connection" where
  "connection_step c (SetPin p) = setManifestPin p c"
| "connection_step c OpenSocket = open_socket c"

section \<open>Properties\<close>

lemma upgrade_query: "query_of (upgrade_request hs u) k = (case map_get (ur_query u) k of Some v \<Rightarrow> JStr v | None \<Rightarrow> JUndefined)"
  by (induction "ur_query u") (auto simp: query_of_def upgrade_request_def map_of_map split: option.split)

lemma upgrade_header: "header_of (upgrade_request hs u) k = (case map_get hs k of Some v \<Rightarrow> v | None \<Rightarrow> JUndefined)"
  by (simp add: header_of_def upgrade_request_def)

text \<open>
  The address is the endpoint below the base's path, over the web socket scheme of the base's; the pin hook
  of the server finds the pin of the client there, and none for \<open>latest\<close>.
\<close>

theorem connect_reaches_endpoint:
  assumes "map_get hs ''x-actjs-manifest'' = None" and "ur_query u = []" and "pin \<noteq> []"
  shows "ur_host (wsUrl pin token u) = ur_host u
    \<and> (ur_pathname (wsUrl pin token u) = ur_pathname u @ ''v1/ws'' \<or> ur_pathname (wsUrl pin token u) = ur_pathname u @ ''/v1/ws'')
    \<and> (ur_protocol u = ''https:'' \<longrightarrow> ur_protocol (wsUrl pin token u) = ''wss:'')
    \<and> pinShaFor (upgrade_request hs (wsUrl pin token u)) = (if pin = ''latest'' then None else Some pin)"
  using assms
  by (auto simp: wsUrl_def ws_protocol_def starts_with_iff Let_def pinShaFor_def upgrade_header upgrade_query nonempty_string_def
      split: option.split)

theorem connect_reaches_endpoint_witness:
  "pinShaFor (upgrade_request [(''host'', JStr ''h'')] (wsUrl ''abc'' (Some ''t'') \<lparr> ur_protocol = ''https:'', ur_host = ''h'',
     ur_pathname = ''/app'', ur_query = [] \<rparr>)) = Some ''abc''"
  using connect_reaches_endpoint [of "[(''host'', JStr ''h'')]" "\<lparr> ur_protocol = ''https:'', ur_host = ''h'', ur_pathname = ''/app'', ur_query = [] \<rparr>"
    "''abc''" "Some ''t''"] by simp

text \<open>
  The token rides in the query, where the static-token and the JWT verifier do not look: an application that
  requires authentication refuses the client's connection whatever its token.
\<close>

theorem query_token_is_not_read:
  assumes "map_get hs ''authorization'' = None"
  shows "staticToken tokens (upgrade_request hs (wsUrl pin token u)) = Inr None
    \<and> fst (verifyJWT parse jc jo t fetched cache (upgrade_request hs (wsUrl pin token u))) = Inr None
    \<and> authHook msg parse' verify t (Some (staticToken tokens)) True capability (upgrade_request hs (wsUrl pin token u))
        = Inl (AuthError ''authentication required'')"
proof -
  have "bearerToken (upgrade_request hs x) = None" for x by (simp add: bearerToken_def headerString_def upgrade_header assms)
  moreover have "parseCapabilityHeader (header_of (upgrade_request hs x) ''authorization'') = None" for x
    by (simp add: parseCapabilityHeader_def upgrade_header assms)
  ultimately show ?thesis by (simp add: staticToken_def verifyJWT_def authHook_def split: option.split)
qed

theorem query_token_is_not_read_witness:
  "staticToken [(''t'', anonymousPrincipal)] (upgrade_request [] (wsUrl ''latest'' (Some ''t'') \<lparr> ur_protocol = ''http:'', ur_host = ''h'',
     ur_pathname = ''/'', ur_query = [] \<rparr>)) = Inr None"
  by (rule query_token_is_not_read [THEN conjunct1]) simp

text \<open>
  A pin set after the construction never reaches the server: every socket, reconnects included, is opened on
  the address of the first pin.
\<close>

lemma sockets_kept: "cc_socketUrl (foldl connection_step c ops) = cc_socketUrl c
    \<and> set (cc_opened (foldl connection_step c ops)) \<subseteq> insert (cc_socketUrl c) (set (cc_opened c))"
proof (induction ops arbitrary: c)
  case (Cons x ops)
  show ?case using Cons [of "connection_step c x"] by (cases x) (auto simp: setManifestPin_def open_socket_def)
qed auto

theorem pin_change_is_ignored:
  "\<forall>x\<in>set (cc_opened (foldl connection_step (new_connection u token (Some pin)) ops)). x = wsUrl pin token u"
  using sockets_kept [of "new_connection u token (Some pin)" ops] by (auto simp: new_connection_def Let_def)

theorem pin_change_is_ignored_witness:
  "cc_pin (foldl connection_step (new_connection u token (Some ''old'')) [OpenSocket, SetPin ''new'', OpenSocket]) = ''new''
   \<and> cc_opened (foldl connection_step (new_connection u token (Some ''old'')) [OpenSocket, SetPin ''new'', OpenSocket])
     = [wsUrl ''old'' token u, wsUrl ''old'' token u]"
  by (simp add: new_connection_def setManifestPin_def open_socket_def Let_def)

end
