(* ===== verification/Compile.thy ===== *)
theory Compile
  imports Server
begin

text \<open>
  What the class loader does with a source (\<open>compileAndEvaluate\<close> of \<open>src/runtime/loader.ts\<close>, the kit of
  \<open>class-kit.ts\<close>): transpile, refuse on diagnostics, evaluate as the body of a function of the kit, accept a
  constructor only. The transpiler and the engine are arguments. It is a \<open>compile\<close> of \<open>Loader\<close>; a load is
  split here at its await, so that two loads of one source can overlap.
\<close>

section \<open>Compilation\<close>

text \<open>What running the body gives: it throws, returns a function, or another value of some \<open>typeof\<close>.\<close>

datatype 'c evaluated = EvalThrows error | EvalFunction 'c | EvalOther string

type_synonym transpiler = "string \<Rightarrow> string \<Rightarrow> string \<times> string list"

text \<open>\<open>transpile\<close> is given the file name and the source, and answers the text and the errors.\<close>

definition source_file :: "class_name \<Rightarrow> version \<Rightarrow> string" where
  "source_file name v = name @ ''@'' @ v @ ''.ts''"

definition compileAndEvaluate ::
  "(error \<Rightarrow> string) \<Rightarrow> (bytes \<Rightarrow> string) \<Rightarrow> transpiler \<Rightarrow> (string \<Rightarrow> 'c evaluated) \<Rightarrow> 'c compiler" where
  "compileAndEvaluate msg decode transpile evaluate name v src = (
     let (js_text, msgs) = transpile (source_file name v) (decode src); refuse = (\<lambda>ds. Inl (CompileError (name @ ''@'' @ v) ds)) in
     if msgs \<noteq> [] then refuse msgs
     else (case evaluate js_text of
        EvalThrows e \<Rightarrow> refuse [''module evaluation: '' @ msg e]
      | EvalFunction c \<Rightarrow> Inr c
      | EvalOther t \<Rightarrow> refuse [''class source must return a constructor; got '' @ t]))"

section \<open>A load in two parts\<close>

text \<open>Up to the await of the evaluation: a finished load, or the source that is being compiled.\<close>

definition load_begin :: "class_name \<Rightarrow> version \<Rightarrow> driver \<Rightarrow> 'c class_loader \<Rightarrow> ((error + 'c) + string \<times> bytes) \<times> 'c class_loader" where
  "load_begin name v d ld = (case lookupRecord name v d of
      None \<Rightarrow> (Inl (Inl (ClassSourceNotFound name v)), ld)
    | Some rec \<Rightarrow>
       if (case cv_graceUntil rec of Some g \<Rightarrow> g \<le> d_now d | None \<Rightarrow> False)
       then (Inl (Inl (ClassVersionExpired name v)), ld)
       else (case map_get (ld_bySha ld) (cv_sha rec) of
          Some e \<Rightarrow> (Inl (Inr (ce_ctor e)), ld \<lparr> ld_bySha := map_set (cv_sha rec) (e \<lparr> ce_lastUsedAt := d_now d \<rparr>) (ld_bySha ld) \<rparr>)
        | None \<Rightarrow> (case getClassSource name v d of
             None \<Rightarrow> (Inl (Inl (ClassSourceNotFound name v)), ld)
           | Some src \<Rightarrow> (Inr (cv_sha rec, src), ld \<lparr> ld_compilations := ld_compilations ld + 1 \<rparr>))))"

definition load_finish :: "'c compiler \<Rightarrow> class_name \<Rightarrow> version \<Rightarrow> ms \<Rightarrow> string \<times> bytes \<Rightarrow> 'c class_loader \<Rightarrow> (error + 'c) \<times> 'c class_loader" where
  "load_finish compile name v t job ld = (case compile name v (snd job) of
      Inl e \<Rightarrow> (Inl e, ld)
    | Inr c \<Rightarrow> (Inr c, cachePut (fst job) c t ld))"

section \<open>Properties\<close>

text \<open>A load whose parts are not separated is the load of \<open>Loader\<close>.\<close>

lemma load_parts:
  "load_class compile name v d ld = (case load_begin name v d ld of
      (Inl r, ld1) \<Rightarrow> (r, ld1) | (Inr job, ld1) \<Rightarrow> load_finish compile name v (d_now d) job ld1)"
  by (simp add: load_class_def load_begin_def load_finish_def Let_def split: option.split sum.split)

text \<open>The hypothesis that the pin gate of \<open>Server\<close> has on the compiler.\<close>

lemma compile_errors: "compileAndEvaluate msg decode transpile evaluate n v s = Inl e \<Longrightarrow> \<exists>x ds. e = CompileError x ds"
  by (auto simp: compileAndEvaluate_def Let_def split: prod.splits if_splits evaluated.splits)

text \<open>
  A load is total over the ways a source can fail: what the loader answers is the constructor that the
  evaluation of the transpiled source returned, or the class is unknown, past its grace, or refused with at
  least one diagnostic; and only a refusal counts a compilation without caching anything.
\<close>

theorem load_answers:
  assumes "load_class (compileAndEvaluate msg decode transpile evaluate) name v d ld = (r, ld')"
  shows "case r of
      Inr c \<Rightarrow> \<exists>sha. sha256For name v d = Some sha
        \<and> ((\<exists>e. map_get (ld_bySha ld) sha = Some e \<and> ce_ctor e = c \<and> ld_compilations ld' = ld_compilations ld)
          \<or> (\<exists>src. getClassSource name v d = Some src \<and> evaluate (fst (transpile (source_file name v) (decode src))) = EvalFunction c
              \<and> snd (transpile (source_file name v) (decode src)) = [] \<and> ld_compilations ld' = ld_compilations ld + 1))
    | Inl e \<Rightarrow> ld_bySha ld' = ld_bySha ld
        \<and> ((e = ClassSourceNotFound name v \<or> e = ClassVersionExpired name v) \<and> ld' = ld
          \<or> (\<exists>ds. e = CompileError (name @ ''@'' @ v) ds \<and> ds \<noteq> [] \<and> ld_compilations ld' = ld_compilations ld + 1))"
proof (cases "lookupRecord name v d")
  case None
  then show ?thesis using assms by (auto simp: load_class_def)
next
  case (Some rec)
  have comp: "ld_compilations (cachePut s c t l) = ld_compilations l" for s c t and l :: "'a class_loader"
    by (simp add: cachePut_def maybeEvict_def split: option.split)
  show ?thesis
  proof (cases "\<not> (case cv_graceUntil rec of Some g \<Rightarrow> g \<le> d_now d | None \<Rightarrow> False) \<and> map_get (ld_bySha ld) (cv_sha rec) = None")
    case False
    then show ?thesis using assms Some by (auto simp: load_class_def sha256For_def split: if_splits option.splits)
  next
    case fresh: True
    show ?thesis
    proof (cases "getClassSource name v d")
      case None
      then show ?thesis using assms Some fresh by (auto simp: load_class_def split: if_splits)
    next
      case (Some src)
      obtain js_text msgs where t: "transpile (source_file name v) (decode src) = (js_text, msgs)"
        by (cases "transpile (source_file name v) (decode src)")
      have "load_class (compileAndEvaluate msg decode transpile evaluate) name v d ld
          = (case compileAndEvaluate msg decode transpile evaluate name v src of
              Inl e \<Rightarrow> (Inl e, ld \<lparr> ld_compilations := ld_compilations ld + 1 \<rparr>)
            | Inr c \<Rightarrow> (Inr c, cachePut (cv_sha rec) c (d_now d) (ld \<lparr> ld_compilations := ld_compilations ld + 1 \<rparr>)))"
        using fresh Some \<open>lookupRecord name v d = Some rec\<close> by (simp add: load_class_def Let_def split: sum.split)
      then show ?thesis using assms Some t \<open>lookupRecord name v d = Some rec\<close>
        by (cases "evaluate js_text") (auto simp: compileAndEvaluate_def Let_def comp sha256For_def split: if_splits)
    qed
  qed
qed

definition demo_compiler :: "nat compiler" where
  "demo_compiler = compileAndEvaluate (\<lambda>e. []) (\<lambda>b. map (\<lambda>x. char_of (unat x)) b) (\<lambda>f s. (s, [])) (\<lambda>s. EvalOther ''object'')"

theorem load_answers_witness:
  "fst (load_class demo_compiler ''Cart'' ''9'' empty_driver (new_loader None)) = Inl (ClassSourceNotFound ''Cart'' ''9'')"
proof -
  let ?l = "load_class demo_compiler ''Cart'' ''9'' empty_driver (new_loader None)"
  obtain r ld' where l: "?l = (r, ld')" by (cases ?l)
  from load_answers [OF this [unfolded demo_compiler_def]] show ?thesis
    using l by (auto simp: load_class_def lookupRecord_def listClassVersions_def empty_driver_def)
qed

text \<open>
  Two loads of one source that overlap both compile it, and the later one replaces the entry of the earlier:
  the references taken in between are gone.
\<close>

theorem overlapping_load_drops_references:
  assumes "compile n v src = Inr c" and "map_get (ld_bySha ld) sha = Some e" and "0 < ce_refCount e"
    and "length (ld_bySha ld) \<le> ld_maxEntries ld"
  shows "\<exists>e'. map_get (ld_bySha (snd (load_finish compile n v t (sha, src) ld))) sha = Some e' \<and> ce_refCount e' = 0"
proof -
  let ?ld = "ld \<lparr> ld_bySha := map_set sha \<lparr> ce_sha = sha, ce_ctor = c, ce_lastUsedAt = t, ce_refCount = 0 \<rparr> (ld_bySha ld) \<rparr>"
  have "length (ld_bySha ?ld) = length (ld_bySha ld)"
    using assms(2) by (simp add: map_length_set map_of_eq_None_iff)
  then show ?thesis using assms by (simp add: load_finish_def cachePut_def maybeEvict_def)
qed

end
