(* ===== verification/Hooks.thy ===== *)
theory Hooks
  imports Bindings
begin

text \<open>
  The life of a component over the stores of \<open>Bindings\<close>: the React hook that takes and releases a store
  (\<open>useActorStore\<close>, \<open>useActorCall\<close> and \<open>fetchActor\<close> of \<open>src/bindings/react.ts\<close>) and the Svelte store
  (\<open>actor\<close>, \<open>loadActor\<close> of \<open>src/bindings/svelte.ts\<close>). When a component renders, commits or unmounts is the
  framework's decision: each is an operation here, and a component is the memo and the effect it holds.
\<close>

section \<open>React\<close>

text \<open>The memo, with the arguments it was made for, and the store the effect in force will release.\<close>

record hook =
  hk_memo :: "((string \<times> string) \<times> nat) option"
  hk_effect :: "nat option"

definition new_hook :: hook where
  "new_hook = \<lparr> hk_memo = None, hk_effect = None \<rparr>"

text \<open>A render: the factory of the memo runs when the arguments changed, or when there is no memo.\<close>

definition useActorStore :: "string \<Rightarrow> string \<Rightarrow> hook \<Rightarrow> bindings \<Rightarrow> nat \<times> hook \<times> bindings" where
  "useActorStore cn i h b = (
     let fresh = (let (s, b1) = getActorStore cn i b in (s, h \<lparr> hk_memo := Some ((cn, i), s) \<rparr>, b1)) in
     case hk_memo h of
       Some (key, s) \<Rightarrow> if key = (cn, i) then (s, h, b) else fresh
     | None \<Rightarrow> fresh)"

text \<open>The clean-up of the effect, and a commit: the effect changes hands when its store did.\<close>

definition hook_cleanup :: "hook \<Rightarrow> bindings \<Rightarrow> hook \<times> bindings" where
  "hook_cleanup h b = (case hk_effect h of
      Some s \<Rightarrow> (h \<lparr> hk_effect := None \<rparr>, releaseActorStore s b) | None \<Rightarrow> (h, b))"

definition hook_commit :: "hook \<Rightarrow> bindings \<Rightarrow> hook \<times> bindings" where
  "hook_commit h b = (case hk_memo h of
      None \<Rightarrow> (h, b)
    | Some (key, s) \<Rightarrow>
       if hk_effect h = Some s then (h, b)
       else (let (h1, b1) = hook_cleanup h b in (h1 \<lparr> hk_effect := Some s \<rparr>, b1)))"

definition hook_mount :: "string \<Rightarrow> string \<Rightarrow> hook \<Rightarrow> bindings \<Rightarrow> hook \<times> bindings" where
  "hook_mount cn i h b = (let (s, h1, b1) = useActorStore cn i h b in hook_commit h1 b1)"

section \<open>Calls of a component\<close>

text \<open>
  \<open>useActorCall\<close>: the calls handed to the handle inside a transition, the promises settled so far, and the
  error state. \<open>pending\<close> is the framework's, which ends a transition when its callback returns.
\<close>

record call_hook =
  ck_sent :: "(nat \<times> string) list"
  ck_settled :: "(nat \<times> (error + jsval)) list"
  ck_error :: "error option"

definition wrapped_call :: "bool \<Rightarrow> nat \<Rightarrow> string \<Rightarrow> call_hook \<Rightarrow> call_hook" where
  "wrapped_call has_method n m k = (
     if has_method then k \<lparr> ck_sent := ck_sent k @ [(n, m)] \<rparr>
     else k \<lparr> ck_settled := ck_settled k @ [(n, Inl (PlainError (''actor has no method '' @ [CHR 0x22] @ m @ [CHR 0x22])))] \<rparr>)"

definition call_answered :: "nat \<Rightarrow> error + jsval \<Rightarrow> call_hook \<Rightarrow> call_hook" where
  "call_answered n r k = k \<lparr> ck_settled := ck_settled k @ [(n, r)], ck_error := (case r of Inl e \<Rightarrow> Some e | Inr _ \<Rightarrow> None) \<rparr>"

section \<open>Fetching once\<close>

text \<open>
  \<open>fetchActor\<close> and \<open>loadActor\<close>: a store is taken, its ready promise awaited, and the store released in
  either case.
\<close>

definition fetch_begin :: "string \<Rightarrow> string \<Rightarrow> bindings \<Rightarrow> nat \<times> bindings" where
  "fetch_begin cn i b = getActorStore cn i b"

definition fetch_end :: "nat \<Rightarrow> string \<Rightarrow> bindings \<Rightarrow> (error + jsval \<times> string) option \<times> bindings" where
  "fetch_end s pin b = (case map_option so_ready (map_get (bi_stores b) s) of
      Some (Fulfilled v) \<Rightarrow> (Some (Inr (v, pin)), releaseActorStore s b)
    | Some (Failed e) \<Rightarrow> (Some (Inl e), releaseActorStore s b)
    | _ \<Rightarrow> (None, b))"

section \<open>Svelte\<close>

text \<open>\<open>sv_listener\<close> is the store's own listener, which watches for a new error.\<close>

record svelte_store =
  sv_upstream :: nat
  sv_listener :: nat
  sv_lastError :: "error option"
  sv_errorListeners :: "nat list"
  sv_destroyed :: bool
  sv_refCount :: nat

definition svelte_actor :: "string \<Rightarrow> string \<Rightarrow> nat \<Rightarrow> bindings \<Rightarrow> svelte_store \<times> bindings" where
  "svelte_actor cn i own b = (let (s, b1) = getActorStore cn i b in
     (\<lparr> sv_upstream = s, sv_listener = own, sv_lastError = None, sv_errorListeners = [], sv_destroyed = False, sv_refCount = 1 \<rparr>,
      store_subscribe s (Plain own) b1))"

text \<open>The run of that listener: which error listeners it calls, and with what.\<close>

definition error_noticed :: "bindings \<Rightarrow> svelte_store \<Rightarrow> (nat \<times> error option) list \<times> svelte_store" where
  "error_noticed b sv = (case map_get (bi_stores b) (sv_upstream sv) of
      None \<Rightarrow> ([], sv)
    | Some st \<Rightarrow>
       if so_error st \<noteq> sv_lastError sv
       then (map (\<lambda>f. (f, so_error st)) (sv_errorListeners sv), sv \<lparr> sv_lastError := so_error st \<rparr>)
       else ([], sv))"

text \<open>A subscriber hears the present value at once; \<open>destroy\<close> gives back what the store still holds.\<close>

definition svelte_subscribe :: "svelte_store \<Rightarrow> nat \<Rightarrow> bindings \<Rightarrow> (jsval \<times> bool \<times> error option) option \<times> bindings" where
  "svelte_subscribe sv k b = (map_option snapshotValue (map_get (bi_stores b) (sv_upstream sv)), store_subscribe (sv_upstream sv) (Plain k) b)"

definition svelte_unsubscribe :: "svelte_store \<Rightarrow> nat \<Rightarrow> bindings \<Rightarrow> bindings" where
  "svelte_unsubscribe sv k b = store_unsubscribe (sv_upstream sv) (Plain k) b"

definition subscribeError :: "nat \<Rightarrow> svelte_store \<Rightarrow> (nat \<times> error option) \<times> svelte_store" where
  "subscribeError f sv = ((f, sv_lastError sv), sv \<lparr> sv_errorListeners := sv_errorListeners sv @ [f] \<rparr>)"

definition unsubscribeError :: "nat \<Rightarrow> svelte_store \<Rightarrow> svelte_store" where
  "unsubscribeError f sv = sv \<lparr> sv_errorListeners := filter (\<lambda>x. x \<noteq> f) (sv_errorListeners sv) \<rparr>"

fun release_times :: "nat \<Rightarrow> nat \<Rightarrow> bindings \<Rightarrow> bindings" where
  "release_times 0 s b = b"
| "release_times (Suc n) s b = release_times n s (releaseActorStore s b)"

definition svelte_destroy :: "svelte_store \<Rightarrow> bindings \<Rightarrow> svelte_store \<times> bindings" where
  "svelte_destroy sv b = (if sv_destroyed sv then (sv, b)
     else (sv \<lparr> sv_destroyed := True, sv_refCount := 0 \<rparr>,
       release_times (sv_refCount sv) (sv_upstream sv) (store_unsubscribe (sv_upstream sv) (Plain (sv_listener sv)) b)))"

section \<open>A reference taken and given back\<close>

text \<open>
  Taking a store and releasing it changes nothing for the holders of a live store; a store nobody held is
  destroyed and out of the registry.
\<close>

definition back_as_before :: "string \<Rightarrow> nat \<Rightarrow> bindings \<Rightarrow> bindings \<Rightarrow> bool" where
  "back_as_before key s b b' \<longleftrightarrow> (\<forall>k. map_get (bi_registry b') k = map_get (bi_registry b) k) \<and> bi_open b' = bi_open b
    \<and> (\<forall>t. t \<noteq> s \<longrightarrow> cores b' t = cores b t)
    \<and> (case map_get (bi_registry b) key of
         Some s' \<Rightarrow> s = s' \<and> cores b' s = cores b s
       | None \<Rightarrow> cores b' s = Some (key, True, False, 0) \<and> s \<notin> set (bi_open b'))"

lemma get_release:
  assumes inv: "bindings_inv b" and get: "getActorStore cn i b = (s, b1)"
  shows "back_as_before (store_key cn i) s b (releaseActorStore s b1)"
proof (cases "map_get (bi_registry b) (store_key cn i)")
  case (Some s')
  then have s: "s' = s" and b1: "b1 = on_store s (\<lambda>st. st \<lparr> so_refCount := so_refCount st + 1 \<rparr>) b"
    using get by (auto simp: getActorStore_def Let_def)
  from Some s obtain u r where c: "cores b s = Some (store_key cn i, False, u, r)"
    using inv_butD(2) [OF inv [unfolded bindings_inv_def]] by blast
  have r: "1 \<le> r" using inv_butD(3) [OF inv [unfolded bindings_inv_def] _ c] by simp
  obtain st where st: "map_get (bi_stores b) s = Some st" "so_refCount st = r" "core st = (store_key cn i, False, u, r)"
    using c by (auto simp: cores_def core_def)
  let ?b2 = "on_store s (\<lambda>st. st \<lparr> so_refCount := so_refCount st - 1 \<rparr>) b1"
  have g: "map_get (bi_stores ?b2) s = Some (st \<lparr> so_refCount := r \<rparr>)"
    using st by (simp add: b1 on_store_def)
  then have rel: "releaseActorStore s b1 = ?b2" using r by (simp add: releaseActorStore_def Let_def)
  have "cores ?b2 t = cores b t" for t
    using st g by (cases "t = s") (simp_all add: cores_def core_def key_of_def b1 on_store_def split: option.split)
  then show ?thesis using Some s by (simp add: back_as_before_def rel) (simp add: b1)
next
  case None
  note d = inv_butD [OF inv [unfolded bindings_inv_def]]
  let ?new = "\<lparr> so_class = cn, so_id = i, so_refCount = 0, so_snapshot = JUndefined, so_status = Loading,
           so_error = None, so_listeners = [], so_unsubscribe = False, so_destroyed = False, so_ready = Unsettled \<rparr>"
  have s: "s = length (bi_stores b)" using get None by (auto simp: getActorStore_def createActorStore_def Let_def)
  have fresh: "cores b s = None" using d(1) [of s] s by (simp only: less_irrefl) blast
  have g1: "map_get (bi_stores b1) s = Some (?new \<lparr> so_refCount := 1 \<rparr>)" and reg1: "bi_registry b1 = map_set (store_key cn i) s (bi_registry b)"
    and open1: "bi_open b1 = bi_open b" and other1: "\<And>t. t \<noteq> s \<Longrightarrow> map_get (bi_stores b1) t = map_get (bi_stores b) t"
    using get None by (auto simp: getActorStore_def createActorStore_def on_store_def Let_def)
  let ?b2 = "on_store s (\<lambda>st. st \<lparr> so_refCount := so_refCount st - 1 \<rparr>) b1"
  have g2: "map_get (bi_stores ?b2) s = Some (?new \<lparr> so_refCount := 0 \<rparr>)" using g1 by (simp add: on_store_def)
  then have rel: "releaseActorStore s b1 = destroy_store s ?b2" by (simp add: releaseActorStore_def Let_def)
  have key: "key_of ?new = store_key cn i" by (simp add: key_of_def)
  have unopened: "s \<notin> set (bi_open b)" using d(6) [of s] fresh by auto
  have "map_get (bi_registry (destroy_store s ?b2)) k = map_get (bi_registry b) k" for k
    using g2 reg1 None by (simp add: destroy_store_def key_of_def)
  moreover have "cores (destroy_store s ?b2) t = cores b t" if "t \<noteq> s" for t
    using g2 other1 [OF that] that by (simp add: destroy_store_def cores_def on_store_def g1)
  moreover have "cores (destroy_store s ?b2) s = Some (store_key cn i, True, False, 0)"
    using g2 by (simp add: destroy_store_def cores_def core_def key_of_def)
  moreover have "bi_open (destroy_store s ?b2) = bi_open b" using g2 open1 by (simp add: destroy_store_def)
  ultimately show ?thesis using None unopened by (simp add: back_as_before_def rel)
qed

section \<open>Properties\<close>

text \<open>
  A component that mounts and unmounts leaves the stores as it found them: a store that others hold keeps its
  references, one that it alone held is destroyed and unregistered. So does a fetch, whether the snapshot
  arrives or not, in the absence of other operations in between.
\<close>

theorem mount_unmount_balanced:
  assumes "bindings_inv b" and "hook_mount cn i new_hook b = (h1, b1)" and "hook_cleanup h1 b1 = (h2, b2)"
  shows "\<exists>s. back_as_before (store_key cn i) s b b2 \<and> hk_effect h2 = None"
proof -
  obtain s b' where get: "getActorStore cn i b = (s, b')" by (cases "getActorStore cn i b")
  have "h1 = \<lparr> hk_memo = Some ((cn, i), s), hk_effect = Some s \<rparr>" "b1 = b'"
    using assms(2) get by (auto simp: hook_mount_def useActorStore_def new_hook_def hook_commit_def hook_cleanup_def Let_def)
  then have "b2 = releaseActorStore s b'" "hk_effect h2 = None" using assms(3) by (auto simp: hook_cleanup_def)
  then show ?thesis using get_release [OF assms(1) get] by blast
qed

theorem mount_unmount_balanced_witness:
  "\<exists>s. back_as_before ''Cart:1'' s no_bindings (snd (case hook_mount ''Cart'' ''1'' new_hook no_bindings of (h, b) \<Rightarrow> hook_cleanup h b))"
proof -
  obtain h1 b1 where m: "hook_mount ''Cart'' ''1'' new_hook no_bindings = (h1, b1)" by (cases "hook_mount ''Cart'' ''1'' new_hook no_bindings")
  obtain h2 b2 where c: "hook_cleanup h1 b1 = (h2, b2)" by (cases "hook_cleanup h1 b1")
  show ?thesis using mount_unmount_balanced [OF inv_no_bindings m c] by (auto simp: m c store_key_def)
qed

theorem fetch_balanced:
  assumes "bindings_inv b" and "fetch_begin cn i b = (s, b1)" and "fetch_end s pin b1 = (Some r, b2)"
  shows "back_as_before (store_key cn i) s b b2"
  using assms get_release [OF assms(1) assms(2) [unfolded fetch_begin_def]]
  by (auto simp: fetch_end_def split: option.splits ready_promise.splits)

theorem fetch_balanced_witness:
  "let b = binding_run (=) [OpGet ''Cart'' ''1'', OpAnswer 0 (Inr ()), OpState 0 (JNum 5)] no_bindings
   in back_as_before ''Cart:1'' 0 b (snd (fetch_end 0 ''p'' (snd (fetch_begin ''Cart'' ''1'' b))))"
proof -
  let ?b = "binding_run (=) [OpGet ''Cart'' ''1'', OpAnswer 0 (Inr ()), OpState 0 (JNum 5)] no_bindings"
  have g: "fst (fetch_begin ''Cart'' ''1'' ?b) = 0" by code_simp
  then obtain b1 where b1: "fetch_begin ''Cart'' ''1'' ?b = (0, b1)" by (metis prod.collapse)
  have "fst (fetch_end 0 ''p'' (snd (fetch_begin ''Cart'' ''1'' ?b))) = Some (Inr (JNum 5, ''p''))" by code_simp
  then obtain b2 where b2: "fetch_end 0 ''p'' b1 = (Some (Inr (JNum 5, ''p'')), b2)" using b1 by (metis prod.collapse snd_conv)
  from fetch_balanced [OF inv_run [OF inv_no_bindings] b1 b2] show ?thesis by (simp add: b1 b2 store_key_def Let_def)
qed

text \<open>A component whose argument changes holds the store of the new one and has released the old.\<close>

theorem argument_change_moves_reference:
  assumes "hook_mount cn i new_hook b = (h1, b1)" and "(cn', i') \<noteq> (cn, i)" and "getActorStore cn' i' b1 = (s', b')"
    and "getActorStore cn i b = (s, b1)" and "s \<noteq> s'"
  shows "hook_mount cn' i' h1 b1 = (\<lparr> hk_memo = Some ((cn', i'), s'), hk_effect = Some s' \<rparr>, releaseActorStore s b')"
  using assms by (auto simp: hook_mount_def useActorStore_def new_hook_def hook_commit_def hook_cleanup_def Let_def)

text \<open>
  When the framework cleans an effect up and runs it again without a render (a strict mode that keeps memos),
  nothing takes the reference back: the component is mounted on a destroyed store, its subscription closed.
\<close>

definition mounted_open :: "hook \<times> bindings" where
  "mounted_open = (let (h, b) = hook_mount ''Cart'' ''1'' new_hook no_bindings in (h, subscribe_answered (=) 0 (Inr ()) b))"

theorem remount_closes_store:
  "bi_open (snd mounted_open) = [0]
   \<and> (let (h, b) = (case mounted_open of (h, b) \<Rightarrow> hook_cleanup h b); (h', b') = hook_commit h b
      in hk_effect h' = Some 0 \<and> bi_open b' = [] \<and> map_option so_destroyed (map_get (bi_stores b') 0) = Some True)"
  by code_simp

text \<open>
  A first render that suspends is thrown away with its memo: its reference is never released, and the store
  outlives the component that the retry mounts.
\<close>

theorem suspended_render_leaks:
  "let (s, h, b) = useActorStore ''Cart'' ''1'' new_hook no_bindings;
       b1 = upstream_state (=) s (JNum 1) (subscribe_answered (=) s (Inr ()) b);
       (h1, b2) = hook_mount ''Cart'' ''1'' new_hook b1;
       (h2, b3) = hook_cleanup h1 b2
   in useActor s True b = Suspends \<and> bi_open b3 = [0] \<and> map_option so_refCount (map_get (bi_stores b3) 0) = Some 1"
  by code_simp

text \<open>Destroying a Svelte store twice releases its reference once.\<close>

theorem svelte_destroy_once:
  assumes "svelte_destroy sv b = (sv1, b1)"
  shows "svelte_destroy sv1 b1 = (sv1, b1) \<and> sv_destroyed sv1"
  using assms by (auto simp: svelte_destroy_def split: if_splits)

text \<open>Every error listener hears of a new error once.\<close>

theorem error_heard_once:
  assumes "error_noticed b sv = (heard, sv1)"
  shows "error_noticed b sv1 = ([], sv1) \<and> (heard = [] \<or> map fst heard = sv_errorListeners sv)"
proof (cases "map_get (bi_stores b) (sv_upstream sv)")
  case None
  then show ?thesis using assms by (simp add: error_noticed_def)
next
  case (Some st)
  have "heard = (if so_error st \<noteq> sv_lastError sv then map (\<lambda>f. (f, so_error st)) (sv_errorListeners sv) else [])"
    and sv1: "sv1 = (if so_error st \<noteq> sv_lastError sv then sv \<lparr> sv_lastError := so_error st \<rparr> else sv)"
    using assms Some by (simp_all add: error_noticed_def split: if_splits)
  moreover have "error_noticed b sv1 = ([], sv1)" using Some by (simp add: error_noticed_def sv1)
  ultimately show ?thesis by (simp add: comp_def)
qed

end
