(* ===== verification/SseConnection.thy ===== *)
theory SseConnection
  imports Routes
begin

text \<open>
  The life of one connection of the event stream (\<open>registerSseRoute\<close> and \<open>writeSseHead\<close> of
  \<open>src/server/routes/sse.ts\<close>) over the subscription registry of \<open>Subscriptions\<close>: the head, the keep-alive
  timer, the subscription that is awaited, and the clean-up that the close of either side runs. What the
  stream carries is in \<open>Routes\<close>.
\<close>

section \<open>State\<close>

text \<open>\<open>sc_sub\<close> is the variable \<open>subscriptionId\<close> of the handler.\<close>

record sse_connection =
  sc_conn :: nat
  sc_written :: "string list"
  sc_timer :: bool
  sc_sub :: "string option"
  sc_ended :: bool

type_synonym sse_world = "sse_connection \<times> sub_world"

definition sse_lf :: string where
  "sse_lf = [newline]"

definition write_raw :: "string \<Rightarrow> sse_connection \<Rightarrow> sse_connection" where
  "write_raw s c = (if sc_ended c then c else c \<lparr> sc_written := sc_written c @ [s] \<rparr>)"

section \<open>Operations\<close>

text \<open>The head and the first comment, then the timer.\<close>

definition sse_open :: "nat \<Rightarrow> sse_connection" where
  "sse_open conn = \<lparr> sc_conn = conn, sc_written = ['':open'' @ sse_lf @ sse_lf], sc_timer = True, sc_sub = None, sc_ended = False \<rparr>"

definition sse_keepalive :: "sse_connection \<Rightarrow> sse_connection" where
  "sse_keepalive c = (if sc_timer c then write_raw ('':keepalive'' @ sse_lf @ sse_lf) c else c)"

definition sse_cleanup :: "sse_world \<Rightarrow> sse_world" where
  "sse_cleanup = (\<lambda>(c, w). (c \<lparr> sc_timer := False \<rparr>,
     case sc_sub c of Some i \<Rightarrow> if i = [] then w else snd (unsubscribe i w) | None \<Rightarrow> w))"

text \<open>The await of the subscribe: it gives the id, or its error is sent and the response ended.\<close>

definition sse_subscribed :: "actor_id \<Rightarrow> string \<Rightarrow> nat \<Rightarrow> nat \<Rightarrow> sse_world \<Rightarrow> sse_world" where
  "sse_subscribed a i l k = (\<lambda>(c, w). (c \<lparr> sc_sub := Some i \<rparr>, subscribe_finish (sc_conn c) a i l k w))"

definition sse_refused :: "(jsval \<Rightarrow> string) \<Rightarrow> string \<Rightarrow> sse_world \<Rightarrow> sse_world" where
  "sse_refused json what = (\<lambda>(c, w).
     let c1 = write_raw (''data: '' @ json (JObj [(''message'', JStr what)]) @ sse_lf @ sse_lf) (write_raw (''event: error'' @ sse_lf) c)
     in sse_cleanup (c1 \<lparr> sc_ended := True \<rparr>, w))"

section \<open>Properties\<close>

lemma detach_once: "map_get (su_subs (sw_reg w)) i = None \<Longrightarrow> snd (unsubscribe i w) = w"
  by (simp add: unsubscribe_def)

lemma unsubscribe_gone:
  assumes "sub_inv w"
  shows "map_get (su_subs (sw_reg (snd (unsubscribe i w)))) i = None"
proof (cases "map_get (su_subs (sw_reg w)) i")
  case (Some s)
  then have "sb_id s = i" using assms by (auto simp: sub_inv_def Let_def)
  then show ?thesis using Some by (simp add: unsubscribe_subs)
qed (simp add: detach_once)

text \<open>
  A connection that subscribed and closes, whichever side closes and even when both do, has no timer and no
  subscription left, and its registry is as consistent as before.
\<close>

theorem sse_close_detaches:
  assumes "sub_inv w" and "map_get (su_subs (sw_reg w)) i = None" and "i \<noteq> []"
    and "\<forall>j s. map_get (su_subs (sw_reg w)) j = Some s \<longrightarrow> sb_listener s \<noteq> l"
    and "sse_cleanup (sse_subscribed a i l k (c, w)) = (c1, w1)"
  shows "sub_inv w1 \<and> map_get (su_subs (sw_reg w1)) i = None \<and> \<not> sc_timer c1 \<and> sse_cleanup (c1, w1) = (c1, w1)"
proof -
  have inv: "sub_inv (subscribe_finish (sc_conn c) a i l k w)" using assms(1,2,4) by (rule sub_inv_subscribe)
  have c1: "sc_sub c1 = Some i" "\<not> sc_timer c1" and w1: "w1 = snd (unsubscribe i (subscribe_finish (sc_conn c) a i l k w))"
    using assms(3,5) by (auto simp: sse_cleanup_def sse_subscribed_def)
  have gone: "map_get (su_subs (sw_reg w1)) i = None" unfolding w1 by (rule unsubscribe_gone [OF inv])
  have "sse_cleanup (c1, w1) = (c1, w1)" using c1 gone by (simp add: sse_cleanup_def detach_once)
  moreover have "sub_inv w1" unfolding w1 by (rule sub_inv_unsubscribe [OF inv])
  ultimately show ?thesis using c1 gone by simp
qed

theorem sse_close_detaches_witness:
  "su_subs (sw_reg (snd (sse_cleanup (sse_subscribed ''a'' ''s9'' 20 0 (sse_open 3, start_world demo_hosts None))))) = []"
proof -
  let ?w = "start_world demo_hosts None"
  obtain c1 w1 where r: "sse_cleanup (sse_subscribed ''a'' ''s9'' 20 0 (sse_open 3, ?w)) = (c1, w1)"
    by (cases "sse_cleanup (sse_subscribed ''a'' ''s9'' 20 0 (sse_open 3, ?w))")
  have "sub_inv ?w" unfolding start_world_def by (rule sub_inv_empty) (simp_all add: sub_eval)
  from sse_close_detaches [OF this _ _ _ r] have "map_get (su_subs (sw_reg w1)) ''s9'' = None" by (simp add: start_world_def new_registry_def)
  moreover have "set (map fst (su_subs (sw_reg w1))) \<subseteq> {''s9''}"
    using r by (auto simp: sse_cleanup_def sse_subscribed_def sse_open_def sub_eval)
  ultimately have "su_subs (sw_reg w1) = []" by (cases "su_subs (sw_reg w1)") (auto split: if_splits)
  then show ?thesis using r by simp
qed

text \<open>
  A connection that closes while its subscribe is awaited leaves its subscription behind: the clean-up ran
  without an id, and nothing runs it again.
\<close>

theorem closed_before_subscribed:
  assumes "map_get (sw_hosts w) k = Some h" and "sc_sub c = None"
  shows "case sse_subscribed a i l k (sse_cleanup (c, w)) of (c1, w1) \<Rightarrow>
    \<not> sc_timer c1 \<and> map_get (su_subs (sw_reg w1)) i = Some \<lparr> sb_id = i, sb_conn = sc_conn c, sb_actor = a, sb_host = k, sb_listener = l \<rparr>"
  using assms by (simp add: sse_cleanup_def sse_subscribed_def subscribe_finish_def on_sub_host_def Let_def)

text \<open>A refused subscribe is told to the client once, and the connection holds nothing.\<close>

theorem sse_refusal_told:
  "sc_sub c = None \<Longrightarrow> \<not> sc_ended c \<Longrightarrow> case sse_refused json what (c, w) of (c1, w1) \<Rightarrow>
     w1 = w \<and> sc_ended c1 \<and> \<not> sc_timer c1 \<and> sse_keepalive c1 = c1
     \<and> sc_written c1 = sc_written c @ [''event: error'' @ [newline], ''data: '' @ json (JObj [(''message'', JStr what)]) @ [newline, newline]]"
  by (simp add: sse_refused_def sse_cleanup_def write_raw_def sse_keepalive_def sse_lf_def Let_def)

end
