(* ===== verification/Messages.thy ===== *)
theory Messages
  imports Server Extract
begin

text \<open>
  The texts of the framework's errors: the constructors of the error classes in \<open>src/storage/driver.ts\<close>,
  \<open>src/runtime/\<close>, \<open>src/registry/\<close>, \<open>src/limits/\<close> and \<open>src/server/\<close>. They are the parameter \<open>msg\<close> of the
  other theories, made concrete here, with what the problem details of \<open>src/server/errors.ts\<close> make of them.
\<close>

section \<open>Texts\<close>

definition class_ref_text :: "class_name \<Rightarrow> version \<Rightarrow> string" where
  "class_ref_text n v = n @ ''@'' @ v"

definition storage_error_message :: "error \<Rightarrow> string option" where
  "storage_error_message e = (case e of
      VersionAlreadyPublishedError n v \<Rightarrow> Some (class_ref_text n v @ '' is already published'')
    | StaleFenceTokenError i expected actual \<Rightarrow>
        Some (''stale fence token for actor '' @ i @ '': expected '' @ show_int expected @ '', got '' @ show_int actual)
    | _ \<Rightarrow> None)"

definition mailbox_error_message :: "error \<Rightarrow> string option" where
  "mailbox_error_message e = (case e of
      MailboxClosedError \<Rightarrow> Some ''mailbox is closed'' | MailboxFullError \<Rightarrow> Some ''mailbox is full'' | _ \<Rightarrow> None)"

definition regression_message :: "error \<Rightarrow> string option" where
  "regression_message e = (case e of
      ManifestRegression i c persisted registered \<Rightarrow> Some (''actor '' @ i @ '' ('' @ c @ '') is persisted at '' @ persisted
        @ '' which is newer than the registered '' @ registered @ ''; refusing to run older code against newer state'')
    | _ \<Rightarrow> None)"

text \<open>\<open>grace\<close> is the end of the grace window as the error prints it, in the format of ISO 8601.\<close>

definition loader_error_message :: "(class_name \<Rightarrow> version \<Rightarrow> string) \<Rightarrow> error \<Rightarrow> string option" where
  "loader_error_message grace e = (case e of
      ClassSourceNotFound n v \<Rightarrow> Some (''class source not found: '' @ class_ref_text n v)
    | ClassVersionExpired n v \<Rightarrow> Some (''class '' @ class_ref_text n v @ '' is past its grace window ('' @ grace n v @ ''); refusing to load.'')
    | CompileError ref ds \<Rightarrow> Some (''compile failed for '' @ ref @ '': '' @ join ''; '' ds)
    | _ \<Rightarrow> None)"

definition publish_error_message :: "error \<Rightarrow> string option" where
  "publish_error_message e = (case e of
      PublishError m c \<Rightarrow> Some m
    | InvalidVersion v \<Rightarrow> Some (''not a valid semver version: '' @ v)
    | InvalidDepRange n r \<Rightarrow> Some (''not a valid semver range for '' @ n @ '': '' @ r)
    | IncompatibleEngine required actual \<Rightarrow> Some (''engines.actjs '' @ required @ '' is incompatible with server '' @ actual)
    | SyntaxInvalid ds \<Rightarrow> Some (''source has '' @ show_nat (length ds) @ '' syntax error(s)'')
    | ForbiddenImport s \<Rightarrow> Some (''published class source must be a function body '' @ em_dash @ '' top-level import/export is not allowed: '' @ s)
    | SignatureRequired \<Rightarrow> Some ''requireSignedClasses is true; publish must include a signature''
    | SignatureInvalid r \<Rightarrow> Some (''publish signature invalid: '' @ r)
    | _ \<Rightarrow> None)"

text \<open>The arrow between the classes of a path is U+2192.\<close>

definition arrow_text :: string where
  "arrow_text = '' '' @ [CHR 0xE2, CHR 0x86, CHR 0x92] @ '' ''"

definition resolver_error_message :: "error \<Rightarrow> string option" where
  "resolver_error_message e = (case e of
      DepConflict n ranges \<Rightarrow> Some (''no version of '' @ n @ '' satisfies all constraints: ''
        @ join ''; '' (map (\<lambda>(r, path). r @ '' (via '' @ join arrow_text path @ '')'') ranges))
    | ClassNotFound n \<Rightarrow> Some (''class not found: '' @ n)
    | LimitExceeded what n \<Rightarrow> Some (what @ ''='' @ show_nat n)
    | _ \<Rightarrow> None)"

definition signing_error_message :: "error \<Rightarrow> string option" where
  "signing_error_message e = (case e of
      SigningKeyExists kid \<Rightarrow> Some (''signing key '' @ kid @ '' is already registered'')
    | SigningKeyNotFound kid \<Rightarrow> Some (''signing key '' @ kid @ '' is not registered'')
    | UnsupportedKeyType t \<Rightarrow> Some (''unsupported key type '' @ t @ ''; expected ed25519'')
    | _ \<Rightarrow> None)"

definition limit_error_message :: "error \<Rightarrow> string option" where
  "limit_error_message e = (case e of
      RateLimitedError bucket oper secs \<Rightarrow> Some (''rate limit exceeded for '' @ bucket @ ''; retry after ''
        @ (case secs of Some n \<Rightarrow> show_int n | None \<Rightarrow> ''Infinity'') @ ''s'')
    | _ \<Rightarrow> None)"

definition capacity_error_message :: "error \<Rightarrow> string option" where
  "capacity_error_message e = (case e of
      CapacityExhaustedError c n \<Rightarrow> Some (''class '' @ c @ '' has reached its active-actor cap ('' @ show_int n @ '')'')
    | _ \<Rightarrow> None)"

definition subscriber_error_message :: "error \<Rightarrow> string option" where
  "subscriber_error_message e = (case e of
      SubscriberLimitError i n \<Rightarrow> Some (''per-actor subscriber cap reached ('' @ show_nat n @ '') for '' @ i) | _ \<Rightarrow> None)"

text \<open>The errors that carry their text.\<close>

definition carried_message :: "error \<Rightarrow> string option" where
  "carried_message e = (case e of
      PlainError m \<Rightarrow> Some m | TypeError m \<Rightarrow> Some m | DriverError m \<Rightarrow> Some m | PolicyDeniedError m r \<Rightarrow> Some m
    | CapabilityError m c \<Rightarrow> Some m | StatusError n m s \<Rightarrow> Some m | RpcError m n d \<Rightarrow> Some m | AuditWriteError m \<Rightarrow> Some m
    | HttpLoaderError m \<Rightarrow> Some m | FastifyValidation s m d \<Rightarrow> Some m | ActorAbort r \<Rightarrow> Some (''actor aborted: '' @ r) | _ \<Rightarrow> None)"

text \<open>\<open>other\<close> is the text of what user code throws and of the errors of the schema package.\<close>

definition first_some :: "'a option list \<Rightarrow> 'a \<Rightarrow> 'a" where
  "first_some xs d = (case find (\<lambda>x. x \<noteq> None) xs of Some (Some x) \<Rightarrow> x | _ \<Rightarrow> d)"

definition error_message :: "(class_name \<Rightarrow> version \<Rightarrow> string) \<Rightarrow> (error \<Rightarrow> string) \<Rightarrow> error \<Rightarrow> string" where
  "error_message grace other e = first_some [storage_error_message e, mailbox_error_message e, regression_message e,
     loader_error_message grace e, publish_error_message e, resolver_error_message e, signing_error_message e,
     limit_error_message e, capacity_error_message e, subscriber_error_message e, carried_message e] (other e)"

section \<open>Properties\<close>

lemmas message_defs = storage_error_message_def mailbox_error_message_def regression_message_def loader_error_message_def
  publish_error_message_def resolver_error_message_def signing_error_message_def limit_error_message_def
  capacity_error_message_def subscriber_error_message_def carried_message_def first_some_def

text \<open>
  Every error has a problem of the right form: its type is the address of its code, its status is a client or
  a server error, and its detail is the error's own text, except that a schema error has a fixed one. The one
  way out of the range is a \<open>StatusError\<close> constructed with another status.
\<close>

theorem problems_wellformed:
  "let p = problemDetailFor (error_message grace other) e in pb_type p = error_url (pb_code p)
    \<and> ((\<forall>n m s. e \<noteq> StatusError n m s) \<and> (\<forall>s m d. e \<noteq> FastifyValidation s m d) \<longrightarrow> pb_status p \<in> {400, 403, 409, 410, 429, 500, 503})
    \<and> pb_detail p = (case e of ZodError d \<Rightarrow> ''one or more request fields failed validation'' | _ \<Rightarrow> error_message grace other e)"
  by (cases e) (simp_all add: Let_def problemDetailFor_def wrap_def error_message_def message_defs)

text \<open>
  An error the handler does not know is answered with its own text, where the comment of the code says that
  the message is sanitized: the client reads what the driver failed with.
\<close>

theorem unknown_error_text_leaks:
  "pb_status (problemDetailFor (error_message grace other) (DriverError m)) = 500
   \<and> pb_detail (problemDetailFor (error_message grace other) (DriverError m)) = m"
  by (simp add: problemDetailFor_def error_message_def message_defs)

text \<open>A conflict of a published version names the version: its text determines it, for names without an at sign.\<close>

theorem published_conflict_names_version:
  assumes "CHR ''@'' \<notin> set n" and "CHR ''@'' \<notin> set n'"
    and "error_message grace other (VersionAlreadyPublishedError n v) = error_message grace other (VersionAlreadyPublishedError n' v')"
  shows "n = n' \<and> v = v'"
proof -
  have "n @ CHR ''@'' # (v @ '' is already published'') = n' @ CHR ''@'' # (v' @ '' is already published'')"
    using assms(3) by (simp add: error_message_def message_defs class_ref_text_def)
  from sep_prefix_inject [OF this assms(1,2)] show ?thesis by simp
qed

theorem published_conflict_names_version_witness:
  "error_message grace other (VersionAlreadyPublishedError ''Cart'' ''1.0.0'') \<noteq> error_message grace other (VersionAlreadyPublishedError ''Cart'' ''1.0.1'')"
  using published_conflict_names_version [of "''Cart''" "''Cart''" grace other "''1.0.0''" "''1.0.1''"] by auto

end
