(* ===== verification/TestKit.thy ===== *)
theory TestKit
  imports Harness "HOL-Library.While_Combinator"
begin

text \<open>
  Waiting for the actors (\<open>drain\<close> of \<open>src/runtime/host.ts\<close> and of \<open>src/runtime/runtime.ts\<close>) and the handles of
  the test harness: the runtime it builds out of a map of classes (\<open>src/test/runtime.ts\<close>) and the
  actors that call and tell through it (\<open>src/test/actor-ref.ts\<close>).
\<close>

section \<open>Draining\<close>

text \<open>
  \<open>drain\<close> polls the size of the mailbox, one tick after the other. A tick is one turn of the worker here, whose
  handlers end in their turn; the tick after the loop is for the item in hand. The loop is a while loop
  that need not end.
\<close>

definition pending :: "hw \<Rightarrow> bool" where
  "pending = (\<lambda>(h, w). 0 < mailbox_size (h_mailbox h))"

definition host_drain :: "env \<Rightarrow> hw \<Rightarrow> hw option" where
  "host_drain en hw = (
     if \<not> h_activated (fst hw) then Some hw
     else (case while_option pending (worker_turn en) hw of None \<Rightarrow> None | Some hw1 \<Rightarrow> Some (worker_turn en hw1)))"

text \<open>\<open>lookupLive\<close> takes the class of a live actor from its snapshot, and finds none when there is no snapshot.\<close>

definition lookupLive :: "env \<Rightarrow> actor_id \<Rightarrow> rw \<Rightarrow> (error + actor_id option) \<times> rw" where
  "lookupLive en i = (\<lambda>(rt, w).
     if i \<notin> set (liveIds (rt_dir rt)) then (Inr None, rt, w)
     else (case loadSnapshot i (w_driver w) of
        None \<Rightarrow> (Inr None, rt, w)
      | Some snap \<Rightarrow> (case resolve en i (sr_class snap) (rt_dir rt, w) of
           (Inl e, d, w1) \<Rightarrow> (Inl e, rt \<lparr> rt_dir := d \<rparr>, w1)
         | (Inr _, d, w1) \<Rightarrow> (Inr (Some i), rt \<lparr> rt_dir := d \<rparr>, w1))))"

fun lookup_all :: "env \<Rightarrow> actor_id list \<Rightarrow> rw \<Rightarrow> (error + actor_id list) \<times> rw" where
  "lookup_all en [] s = (Inr [], s)"
| "lookup_all en (i # is) s = (case lookupLive en i s of
      (Inl e, s1) \<Rightarrow> (Inl e, s1)
    | (Inr x, s1) \<Rightarrow> (case lookup_all en is s1 of
        (Inl e, s2) \<Rightarrow> (Inl e, s2)
      | (Inr hs, s2) \<Rightarrow> (Inr ((case x of Some j \<Rightarrow> [j] | None \<Rightarrow> []) @ hs), s2)))"

fun drain_each :: "env \<Rightarrow> actor_id list \<Rightarrow> rw \<Rightarrow> rw option" where
  "drain_each en [] s = Some s"
| "drain_each en (i # is) s = (case map_get (dr_hosts (rt_dir (fst s))) i of
      None \<Rightarrow> drain_each en is s
    | Some h \<Rightarrow> (case host_drain en (h, snd s) of
        None \<Rightarrow> None
      | Some (h1, w1) \<Rightarrow> drain_each en is (fst s \<lparr> rt_dir := (rt_dir (fst s)) \<lparr> dr_hosts := map_set i h1 (dr_hosts (rt_dir (fst s))) \<rparr> \<rparr>, w1)))"

definition runtime_drain :: "env \<Rightarrow> rw \<Rightarrow> ((error + unit) \<times> rw) option" where
  "runtime_drain en s = (case lookup_all en (liveIds (rt_dir (fst s))) s of
      (Inl e, s1) \<Rightarrow> Some (Inl e, s1)
    | (Inr hs, s1) \<Rightarrow> map_option (\<lambda>s2. (Inr (), s2)) (drain_each en hs s1))"

section \<open>The runtime of a test\<close>

text \<open>A constructor has a name of its own, beside the key it is registered under.\<close>

record test_ctor =
  tc_name :: string
  tc_class :: actor_class
  tc_policy :: "policy_fn option"

record class_registration =
  cr_name :: "string option"
  cr_version :: "string option"
  cr_ctor :: test_ctor
  cr_mailboxCapacity :: "nat option"
  cr_snapshotEveryN :: "int option"
  cr_floating :: "bool option"

datatype class_entry = CtorEntry test_ctor | RegistrationEntry class_registration

record test_runtime =
  tr_principal :: principal
  tr_rw :: rw

definition registration_of_entry :: "class_entry \<Rightarrow> class_registration" where
  "registration_of_entry e = (case e of
      RegistrationEntry r \<Rightarrow> r
    | CtorEntry c \<Rightarrow> \<lparr> cr_name = None, cr_version = None, cr_ctor = c, cr_mailboxCapacity = None,
                      cr_snapshotEveryN = None, cr_floating = None \<rparr>)"

definition register_entry :: "string \<times> class_entry \<Rightarrow> runtime \<Rightarrow> runtime" where
  "register_entry kv rt = (let r = registration_of_entry (snd kv) in
     register \<lparr> rg_name = (case cr_name r of Some n \<Rightarrow> n | None \<Rightarrow> fst kv),
                rg_version = (case cr_version r of Some v \<Rightarrow> v | None \<Rightarrow> ''1.0.0''),
                rg_ctor = tc_class (cr_ctor r), rg_mailboxCapacity = cr_mailboxCapacity r,
                rg_snapshotEveryN = cr_snapshotEveryN r, rg_floating = cr_floating r \<rparr>
       (tc_policy (cr_ctor r)) rt)"

definition test_user :: principal where
  "test_user = \<lparr> p_sub = ''test-user'', p_roles = Some [], p_tenant = None, p_capabilities = None, p_claims = None \<rparr>"

definition default_now :: ms where
  "default_now = 1700000000000"

text \<open>\<open>rt0\<close>: the runtime of the options, whose dispatcher ticks once in 60 million ms and is never heard of.\<close>

definition new_test_runtime :: "(string \<times> class_entry) list \<Rightarrow> ms option \<Rightarrow> principal option \<Rightarrow> runtime \<Rightarrow> world \<Rightarrow> test_runtime" where
  "new_test_runtime classes now p rt0 w =
     \<lparr> tr_principal = (case p of Some q \<Rightarrow> q | None \<Rightarrow> test_user),
       tr_rw = (fold register_entry classes rt0,
                w \<lparr> w_driver := empty_driver \<lparr> d_now := (case now of Some t \<Rightarrow> t | None \<Rightarrow> default_now) \<rparr> \<rparr>) \<rparr>"

section \<open>Actors of a test\<close>

record test_actor =
  ta_class :: class_name
  ta_id :: actor_id
  ta_principal :: "principal option"

datatype class_or_ctor = ByName string | ByCtor test_ctor

text \<open>\<open>i\<close> is the id drawn for the actor; the argument \<open>init\<close> is dropped.\<close>

definition test_runtime_actor :: "class_or_ctor \<Rightarrow> actor_id \<Rightarrow> test_runtime \<Rightarrow> test_actor" where
  "test_runtime_actor x i t = \<lparr> ta_class = (case x of ByName n \<Rightarrow> n | ByCtor c \<Rightarrow> tc_name c), ta_id = i, ta_principal = Some (tr_principal t) \<rparr>"

definition actorRef :: "class_name \<Rightarrow> actor_id \<Rightarrow> test_runtime \<Rightarrow> test_actor" where
  "actorRef cn i t = \<lparr> ta_class = cn, ta_id = i, ta_principal = Some (tr_principal t) \<rparr>"

text \<open>An argument that is not given is an empty object.\<close>

definition args_or_empty :: "jsval option \<Rightarrow> jsval" where
  "args_or_empty a = (case a of None \<Rightarrow> JObj [] | Some v \<Rightarrow> if v = JUndefined then JObj [] else v)"

definition callAs :: "env \<Rightarrow> (error \<Rightarrow> string) \<Rightarrow> principal option \<Rightarrow> string \<Rightarrow> jsval option \<Rightarrow> nat \<Rightarrow> test_actor \<Rightarrow> rw \<Rightarrow> (error + unit) \<times> rw" where
  "callAs en msg p m a c ta = runtime_call en msg (ta_class ta) (ta_id ta) m (args_or_empty a) p c"

definition tellAs :: "env \<Rightarrow> (error \<Rightarrow> string) \<Rightarrow> principal option \<Rightarrow> string \<Rightarrow> jsval option \<Rightarrow> test_actor \<Rightarrow> rw \<Rightarrow> (error + unit) \<times> rw" where
  "tellAs en msg p m a ta = runtime_tell en msg (ta_class ta) (ta_id ta) m (args_or_empty a) p"

definition actor_call :: "env \<Rightarrow> (error \<Rightarrow> string) \<Rightarrow> string \<Rightarrow> jsval option \<Rightarrow> nat \<Rightarrow> test_actor \<Rightarrow> rw \<Rightarrow> (error + unit) \<times> rw" where
  "actor_call en msg m a c ta = callAs en msg (ta_principal ta) m a c ta"

definition actor_tell :: "env \<Rightarrow> (error \<Rightarrow> string) \<Rightarrow> string \<Rightarrow> jsval option \<Rightarrow> test_actor \<Rightarrow> rw \<Rightarrow> (error + unit) \<times> rw" where
  "actor_tell en msg m a ta = tellAs en msg (ta_principal ta) m a ta"

section \<open>A drain returns\<close>

lemma worker_turn_keeps: "queue_inv h \<Longrightarrow> distinct (calls (h, w)) \<Longrightarrow>
    queue_inv (fst (worker_turn en (h, w))) \<and> calls (worker_turn en (h, w)) = calls (h, w)"
  using worker_turn_step [of h w en] by (simp add: step_ok_def)

lemma pending_queued: "pending (h, w) \<Longrightarrow> queued h \<noteq> []"
  by (simp add: pending_def queued_def mailbox_size_def)

lemma not_pending_queued: "\<not> pending (h, w) \<Longrightarrow> length (queued h) \<le> 1"
  by (simp add: pending_def queued_def mailbox_size_def split: option.split)

text \<open>
  The wait for an actor ends, whatever its handlers do: nothing is queued any more, and the calls settled
  are those that were settled before and those that were queued, in their order.
\<close>

theorem host_drain_returns:
  assumes inv: "queue_inv h" and dist: "distinct (calls (h, w))"
  shows "\<exists>h' w'. host_drain en (h, w) = Some (h', w') \<and> queued h' = [] \<and> settled_ids w' = settled_ids w @ call_ids (queued h)"
proof (cases "h_activated h")
  case False
  then show ?thesis using inv by (simp add: host_drain_def queue_inv_def)
next
  case True
  let ?P = "\<lambda>hw. queue_inv (fst hw) \<and> calls hw = calls (h, w)"
  have keep: "?P (worker_turn en hw)" if "?P hw" for hw using worker_turn_keeps [of "fst hw" "snd hw" en] that dist by simp
  have next_queue: "queued (fst (worker_turn en hw)) = tl (queued (fst hw))" if "?P hw" for hw
    using worker_turn_queued [of "fst hw" en "snd hw"] that by simp
  have shrinks: "length (queued (fst (worker_turn en hw))) < length (queued (fst hw))" if "?P hw" "pending hw" for hw
    using next_queue [OF that(1)] pending_queued [of "fst hw" "snd hw"] that(2) by (cases "queued (fst hw)") auto
  obtain hw1 where run: "while_option pending (worker_turn en) (h, w) = Some hw1"
    using measure_while_option_Some [of ?P pending "worker_turn en" "\<lambda>hw. length (queued (fst hw))" "(h, w)"] keep shrinks inv by auto
  have P1: "?P hw1" using while_option_rule [of ?P, OF _ run] keep inv by simp
  have "\<not> pending hw1" by (rule while_option_stop [OF run])
  then have "queued (fst (worker_turn en hw1)) = []"
    using next_queue [OF P1] not_pending_queued [of "fst hw1" "snd hw1"] by (cases "queued (fst hw1)") auto
  moreover have "?P (worker_turn en hw1)" by (rule keep [OF P1])
  ultimately show ?thesis using True run by (cases "worker_turn en hw1") (simp add: host_drain_def calls_def)
qed

definition two_calls :: hw where
  "two_calls = host_run demo_env [OpCall ''hit'' JNull 1, OpCall ''hit'' JNull 2] (new_host (demo_reg visits_class) ''a'' False, demo_world)"

theorem host_drain_returns_witness:
  "call_ids (queued (fst two_calls)) = [1, 2]
   \<and> (\<exists>h' w'. host_drain demo_env two_calls = Some (h', w') \<and> queued h' = [] \<and> settled_ids w' = [1, 2])"
proof -
  have start: "w_settled demo_world = []" "distinct (op_calls [OpCall ''hit'' JNull 1, OpCall ''hit'' JNull 2])"
    by (simp_all add: demo_world_def op_calls_def)
  have fresh: "queue_inv (fst two_calls)" "distinct (calls two_calls)"
    unfolding two_calls_def using host_run_fresh [OF start] by simp_all
  have "call_ids (queued (fst two_calls)) = [1, 2]" "settled_ids (snd two_calls) = []" by code_simp+
  then show ?thesis using host_drain_returns [of "fst two_calls" "snd two_calls" demo_env] fresh by simp
qed

section \<open>A drain of the runtime\<close>

text \<open>
  A live actor is found through its snapshot: as long as none of the live actors has one, which is so until
  the first debounce has passed, the drain of the runtime waits for nobody.
\<close>

theorem drain_without_snapshots_waits_for_nobody:
  assumes "\<forall>i\<in>set (liveIds (rt_dir (fst s))). loadSnapshot i (w_driver (snd s)) = None"
  shows "runtime_drain en s = Some (Inr (), s)"
proof -
  have "lookup_all en is s = (Inr [], s)" if "set is \<subseteq> set (liveIds (rt_dir (fst s)))" for "is"
    using that assms by (induction "is") (auto simp: lookupLive_def split: prod.split)
  then show ?thesis by (simp add: runtime_drain_def)
qed

definition one_tell :: rw where
  "one_tell = snd (runtime_tell demo_env (\<lambda>e. []) ''Ledger'' ''a'' ''hit'' JNull None (demo_runtime, demo_world))"

theorem drain_without_snapshots_waits_for_nobody_witness:
  "runtime_drain demo_env one_tell = Some (Inr (), one_tell)
   \<and> map_option (\<lambda>h. length (queued h)) (getLive ''a'' (rt_dir (fst one_tell))) = Some 1"
proof -
  have "liveIds (rt_dir (fst one_tell)) = [''a'']" "loadSnapshot ''a'' (w_driver (snd one_tell)) = None"
    "map_option (\<lambda>h. length (queued h)) (getLive ''a'' (rt_dir (fst one_tell))) = Some 1" by code_simp+
  then show ?thesis using drain_without_snapshots_waits_for_nobody [of one_tell demo_env] by simp
qed

section \<open>The classes of a test\<close>

definition entry_name :: "string \<times> class_entry \<Rightarrow> string" where
  "entry_name kv = (case cr_name (registration_of_entry (snd kv)) of Some n \<Rightarrow> n | None \<Rightarrow> fst kv)"

lemma register_entry_get:
  "map_get (dr_classes (rt_dir (register_entry kv rt))) n =
     (if n = entry_name kv then map_get (dr_classes (rt_dir (register_entry kv rt))) (entry_name kv)
      else map_get (dr_classes (rt_dir rt)) n)"
  by (simp add: register_entry_def register_def entry_name_def Let_def)

lemma register_all_get:
  "n \<notin> entry_name ` set classes \<Longrightarrow> map_get (dr_classes (rt_dir (fold register_entry classes rt))) n = map_get (dr_classes (rt_dir rt)) n"
  by (induction classes arbitrary: rt) (simp_all add: register_entry_get)

text \<open>
  A constructor is reached by its own name and not by the key it was given: registered under another key, the
  actor made from it belongs to an unknown class, and every call of it is rejected.
\<close>

theorem aliased_ctor_is_unknown:
  assumes "tc_name c \<notin> entry_name ` set classes" and "map_get (dr_classes (rt_dir rt0)) (tc_name c) = None"
    and "dr_hosts (rt_dir rt0) = []" and "dr_materializing (rt_dir rt0) = []" and "\<not> dr_destroyed (rt_dir rt0)" and "rt_limiter rt0 = None"
  shows "fst (actor_call en msg m a k (test_runtime_actor (ByCtor c) i t) (tr_rw (new_test_runtime classes now p rt0 w)))
     = Inl (PlainError (''unknown class: '' @ tc_name c))"
proof -
  let ?rt = "fold register_entry classes rt0"
  have frame: "dr_hosts (rt_dir ?rt) = dr_hosts (rt_dir rt0) \<and> dr_materializing (rt_dir ?rt) = dr_materializing (rt_dir rt0)
      \<and> dr_destroyed (rt_dir ?rt) = dr_destroyed (rt_dir rt0) \<and> rt_limiter ?rt = rt_limiter rt0"
    by (induction classes arbitrary: rt0) (simp_all add: register_entry_def register_def Let_def)
  have "map_get (dr_classes (rt_dir ?rt)) (tc_name c) = None" using register_all_get assms(1,2) by simp
  then have "resolve_begin i (tc_name c) (rt_dir ?rt) = (Inl (PlainError (''unknown class: '' @ tc_name c)), rt_dir ?rt)"
    using frame assms by (simp add: resolve_begin_def)
  then show ?thesis using frame assms(6)
    by (simp add: actor_call_def callAs_def runtime_call_def new_test_runtime_def test_runtime_actor_def enforceRateLimit_def resolve_def Let_def)
qed

theorem aliased_ctor_is_unknown_witness:
  "let c = \<lparr> tc_name = ''Ledger'', tc_class = visits_class, tc_policy = None \<rparr>; t = new_test_runtime [(''Alias'', CtorEntry c)] None None (new_runtime None None None demo_auditor) demo_world
   in fst (actor_call demo_env (\<lambda>e. []) ''hit'' None 1 (test_runtime_actor (ByCtor c) ''a'' t) (tr_rw t)) = Inl (PlainError ''unknown class: Ledger'')"
  unfolding Let_def by (subst aliased_ctor_is_unknown) (simp_all add: entry_name_def registration_of_entry_def new_runtime_def new_directory_def)

end
