(* ===== verification/Concurrent.thy ===== *)
theory Concurrent
  imports Server
begin

text \<open>
  Requests that overlap, seen by the idempotency hooks (\<open>src/server/hooks/idempotency.ts\<close>): the \<open>preHandler\<close> of one
  runs between the \<open>preHandler\<close> and the \<open>onSend\<close> of another. A step relation over the requests in flight, its
  invariant by rule induction, and the overlap the hooks do not exclude.
\<close>

section \<open>Requests in flight\<close>

text \<open>A request runs its handler under the key its \<open>preHandler\<close> remembered, was answered by it, or got a stored reply.\<close>

datatype phase =
    Running http_request "string option"
  | Answered "string option" http_response
  | Replayed string http_response

record 's flights =
  fl_requests :: "(nat, phase) jsmap"
  fl_runs :: "nat list"
  fl_state :: 's
  fl_driver :: driver

definition no_flights :: "'s \<Rightarrow> driver \<Rightarrow> 's flights" where
  "no_flights s d = \<lparr> fl_requests = [], fl_runs = [], fl_state = s, fl_driver = d \<rparr>"

definition arrive :: "nat \<Rightarrow> http_request \<Rightarrow> 's flights \<Rightarrow> 's flights" where
  "arrive i req c = (let (r, d) = idem_preHandler req (fl_driver c) in
     c \<lparr> fl_requests := map_set i (case (r, idempotency_key req) of
           (Inl stored, Some k) \<Rightarrow> Replayed k stored
         | (Inl stored, None) \<Rightarrow> Answered None stored
         | (Inr key, _) \<Rightarrow> Running req key) (fl_requests c),
         fl_driver := d \<rparr>)"

text \<open>The handler and the \<open>onSend\<close> of a request: its effects come at its end.\<close>

definition finish ::
  "ms \<Rightarrow> (http_request \<Rightarrow> 's \<times> driver \<Rightarrow> http_response \<times> 's \<times> driver) \<Rightarrow> nat \<Rightarrow> 's flights \<Rightarrow> 's flights" where
  "finish ttlMs handler i c = (case map_get (fl_requests c) i of
      Some (Running req key) \<Rightarrow>
        (let (r, s1, d1) = handler req (fl_state c, fl_driver c); (r', d2) = idem_onSend ttlMs key r d1
         in \<lparr> fl_requests = map_set i (Answered key r') (fl_requests c), fl_runs = fl_runs c @ [i], fl_state = s1, fl_driver = d2 \<rparr>)
    | _ \<Rightarrow> c)"

inductive flight_step ::
  "ms \<Rightarrow> (http_request \<Rightarrow> 's \<times> driver \<Rightarrow> http_response \<times> 's \<times> driver) \<Rightarrow> 's flights \<Rightarrow> 's flights \<Rightarrow> bool"
  for ttlMs handler where
  arrives: "map_get (fl_requests c) i = None \<Longrightarrow> flight_step ttlMs handler c (arrive i req c)"
| finishes: "map_get (fl_requests c) i = Some (Running req key) \<Longrightarrow> flight_step ttlMs handler c (finish ttlMs handler i c)"
| passes: "0 \<le> t \<Longrightarrow> flight_step ttlMs handler c (c \<lparr> fl_driver := (fl_driver c) \<lparr> d_now := d_now (fl_driver c) + t \<rparr> \<rparr>)"

definition reached ::
  "ms \<Rightarrow> (http_request \<Rightarrow> 's \<times> driver \<Rightarrow> http_response \<times> 's \<times> driver) \<Rightarrow> 's \<Rightarrow> driver \<Rightarrow> 's flights \<Rightarrow> bool" where
  "reached ttlMs handler s d c \<longleftrightarrow> (flight_step ttlMs handler)\<^sup>*\<^sup>* (no_flights s d) c"

lemma reached_start: "reached ttlMs handler s d (no_flights s d)"
  by (simp add: reached_def)

lemma reached_step: "reached ttlMs handler s d c \<Longrightarrow> flight_step ttlMs handler c c' \<Longrightarrow> reached ttlMs handler s d c'"
  unfolding reached_def by (rule rtranclp.rtrancl_into_rtrancl)

section \<open>The invariant\<close>

text \<open>A successful reply of a request whose handler ran, as the \<open>onSend\<close> of it leaves it.\<close>

definition answered_with :: "string \<Rightarrow> http_response \<Rightarrow> 's flights \<Rightarrow> bool" where
  "answered_with k r c \<longleftrightarrow> (\<exists>i. map_get (fl_requests c) i = Some (Answered (Some k) r) \<and> i \<in> set (fl_runs c)
     \<and> 200 \<le> hr_status r \<and> hr_status r < 300)"

text \<open>What is stored under a key, and what was replayed under it, is the reply of a request with the key that ran.\<close>

definition flights_inv :: "'s flights \<Rightarrow> bool" where
  "flights_inv c \<longleftrightarrow> map_wf (fl_requests c) \<and> distinct (fl_runs c)
     \<and> (\<forall>i. i \<in> set (fl_runs c) \<longleftrightarrow> (\<exists>k r. map_get (fl_requests c) i = Some (Answered k r)))
     \<and> (\<forall>k row. map_get (d_idempotency (fl_driver c)) k = Some row \<longrightarrow> (\<exists>r. answered_with k r c \<and> id_response row = stored_response r))
     \<and> (\<forall>i k r. map_get (fl_requests c) i = Some (Replayed k r) \<longrightarrow> (\<exists>q. answered_with k q c \<and> r = replayed_response k (stored_response q)))"

lemma answered_with_mono:
  assumes "answered_with k r c" and "set (fl_runs c) \<subseteq> set (fl_runs c')"
    and "\<And>i. i \<in> set (fl_runs c) \<Longrightarrow> map_get (fl_requests c') i = map_get (fl_requests c) i"
  shows "answered_with k r c'"
  using assms unfolding answered_with_def by (metis subsetD)

lemma flights_inv_start: "d_idempotency d = [] \<Longrightarrow> flights_inv (no_flights s d)"
  by (simp add: flights_inv_def no_flights_def)

lemma preHandler_cases:
  assumes "idem_preHandler req d = (x, d')"
  shows "\<forall>k row. map_get (d_idempotency d') k = Some row \<longrightarrow> map_get (d_idempotency d) k = Some row"
    and "case x of Inl r \<Rightarrow> \<exists>k row. idempotency_key req = Some k \<and> map_get (d_idempotency d) k = Some row \<and> r = replayed_response k (id_response row)
      | Inr key \<Rightarrow> key = idempotency_key req"
  using assms by (auto simp: idem_preHandler_def loadIdempotency_def split: option.splits if_splits)

lemma flights_inv_arrive:
  assumes inv: "flights_inv c" and fresh: "map_get (fl_requests c) i = None"
  shows "flights_inv (arrive i req c)"
proof -
  obtain x d' where p: "idem_preHandler req (fl_driver c) = (x, d')" by (cases "idem_preHandler req (fl_driver c)")
  note pre = preHandler_cases [OF p]
  let ?c = "arrive i req c"
  have idle: "i \<notin> set (fl_runs c)" using inv fresh by (auto simp: flights_inv_def)
  have keep: "answered_with k r ?c" if "answered_with k r c" for k r
    using that by (rule answered_with_mono) (use idle p in \<open>auto simp: arrive_def\<close>)
  obtain ph where c: "?c = c \<lparr> fl_requests := map_set i ph (fl_requests c), fl_driver := d' \<rparr>"
    and ph: "(\<exists>k. ph = Running req k) \<or> (\<exists>k row. ph = Replayed k (replayed_response k (id_response row)) \<and> map_get (d_idempotency (fl_driver c)) k = Some row)"
    using pre(2) p by (cases x) (auto simp: arrive_def)
  have stored: "\<exists>r. answered_with k r c \<and> id_response row = stored_response r" if "map_get (d_idempotency (fl_driver c)) k = Some row" for k row
    using inv that by (auto simp: flights_inv_def)
  have "\<exists>q. answered_with k q ?c \<and> r = replayed_response k (stored_response q)" if rp: "map_get (fl_requests ?c) j = Some (Replayed k r)" for j k r
  proof (cases "j = i")
    case True
    then obtain row where "r = replayed_response k (id_response row)" "map_get (d_idempotency (fl_driver c)) k = Some row"
      using rp ph by (auto simp: c)
    then show ?thesis using stored keep by metis
  next
    case False
    then have "map_get (fl_requests c) j = Some (Replayed k r)" using rp by (simp add: c)
    then show ?thesis using inv keep unfolding flights_inv_def by metis
  qed
  moreover have "\<exists>r. answered_with k r ?c \<and> id_response row = stored_response r" if "map_get (d_idempotency (fl_driver ?c)) k = Some row" for k row
    using that pre(1) stored keep by (metis c flights.select_convs(4) flights.surjective flights.update_convs(1) flights.update_convs(4))
  moreover have "j \<in> set (fl_runs ?c) \<longleftrightarrow> (\<exists>k r. map_get (fl_requests ?c) j = Some (Answered k r))" for j
    using inv ph idle fresh by (cases "j = i") (auto simp: c flights_inv_def)
  moreover have "map_wf (fl_requests ?c)" "distinct (fl_runs ?c)" using inv by (simp_all add: c flights_inv_def)
  ultimately show ?thesis unfolding flights_inv_def by blast
qed

lemma flights_inv_finish:
  assumes inv: "flights_inv c" and run: "map_get (fl_requests c) i = Some (Running req key)"
    and frame: "\<And>s d. d_idempotency (snd (snd (handler req (s, d)))) = d_idempotency d"
  shows "flights_inv (finish ttlMs handler i c)"
proof -
  obtain r s1 d1 where h: "handler req (fl_state c, fl_driver c) = (r, s1, d1)" by (cases "handler req (fl_state c, fl_driver c)")
  obtain r' d2 where o: "idem_onSend ttlMs key r d1 = (r', d2)" by (cases "idem_onSend ttlMs key r d1")
  let ?c = "finish ttlMs handler i c"
  have c: "?c = \<lparr> fl_requests = map_set i (Answered key r') (fl_requests c), fl_runs = fl_runs c @ [i], fl_state = s1, fl_driver = d2 \<rparr>"
    using run h o by (simp add: finish_def)
  have idle: "i \<notin> set (fl_runs c)" using inv run by (auto simp: flights_inv_def)
  have keep: "answered_with k q ?c" if "answered_with k q c" for k q
    using that by (rule answered_with_mono) (use idle in \<open>auto simp: c\<close>)
  have row: "map_get (d_idempotency d2) k = (case key of Some k' \<Rightarrow> if k = k' \<and> 200 \<le> hr_status r \<and> hr_status r < 300
        then Some \<lparr> id_response = stored_response r, id_storedAt = d_now d1, id_expiresAt = d_now d1 + ttlMs \<rparr>
        else map_get (d_idempotency (fl_driver c)) k | None \<Rightarrow> map_get (d_idempotency (fl_driver c)) k)" for k
    using o frame [of "fl_state c" "fl_driver c"] h
    by (auto simp: idem_onSend_def saveIdempotency_def split: option.splits if_splits)
  have same: "stored_response r' = stored_response r" "hr_status r' = hr_status r"
    using o by (auto simp: idem_onSend_def stored_response_def split: option.splits if_splits)
  have "\<exists>q. answered_with k q ?c \<and> id_response rw = stored_response q" if "map_get (d_idempotency (fl_driver ?c)) k = Some rw" for k rw
  proof (cases "key = Some k \<and> 200 \<le> hr_status r \<and> hr_status r < 300")
    case True
    then have "id_response rw = stored_response r'" using that row [of k] same by (auto simp: c)
    moreover have "answered_with k r' ?c" unfolding answered_with_def using True same by (intro exI [of _ i]) (simp add: c)
    ultimately show ?thesis by blast
  next
    case False
    then have "map_get (d_idempotency (fl_driver c)) k = Some rw" using that row [of k] by (auto simp: c split: option.splits if_splits)
    then show ?thesis using inv keep unfolding flights_inv_def by metis
  qed
  moreover have "\<exists>q. answered_with k q ?c \<and> x = replayed_response k (stored_response q)" if "map_get (fl_requests ?c) j = Some (Replayed k x)" for j k x
  proof -
    have "map_get (fl_requests c) j = Some (Replayed k x)" using that by (simp add: c split: if_splits)
    then show ?thesis using inv keep unfolding flights_inv_def by metis
  qed
  moreover have "j \<in> set (fl_runs ?c) \<longleftrightarrow> (\<exists>k q. map_get (fl_requests ?c) j = Some (Answered k q))" for j
    using inv by (cases "j = i") (auto simp: c flights_inv_def)
  moreover have "map_wf (fl_requests ?c)" "distinct (fl_runs ?c)" using inv idle by (simp_all add: c flights_inv_def)
  ultimately show ?thesis unfolding flights_inv_def by blast
qed

lemma flights_inv_reached:
  assumes "reached ttlMs handler s d c" and "d_idempotency d = []"
    and frame: "\<And>req s d. d_idempotency (snd (snd (handler req (s, d)))) = d_idempotency d"
  shows "flights_inv c"
  using assms(1) unfolding reached_def
proof (induction rule: rtranclp_induct)
  case base
  show ?case by (rule flights_inv_start [OF assms(2)])
next
  case (step c c')
  from step.hyps(2) step.IH show ?case
  proof (induction rule: flight_step.induct)
    case (arrives c i req)
    then show ?case by (blast intro: flights_inv_arrive)
  next
    case (finishes c i req key)
    then show ?case by (blast intro: flights_inv_finish frame)
  next
    case (passes t c)
    have "answered_with k r (c \<lparr> fl_driver := x \<rparr>) = answered_with k r c" for k r x by (simp add: answered_with_def)
    with passes show ?case by (simp add: flights_inv_def)
  qed
qed

section \<open>Properties\<close>

text \<open>
  C28. However requests overlap, a replayed reply is a successful reply of a request with the same key, whose
  handler ran, with its status and its body; no handler runs twice for one request, and never for a replayed one.
\<close>

theorem overlapping_replays_faithful:
  assumes "reached ttlMs handler s d c" and "d_idempotency d = []"
    and "\<And>req s d. d_idempotency (snd (snd (handler req (s, d)))) = d_idempotency d"
    and "map_get (fl_requests c) i = Some (Replayed k r)"
  shows "i \<notin> set (fl_runs c) \<and> distinct (fl_runs c)
    \<and> (\<exists>j q. j \<in> set (fl_runs c) \<and> map_get (fl_requests c) j = Some (Answered (Some k) q)
         \<and> 200 \<le> hr_status q \<and> hr_status q < 300 \<and> hr_status r = hr_status q \<and> hr_body r = hr_body q)"
proof -
  have inv: "flights_inv c" by (rule flights_inv_reached [OF assms(1-3)])
  then obtain q where q: "answered_with k q c" "r = replayed_response k (stored_response q)"
    using assms(4) unfolding flights_inv_def by metis
  moreover have "i \<notin> set (fl_runs c)" using inv assms(4) by (auto simp: flights_inv_def)
  moreover have "distinct (fl_runs c)" using inv by (simp add: flights_inv_def)
  ultimately show ?thesis unfolding answered_with_def by (auto simp: replayed_stored)
qed

definition demo_flight :: "(nat flights \<Rightarrow> nat flights) list \<Rightarrow> nat flights" where
  "demo_flight steps = fold (\<lambda>f c. f c) steps (no_flights 5 empty_driver)"

lemmas flight_eval = demo_flight_def no_flights_def arrive_def finish_def idem_preHandler_def idem_onSend_def
  idempotency_key_def demo_post_def MUTATING_METHODS_def header_of_def nonempty_string_def loadIdempotency_def
  saveIdempotency_def empty_driver_def demo_handler_def

theorem overlapping_replays_faithful_witness:
  "let c = arrive 2 demo_post (finish 1000 (\<lambda>_. demo_handler) 1 (arrive 1 demo_post (no_flights 5 empty_driver)))
   in \<exists>r. map_get (fl_requests c) 2 = Some (Replayed ''k1'' r) \<and> fl_runs c = [1] \<and> hr_status r = 201"
proof -
  let ?c1 = "arrive 1 demo_post (no_flights 5 empty_driver)"
  let ?c2 = "finish 1000 (\<lambda>_. demo_handler) 1 ?c1" and ?h = "\<lambda>_. demo_handler"
  let ?c = "arrive 2 demo_post ?c2"
  have g1: "map_get (fl_requests ?c1) 1 = Some (Running demo_post (Some ''k1''))" by (simp add: flight_eval)
  have s1: "flight_step 1000 ?h (no_flights 5 empty_driver) ?c1" by (rule flight_step.arrives) (simp add: no_flights_def)
  have s2: "flight_step 1000 ?h ?c1 ?c2" by (rule flight_step.finishes [OF g1])
  have s3: "flight_step 1000 ?h ?c2 ?c" by (rule flight_step.arrives) (simp add: flight_eval)
  have reach: "reached 1000 ?h 5 empty_driver ?c" by (rule reached_step [OF reached_step [OF reached_step [OF reached_start s1] s2] s3])
  obtain r where r: "map_get (fl_requests ?c) 2 = Some (Replayed ''k1'' r)" by (simp add: flight_eval)
  have empty: "d_idempotency empty_driver = []" by (simp add: empty_driver_def)
  have frame: "d_idempotency (snd (snd (?h req (s, d)))) = d_idempotency d" for req s d by (simp add: demo_handler_def)
  have "fl_runs ?c = [1]" by (simp add: flight_eval)
  with overlapping_replays_faithful [OF reach empty frame r] r show ?thesis by (auto simp: flight_eval)
qed

text \<open>
  The hooks do not exclude the overlap itself: two requests with one key that are in flight together both run
  their handler, and the second reply replaces the stored one.
\<close>

theorem overlap_runs_twice:
  "\<exists>c. reached 1000 (\<lambda>_. demo_handler) 5 empty_driver c \<and> idempotency_key demo_post = Some ''k1''
     \<and> fl_runs c = [1, 2] \<and> fl_state c = 7"
proof -
  let ?h = "\<lambda>_. demo_handler"
  let ?c1 = "arrive 1 demo_post (no_flights 5 empty_driver)"
  let ?c2 = "arrive 2 demo_post ?c1"
  let ?c3 = "finish 1000 ?h 1 ?c2"
  let ?c4 = "finish 1000 ?h 2 ?c3"
  have s1: "flight_step 1000 ?h (no_flights 5 empty_driver) ?c1" by (rule flight_step.arrives) (simp add: no_flights_def)
  have s2: "flight_step 1000 ?h ?c1 ?c2" by (rule flight_step.arrives) (simp add: flight_eval)
  have s3: "flight_step 1000 ?h ?c2 ?c3" by (rule flight_step.finishes [of _ _ demo_post "Some ''k1''"]) (simp add: flight_eval)
  have s4: "flight_step 1000 ?h ?c3 ?c4" by (rule flight_step.finishes [of _ _ demo_post "Some ''k1''"]) (simp add: flight_eval)
  have "reached 1000 ?h 5 empty_driver ?c4"
    by (rule reached_step [OF reached_step [OF reached_step [OF reached_step [OF reached_start s1] s2] s3] s4])
  moreover have "idempotency_key demo_post = Some ''k1'' \<and> fl_runs ?c4 = [1, 2] \<and> fl_state ?c4 = 7" by (simp add: flight_eval)
  ultimately show ?thesis by blast
qed

end
