(* ===== verification/Spec2Isabelle.thy ===== *)
theory Spec2Isabelle
  imports Sources Bindings DriverAgreement App Harness Actctl Migrate Bridge Connect Compile Schemas Hooks SseConnection Messages TestKit Concurrent
begin

text \<open>
  A verification development for \<open>actjs\<close>, an actor runtime with durable state, written in TypeScript. Paths are
  those of the repository, below \<open>src/\<close>.

  \<^bold>\<open>The program.\<close> An actor is an instance of a published class. Clients reach it over HTTP, a web socket or an event
  stream (\<open>server/\<close>); the runtime (\<open>runtime/\<close>) finds or activates its host through a directory, the host takes
  messages one at a time out of a bounded mailbox, runs the handler and commits, either a new state that is saved
  by a debounced snapshot or events that are appended to a log. What survives a crash is in a storage driver
  (\<open>storage/\<close>). Around this are versions, manifests and publishing (\<open>registry/\<close>), policies, capability tokens and
  audit (\<open>policy/\<close>, \<open>audit/\<close>), rate limits (\<open>limits/\<close>), the client SDK with its bindings (\<open>client/\<close>, \<open>bindings/\<close>),
  code generation (\<open>codegen/\<close>), the command line (\<open>cli/\<close>) and a test harness (\<open>test/\<close>).

  \<^bold>\<open>How the code is translated.\<close> A class with state is a record and each of its methods a function on the record
  that returns it updated, also when it throws; an error is the left side of a sum over the error classes of
  \<open>Errors\<close>. An insertion-ordered \<open>Map\<close> is an association list with distinct keys (\<open>Prelude\<close>), a value of type
  \<open>unknown\<close> a \<open>jsval\<close> (\<open>JsValue\<close>), seqs and fences are integers, hashes 64-bit words. An \<open>async\<close> method whose awaits
  matter is split at them into operations, and its interleavings are runs of operations in any order; a promise is
  the log of its settlements and a timer a flag with an operation for its tick. Code of packages and of the
  platform (semver, TypeScript, the signature algorithms, SHA-256, \<open>JSON.parse\<close>, JSON Patch, immer, SQL, the
  socket, pino and prom-client) is a parameter of the definitions that use it.

  \<^bold>\<open>The theories.\<close>

  Foundations. \<open>Prelude\<close>: maps, decimal printing, strings and shared simplification rules. \<open>JsValue\<close>: values,
  properties, objects. \<open>Errors\<close>: the error classes; \<open>Messages\<close>: their texts and the problem details made of them.

  Storage. \<open>StorageTypes\<close>: the records of \<open>storage/driver.ts\<close>. \<open>StorageContract\<close>: what the runtime relies on, as
  the locales \<open>event_log\<close>, \<open>snapshot_slot\<close> and \<open>durable_inbox\<close>. \<open>MemoryDriver\<close> (actors, snapshots, events),
  \<open>MemoryInbox\<close>, \<open>MemoryReminders\<close> and \<open>MemoryRegistry\<close> (classes, manifests, idempotency, audit) model
  \<open>storage/memory.ts\<close> and interpret the locales. \<open>ValkeyPg\<close> models \<open>storage/valkey-pg.ts\<close>, \<open>codec.ts\<close> and
  \<open>keys.ts\<close>, a statement or command being its effect on tables and keys; \<open>ValkeyPgLaws\<close> interprets the same locales
  on its tables and streams, and \<open>DriverAgreement\<close> relates the two drivers call by call and lists where they differ.
  \<open>Migrate\<close> is the migration runner.

  Actors. \<open>ActorClass\<close> is what user code is to the runtime: functions that may throw. \<open>Mailbox\<close>, \<open>Loader\<close> (with
  \<open>Compile\<close> for what surrounds the compiler), \<open>RateLimits\<close>, \<open>Manifests\<close> and \<open>Policy\<close> (policies, blocklists behind
  the locale \<open>blocklist\<close>, the auditor) are the parts a host and the runtime are made of. \<open>Host\<close> models every
  operation of \<open>runtime/host.ts\<close>; \<open>HostRecovery\<close> proves what a crash leaves, \<open>HostDelivery\<close> what callers are owed.
  \<open>Directory\<close> keeps one host per actor, \<open>Runtime\<close> is the public surface with the reminder dispatcher, \<open>Bridge\<close> what
  a handler reaches through \<open>this.actjs\<close>. \<open>Harness\<close> and \<open>TestKit\<close> model the test harness and \<open>drain\<close>.

  Registry and security. \<open>Resolver\<close> (the work list over version ranges), \<open>Publisher\<close> (signing keys and the gates of
  a publish), \<open>Capability\<close> (tokens), \<open>Auth\<close> (the verifiers and the hook).

  Server. \<open>Server\<close>: problem details, pin hook, idempotency hooks, usage tracker. \<open>Concurrent\<close>: requests that overlap,
  as a step relation. \<open>Subscriptions\<close>: the subscription registry. \<open>Wire\<close>: the web socket endpoint. \<open>Routes\<close>: REST and
  the event stream; \<open>SseConnection\<close>: the life of one stream. \<open>Schemas\<close>: request and response schemas. \<open>App\<close>: the order
  in which an application runs them. \<open>Metrics\<close>, \<open>Logging\<close>: what is counted and what is logged.

  Client. \<open>ClientRpc\<close>: transport and requests. \<open>ClientSubs\<close>: local state of subscriptions. \<open>OfflineQueue\<close>: the queue
  backends behind the locale \<open>offline_backend\<close>. \<open>Client\<close>: calls, subscriptions, optimistic updates. \<open>Connect\<close>: the
  address of the endpoint. \<open>Bindings\<close> and \<open>Hooks\<close>: the shared stores and the components that hold them.

  Tools. \<open>Diff\<close>, \<open>Extract\<close>, \<open>Codegen\<close>, \<open>Sources\<close>: code generation. \<open>Actctl\<close>: the command line.

  \<^bold>\<open>What is shown.\<close> Storage: what was written is read back, a stale owner writes nothing, the inbox refines a queue,
  the two drivers answer alike on regular sequences of calls. Hosts: recovery from snapshot and log after any run,
  every accepted call settled once and in order, failed tells redelivered; the directory never has two hosts of an
  actor; a rejected call leaves no trace. Rate limits: the tokens a subject draws in a window. Registry: soundness
  and termination of the resolver, the publish gate. Security: only signed, unexpired, unrevoked tokens are accepted
  and grant what they were minted for. Server: an answer to every request and its form, replays of idempotent
  requests, subscriptions in step with hosts, streams that resume without a gap. Client: requests settled once,
  calls reported once, stores shared and closed. Tools: the printed diff determines both texts, a rerun writes nothing.
  The invariants are proved for every run of operations, by induction on the run or by rule induction. A witness
  after a theorem applies it to concrete data. Where the code falls short of what it says, a theorem over the same
  definitions shows it, named for the effect (\<open>overlap_runs_twice\<close>, \<open>active_cap_race\<close>, \<open>zero_grace_is_endless\<close>, ...).

  \<^bold>\<open>Bounds and fuel.\<close> The work list of the resolver ends by the code's own limits (256 nodes and paths of 32 names
  at its default depth of 16). The drain of the test harness has the code's own ten thousand rounds. The wait of a
  host is a while loop, proved to end. All other recursion is structural or over a measure. Token counts are
  rationals where the code has IEEE doubles, and times are integers.

  \<^bold>\<open>Not modelled.\<close> The process entry \<open>cli/start.ts\<close>, re-exporting index files, modules of types only and the constant
  \<open>class-kit.ts\<close>; routing, body parsing, the OpenAPI document and sockets, which are fastify and ws; connections and
  lost acknowledgements of Valkey and Postgres; what prom-client and pino print; random ids; text printed by the
  command line. Handlers are atomic: what a handler does between two of its own awaits is user code.
\<close>

end
